(* ===== verification/QS_Prelude.thy ===== *)
theory QS_Prelude
  imports Complex_Main "HOL-Library.Word"
begin

unbundle bit_operations_syntax

text \<open>
  Shared vocabulary of the development: the fact collections, the JavaScript
  number helpers (\<open>Math.round\<close>, \<open>Math.ceil\<close>), array helpers (\<open>findIndex\<close>,
  \<open>splice\<close>, \<open>slice(-n)\<close>), the contents of a storage slot as \<open>JSON.parse\<close> sees it, the
  hexadecimal codec that several services repeat, and the generic list lemmas
  their proofs use.

  Conventions. Numbers that count or measure are \<open>nat\<close> or \<open>int\<close>; times are
  milliseconds since the epoch as \<open>int\<close>; bytes are \<open>8 word\<close>; strings are HOL
  strings. JavaScript doubles are exact on all the integers that occur (below \<open>2 ^ 53\<close>),
  and quotients are taken as exact rationals.
\<close>

named_theorems step_simps \<open>unfolding equations of service operations\<close>
named_theorems codec_simps \<open>length and membership facts of encoders\<close>

type_synonym byte = "8 word"
type_synonym bytes = "8 word list"
type_synonym time = int

subsection \<open>Stored values\<close>

text \<open>
  The contents of a storage slot, seen through \<open>JSON.parse\<close>: either a text that
  does not parse, or a document.
\<close>

datatype 'a stored = Garbled | Json 'a

subsection \<open>Results\<close>

text \<open>Go on with the value of a call that may throw; \<open>or_throw\<close> gives a missing value its error.\<close>

definition attempt :: "'e + 'a \<Rightarrow> ('a \<Rightarrow> 'e + 'b) \<Rightarrow> 'e + 'b" where
  "attempt r f = (case r of Inl e \<Rightarrow> Inl e | Inr a \<Rightarrow> f a)"

definition or_throw :: "'e \<Rightarrow> 'a option \<Rightarrow> 'e + 'a" where
  "or_throw e x = (case x of None \<Rightarrow> Inl e | Some a \<Rightarrow> Inr a)"

lemma attempt_simps [simp]: "attempt (Inl e) f = Inl e" "attempt (Inr a) f = f a"
  by (simp_all add: attempt_def)

lemma attempt_Inr: "attempt r f = Inr b \<longleftrightarrow> (\<exists>a. r = Inr a \<and> f a = Inr b)"
  by (cases r) simp_all

lemma or_throw_simps [simp]: "or_throw e None = Inl e" "or_throw e (Some a) = Inr a"
  by (simp_all add: or_throw_def)

lemma or_throw_Inr [simp]: "or_throw e x = Inr a \<longleftrightarrow> x = Some a"
  by (cases x) simp_all

subsection \<open>JavaScript numbers\<close>

definition js_round :: "rat \<Rightarrow> int" where
  "js_round x = \<lfloor>x + 1 / 2\<rfloor>"

definition ceil_div :: "int \<Rightarrow> int \<Rightarrow> int" where
  "ceil_div a b = \<lceil>rat_of_int a / rat_of_int b\<rceil>"

definition percent_of :: "nat \<Rightarrow> nat \<Rightarrow> int" where
  "percent_of part whole =
     (if whole > 0 then js_round (of_nat part / of_nat whole * 100) else 0)"

lemma js_round_mono: "x \<le> y \<Longrightarrow> js_round x \<le> js_round y"
  unfolding js_round_def by (intro floor_mono) simp

lemma js_round_of_int [simp]: "js_round (of_int n) = n"
  by (simp add: js_round_def floor_unique)

lemma percent_of_bounds:
  assumes "part \<le> whole"
  shows "0 \<le> percent_of part whole" and "percent_of part whole \<le> 100"
proof -
  have "rat_of_nat part / rat_of_nat whole * 100 \<le> of_int 100" if "whole > 0"
    using assms that by (simp add: divide_simps)
  from js_round_mono [OF this] show "percent_of part whole \<le> 100"
    using js_round_of_int [of 100] by (auto simp: percent_of_def)
  have "of_int 0 \<le> rat_of_nat part / rat_of_nat whole * 100"
    by simp
  from js_round_mono [OF this] show "0 \<le> percent_of part whole"
    using js_round_of_int [of 0] by (auto simp: percent_of_def)
qed

subsection \<open>Arrays\<close>

fun find_index :: "('a \<Rightarrow> bool) \<Rightarrow> 'a list \<Rightarrow> nat option" where
  "find_index P [] = None"
| "find_index P (x # xs) = (if P x then Some 0 else map_option Suc (find_index P xs))"

definition splice1 :: "nat \<Rightarrow> 'a list \<Rightarrow> 'a list" where
  "splice1 i xs = take i xs @ drop (Suc i) xs"

definition last_n :: "nat \<Rightarrow> 'a list \<Rightarrow> 'a list" where
  "last_n n xs = drop (length xs - n) xs"

text \<open>\<open>String.includes\<close>.\<close>

fun has_infix :: "string \<Rightarrow> string \<Rightarrow> bool" where
  "has_infix p [] = (p = [])"
| "has_infix p (c # cs) = (take (length p) (c # cs) = p \<or> has_infix p cs)"

definition starts_with :: "string \<Rightarrow> string \<Rightarrow> bool" where
  "starts_with p s = (take (length p) s = p)"

lemma find_index_None: "find_index P xs = None \<longleftrightarrow> (\<forall>x\<in>set xs. \<not> P x)"
  by (induction xs) auto

lemma find_index_Some:
  "find_index P xs = Some i \<Longrightarrow> i < length xs \<and> P (xs ! i) \<and> (\<forall>j<i. \<not> P (xs ! j))"
proof (induction xs arbitrary: i)
  case Nil
  then show ?case by simp
next
  case (Cons x xs)
  then show ?case by (auto split: if_splits simp: nth_Cons split: nat.splits)
qed

lemma find_index_find: "find_index P xs = Some i \<Longrightarrow> List.find P xs = Some (xs ! i)"
  by (induction xs arbitrary: i) (auto split: if_splits)

lemma length_last_n [simp]: "length (last_n n xs) = min n (length xs)"
  by (simp add: last_n_def)

lemma last_n_id [simp]: "length xs \<le> n \<Longrightarrow> last_n n xs = xs"
  by (simp add: last_n_def)

lemma set_last_n_subset: "set (last_n n xs) \<subseteq> set xs"
  by (simp add: last_n_def set_drop_subset)

lemma last_last_n [simp]: "0 < n \<Longrightarrow> last (last_n n (xs @ [x])) = x"
  by (cases "length xs < n") (auto simp: last_n_def last_drop)

lemma filter_filter_le:
  "(\<And>x. x \<in> set xs \<Longrightarrow> P x \<Longrightarrow> Q x) \<Longrightarrow> filter P (filter Q xs) = filter P xs"
  by (induction xs) auto

lemma list_find_SomeD: "List.find P xs = Some x \<Longrightarrow> x \<in> set xs \<and> P x"
  by (induction xs) (auto split: if_splits)

lemma list_find_NoneD: "List.find P xs = None \<Longrightarrow> x \<in> set xs \<Longrightarrow> \<not> P x"
  by (induction xs) (auto split: if_splits)

lemma length_filter_le_mono:
  "(\<And>x. x \<in> set xs \<Longrightarrow> P x \<Longrightarrow> Q x) \<Longrightarrow> length (filter P xs) \<le> length (filter Q xs)"
  by (induction xs) auto

lemma byte_less: "unat (b :: byte) < 256"
  using unsigned_less [of b] by simp

end
