(* ===== verification/Hex_Codec.thy ===== *)
theory Hex_Codec
  imports QS_Prelude
begin

text \<open>
  The hexadecimal codec. Several services turn bytes into text with
  \<open>b.toString(16).padStart(2, '0')\<close> and back with \<open>parseInt(two characters, 16)\<close> stored
  into a \<open>Uint8Array\<close>. \<open>parse_int16\<close> follows \<open>parseInt\<close>: leading white space and a
  sign are accepted, an optional \<open>0x\<close> is skipped, the longest prefix of digits counts, and
  no digit at all is \<open>NaN\<close> (here \<open>None\<close>), which a typed array stores as 0.
\<close>

definition hex_digit :: "nat \<Rightarrow> char" where
  "hex_digit n = ''0123456789abcdef'' ! n"

definition byte_hex :: "byte \<Rightarrow> string" where
  "byte_hex b = [hex_digit (unat b div 16), hex_digit (unat b mod 16)]"

definition bytes_to_hex :: "bytes \<Rightarrow> string" where
  "bytes_to_hex bs = concat (map byte_hex bs)"

definition digit_val :: "char \<Rightarrow> nat option" where
  "digit_val c =
     (let n = of_char c :: nat in
      if 48 \<le> n \<and> n \<le> 57 then Some (n - 48)
      else if 97 \<le> n \<and> n \<le> 102 then Some (n - 87)
      else if 65 \<le> n \<and> n \<le> 70 then Some (n - 55)
      else None)"

definition is_space :: "char \<Rightarrow> bool" where
  "is_space c = ((of_char c :: nat) \<in> {9, 10, 11, 12, 13, 32, 160})"

fun digits_value :: "nat \<Rightarrow> string \<Rightarrow> nat" where
  "digits_value acc [] = acc"
| "digits_value acc (c # cs) =
     (case digit_val c of None \<Rightarrow> acc | Some d \<Rightarrow> digits_value (16 * acc + d) cs)"

definition skip_0x :: "string \<Rightarrow> string" where
  "skip_0x s = (case s of a # b # cs \<Rightarrow>
      if a = CHR ''0'' \<and> (b = CHR ''x'' \<or> b = CHR ''X'') then cs else s | _ \<Rightarrow> s)"

definition parse_digits :: "string \<Rightarrow> nat option" where
  "parse_digits s = (case skip_0x s of
      [] \<Rightarrow> None
    | c # cs \<Rightarrow> (case digit_val c of None \<Rightarrow> None | Some d \<Rightarrow> Some (digits_value d cs)))"

definition parse_int16 :: "string \<Rightarrow> int option" where
  "parse_int16 s0 =
     (let s = dropWhile is_space s0 in
      case s of
        [] \<Rightarrow> None
      | c # cs \<Rightarrow>
          if c = CHR ''-'' then map_option (\<lambda>n. - int n) (parse_digits cs)
          else if c = CHR ''+'' then map_option int (parse_digits cs)
          else map_option int (parse_digits s))"

definition to_uint8 :: "int option \<Rightarrow> byte" where
  "to_uint8 v = (case v of None \<Rightarrow> 0 | Some n \<Rightarrow> word_of_int n)"

fun hex_to_bytes :: "string \<Rightarrow> bytes" where
  "hex_to_bytes (a # b # cs) = to_uint8 (parse_int16 [a, b]) # hex_to_bytes cs"
| "hex_to_bytes _ = []"

lemma hex_digit_cases:
  assumes "n < 16"
  shows "digit_val (hex_digit n) = Some n \<and> \<not> is_space (hex_digit n) \<and>
    hex_digit n \<notin> {CHR ''-'', CHR ''+'', CHR ''x'', CHR ''X''}"
proof -
  from assms have "n \<in> {0,1,2,3,4,5,6,7,8,9,10,11,12,13,14,15}"
    unfolding insert_iff empty_iff by arith
  then show ?thesis
    by (elim insertE emptyE) (simp_all add: hex_digit_def digit_val_def is_space_def)
qed

lemma parse_int16_pair:
  assumes "h < 16" "l < 16"
  shows "parse_int16 [hex_digit h, hex_digit l] = Some (int (16 * h + l))"
  using hex_digit_cases [OF assms(1)] hex_digit_cases [OF assms(2)]
  by (simp add: parse_int16_def parse_digits_def skip_0x_def)

lemma parse_byte_hex [simp]: "to_uint8 (parse_int16 (byte_hex b)) = b"
proof -
  have "unat b < 2 ^ 8" using unsigned_less [of b] by simp
  then have h: "unat b div 16 < 16" by simp
  have l: "unat b mod 16 < 16" by simp
  have "parse_int16 (byte_hex b) = Some (int (16 * (unat b div 16) + unat b mod 16))"
    unfolding byte_hex_def by (rule parse_int16_pair [OF h l])
  then have "parse_int16 (byte_hex b) = Some (uint b)"
    by simp
  then show ?thesis by (simp add: to_uint8_def)
qed

lemma length_byte_hex [codec_simps]: "length (byte_hex b) = 2"
  by (simp add: byte_hex_def)

lemma length_bytes_to_hex [codec_simps]: "length (bytes_to_hex bs) = 2 * length bs"
  by (induction bs) (auto simp: bytes_to_hex_def byte_hex_def)

lemma hex_to_bytes_byte_hex: "hex_to_bytes (byte_hex b @ s) = b # hex_to_bytes s"
proof -
  have "byte_hex b = [hd (byte_hex b), byte_hex b ! 1]"
    by (simp add: byte_hex_def)
  then have "hex_to_bytes (byte_hex b @ s) = to_uint8 (parse_int16 (byte_hex b)) # hex_to_bytes s"
    by (metis append_Cons append_Nil hex_to_bytes.simps(1))
  then show ?thesis by simp
qed

lemma length_hex_to_bytes [codec_simps]: "length (hex_to_bytes s) = length s div 2"
  by (induction s rule: hex_to_bytes.induct) auto

lemma hex_roundtrip_aux: "hex_to_bytes (bytes_to_hex bs @ s) = bs @ hex_to_bytes s"
  by (induction bs) (simp_all add: bytes_to_hex_def hex_to_bytes_byte_hex)

lemma hex_inverse: "hex_to_bytes (bytes_to_hex bs) = bs"
  using hex_roundtrip_aux [of bs "[]"] by simp

lemma bytes_to_hex_inject [simp]: "bytes_to_hex as = bytes_to_hex bs \<longleftrightarrow> as = bs"
  by (metis hex_inverse)

lemma bytes_to_hex_Nil_iff [simp]: "bytes_to_hex bs = [] \<longleftrightarrow> bs = []"
  using length_bytes_to_hex [of bs] by auto

text \<open>
  The hex codec the services share is lossless: parsing the hexadecimal text of a
  byte array two characters at a time gives the array back.
\<close>

theorem hex_roundtrip: "hex_to_bytes (bytes_to_hex bs) = bs"
  by (rule hex_inverse)

end
