(* ===== verification/Web_Storage.thy ===== *)
theory Web_Storage
  imports QS_Prelude
begin

text \<open>
  The key/value store the services persist into (\<open>localStorage\<close> on the web,
  \<open>AsyncStorage\<close> on native): an association list in insertion order.
  \<open>kv_store\<close> is the interface the services rely on; bulk removal and bulk writes are
  proved once inside it, and it is interpreted on the store's own operations.
\<close>

type_synonym 'v local_storage = "(string \<times> 'v) list"

definition ls_get :: "string \<Rightarrow> 'v local_storage \<Rightarrow> 'v option" where
  "ls_get k s = map_of s k"

fun ls_set :: "string \<Rightarrow> 'v \<Rightarrow> 'v local_storage \<Rightarrow> 'v local_storage" where
  "ls_set k v [] = [(k, v)]"
| "ls_set k v ((k', v') # s) = (if k = k' then (k, v) # s else (k', v') # ls_set k v s)"

definition ls_remove :: "string \<Rightarrow> 'v local_storage \<Rightarrow> 'v local_storage" where
  "ls_remove k s = filter (\<lambda>(k', _). k' \<noteq> k) s"

definition ls_keys :: "'v local_storage \<Rightarrow> string list" where
  "ls_keys s = map fst s"

definition ls_valid :: "'v local_storage \<Rightarrow> bool" where
  "ls_valid s = distinct (map fst s)"

locale kv_store =
  fixes get :: "string \<Rightarrow> 's \<Rightarrow> 'v option"
    and put :: "string \<Rightarrow> 'v \<Rightarrow> 's \<Rightarrow> 's"
    and del :: "string \<Rightarrow> 's \<Rightarrow> 's"
    and all_keys :: "'s \<Rightarrow> string list"
    and valid :: "'s \<Rightarrow> bool"
  assumes get_put: "get k (put k' v s) = (if k = k' then Some v else get k s)"
    and get_del: "get k (del k' s) = (if k = k' then None else get k s)"
    and keys_get: "k \<in> set (all_keys s) \<longleftrightarrow> get k s \<noteq> None"
    and valid_put: "valid s \<Longrightarrow> valid (put k v s)"
    and valid_del: "valid s \<Longrightarrow> valid (del k s)"
begin

lemma get_put_same [simp]: "get k (put k v s) = Some v"
  by (simp add: get_put)

lemma get_put_other [simp]: "k \<noteq> k' \<Longrightarrow> get k (put k' v s) = get k s"
  by (simp add: get_put)

lemma get_fold_del: "get k (fold del ks s) = (if k \<in> set ks then None else get k s)"
  by (induction ks arbitrary: s) (auto simp: get_del)

lemma valid_fold_del: "valid s \<Longrightarrow> valid (fold del ks s)"
  by (induction ks arbitrary: s) (auto simp: valid_del)

lemma del_filtered_keys:
  "get k (fold del (filter P (all_keys s)) s) = (if P k then None else get k s)"
  using keys_get [of k s] by (auto simp: get_fold_del)

lemma keys_after_purge:
  "set (all_keys (fold del (filter P (all_keys s)) s)) = {k \<in> set (all_keys s). \<not> P k}"
  by (auto simp: keys_get del_filtered_keys split: if_splits)

end

lemma ls_get_set: "ls_get k (ls_set k' v s) = (if k = k' then Some v else ls_get k s)"
  by (induction s) (auto simp: ls_get_def)

lemma ls_get_remove: "ls_get k (ls_remove k' s) = (if k = k' then None else ls_get k s)"
  by (induction s) (auto simp: ls_get_def ls_remove_def)

lemma ls_keys_get: "k \<in> set (ls_keys s) \<longleftrightarrow> ls_get k s \<noteq> None"
  by (auto simp: ls_keys_def ls_get_def map_of_eq_None_iff)

lemma ls_keys_set: "set (map fst (ls_set k v s)) = insert k (set (map fst s))"
proof (induction s)
  case Nil
  then show ?case by simp
next
  case (Cons p s)
  then show ?case by (cases p) (simp add: insert_commute)
qed

lemma ls_valid_set: "ls_valid s \<Longrightarrow> ls_valid (ls_set k v s)"
proof (induction s)
  case Nil
  then show ?case by (simp add: ls_valid_def)
next
  case (Cons p s)
  then show ?case
    using ls_keys_set [of k v s] by (cases p) (auto simp: ls_valid_def)
qed

lemma ls_valid_remove: "ls_valid s \<Longrightarrow> ls_valid (ls_remove k s)"
  by (auto simp: ls_valid_def ls_remove_def distinct_map_filter)

interpretation ls: kv_store ls_get ls_set ls_remove ls_keys ls_valid
  by unfold_locales
    (simp_all add: ls_get_set ls_get_remove ls_keys_get ls_valid_set ls_valid_remove)

text \<open>
  A persistent cell: a value that is read with a possible side effect (filling a cache)
  and written back whole. \<open>'e\<close> stands for what a call takes from its surroundings (the
  clock, fresh randomness). Services update their state as read, change, write; the
  lemmas say what a sequence of such updates leaves behind.
\<close>

locale persistent_cell =
  fixes load :: "'e \<Rightarrow> 'm \<Rightarrow> 's \<times> 'm"
    and save :: "'e \<Rightarrow> 's \<Rightarrow> 'm \<Rightarrow> 'm"
  assumes load_save: "load e' (save e s m) = (s, save e s m)"
    and load_load: "load e m = (s, m') \<Longrightarrow> load e' m' = (s, m')"
begin

lemma view_modify:
  "fst (load e' (case load e m of (s, m1) \<Rightarrow> save e (f s) m1)) = f (fst (load e m))"
  by (simp add: load_save split: prod.split)

lemma settled_modify:
  "load e' (case load e m of (s, m1) \<Rightarrow> save e (f s) m1) =
     (f (fst (load e m)), case load e m of (s, m1) \<Rightarrow> save e (f s) m1)"
  by (simp add: load_save split: prod.split)

lemma settled_load: "load e' (snd (load e m)) = load e m"
  using load_load [of e m "fst (load e m)" "snd (load e m)" e'] by simp

lemma view_updates:
  assumes "\<And>e. load e m = (s, m)"
  shows "fst (load e (fold (\<lambda>(e, f) m. case load e m of (s, m1) \<Rightarrow> save e (f s) m1) ops m)) =
    fold (\<lambda>(e, f). f) ops s"
  using assms
proof (induction ops arbitrary: m s)
  case Nil
  then show ?case by simp
next
  case (Cons op ops)
  obtain e0 f where op: "op = (e0, f)" by (cases op)
  let ?m = "case load e0 m of (s, m1) \<Rightarrow> save e0 (f s) m1"
  have "load e ?m = (f s, ?m)" for e
    using settled_modify [where e' = e and e = e0 and m = m and f = f] Cons.prems by simp
  from Cons.IH [OF this] show ?case by (simp add: op)
qed

end

end
