(* ===== verification/Rate_Limiter.thy ===== *)
theory Rate_Limiter
  imports Hex_Codec Web_Storage
begin

text \<open>
  \<open>services/security/rateLimiter.ts\<close>: the client-side limiter for login attempts. The
  module state (\<open>_stateCache\<close>, \<open>_stateCacheVerified\<close>, \<open>_hmacKeyCache\<close>) and its two
  \<open>localStorage\<close> slots are the record \<open>rl_mem\<close>. The platform is the record \<open>rl_env\<close>: whether
  it is the web, whether \<open>localStorage\<close> and \<open>crypto.subtle.importKey\<close> work, and the
  HMAC of WebCrypto as a parameter (\<open>None\<close> when \<open>sign\<close> rejects). An operation runs to
  completion: after \<open>loadState\<close> resolves, each handler mutates the cached state and reaches
  the synchronous head of \<open>saveState\<close> without yielding. \<open>Date.now()\<close> is an argument, one
  per call of it on the path.
\<close>

subsection \<open>Configuration\<close>

definition MAX_ATTEMPTS_PER_WINDOW :: nat where
  "MAX_ATTEMPTS_PER_WINDOW = 5"

definition WINDOW_MS :: int where
  "WINDOW_MS = 15 * 60 * 1000"

definition LOCKOUT_THRESHOLDS :: "(int \<times> int) list" where
  "LOCKOUT_THRESHOLDS =
     [(5, 1 * 60 * 1000), (10, 5 * 60 * 1000), (15, 15 * 60 * 1000), (20, 60 * 60 * 1000)]"

definition RATE_LIMIT_VERSION :: int where
  "RATE_LIMIT_VERSION = 1"

definition HMAC_APP_CONSTANT :: string where
  "HMAC_APP_CONSTANT = ''usbvault-rate-limiter-integrity-v1''"

subsection \<open>State\<close>

record rl_state =
  rl_attempts :: "time list"
  rl_failures :: int
  rl_lockout :: time

text \<open>
  What a stored document holds. Its \<open>state\<close> object may lack fields, which
  \<open>{...DEFAULT_STATE, ...signed.state}\<close> fills in; \<open>RawNull\<close> is the document \<open>null\<close>, whose
  property access throws.
\<close>

record rl_partial =
  pt_attempts :: "time list option"
  pt_failures :: "int option"
  pt_lockout :: "time option"

record rl_signed =
  sg_state :: rl_partial
  sg_version :: "int option"
  sg_hmac :: "string option"

datatype rl_raw = RawEmpty | RawGarbled | RawNull | RawDoc rl_signed

record rl_env =
  env_web :: bool
  env_ls :: bool
  env_import :: bool
  env_mac :: "string \<Rightarrow> rl_partial \<times> int \<Rightarrow> bytes option"

record rl_mem =
  mem_cache :: "rl_state option"
  mem_verified :: bool
  mem_key :: "string option"
  slot_state :: "rl_raw option"
  slot_install :: "string option"

definition DEFAULT_STATE :: rl_state where
  "DEFAULT_STATE = \<lparr>rl_attempts = [], rl_failures = 0, rl_lockout = 0\<rparr>"

definition tampered_state :: "time \<Rightarrow> rl_state" where
  "tampered_state now =
     \<lparr>rl_attempts = [], rl_failures = fst (last LOCKOUT_THRESHOLDS),
      rl_lockout = now + snd (last LOCKOUT_THRESHOLDS)\<rparr>"

definition whole :: "rl_state \<Rightarrow> rl_partial" where
  "whole s = \<lparr>pt_attempts = Some (rl_attempts s), pt_failures = Some (rl_failures s),
     pt_lockout = Some (rl_lockout s)\<rparr>"

definition or_default :: "'a option \<Rightarrow> 'a \<Rightarrow> 'a" where
  "or_default x d = (case x of None \<Rightarrow> d | Some v \<Rightarrow> v)"

definition merge_default :: "rl_partial \<Rightarrow> rl_state" where
  "merge_default p =
     \<lparr>rl_attempts = or_default (pt_attempts p) (rl_attempts DEFAULT_STATE),
      rl_failures = or_default (pt_failures p) (rl_failures DEFAULT_STATE),
      rl_lockout = or_default (pt_lockout p) (rl_lockout DEFAULT_STATE)\<rparr>"

lemma merge_whole [simp]: "merge_default (whole s) = s"
  by (simp add: merge_default_def whole_def or_default_def)

subsection \<open>Signing\<close>

definition get_install_id :: "rl_env \<Rightarrow> bytes \<Rightarrow> rl_mem \<Rightarrow> string \<times> rl_mem" where
  "get_install_id env fresh m =
     (if \<not> env_web env then (''native-device'', m)
      else if \<not> env_ls env then (''fallback-install-id'', m)
      else case slot_install m of
        Some (c # cs) \<Rightarrow> (c # cs, m)
      | _ \<Rightarrow> (let i = bytes_to_hex fresh in (i, m\<lparr>slot_install := Some i\<rparr>)))"

definition get_hmac_key :: "rl_env \<Rightarrow> bytes \<Rightarrow> rl_mem \<Rightarrow> string option \<times> rl_mem" where
  "get_hmac_key env fresh m =
     (case mem_key m of
        Some k \<Rightarrow> (Some k, m)
      | None \<Rightarrow>
          (let (i, m1) = get_install_id env fresh m; k = HMAC_APP_CONSTANT @ '':'' @ i in
           if env_import env then (Some k, m1\<lparr>mem_key := Some k\<rparr>) else (None, m1)))"

definition compute_hmac ::
  "rl_env \<Rightarrow> bytes \<Rightarrow> rl_partial \<Rightarrow> int \<Rightarrow> rl_mem \<Rightarrow> string option \<times> rl_mem" where
  "compute_hmac env fresh p v m =
     (case get_hmac_key env fresh m of
        (None, m1) \<Rightarrow> (None, m1)
      | (Some k, m1) \<Rightarrow> (map_option bytes_to_hex (env_mac env k (p, v)), m1))"

definition verify_hmac ::
  "rl_env \<Rightarrow> bytes \<Rightarrow> rl_partial \<Rightarrow> int \<Rightarrow> string \<Rightarrow> rl_mem \<Rightarrow> bool option \<times> rl_mem" where
  "verify_hmac env fresh p v h m =
     (case compute_hmac env fresh p v m of
        (None, m1) \<Rightarrow> (None, m1)
      | (Some e, m1) \<Rightarrow> (Some (if length e \<noteq> length h then False else e = h), m1))"

subsection \<open>Loading and saving\<close>

definition cache_state :: "rl_state \<Rightarrow> rl_mem \<Rightarrow> rl_mem" where
  "cache_state s m = m\<lparr>mem_cache := Some s, mem_verified := True\<rparr>"

definition save_state :: "rl_env \<Rightarrow> bytes \<Rightarrow> rl_state \<Rightarrow> rl_mem \<Rightarrow> rl_mem" where
  "save_state env fresh s m =
     (let m1 = cache_state s m in
      if \<not> env_web env then m1
      else case compute_hmac env fresh (whole s) RATE_LIMIT_VERSION m1 of
        (None, m2) \<Rightarrow> m2
      | (Some h, m2) \<Rightarrow>
          (if env_ls env
           then m2\<lparr>slot_state := Some (RawDoc \<lparr>sg_state = whole s,
                  sg_version = Some RATE_LIMIT_VERSION, sg_hmac = Some h\<rparr>)\<rparr>
           else m2))"

definition lock_tampered ::
  "rl_env \<Rightarrow> time \<Rightarrow> bytes \<Rightarrow> rl_mem \<Rightarrow> rl_state \<times> rl_mem" where
  "lock_tampered env now fresh m =
     (let s = tampered_state now in (s, save_state env fresh s (cache_state s m)))"

definition fail_open :: "rl_mem \<Rightarrow> rl_state \<times> rl_mem" where
  "fail_open m = (DEFAULT_STATE, cache_state DEFAULT_STATE m)"

definition load_signed ::
  "rl_env \<Rightarrow> time \<Rightarrow> bytes \<Rightarrow> rl_signed \<Rightarrow> rl_mem \<Rightarrow> rl_state \<times> rl_mem" where
  "load_signed env now fresh d m =
     (case (sg_hmac d, sg_version d) of
        (Some (c # cs), Some v) \<Rightarrow>
          if v \<noteq> RATE_LIMIT_VERSION then lock_tampered env now fresh m
          else (case verify_hmac env fresh (sg_state d) v (c # cs) m of
              (None, m1) \<Rightarrow> fail_open m1
            | (Some False, m1) \<Rightarrow> lock_tampered env now fresh m1
            | (Some True, m1) \<Rightarrow>
                (let s = merge_default (sg_state d) in (s, cache_state s m1)))
      | _ \<Rightarrow> lock_tampered env now fresh m)"

definition load_state :: "rl_env \<Rightarrow> time \<Rightarrow> bytes \<Rightarrow> rl_mem \<Rightarrow> rl_state \<times> rl_mem" where
  "load_state env now fresh m =
     (case (mem_cache m, mem_verified m) of
        (Some s, True) \<Rightarrow> (s, m)
      | _ \<Rightarrow>
          if \<not> env_web env then fail_open m
          else if \<not> env_ls env then fail_open m
          else (case slot_state m of
              None \<Rightarrow> (DEFAULT_STATE, save_state env fresh DEFAULT_STATE m)
            | Some RawEmpty \<Rightarrow> (DEFAULT_STATE, save_state env fresh DEFAULT_STATE m)
            | Some RawGarbled \<Rightarrow> lock_tampered env now fresh m
            | Some RawNull \<Rightarrow> fail_open m
            | Some (RawDoc d) \<Rightarrow> load_signed env now fresh d m))"

subsection \<open>Operations\<close>

datatype rl_reason = AccountLocked int | TooManyAttempts int
datatype rl_verdict = Allowed | Denied int rl_reason

definition recent :: "time \<Rightarrow> time list \<Rightarrow> time list" where
  "recent now ts = filter (\<lambda>t. now - t < WINDOW_MS) ts"

definition verdict :: "time \<Rightarrow> rl_state \<Rightarrow> rl_verdict" where
  "verdict now s =
     (if rl_lockout s > now then
        (let r = rl_lockout s - now in Denied r (AccountLocked (ceil_div r 60000)))
      else
        (let rs = recent now (rl_attempts s) in
         if length rs \<ge> MAX_ATTEMPTS_PER_WINDOW then
           (let r = WINDOW_MS - (now - Min (set rs))
            in Denied r (TooManyAttempts (ceil_div r 60000)))
         else Allowed))"

definition check_allowed ::
  "rl_env \<Rightarrow> time \<Rightarrow> time \<Rightarrow> bytes \<Rightarrow> rl_mem \<Rightarrow> rl_verdict \<times> rl_mem" where
  "check_allowed env t0 now fresh m =
     (let (s, m1) = load_state env t0 fresh m in (verdict now s, m1))"

definition record_attempt :: "rl_env \<Rightarrow> time \<Rightarrow> time \<Rightarrow> bytes \<Rightarrow> rl_mem \<Rightarrow> rl_mem" where
  "record_attempt env t0 now fresh m =
     (let (s, m1) = load_state env t0 fresh m in
      save_state env fresh (s\<lparr>rl_attempts := recent now (rl_attempts s) @ [now]\<rparr>) m1)"

definition lockout_tier :: "int \<Rightarrow> int option" where
  "lockout_tier n =
     map_option snd (List.find (\<lambda>(a, _). n \<ge> a) (rev LOCKOUT_THRESHOLDS))"

definition fail_once :: "time \<Rightarrow> rl_state \<Rightarrow> rl_state" where
  "fail_once now s0 =
     (let s = s0\<lparr>rl_failures := rl_failures s0 + 1\<rparr> in
      case lockout_tier (rl_failures s) of
        None \<Rightarrow> s
      | Some d \<Rightarrow> s\<lparr>rl_lockout := now + d\<rparr>)"

definition record_failure :: "rl_env \<Rightarrow> time \<Rightarrow> time \<Rightarrow> bytes \<Rightarrow> rl_mem \<Rightarrow> rl_mem" where
  "record_failure env t0 now fresh m =
     (let (s, m1) = load_state env t0 fresh m in save_state env fresh (fail_once now s) m1)"

definition record_success :: "rl_env \<Rightarrow> time \<Rightarrow> bytes \<Rightarrow> rl_mem \<Rightarrow> rl_mem" where
  "record_success env t0 fresh m =
     (let (s, m1) = load_state env t0 fresh m in
      save_state env fresh (s\<lparr>rl_failures := 0, rl_lockout := 0\<rparr>) m1)"

record rl_status =
  status_failures :: int
  status_locked :: bool
  status_remaining_ms :: int
  status_attempts_left :: int

definition status_of :: "time \<Rightarrow> rl_state \<Rightarrow> rl_status" where
  "status_of now s =
     (let locked = rl_lockout s > now in
      \<lparr>status_failures = rl_failures s, status_locked = locked,
       status_remaining_ms = (if locked then rl_lockout s - now else 0),
       status_attempts_left =
         max 0 (int MAX_ATTEMPTS_PER_WINDOW - int (length (recent now (rl_attempts s))))\<rparr>)"

definition get_status ::
  "rl_env \<Rightarrow> time \<Rightarrow> time \<Rightarrow> bytes \<Rightarrow> rl_mem \<Rightarrow> rl_status \<times> rl_mem" where
  "get_status env t0 now fresh m =
     (let (s, m1) = load_state env t0 fresh m in (status_of now s, m1))"

definition reset :: "rl_env \<Rightarrow> bytes \<Rightarrow> rl_mem \<Rightarrow> rl_mem" where
  "reset env fresh m = save_state env fresh DEFAULT_STATE (m\<lparr>mem_key := None\<rparr>)"

subsection \<open>The state cell\<close>

text \<open>
  Once loaded or saved, the state is read from the cache whatever the clock says: loading
  and saving form a persistent cell.
\<close>

lemma get_install_id_frame:
  "get_install_id env fresh m = (i, m') \<Longrightarrow>
     mem_cache m' = mem_cache m \<and> mem_verified m' = mem_verified m \<and> mem_key m' = mem_key m \<and>
     slot_state m' = slot_state m"
  by (auto simp: get_install_id_def Let_def split: option.splits list.splits if_splits)

lemma get_hmac_key_frame:
  "get_hmac_key env fresh m = (k, m') \<Longrightarrow>
     mem_cache m' = mem_cache m \<and> mem_verified m' = mem_verified m \<and> slot_state m' = slot_state m"
  by (auto simp: get_hmac_key_def Let_def dest: get_install_id_frame
      split: option.splits if_splits prod.splits)

lemma compute_hmac_frame:
  "compute_hmac env fresh p v m = (h, m') \<Longrightarrow>
     mem_cache m' = mem_cache m \<and> mem_verified m' = mem_verified m \<and> slot_state m' = slot_state m"
  by (auto simp: compute_hmac_def dest: get_hmac_key_frame split: option.splits prod.splits)

lemma save_state_cached:
  "mem_cache (save_state env fresh s m) = Some s \<and> mem_verified (save_state env fresh s m)"
  by (auto simp: save_state_def cache_state_def Let_def dest: compute_hmac_frame
      split: option.split prod.split)

lemma load_warm:
  "mem_cache m = Some s \<Longrightarrow> mem_verified m \<Longrightarrow> load_state env t0 fresh m = (s, m)"
  by (simp add: load_state_def)

lemma load_state_warms:
  assumes "load_state env t0 fresh m = (s, m')"
  shows "mem_cache m' = Some s \<and> mem_verified m'"
proof -
  have tam: "lock_tampered env t0 fresh m1 = (s1, m2) \<Longrightarrow> mem_cache m2 = Some s1 \<and> mem_verified m2"
    for m1 s1 m2
    using save_state_cached by (auto simp: lock_tampered_def Let_def)
  have opn: "fail_open m1 = (s1, m2) \<Longrightarrow> mem_cache m2 = Some s1 \<and> mem_verified m2" for m1 s1 m2
    by (auto simp: fail_open_def cache_state_def)
  have sig: "load_signed env t0 fresh d m1 = (s1, m2) \<Longrightarrow> mem_cache m2 = Some s1 \<and> mem_verified m2"
    for d m1 s1 m2
    by (auto simp: load_signed_def Let_def cache_state_def dest: tam opn
        split: option.splits list.splits if_splits bool.splits prod.splits)
  show ?thesis
    using assms save_state_cached
    by (auto simp: load_state_def dest: tam opn sig
        split: option.splits rl_raw.splits if_splits bool.splits)
qed

interpretation rl: persistent_cell
  "\<lambda>(t0, fresh). load_state env t0 fresh" "\<lambda>(t0, fresh). save_state env fresh" for env
  using save_state_cached load_state_warms
  by unfold_locales (auto intro!: load_warm)

definition holds :: "rl_mem \<Rightarrow> rl_state \<Rightarrow> bool" where
  "holds m s = (mem_cache m = Some s \<and> mem_verified m)"

lemma holds_load: "holds m s \<Longrightarrow> load_state env t0 fresh m = (s, m)"
  by (simp add: holds_def load_warm)

lemma holds_save [intro]: "holds (save_state env fresh s m) s"
  using save_state_cached by (simp add: holds_def)

lemma holds_reset: "holds (reset env fresh m) DEFAULT_STATE"
  by (auto simp: reset_def)

lemma holds_attempt:
  "holds m s \<Longrightarrow> holds (record_attempt env t0 now fresh m)
     (s\<lparr>rl_attempts := recent now (rl_attempts s) @ [now]\<rparr>)"
  by (auto simp: record_attempt_def holds_load)

lemma holds_failure:
  "holds m s \<Longrightarrow> holds (record_failure env t0 now fresh m) (fail_once now s)"
  by (auto simp: record_failure_def holds_load)

lemma holds_success:
  "holds m s \<Longrightarrow> holds (record_success env t0 fresh m) (s\<lparr>rl_failures := 0, rl_lockout := 0\<rparr>)"
  by (auto simp: record_success_def holds_load)

lemma check_holds: "holds m s \<Longrightarrow> check_allowed env t0 now fresh m = (verdict now s, m)"
  by (simp add: check_allowed_def holds_load)

lemmas rl_holds = holds_reset holds_attempt holds_failure holds_success check_holds

subsection \<open>Lockout tiers\<close>

lemma lockout_tier_eq [step_simps]:
  "lockout_tier n =
     (if n \<ge> 20 then Some 3600000 else if n \<ge> 15 then Some 900000
      else if n \<ge> 10 then Some 300000 else if n \<ge> 5 then Some 60000 else None)"
  by (simp add: lockout_tier_def LOCKOUT_THRESHOLDS_def)

lemma lockout_tier_mono:
  "m \<le> n \<Longrightarrow> lockout_tier m = Some d \<Longrightarrow> \<exists>d'. lockout_tier n = Some d' \<and> d \<le> d'"
  by (auto simp: lockout_tier_eq split: if_splits)

lemma fold_failures:
  "fold fail_once ts s =
     s\<lparr>rl_failures := rl_failures s + int (length ts),
       rl_lockout := (if ts = [] then rl_lockout s
          else case lockout_tier (rl_failures s + int (length ts)) of
            Some d \<Rightarrow> last ts + d
          | None \<Rightarrow> rl_lockout s)\<rparr>"
proof (induction ts rule: rev_induct)
  case Nil
  then show ?case by simp
next
  case (snoc t ts)
  define n where "n = rl_failures s + int (length ts)"
  have len: "rl_failures s + int (length (ts @ [t])) = n + 1"
    by (simp add: n_def)
  have "lockout_tier n = None" if "lockout_tier (n + 1) = None"
    using that by (auto simp: lockout_tier_eq split: if_splits)
  with snoc show ?case
    unfolding len n_def [symmetric]
    by (auto simp: fail_once_def split: option.splits if_splits)
qed

subsection \<open>The sliding window under guarded use\<close>

text \<open>
  The protocol of the service: \<open>checkAllowed\<close> before each attempt, \<open>recordAttempt\<close> for an
  attempt that goes ahead; failures and successes are reported as they occur. The run
  returns the times of the attempts that were let through.
\<close>

datatype rl_event = Try time | Fail time | Succeed time

fun event_time :: "rl_event \<Rightarrow> time" where
  "event_time (Try t) = t"
| "event_time (Fail t) = t"
| "event_time (Succeed t) = t"

fun guarded_run ::
  "rl_env \<Rightarrow> bytes \<Rightarrow> rl_event list \<Rightarrow> rl_mem \<Rightarrow> time list \<times> rl_mem" where
  "guarded_run env fresh [] m = ([], m)"
| "guarded_run env fresh (Try t # es) m =
     (case check_allowed env t t fresh m of
        (Allowed, m1) \<Rightarrow>
          (let (trc, m2) = guarded_run env fresh es (record_attempt env t t fresh m1)
           in (t # trc, m2))
      | (Denied _ _, m1) \<Rightarrow> guarded_run env fresh es m1)"
| "guarded_run env fresh (Fail t # es) m =
     guarded_run env fresh es (record_failure env t t fresh m)"
| "guarded_run env fresh (Succeed t # es) m =
     guarded_run env fresh es (record_success env t fresh m)"

definition in_window :: "time \<Rightarrow> time list \<Rightarrow> nat" where
  "in_window w trc = length (filter (\<lambda>t. w - WINDOW_MS < t \<and> t \<le> w) trc)"

definition window_bound :: "time list \<Rightarrow> bool" where
  "window_bound trc = (\<forall>w. in_window w trc \<le> MAX_ATTEMPTS_PER_WINDOW)"

definition tracks :: "time \<Rightarrow> time list \<Rightarrow> rl_state \<Rightarrow> bool" where
  "tracks t0 trc s =
     ((\<forall>t\<in>set trc. t \<le> t0) \<and> (\<forall>now\<ge>t0. recent now (rl_attempts s) = recent now trc))"

lemma recent_recent: "t \<le> now \<Longrightarrow> recent now (recent t xs) = recent now xs"
  unfolding recent_def by (rule filter_filter_le) simp

lemma tracks_later: "tracks t0 trc s \<Longrightarrow> t0 \<le> t \<Longrightarrow> tracks t trc s"
  by (force simp: tracks_def)

lemma tracks_attempt:
  assumes "tracks t0 trc s" and "t0 \<le> t"
  shows "tracks t (trc @ [t]) (s\<lparr>rl_attempts := recent t (rl_attempts s) @ [t]\<rparr>)"
proof -
  have "recent now (recent t (rl_attempts s) @ [t]) = recent now (trc @ [t])" if "t \<le> now" for now
    using assms that recent_recent [OF that] by (simp add: tracks_def recent_def)
  moreover have "\<forall>x\<in>set trc. x \<le> t"
    using assms by (force simp: tracks_def)
  ultimately show ?thesis by (simp add: tracks_def)
qed

lemma in_window_append: "in_window w (xs @ ys) = in_window w xs + in_window w ys"
  by (simp add: in_window_def)

lemma in_window_single: "in_window w [t] \<le> 1 \<and> (w < t \<longrightarrow> in_window w [t] = 0)"
  by (simp add: in_window_def)

lemma in_window_recent: "t \<le> w \<Longrightarrow> in_window w xs \<le> length (recent t xs)"
  unfolding in_window_def recent_def by (rule length_filter_le_mono) simp

lemma window_bound_snoc:
  assumes "window_bound trc" and "length (recent t trc) < MAX_ATTEMPTS_PER_WINDOW"
  shows "window_bound (trc @ [t])"
  unfolding window_bound_def
proof
  fix w
  show "in_window w (trc @ [t]) \<le> MAX_ATTEMPTS_PER_WINDOW"
  proof (cases "w < t")
    case True
    with assms(1) show ?thesis
      using in_window_single [of w t] by (simp add: in_window_append window_bound_def)
  next
    case False
    with assms(2) show ?thesis
      using in_window_recent [of t w trc] in_window_single [of w t]
      by (simp add: in_window_append)
  qed
qed

lemma verdict_Allowed_iff:
  "verdict now s = Allowed \<longleftrightarrow>
     rl_lockout s \<le> now \<and> length (recent now (rl_attempts s)) < MAX_ATTEMPTS_PER_WINDOW"
  by (auto simp: verdict_def Let_def)

lemma guarded_run_window:
  assumes "holds m s" and "tracks t0 trc s" and "window_bound trc"
    and "sorted (map event_time es)" and "\<forall>e\<in>set es. t0 \<le> event_time e"
    and "guarded_run env fresh es m = (acc, m')"
  shows "window_bound (trc @ acc)"
  using assms
proof (induction es arbitrary: m s t0 trc acc)
  case Nil
  then show ?case by simp
next
  case (Cons e es)
  have srt: "sorted (map event_time es)" and ge: "\<forall>e'\<in>set es. event_time e \<le> event_time e'"
    using Cons.prems(4) by auto
  have t0: "t0 \<le> event_time e" using Cons.prems(5) by simp
  note trk = tracks_later [OF Cons.prems(2) t0]
  show ?case
  proof (cases e)
    case (Fail t)
    have "tracks t trc (fail_once t s)"
      using trk Fail by (simp add: tracks_def fail_once_def Let_def split: option.split)
    with Cons.IH [OF holds_failure [OF Cons.prems(1)] _ Cons.prems(3) srt] Fail ge Cons.prems(6)
    show ?thesis by simp
  next
    case (Succeed t)
    have "tracks t trc (s\<lparr>rl_failures := 0, rl_lockout := 0\<rparr>)"
      using trk Succeed by (simp add: tracks_def)
    with Cons.IH [OF holds_success [OF Cons.prems(1)] _ Cons.prems(3) srt] Succeed ge Cons.prems(6)
    show ?thesis by simp
  next
    case (Try t)
    show ?thesis
    proof (cases "verdict t s")
      case Allowed
      obtain trc2 where trc2: "acc = t # trc2"
        "guarded_run env fresh es (record_attempt env t t fresh m) = (trc2, m')"
        using Cons.prems(1,6) Try Allowed by (auto simp: check_holds split: prod.splits)
      have "length (recent t trc) < MAX_ATTEMPTS_PER_WINDOW"
        using Allowed trk Try by (auto simp: verdict_Allowed_iff tracks_def)
      from window_bound_snoc [OF Cons.prems(3) this]
        Cons.IH [OF holds_attempt [OF Cons.prems(1)] tracks_attempt [OF Cons.prems(2)] _ srt _ trc2(2)]
      show ?thesis using t0 ge Try trc2(1) by simp
    next
      case Denied
      with Cons.IH [OF Cons.prems(1) trk Cons.prems(3) srt] ge Cons.prems(1,6) Try
      show ?thesis by (simp add: check_holds)
    qed
  qed
qed

subsection \<open>Reloading the page\<close>

text \<open>
  A reload drops the module variables and keeps the storage slots. A cached key always
  belongs to the stored install id while storage works.
\<close>

definition reload :: "rl_mem \<Rightarrow> rl_mem" where
  "reload m = m\<lparr>mem_cache := None, mem_verified := False, mem_key := None\<rparr>"

definition key_ok :: "rl_mem \<Rightarrow> bool" where
  "key_ok m = (\<forall>k. mem_key m = Some k \<longrightarrow>
     (\<exists>c cs. slot_install m = Some (c # cs) \<and> k = HMAC_APP_CONSTANT @ '':'' @ c # cs))"

definition mac_total :: "rl_env \<Rightarrow> bool" where
  "mac_total env = (\<forall>k x. \<exists>d. env_mac env k x = Some d \<and> d \<noteq> [])"

definition stable_web :: "rl_env \<Rightarrow> bool" where
  "stable_web env = (env_web env \<and> env_ls env \<and> env_import env \<and> mac_total env)"

lemma bytes_to_hex_Cons: "fresh \<noteq> [] \<Longrightarrow> \<exists>c cs. bytes_to_hex fresh = c # cs"
  by (cases fresh) (auto simp: bytes_to_hex_def byte_hex_def)

lemma get_hmac_key_stable:
  assumes "stable_web env" and "fresh \<noteq> []" and "key_ok m"
  obtains c cs where "get_hmac_key env fresh m =
      (Some (HMAC_APP_CONSTANT @ '':'' @ c # cs),
       m\<lparr>slot_install := Some (c # cs), mem_key := Some (HMAC_APP_CONSTANT @ '':'' @ c # cs)\<rparr>)"
proof (cases "mem_key m")
  case None
  obtain c cs where "get_install_id env fresh m = (c # cs, m\<lparr>slot_install := Some (c # cs)\<rparr>)"
    using assms(1) bytes_to_hex_Cons [OF assms(2)]
    by (fastforce simp: get_install_id_def stable_web_def Let_def split: option.split list.split)
  with None assms(1) show ?thesis
    by (intro that [of c cs]) (simp add: get_hmac_key_def stable_web_def Let_def)
next
  case (Some k)
  with assms(3) obtain c cs where
    "slot_install m = Some (c # cs)" "k = HMAC_APP_CONSTANT @ '':'' @ c # cs"
    by (auto simp: key_ok_def)
  with Some that show ?thesis by (simp add: get_hmac_key_def)
qed

lemma save_state_stable:
  assumes "stable_web env" and "fresh \<noteq> []" and "key_ok m"
  obtains c cs d ds where
    "env_mac env (HMAC_APP_CONSTANT @ '':'' @ c # cs) (whole s, RATE_LIMIT_VERSION) = Some (d # ds)"
    "slot_install (save_state env fresh s m) = Some (c # cs)"
    "slot_state (save_state env fresh s m) = Some (RawDoc \<lparr>sg_state = whole s,
       sg_version = Some RATE_LIMIT_VERSION, sg_hmac = Some (bytes_to_hex (d # ds))\<rparr>)"
    "key_ok (save_state env fresh s m)"
proof -
  have "key_ok (cache_state s m)"
    using assms(3) by (simp add: key_ok_def cache_state_def)
  from get_hmac_key_stable [OF assms(1,2) this] obtain c cs where
    key: "get_hmac_key env fresh (cache_state s m) = (Some (HMAC_APP_CONSTANT @ '':'' @ c # cs),
      (cache_state s m)\<lparr>slot_install := Some (c # cs),
         mem_key := Some (HMAC_APP_CONSTANT @ '':'' @ c # cs)\<rparr>)" .
  obtain d ds where
    mac: "env_mac env (HMAC_APP_CONSTANT @ '':'' @ c # cs) (whole s, RATE_LIMIT_VERSION) = Some (d # ds)"
    using assms(1) by (metis list.exhaust mac_total_def stable_web_def)
  from key mac assms(1) show ?thesis
    by (intro that) (auto simp: save_state_def compute_hmac_def stable_web_def key_ok_def Let_def)
qed

lemma load_after_reload:
  assumes "stable_web env" and "fresh \<noteq> []" and "key_ok m"
  shows "fst (load_state env t0 fresh' (reload (save_state env fresh s m))) = s"
proof -
  from save_state_stable [OF assms, where s = s] obtain c cs d ds where sv:
    "env_mac env (HMAC_APP_CONSTANT @ '':'' @ c # cs) (whole s, RATE_LIMIT_VERSION) = Some (d # ds)"
    "slot_install (save_state env fresh s m) = Some (c # cs)"
    "slot_state (save_state env fresh s m) = Some (RawDoc \<lparr>sg_state = whole s,
       sg_version = Some RATE_LIMIT_VERSION, sg_hmac = Some (bytes_to_hex (d # ds))\<rparr>)" .
  obtain h hs where "bytes_to_hex (d # ds) = h # hs" using bytes_to_hex_Cons by blast
  with sv assms(1) show ?thesis
    by (simp add: load_state_def load_signed_def reload_def verify_hmac_def compute_hmac_def
        get_hmac_key_def get_install_id_def stable_web_def Let_def)
qed

definition suspicious :: "rl_env \<Rightarrow> bytes \<Rightarrow> rl_mem \<Rightarrow> bool" where
  "suspicious env fresh m =
     (case slot_state m of
        Some RawGarbled \<Rightarrow> True
      | Some (RawDoc d) \<Rightarrow>
          (case (sg_hmac d, sg_version d) of
             (Some (c # cs), Some v) \<Rightarrow>
               v \<noteq> RATE_LIMIT_VERSION \<or> fst (verify_hmac env fresh (sg_state d) v (c # cs) m) = Some False
           | _ \<Rightarrow> True)
      | _ \<Rightarrow> False)"

lemma load_suspicious:
  assumes "env_web env" "env_ls env" "mem_cache m = None" "suspicious env fresh m"
  shows "fst (load_state env t0 fresh m) = tampered_state t0"
  using assms
  by (auto simp: suspicious_def load_state_def load_signed_def lock_tampered_def Let_def
      split: option.splits rl_raw.splits list.splits prod.splits)

subsection \<open>Properties\<close>


definition demo_env :: rl_env where
  "demo_env = \<lparr>env_web = True, env_ls = True, env_import = True,
     env_mac = (\<lambda>k (p, v). Some [of_nat (length k)])\<rparr>"

definition demo_mem :: rl_mem where
  "demo_mem = \<lparr>mem_cache = None, mem_verified = False, mem_key = None, slot_state = None,
     slot_install = None\<rparr>"


text \<open>
  Lockouts escalate with consecutive failures. After \<open>n \<ge> 5\<close> failures in a row the
  check denies every attempt made before the last failure plus the tier's duration (1, 5,
  15, 60 minutes from 5, 10, 15, 20 failures on), and reports exactly the time left.
\<close>

theorem lockout_escalation:
  assumes "holds m s" and "rl_failures s = 0" and "length ts = n" and "5 \<le> n"
    and "now < last ts + the (lockout_tier (int n))"
  shows "fst (check_allowed env t0 now fresh (fold (\<lambda>t. record_failure env t t fresh) ts m)) =
     (let r = last ts + the (lockout_tier (int n)) - now
      in Denied r (AccountLocked (ceil_div r 60000)))"
proof -
  have "holds (fold (\<lambda>t. record_failure env t t fresh) us m1) (fold fail_once us s1)"
    if "holds m1 s1" for us m1 s1
    using that by (induction us arbitrary: m1 s1) (auto intro: holds_failure)
  from check_holds [OF this [OF assms(1)]] assms(2-) show ?thesis
    by (auto simp: verdict_def Let_def fold_failures lockout_tier_eq)
qed

theorem lockout_escalation_witness:
  "fst (check_allowed demo_env 0 70000 [7]
      (fold (\<lambda>t. record_failure demo_env t t [7]) [10000, 11000, 12000, 13000, 14000]
        (reset demo_env [7] demo_mem))) = Denied 4000 (AccountLocked 1)"
proof -
  have "fst (check_allowed demo_env 0 70000 [7]
      (fold (\<lambda>t. record_failure demo_env t t [7]) [10000, 11000, 12000, 13000, 14000]
        (reset demo_env [7] demo_mem))) =
     (let r = last [10000, 11000, 12000, 13000, 14000] + the (lockout_tier (int 5)) - 70000
      in Denied r (AccountLocked (ceil_div r 60000)))"
    by (rule lockout_escalation [OF holds_reset])
      (simp_all add: DEFAULT_STATE_def lockout_tier_eq)
  also have "\<dots> = Denied 4000 (AccountLocked 1)"
    by (simp add: lockout_tier_eq ceil_div_def ceiling_unique)
  finally show ?thesis .
qed

text \<open>
  A lockout survives a page reload: with working storage and WebCrypto, the check made
  after the module state is lost gives the verdict of the state recorded before the reload,
  because the signed document verifies and is read back unchanged.
\<close>

theorem lockout_survives_reload:
  assumes "stable_web env" and "fresh \<noteq> []" and "key_ok m" and "holds m s"
  shows "fst (check_allowed env t0 now fresh' (reload (record_failure env t1 t fresh m))) =
    verdict now (fail_once t s)"
  using load_after_reload [OF assms(1-3), of t0 fresh' "fail_once t s"]
  by (simp add: check_allowed_def record_failure_def holds_load [OF assms(4)] split_beta)

lemma demo_stable: "stable_web demo_env"
  by (simp add: stable_web_def demo_env_def mac_total_def)

theorem lockout_survives_reload_witness:
  "fst (check_allowed demo_env 0 20000 [9] (reload (record_failure demo_env 0 15000 [7]
      (cache_state \<lparr>rl_attempts = [], rl_failures = 4, rl_lockout = 0\<rparr> demo_mem)))) =
    Denied 55000 (AccountLocked 1)"
proof -
  let ?s = "\<lparr>rl_attempts = [], rl_failures = 4, rl_lockout = 0\<rparr> :: rl_state"
  have k: "key_ok (cache_state ?s demo_mem)" and h: "holds (cache_state ?s demo_mem) ?s"
    by (simp_all add: key_ok_def cache_state_def demo_mem_def holds_def)
  have "fst (check_allowed demo_env 0 20000 [9] (reload (record_failure demo_env 0 15000 [7]
      (cache_state ?s demo_mem)))) = verdict 20000 (fail_once 15000 ?s)"
    by (rule lockout_survives_reload [OF demo_stable _ k h]) simp
  then show ?thesis
    by (simp add: verdict_def fail_once_def lockout_tier_eq ceil_div_def ceiling_unique Let_def)
qed

text \<open>
  Tampering locks: on a cold start, a stored text that does not parse, a document
  without signature or version, of another version, or with a signature that does not
  match, denies every attempt for the next hour.
\<close>

theorem tampering_locks:
  assumes "env_web env" and "env_ls env" and "mem_cache m = None" and "suspicious env fresh m"
    and "now < t0 + 60 * 60 * 1000"
  shows "\<exists>why. fst (check_allowed env t0 now fresh m) = Denied (t0 + 60 * 60 * 1000 - now) why"
  using load_suspicious [OF assms(1-4), of t0] assms(5)
  by (auto simp: check_allowed_def verdict_def tampered_state_def LOCKOUT_THRESHOLDS_def Let_def
      split: prod.splits)

theorem tampering_locks_witness:
  "\<exists>why. fst (check_allowed demo_env 1000 2000 [7] (demo_mem\<lparr>slot_state := Some RawGarbled\<rparr>)) =
     Denied 3599000 why"
  using tampering_locks [of demo_env "demo_mem\<lparr>slot_state := Some RawGarbled\<rparr>" "[7]" 2000 1000]
  by (simp add: demo_env_def demo_mem_def suspicious_def)

text \<open>
  Clearing the stored state does not lock the user out: removing the slot (or leaving
  the string \<open>null\<close> there) and reloading the page lets the next attempt through, whatever
  lockout was in force before.
\<close>

theorem cleared_storage_unlocks:
  assumes "env_web env" and "env_ls env" and "raw = None \<or> raw = Some RawNull" and "0 \<le> now"
  shows "fst (check_allowed env t0 now fresh (reload (m\<lparr>slot_state := raw\<rparr>))) = Allowed"
  using assms
  by (auto simp: check_allowed_def load_state_def reload_def fail_open_def verdict_def
      DEFAULT_STATE_def recent_def MAX_ATTEMPTS_PER_WINDOW_def)

theorem cleared_storage_unlocks_witness:
  "fst (check_allowed demo_env 2000 2000 [7] (reload
      ((cache_state (tampered_state 1000) demo_mem)\<lparr>slot_state := None\<rparr>))) = Allowed"
  using cleared_storage_unlocks
    [of demo_env None 2000 2000 "[7]" "cache_state (tampered_state 1000) demo_mem"]
  by (simp add: demo_env_def)

text \<open>
  The reported waiting time is enough: when the window is full with no more than the
  permitted number of attempts and no lockout is set, waiting \<open>retryAfterMs\<close> (which is
  positive) makes the check succeed.
\<close>

theorem retry_after_suffices:
  assumes "verdict now s = Denied r (TooManyAttempts k)"
    and "length (recent now (rl_attempts s)) \<le> MAX_ATTEMPTS_PER_WINDOW"
  shows "0 < r \<and> verdict (now + r) s = Allowed"
proof -
  let ?rs = "recent now (rl_attempts s)"
  have lk: "rl_lockout s \<le> now" and full: "length ?rs = MAX_ATTEMPTS_PER_WINDOW"
    and r: "r = WINDOW_MS - (now - Min (set ?rs))"
    using assms by (auto simp: verdict_def Let_def split: if_splits)
  then have mem: "Min (set ?rs) \<in> set ?rs"
    by (intro Min_in) (auto simp: MAX_ATTEMPTS_PER_WINDOW_def)
  then have pos: "0 < r" by (auto simp: r recent_def)
  have "recent (now + r) (rl_attempts s) = recent (now + r) ?rs"
    using pos recent_recent [of now "now + r" "rl_attempts s"] by simp
  also have "length \<dots> < length ?rs"
    using length_filter_less [OF mem, of "\<lambda>t. now + r - t < WINDOW_MS"] r
    by (simp add: recent_def)
  finally show ?thesis using pos lk full by (simp add: verdict_Allowed_iff)
qed

theorem retry_after_suffices_witness:
  "verdict (6000 + 895000) \<lparr>rl_attempts = [1000, 2000, 3000, 4000, 5000], rl_failures = 0,
     rl_lockout = 0\<rparr> = Allowed"
proof -
  let ?s = "\<lparr>rl_attempts = [1000, 2000, 3000, 4000, 5000], rl_failures = 0, rl_lockout = 0\<rparr> :: rl_state"
  have "verdict 6000 ?s = Denied 895000 (TooManyAttempts 15)"
    by (simp add: verdict_def recent_def WINDOW_MS_def MAX_ATTEMPTS_PER_WINDOW_def ceil_div_def
        ceiling_unique Let_def)
  from retry_after_suffices [OF this]
  show ?thesis by (simp add: recent_def WINDOW_MS_def MAX_ATTEMPTS_PER_WINDOW_def)
qed

end
