(* ===== verification/Bit_Packing.thy ===== *)
theory Bit_Packing
  imports QS_Prelude
begin

text \<open>
  Most-significant-bit-first packing, the reference the bit loops of the phrase service
  and of the steganography service are proved against: \<open>msb_bits n v\<close> spells a number in
  \<open>n\<close> bits, \<open>bits_val\<close> reads a bit string as a number, \<open>bytes_bits\<close> lays bytes out as a
  bit string.
\<close>

definition msb_bits :: "nat \<Rightarrow> nat \<Rightarrow> bool list" where
  "msb_bits n v = map (\<lambda>i. bit v (n - 1 - i)) [0..<n]"

definition bits_val :: "bool list \<Rightarrow> nat" where
  "bits_val bs = fold (\<lambda>b a. 2 * a + of_bool b) bs 0"

definition byte_bits :: "byte \<Rightarrow> bool list" where
  "byte_bits b = map (\<lambda>i. bit b (7 - i)) [0..<8]"

definition bytes_bits :: "bytes \<Rightarrow> bool list" where
  "bytes_bits bs = concat (map byte_bits bs)"

text \<open>Reading a byte array past its end gives \<open>undefined\<close>, which bit operators take as 0.\<close>

definition byte_at :: "bytes \<Rightarrow> nat \<Rightarrow> byte" where
  "byte_at bs i = (if i < length bs then bs ! i else 0)"

definition bit_at :: "bytes \<Rightarrow> nat \<Rightarrow> bool" where
  "bit_at bs k = bit (byte_at bs (k div 8)) (7 - k mod 8)"

definition flag_at :: "bool list \<Rightarrow> nat \<Rightarrow> bool" where
  "flag_at bs i = (i < length bs \<and> bs ! i)"

lemma length_msb_bits [simp]: "length (msb_bits n v) = n"
  by (simp add: msb_bits_def)

lemma length_byte_bits [simp]: "length (byte_bits b) = 8"
  by (simp add: byte_bits_def)

lemma length_bytes_bits [simp]: "length (bytes_bits bs) = 8 * length bs"
  by (induction bs) (simp_all add: bytes_bits_def)

lemma bytes_bits_append: "bytes_bits (xs @ ys) = bytes_bits xs @ bytes_bits ys"
  by (simp add: bytes_bits_def)

lemma bytes_bits_Cons: "bytes_bits (b # bs) = byte_bits b @ bytes_bits bs"
  by (simp add: bytes_bits_def)

lemma msb_bits_Suc: "msb_bits (Suc n) v = bit v n # msb_bits n v"
  by (simp add: msb_bits_def upt_conv_Cons comp_def del: upt_Suc flip: map_Suc_upt)

lemma bits_val_acc:
  "fold (\<lambda>b a. 2 * a + of_bool b) bs acc = acc * 2 ^ length bs + bits_val bs"
proof (induction bs arbitrary: acc)
  case Nil
  then show ?case by (simp add: bits_val_def)
next
  case (Cons b bs)
  have "bits_val (b # bs) = of_bool b * 2 ^ length bs + bits_val bs"
    using Cons [of "of_bool b"] by (simp add: bits_val_def)
  with Cons [of "2 * acc + of_bool b"] show ?case
    by (simp add: algebra_simps)
qed

lemma bits_val_Nil [simp]: "bits_val [] = 0"
  by (simp add: bits_val_def)

lemma bits_val_Cons: "bits_val (b # bs) = of_bool b * 2 ^ length bs + bits_val bs"
  using bits_val_acc [of bs "of_bool b"] by (simp add: bits_val_def)

lemma bits_val_snoc: "bits_val (bs @ [b]) = 2 * bits_val bs + of_bool b"
  by (simp add: bits_val_def)

lemma bits_val_less: "bits_val bs < 2 ^ length bs"
  by (induction bs) (auto simp: bits_val_Cons)

lemma msb_bits_mod: "msb_bits n (v mod 2 ^ n) = msb_bits n v"
  by (auto simp: msb_bits_def bit_take_bit_iff simp flip: take_bit_eq_mod)

lemma bits_val_msb_bits: "bits_val (msb_bits n v) = v mod 2 ^ n"
proof (induction n)
  case 0
  then show ?case by (simp add: msb_bits_def)
next
  case (Suc n)
  have "take_bit (Suc n) v = take_bit n v + of_bool (bit v n) * 2 ^ n"
    by (simp add: take_bit_Suc_from_most)
  with Suc show ?case
    by (simp add: msb_bits_Suc bits_val_Cons take_bit_eq_mod)
qed

lemma bits_val_inject:
  "length as = length bs \<Longrightarrow> bits_val as = bits_val bs \<longleftrightarrow> as = bs"
proof (induction as bs rule: list_induct2)
  case Nil
  then show ?case by simp
next
  case (Cons a as b bs)
  then show ?case
    using bits_val_less [of as] bits_val_less [of bs]
    by (cases a; cases b) (auto simp: bits_val_Cons)
qed

lemma msb_bits_bits_val: "msb_bits (length bs) (bits_val bs) = bs"
  using bits_val_inject [of "msb_bits (length bs) (bits_val bs)" bs] bits_val_less [of bs]
  by (simp add: bits_val_msb_bits)

lemma nth_bytes_bits: "k < 8 * length bs \<Longrightarrow> bytes_bits bs ! k = bit_at bs k"
proof (induction bs arbitrary: k)
  case Nil
  then show ?case by simp
next
  case (Cons b bs)
  show ?case
  proof (cases "k < 8")
    case True
    then show ?thesis
      by (simp add: bytes_bits_Cons nth_append byte_bits_def bit_at_def byte_at_def)
  next
    case False
    then have "k div 8 = Suc ((k - 8) div 8)" and "k mod 8 = (k - 8) mod 8"
      by (simp_all add: le_div_geq le_mod_geq)
    with Cons.IH [of "k - 8"] Cons.prems False show ?thesis
      by (auto simp: bytes_bits_Cons nth_append bit_at_def byte_at_def)
  qed
qed

lemma bytes_bits_conv: "bytes_bits bs = map (bit_at bs) [0..<8 * length bs]"
  by (rule nth_equalityI) (simp_all add: nth_bytes_bits)

lemma byte_bits_inject: "byte_bits a = byte_bits b \<longleftrightarrow> a = b"
proof
  assume eq: "byte_bits a = byte_bits b"
  show "a = b"
  proof (rule bit_word_eqI)
    fix n assume "n < LENGTH(8)"
    then have n: "n < 8" "7 - n < 8" by simp_all
    then have "byte_bits a ! (7 - n) = bit a n" "byte_bits b ! (7 - n) = bit b n"
      by (simp_all add: byte_bits_def)
    with eq show "bit a n = bit b n" by simp
  qed
qed simp

lemma bytes_bits_inject: "bytes_bits as = bytes_bits bs \<longleftrightarrow> as = bs"
proof
  assume eq: "bytes_bits as = bytes_bits bs"
  then have "length as = length bs"
    using length_bytes_bits by (metis mult_left_cancel zero_neq_numeral)
  from this eq show "as = bs"
    by (induction as bs rule: list_induct2) (auto simp: bytes_bits_Cons byte_bits_inject)
qed simp

text \<open>Packing eight bits into a byte.\<close>

definition pack_byte :: "bool list \<Rightarrow> byte" where
  "pack_byte bs = of_nat (bits_val bs)"

lemma bit_of_nat_byte: "n < 8 \<Longrightarrow> bit (of_nat v :: byte) n = bit v n"
  by (simp add: bit_of_nat_iff)

lemma byte_bits_pack: "length bs = 8 \<Longrightarrow> byte_bits (pack_byte bs) = bs"
proof -
  assume len: "length bs = 8"
  have "byte_bits (pack_byte bs) = msb_bits 8 (bits_val bs)"
    by (auto simp: byte_bits_def msb_bits_def pack_byte_def bit_of_nat_byte)
  with msb_bits_bits_val [of bs] len show ?thesis by simp
qed

lemma pack_byte_bits: "pack_byte (byte_bits b) = b"
  using byte_bits_pack [of "byte_bits b"] by (simp add: byte_bits_inject)

text \<open>Groups of a fixed width in a concatenation.\<close>

lemma take_drop_concat:
  assumes "\<forall>x\<in>set xs. length x = n" and "i < length xs"
  shows "take n (drop (n * i) (concat xs)) = xs ! i"
  using assms
proof (induction xs arbitrary: i)
  case Nil
  then show ?case by simp
next
  case (Cons x xs)
  then show ?case by (cases i) (auto simp: algebra_simps)
qed

lemma concat_groups:
  "length bs = n * m \<Longrightarrow> concat (map (\<lambda>i. take n (drop (n * i) bs)) [0..<m]) = bs"
proof (induction m arbitrary: bs)
  case 0
  then show ?case by simp
next
  case (Suc m)
  have "concat (map (\<lambda>i. take n (drop (n * i) (take (n * m) bs))) [0..<m]) = take (n * m) bs"
    using Suc.prems by (intro Suc.IH) simp
  moreover have "map (\<lambda>i. take n (drop (n * i) (take (n * m) bs))) [0..<m] =
      map (\<lambda>i. take n (drop (n * i) bs)) [0..<m]"
  proof (rule map_cong)
    fix i assume "i \<in> set [0..<m]"
    then have "n * Suc i \<le> n * m" by (intro mult_le_mono) auto
    then show "take n (drop (n * i) (take (n * m) bs)) = take n (drop (n * i) bs)"
      by (simp add: drop_take min_def)
  qed simp
  ultimately show ?case using Suc.prems by simp
qed

text \<open>Reading bits as bytes, eight at a time, a short last group filled with zeros.\<close>

definition shift_in :: "bool list \<Rightarrow> nat \<Rightarrow> byte" where
  "shift_in bs i = of_nat (fold (\<lambda>k b. push_bit 1 b OR of_bool (flag_at bs (i + k))) [0..<8] 0)"

definition bits_to_bytes :: "bool list \<Rightarrow> bytes" where
  "bits_to_bytes bs = map (\<lambda>i. shift_in bs (8 * i)) [0..<(length bs + 7) div 8]"

lemma shift_step: "push_bit 1 r OR of_bool b = 2 * r + of_bool b" for r :: nat
  by (cases b) (simp_all add: push_bit_eq_mult or_Suc_0_eq)

lemma fold_shift_val:
  "fold (\<lambda>k b. push_bit 1 b OR of_bool (f k)) [0..<n] 0 = bits_val (map f [0..<n])"
proof (induction n)
  case 0
  then show ?case by (simp add: bits_val_def)
next
  case (Suc n)
  have "fold (\<lambda>k b. push_bit 1 b OR of_bool (f k)) [0..<Suc n] (0::nat) =
      2 * fold (\<lambda>k b. push_bit 1 b OR of_bool (f k)) [0..<n] 0 + of_bool (f n)"
    unfolding upt_Suc by (simp only: zero_le if_True fold_append comp_apply fold_Cons fold_Nil id_apply shift_step)
  also have "\<dots> = bits_val (map f [0..<Suc n])"
    unfolding Suc.IH by (simp add: bits_val_snoc)
  finally show ?case .
qed

lemma shift_in_pack: "shift_in bs i = pack_byte (map (\<lambda>k. flag_at bs (i + k)) [0..<8])"
  unfolding shift_in_def pack_byte_def fold_shift_val ..

lemma length_bits_to_bytes [simp]: "length (bits_to_bytes bs) = (length bs + 7) div 8"
  by (simp add: bits_to_bytes_def)

lemma bits_to_bytes_prefix:
  "bits_to_bytes (bytes_bits p @ bs) = p @ bits_to_bytes bs"
proof (rule nth_equalityI)
  show "length (bits_to_bytes (bytes_bits p @ bs)) = length (p @ bits_to_bytes bs)" by simp
  fix i assume i: "i < length (bits_to_bytes (bytes_bits p @ bs))"
  let ?g = "\<lambda>j. map (\<lambda>k. flag_at (bytes_bits p @ bs) (j + k)) [0..<8]"
  show "bits_to_bytes (bytes_bits p @ bs) ! i = (p @ bits_to_bytes bs) ! i"
  proof (cases "i < length p")
    case True
    have "?g (8 * i) = byte_bits (p ! i)"
    proof (rule nth_equalityI)
      fix k assume "k < length (?g (8 * i))"
      then have k: "k < 8" by simp
      then have lt: "8 * i + k < 8 * length p" using True by linarith
      have "(8 * i + k) div 8 = i" "(8 * i + k) mod 8 = k" using k by simp_all
      with k lt True show "?g (8 * i) ! k = byte_bits (p ! i) ! k"
        by (simp add: flag_at_def nth_append nth_bytes_bits bit_at_def byte_at_def byte_bits_def)
    qed simp
    with True i show ?thesis
      by (simp add: bits_to_bytes_def shift_in_pack nth_append pack_byte_bits del: upt_Suc)
  next
    case False
    then have g: "?g (8 * i) = map (\<lambda>k. flag_at bs (8 * (i - length p) + k)) [0..<8]"
      by (auto simp: flag_at_def nth_append algebra_simps)
    have lt: "i - length p < (length bs + 7) div 8" using i False by simp
    have "bits_to_bytes (bytes_bits p @ bs) ! i = pack_byte (?g (8 * i))"
      using i by (simp add: bits_to_bytes_def shift_in_pack)
    also have "\<dots> = bits_to_bytes bs ! (i - length p)"
      unfolding g using lt by (simp add: bits_to_bytes_def shift_in_pack)
    finally show ?thesis using False by (simp add: nth_append)
  qed
qed

end
