(* ===== verification/Text_Codec.thy ===== *)
theory Text_Codec
  imports QS_Prelude
begin

text \<open>
  Character classes and case, and the platform's text codecs: \<open>TextEncoder\<close> (UTF-8 of the code units below 256 that a HOL
  character holds), and \<open>btoa\<close>/\<open>atob\<close>, the latter with the forgiving decoding of the web
  platform (white space dropped, optional padding, \<open>None\<close> for a character outside the
  alphabet or an impossible length).
\<close>

subsection \<open>Character classes\<close>

definition code :: "char \<Rightarrow> nat" where "code c = of_char c"

definition is_lower :: "char \<Rightarrow> bool" where "is_lower c = (97 \<le> code c \<and> code c \<le> 122)"
definition is_upper :: "char \<Rightarrow> bool" where "is_upper c = (65 \<le> code c \<and> code c \<le> 90)"
definition is_digit :: "char \<Rightarrow> bool" where "is_digit c = (48 \<le> code c \<and> code c \<le> 57)"

text \<open>\<open>toLowerCase\<close> on code units below 256.\<close>

definition to_lower_char :: "char \<Rightarrow> char" where
  "to_lower_char c =
     (if is_upper c \<or> (192 \<le> code c \<and> code c \<le> 222 \<and> code c \<noteq> 215) then char_of (code c + 32) else c)"

definition to_lower :: "string \<Rightarrow> string" where
  "to_lower s = map to_lower_char s"

subsection \<open>UTF-8\<close>

definition utf8_char :: "char \<Rightarrow> bytes" where
  "utf8_char c = (let n = of_char c :: nat in
     if n < 128 then [of_nat n] else [of_nat (192 + n div 64), of_nat (128 + n mod 64)])"

definition utf8_encode :: "string \<Rightarrow> bytes" where
  "utf8_encode s = concat (map utf8_char s)"

lemma utf8_char_nonempty: "utf8_char c \<noteq> []"
  by (simp add: utf8_char_def Let_def)

lemma utf8_encode_append: "utf8_encode (s @ t) = utf8_encode s @ utf8_encode t"
  by (simp add: utf8_encode_def)

text \<open>
  \<open>TextDecoder\<close>; \<open>None\<close> is a text with a character beyond the 256 of the model (or a replacement
  character).
\<close>

fun utf8_decode :: "bytes \<Rightarrow> string option" where
  "utf8_decode [] = Some []"
| "utf8_decode (b # bs) =
     (if unat b < 128 then map_option (\<lambda>s. char_of (unat b) # s) (utf8_decode bs)
      else if 194 \<le> unat b \<and> unat b \<le> 195 then
        (case bs of
           [] \<Rightarrow> None
         | c # cs \<Rightarrow> if 128 \<le> unat c \<and> unat c < 192
             then map_option (\<lambda>s. char_of (64 * (unat b - 192) + (unat c - 128)) # s) (utf8_decode cs) else None)
      else None)"

lemma utf8_decode_char: "utf8_decode (utf8_char c @ bs) = map_option (\<lambda>s. c # s) (utf8_decode bs)"
proof -
  define n where "n = (of_char c :: nat)"
  have n: "n < 256" "char_of n = c" by (simp_all add: n_def)
  have u: "m < 256 \<Longrightarrow> unat (of_nat m :: byte) = m" for m by (simp add: unat_of_nat)
  show ?thesis
  proof (cases "n < 128")
    case True
    then show ?thesis using n by (simp add: utf8_char_def Let_def n_def [symmetric] u)
  next
    case False
    have "unat (of_nat (192 + n div 64) :: byte) = 192 + n div 64"
      "unat (of_nat (128 + n mod 64) :: byte) = 128 + n mod 64" using n by (simp_all only: u)
    moreover have "2 \<le> n div 64" "n div 64 \<le> 3" using n False by simp_all
    moreover have "n mod 64 < 64" by simp
    moreover have "64 * (192 + n div 64 - 192) + (128 + n mod 64 - 128) = n" by simp
    ultimately show ?thesis using n False
      by (simp add: utf8_char_def Let_def n_def [symmetric] del: of_nat_add)
  qed
qed

lemma utf8_decode_encode [simp]: "utf8_decode (utf8_encode s) = Some s"
  by (induction s) (simp_all add: utf8_encode_def utf8_decode_char)

subsection \<open>Base64\<close>

definition b64_char :: "nat \<Rightarrow> char" where
  "b64_char n =
     (if n < 26 then char_of (n + 65) else if n < 52 then char_of (n + 71)
      else if n < 62 then char_of (n - 4) else if n = 62 then CHR ''+'' else CHR ''/'')"

definition b64_val :: "char \<Rightarrow> nat option" where
  "b64_val c = (let n = of_char c :: nat in
     if 65 \<le> n \<and> n \<le> 90 then Some (n - 65)
     else if 97 \<le> n \<and> n \<le> 122 then Some (n - 71)
     else if 48 \<le> n \<and> n \<le> 57 then Some (n + 4)
     else if n = 43 then Some 62
     else if n = 47 then Some 63
     else None)"

fun b64_digits :: "bytes \<Rightarrow> nat list" where
  "b64_digits (a # b # c # bs) =
     (let n = 65536 * unat a + 256 * unat b + unat c
      in [n div 262144, n div 4096 mod 64, n div 64 mod 64, n mod 64] @ b64_digits bs)"
| "b64_digits [a, b] =
     (let n = 1024 * unat a + 4 * unat b in [n div 4096, n div 64 mod 64, n mod 64])"
| "b64_digits [a] = (let n = 16 * unat a in [n div 64, n mod 64])"
| "b64_digits [] = []"

definition btoa :: "bytes \<Rightarrow> string" where
  "btoa bs = (let ds = map b64_char (b64_digits bs)
     in ds @ replicate ((4 - length ds mod 4) mod 4) CHR ''='')"

fun b64_bytes :: "nat list \<Rightarrow> bytes" where
  "b64_bytes (a # b # c # d # ds) =
     (let n = 262144 * a + 4096 * b + 64 * c + d
      in [of_nat (n div 65536), of_nat (n div 256), of_nat n] @ b64_bytes ds)"
| "b64_bytes [a, b, c] =
     (let n = 4096 * a + 64 * b + c in [of_nat (n div 1024), of_nat (n div 4)])"
| "b64_bytes [a, b] = [of_nat ((64 * a + b) div 16)]"
| "b64_bytes _ = []"

definition ascii_space :: "char \<Rightarrow> bool" where
  "ascii_space c = ((of_char c :: nat) \<in> {9, 10, 12, 13, 32})"

definition strip_padding :: "string \<Rightarrow> string" where
  "strip_padding s =
     (if length s mod 4 \<noteq> 0 then s
      else case rev s of
        c # d # r \<Rightarrow> if c = CHR ''='' then (if d = CHR ''='' then rev r else rev (d # r)) else s
      | _ \<Rightarrow> s)"

definition atob :: "string \<Rightarrow> bytes option" where
  "atob s0 =
     (let s = strip_padding (filter (\<lambda>c. \<not> ascii_space c) s0)
      in if length s mod 4 = 1 then None
         else map_option b64_bytes (those (map b64_val s)))"

lemma b64_char_val:
  assumes "n < 64"
  shows "b64_val (b64_char n) = Some n \<and> \<not> ascii_space (b64_char n) \<and> b64_char n \<noteq> CHR ''=''"
proof -
  have code: "(of_char (b64_char n) :: nat) =
     (if n < 26 then n + 65 else if n < 52 then n + 71
      else if n < 62 then n - 4 else if n = 62 then 43 else 47)"
    by (simp add: b64_char_def)
  have "(of_char (b64_char n) :: nat) \<noteq> of_char (CHR ''='')"
    unfolding code using assms by (auto split: if_splits)
  then have "b64_char n \<noteq> CHR ''=''" by metis
  with code assms show ?thesis by (auto simp: b64_val_def ascii_space_def Let_def)
qed

lemma b64_digits_less: "d \<in> set (b64_digits bs) \<Longrightarrow> d < 64"
proof (induction bs rule: b64_digits.induct)
  case (1 a b c bs)
  then show ?case
    using byte_less [of a] byte_less [of b] byte_less [of c] by (auto simp: Let_def)
next
  case (2 a b)
  then show ?case using byte_less [of a] byte_less [of b] by (auto simp: Let_def)
next
  case (3 a)
  then show ?case using byte_less [of a] by (auto simp: Let_def)
qed simp

lemma three_digits:
  fixes n :: nat
  shows "262144 * (n div 262144) + 4096 * (n div 4096 mod 64) + 64 * (n div 64 mod 64) + n mod 64 = n"
proof -
  have "n div 262144 = n div 4096 div 64" "n div 4096 = n div 64 div 64"
    by (simp_all flip: div_mult2_eq)
  then show ?thesis
    using div_mult_mod_eq [of n 64] div_mult_mod_eq [of "n div 64" 64]
      div_mult_mod_eq [of "n div 4096" 64] by linarith
qed

lemma two_digits:
  fixes n :: nat
  shows "4096 * (n div 4096) + 64 * (n div 64 mod 64) + n mod 64 = n"
proof -
  have "n div 4096 = n div 64 div 64" by (simp flip: div_mult2_eq)
  then show ?thesis
    using div_mult_mod_eq [of n 64] div_mult_mod_eq [of "n div 64" 64] by linarith
qed

lemma of_nat_byte: "(of_nat (unat b + 256 * k) :: byte) = b"
proof -
  have "(of_nat (unat b + 256 * k) :: byte) = of_nat (unat b)"
    unfolding word_of_nat_eq_iff by (simp add: take_bit_eq_mod)
  then show ?thesis by simp
qed

lemma b64_bytes_digits: "b64_bytes (b64_digits bs) = bs"
proof (induction bs rule: b64_digits.induct)
  case (1 a b c bs)
  define n where "n = 65536 * unat a + 256 * unat b + unat c"
  have "n div 65536 = unat a" "n div 256 = unat b + 256 * unat a"
    "n = unat c + 256 * (unat b + 256 * unat a)"
    using byte_less [of b] byte_less [of c] by (simp_all add: n_def)
  then have "of_nat (n div 65536) = a" "of_nat (n div 256) = b" "of_nat n = c"
    by (simp_all only: of_nat_byte of_nat_unat ucast_id)
  with 1 show ?case
    unfolding b64_digits.simps n_def [symmetric] Let_def append.simps b64_bytes.simps
    by (simp only: three_digits)
next
  case (2 a b)
  define n where "n = 1024 * unat a + 4 * unat b"
  have "n div 1024 = unat a" "n div 4 = unat b + 256 * unat a"
    using byte_less [of b] by (simp_all add: n_def)
  then have "of_nat (n div 1024) = a" "of_nat (n div 4) = b"
    by (simp_all only: of_nat_byte of_nat_unat ucast_id)
  then show ?case
    unfolding b64_digits.simps n_def [symmetric] Let_def b64_bytes.simps
    by (simp only: two_digits)
next
  case (3 a)
  define n where "n = 16 * unat a"
  have "64 * (n div 64) + n mod 64 = n" by simp
  moreover have "of_nat (n div 16) = a" by (simp add: n_def)
  ultimately show ?case
    unfolding b64_digits.simps n_def [symmetric] Let_def b64_bytes.simps by (simp only:)
next
  case 4
  then show ?case by simp
qed

lemma length_b64_digits: "length (b64_digits bs) mod 4 \<noteq> 1"
  by (induction bs rule: b64_digits.induct) (auto simp: Let_def)

lemma strip_padding_btoa: "strip_padding (btoa bs) = map b64_char (b64_digits bs)"
proof -
  let ?ds = "map b64_char (b64_digits bs)"
  have no_eq: "c \<noteq> CHR ''=''" if "c \<in> set ?ds" for c
    using that b64_char_val b64_digits_less by auto
  have "length ?ds mod 4 \<in> {0, 2, 3}"
    using length_b64_digits [of bs] by (simp; presburger)
  then consider "length ?ds mod 4 = 0" | "length ?ds mod 4 = 2" | "length ?ds mod 4 = 3" by auto
  then show ?thesis
  proof cases
    case 1
    then have "btoa bs = ?ds" by (simp add: btoa_def Let_def)
    moreover have "strip_padding ?ds = ?ds"
    proof -
      have "c \<noteq> CHR ''=''" if "rev ?ds = c # r" for c r
        using no_eq [of c] that by (metis list.set_intros(1) set_rev)
      then show ?thesis
        unfolding strip_padding_def by (cases "rev ?ds") (simp_all only: list.case if_False
          simp_thms if_cancel split: list.split if_split)
    qed
    ultimately show ?thesis by simp
  next
    case 2
    have "replicate 2 CHR ''='' = [CHR ''='', CHR ''='']" by (simp add: numeral_2_eq_2)
    with 2 have b: "btoa bs = ?ds @ [CHR ''='', CHR ''='']"
      unfolding btoa_def Let_def 2 by simp
    have "(length ?ds + 2) mod 4 = 0"
      by (subst mod_add_left_eq [symmetric]) (simp only: 2, simp)
    then show ?thesis unfolding b strip_padding_def by simp
  next
    case 3
    then have b: "btoa bs = ?ds @ [CHR ''='']" by (simp add: btoa_def Let_def)
    from 3 obtain d r where r: "rev ?ds = d # r" by (cases "rev ?ds") auto
    then have "d \<in> set ?ds" by (metis list.set_intros(1) set_rev)
    with no_eq have "d \<noteq> CHR ''=''" by blast
    have "(length ?ds + 1) mod 4 = 0"
      by (subst mod_add_left_eq [symmetric]) (simp only: 3, simp)
    then have len: "length (btoa bs) mod 4 = 0" unfolding b by simp
    have rv: "rev (btoa bs) = CHR ''='' # d # r" by (simp add: b r)
    have "strip_padding (btoa bs) = rev (d # r)"
      unfolding strip_padding_def len rv using \<open>d \<noteq> CHR ''=''\<close> by simp
    also have "rev (d # r) = ?ds" unfolding r [symmetric] by (rule rev_rev_ident)
    finally show ?thesis .
  qed
qed

lemma those_b64: "\<forall>d\<in>set ds. d < 64 \<Longrightarrow> those (map b64_val (map b64_char ds)) = Some ds"
  by (induction ds) (auto simp: b64_char_val)

lemma atob_btoa [simp]: "atob (btoa bs) = Some bs"
proof -
  have sp: "\<not> ascii_space c" if "c \<in> set (btoa bs)" for c
  proof (cases "c = CHR ''=''")
    case True
    then show ?thesis by (simp add: ascii_space_def)
  next
    case False
    with that have "c \<in> b64_char ` set (b64_digits bs)"
      by (auto simp: btoa_def Let_def)
    then show ?thesis using b64_char_val b64_digits_less by blast
  qed
  then have "filter (\<lambda>c. \<not> ascii_space c) (btoa bs) = btoa bs"
    by (simp add: filter_id_conv)
  moreover have "those (map b64_val (map b64_char (b64_digits bs))) = Some (b64_digits bs)"
    by (rule those_b64) (blast dest: b64_digits_less)
  ultimately show ?thesis
    using length_b64_digits [of bs]
    unfolding atob_def by (simp only: Let_def strip_padding_btoa length_map if_False
        option.map b64_bytes_digits)
qed

end
