(* ===== verification/Web_Crypto.thy ===== *)
theory Web_Crypto
  imports QS_Prelude
begin

text \<open>
  The WebCrypto operations the services call, as parameters: \<open>crypto.subtle\<close> is not part
  of the repository. Each operation returns \<open>None\<close> where the promise rejects. The
  predicates state documented behaviour: SHA-256 gives 32 bytes; PBKDF2 gives the number
  of bits asked for; AES-GCM with a 32-byte key and a 12-byte IV appends a 16-byte tag,
  decrypts what it encrypted, and decrypts nothing else (for one key and IV the tag is a
  function of the ciphertext).
\<close>

record webcrypto =
  wc_sha256 :: "bytes \<Rightarrow> bytes option"
  wc_pbkdf2 :: "bytes \<Rightarrow> bytes \<Rightarrow> nat \<Rightarrow> nat \<Rightarrow> bytes option"
  wc_seal :: "bytes \<Rightarrow> bytes \<Rightarrow> bytes \<Rightarrow> bytes option"
  wc_open :: "bytes \<Rightarrow> bytes \<Rightarrow> bytes \<Rightarrow> bytes option"
  wc_rsa_oaep :: "bytes \<Rightarrow> bytes \<Rightarrow> bytes option"

definition sha_documented :: "webcrypto \<Rightarrow> bool" where
  "sha_documented wc = (\<forall>x. \<exists>d. wc_sha256 wc x = Some d \<and> length d = 32)"

definition pbkdf2_documented :: "webcrypto \<Rightarrow> bool" where
  "pbkdf2_documented wc =
     (\<forall>p s n b. \<exists>d. wc_pbkdf2 wc p s n b = Some d \<and> length d = b div 8)"

definition gcm_documented :: "webcrypto \<Rightarrow> bool" where
  "gcm_documented wc =
     (\<forall>k iv p. length k = 32 \<longrightarrow> length iv = 12 \<longrightarrow>
        (\<exists>c. wc_seal wc k iv p = Some c \<and> length c = length p + 16 \<and> wc_open wc k iv c = Some p))"

lemma sha_documentedE:
  assumes "sha_documented wc"
  obtains d where "wc_sha256 wc x = Some d" and "length d = 32"
  using assms by (auto simp: sha_documented_def)

lemma pbkdf2_documentedE:
  assumes "pbkdf2_documented wc"
  obtains d where "wc_pbkdf2 wc p s n b = Some d" and "length d = b div 8"
  using assms unfolding pbkdf2_documented_def by blast

lemma gcm_documentedE:
  assumes "gcm_documented wc" and "length k = 32" and "length iv = 12"
  obtains c where "wc_seal wc k iv p = Some c" and "length c = length p + 16"
    and "wc_open wc k iv c = Some p"
  using assms unfolding gcm_documented_def by blast

text \<open>A concrete instance, for the witnesses: a checksum for a hash, a constant tag.\<close>

definition demo_crypto :: webcrypto where
  "demo_crypto = \<lparr>
     wc_sha256 = (\<lambda>x. Some (replicate 32 (fold (+) x 1))),
     wc_pbkdf2 = (\<lambda>p s n b. Some (replicate (b div 8) (of_nat (length p + length s)))),
     wc_seal = (\<lambda>k iv p. Some (p @ replicate 16 (fold (+) p 7))),
     wc_open = (\<lambda>k iv c. let p = take (length c - 16) c in
        if drop (length c - 16) c = replicate 16 (fold (+) p 7) then Some p else None),
     wc_rsa_oaep = (\<lambda>k p. Some p)\<rparr>"

lemma demo_sha: "sha_documented demo_crypto"
  by (simp add: sha_documented_def demo_crypto_def)

lemma demo_pbkdf2: "pbkdf2_documented demo_crypto"
  by (simp add: pbkdf2_documented_def demo_crypto_def)

lemma demo_gcm: "gcm_documented demo_crypto"
  by (simp add: gcm_documented_def demo_crypto_def)

end
