(* ===== verification/Recovery_Phrase.thy ===== *)
theory Recovery_Phrase
  imports Bip39_Wordlist Bit_Packing Hex_Codec Text_Codec Web_Crypto Web_Storage
begin

unbundle bit_operations_syntax

text \<open>
  \<open>services/vault/recoveryPhrase.ts\<close>: the 24-word recovery phrase. The bit loops work on
  \<open>Uint8Array\<close>s in place; here each returns the updated byte list. \<open>crypto.subtle\<close> is the
  record \<open>webcrypto\<close>, random bytes are arguments, \<open>localStorage\<close> is the key/value store of
  \<open>Web_Storage\<close>. Errors are values: an operation that throws returns \<open>Inl\<close>.
\<close>

subsection \<open>Configuration and data\<close>

definition WORD_COUNT :: nat where "WORD_COUNT = 24"
definition ENTROPY_BITS :: nat where "ENTROPY_BITS = 256"
definition PBKDF2_ITERATIONS :: nat where "PBKDF2_ITERATIONS = 2048"
definition IV_LENGTH :: nat where "IV_LENGTH = 12"
definition SALT :: string where "SALT = ''mnemonic''"

definition RECOVERY_PHRASE_HASH :: string where
  "RECOVERY_PHRASE_HASH = ''usbvault_recovery_phrase_hash''"
definition ENCRYPTED_MASTER_KEY :: string where
  "ENCRYPTED_MASTER_KEY = ''usbvault_encrypted_master_key''"
definition ESCROW_CONTACT :: string where
  "ESCROW_CONTACT = ''usbvault_escrow_contact''"

datatype mnemonic_error =
    WrongCount nat
  | UnknownWord string nat
  | BadChecksum

datatype rp_error =
    InvalidMnemonic "mnemonic_error list"
  | CryptoRejected
  | NotBase64
  | NotJson
  | Failed string rp_error

record validation_result =
  valid :: bool
  errors :: "mnemonic_error list"

record encrypted_blob =
  blob_iv :: string
  blob_ciphertext :: string
  blob_tag :: string
  blob_salt :: string

record trusted_contact =
  tc_email :: string
  tc_shard :: string
  tc_created :: string

subsection \<open>Bit loops\<close>

definition set_bit1 :: "bytes \<Rightarrow> nat \<Rightarrow> bool \<Rightarrow> bytes" where
  "set_bit1 data pos b =
     (let byteIndex = pos div 8; bitOffset = 7 - pos mod 8 in
      if b then data[byteIndex := byte_at data byteIndex OR push_bit bitOffset 1]
      else data[byteIndex := byte_at data byteIndex AND NOT (push_bit bitOffset 1)])"

definition set_bits :: "bytes \<Rightarrow> nat \<Rightarrow> nat \<Rightarrow> nat \<Rightarrow> bytes" where
  "set_bits data startBit len v =
     fold (\<lambda>i d. set_bit1 d (startBit + i) (bit v (len - 1 - i))) [0..<len] data"

definition extract_bits :: "bytes \<Rightarrow> nat \<Rightarrow> nat \<Rightarrow> nat" where
  "extract_bits data startBit len =
     fold (\<lambda>i result. push_bit 1 result OR of_bool (bit_at data (startBit + i))) [0..<len] 0"

definition combine_bits_to_bytes :: "bytes \<Rightarrow> bytes \<Rightarrow> nat \<Rightarrow> bytes" where
  "combine_bits_to_bytes entropy checksum checksumBits =
     (let totalBits = length entropy * 8 + checksumBits;
          c0 = replicate ((totalBits + 7) div 8) 0;
          c1 = fold (\<lambda>i c. set_bits c (8 * i) 8 (unat (entropy ! i))) [0..<length entropy] c0
      in fold (\<lambda>i c. set_bits c (8 * length entropy + i) 1 (of_bool (bit_at checksum i)))
           [0..<checksumBits] c1)"

subsection \<open>Generation and validation\<close>

definition generate_mnemonic :: "webcrypto \<Rightarrow> bytes \<Rightarrow> rp_error + string list" where
  "generate_mnemonic wc entropy =
     (case wc_sha256 wc entropy of
        None \<Rightarrow> Inl (Failed ''Failed to generate mnemonic'' CryptoRejected)
      | Some h \<Rightarrow>
          (let checksumBits = ENTROPY_BITS div 32;
               checksum = take ((checksumBits + 7) div 8) h;
               combined = combine_bits_to_bytes entropy checksum checksumBits
           in Inr (map (\<lambda>i. BIP39_ENGLISH_WORDLIST ! extract_bits combined (i * 11) 11)
                [0..<WORD_COUNT])))"

text \<open>\<open>indexOf\<close> is -1 for a missing word, all of whose bits are set.\<close>

definition word_index :: "string \<Rightarrow> int" where
  "word_index w = (case find_index (\<lambda>x. x = w) BIP39_ENGLISH_WORDLIST of
     None \<Rightarrow> -1 | Some i \<Rightarrow> int i)"

definition word_bits :: "string list \<Rightarrow> bool list" where
  "word_bits ws = concat (map (\<lambda>w. map (\<lambda>i. bit (word_index w) (10 - i)) [0..<11]) ws)"

definition decode_entropy :: "bool list \<Rightarrow> bytes" where
  "decode_entropy bs =
     fold (\<lambda>i e. if flag_at bs i
             then e[i div 8 := byte_at e (i div 8) OR push_bit (7 - i mod 8) 1] else e)
       [0..<ENTROPY_BITS] (replicate (ENTROPY_BITS div 8) 0)"

definition validate_checksum :: "webcrypto \<Rightarrow> string list \<Rightarrow> bool" where
  "validate_checksum wc ws =
     (let bs = word_bits ws in
      case wc_sha256 wc (decode_entropy bs) of
        None \<Rightarrow> False
      | Some h \<Rightarrow> list_all (\<lambda>i. bit_at h i = flag_at bs (ENTROPY_BITS + i)) [0..<ENTROPY_BITS div 32])"

definition validate_mnemonic :: "webcrypto \<Rightarrow> string list \<Rightarrow> validation_result" where
  "validate_mnemonic wc ws =
     (let e1 = (if length ws \<noteq> WORD_COUNT then [WrongCount (length ws)] else []);
          e2 = e1 @ concat (map (\<lambda>(i, w). if w \<in> set BIP39_ENGLISH_WORDLIST then []
                  else [UnknownWord w i]) (enumerate 0 ws));
          e3 = e2 @ (if length ws = WORD_COUNT \<and> e2 = [] \<and> \<not> validate_checksum wc ws
                then [BadChecksum] else [])
      in \<lparr>valid = (e3 = []), errors = e3\<rparr>)"

subsection \<open>Key encryption\<close>

definition join_words :: "string list \<Rightarrow> string" where
  "join_words ws = concat (case ws of [] \<Rightarrow> [] | w # r \<Rightarrow> w # map (\<lambda>x. '' '' @ x) r)"

definition mnemonic_to_seed ::
  "webcrypto \<Rightarrow> string list \<Rightarrow> string \<Rightarrow> rp_error + bytes" where
  "mnemonic_to_seed wc ws passphrase =
     (let v = validate_mnemonic wc ws in
      if \<not> valid v then Inl (Failed ''Failed to derive seed'' (InvalidMnemonic (errors v)))
      else case wc_pbkdf2 wc (utf8_encode (join_words ws)) (utf8_encode (SALT @ passphrase))
             PBKDF2_ITERATIONS 512 of
          None \<Rightarrow> Inl (Failed ''Failed to derive seed'' CryptoRejected)
        | Some seed \<Rightarrow> Inr seed)"

definition encrypt_master_key ::
  "webcrypto \<Rightarrow> bytes \<Rightarrow> bytes \<Rightarrow> string list \<Rightarrow> string \<Rightarrow> rp_error + encrypted_blob stored" where
  "encrypt_master_key wc iv masterKey ws passphrase =
     (case mnemonic_to_seed wc ws passphrase of
        Inl e \<Rightarrow> Inl (Failed ''Failed to encrypt master key'' e)
      | Inr seed \<Rightarrow>
          (case wc_seal wc (take 32 seed) iv masterKey of
             None \<Rightarrow> Inl (Failed ''Failed to encrypt master key'' CryptoRejected)
           | Some ct \<Rightarrow> Inr (Json
               \<lparr>blob_iv = btoa iv,
                blob_ciphertext = btoa (take (length ct - 16) ct),
                blob_tag = btoa (drop (length ct - 16) ct),
                blob_salt = SALT\<rparr>)))"

definition decrypt_master_key ::
  "webcrypto \<Rightarrow> encrypted_blob stored \<Rightarrow> string list \<Rightarrow> string \<Rightarrow> rp_error + bytes" where
  "decrypt_master_key wc doc ws passphrase =
     (case doc of
        Garbled \<Rightarrow> Inl (Failed ''Failed to decrypt master key'' NotJson)
      | Json blob \<Rightarrow>
          (case (atob (blob_iv blob), atob (blob_ciphertext blob), atob (blob_tag blob)) of
             (Some iv, Some ct, Some tag) \<Rightarrow>
               (case mnemonic_to_seed wc ws passphrase of
                  Inl e \<Rightarrow> Inl (Failed ''Failed to decrypt master key'' e)
                | Inr seed \<Rightarrow>
                    (case wc_open wc (take 32 seed) iv (ct @ tag) of
                       None \<Rightarrow> Inl (Failed ''Failed to decrypt master key'' CryptoRejected)
                     | Some key \<Rightarrow> Inr key))
           | _ \<Rightarrow> Inl (Failed ''Failed to decrypt master key'' NotBase64)))"

subsection \<open>Stored phrase hash, escrow contact\<close>

datatype rp_cell = TextCell string | ContactCell trusted_contact

type_synonym rp_store = "rp_cell local_storage"

definition phrase_hash_hex :: "webcrypto \<Rightarrow> string list \<Rightarrow> string option" where
  "phrase_hash_hex wc ws = map_option bytes_to_hex (wc_sha256 wc (utf8_encode (join_words ws)))"

definition store_phrase_hash ::
  "webcrypto \<Rightarrow> string list \<Rightarrow> rp_store \<Rightarrow> rp_error + rp_store" where
  "store_phrase_hash wc ws st =
     (case phrase_hash_hex wc ws of
        None \<Rightarrow> Inl (Failed ''Failed to store phrase hash'' CryptoRejected)
      | Some h \<Rightarrow> Inr (ls_set RECOVERY_PHRASE_HASH (TextCell h) st))"

definition verify_phrase_hash :: "webcrypto \<Rightarrow> string list \<Rightarrow> rp_store \<Rightarrow> bool" where
  "verify_phrase_hash wc ws st =
     (case ls_get RECOVERY_PHRASE_HASH st of
        Some (TextCell (c # cs)) \<Rightarrow>
          (case phrase_hash_hex wc ws of None \<Rightarrow> False | Some h \<Rightarrow> h = c # cs)
      | Some (ContactCell _) \<Rightarrow> False
      | _ \<Rightarrow> False)"

definition has_recovery_phrase :: "rp_store \<Rightarrow> bool" where
  "has_recovery_phrase st =
     (case ls_get RECOVERY_PHRASE_HASH st of
        None \<Rightarrow> False | Some (TextCell s) \<Rightarrow> s \<noteq> [] | Some (ContactCell _) \<Rightarrow> True)"

definition clear_recovery_data :: "rp_store \<Rightarrow> rp_store" where
  "clear_recovery_data st =
     fold ls_remove [RECOVERY_PHRASE_HASH, ENCRYPTED_MASTER_KEY, ESCROW_CONTACT] st"

fun split_lines :: "string \<Rightarrow> string list" where
  "split_lines [] = [[]]"
| "split_lines (c # cs) =
     (if c = CHR 0x0A then [] # split_lines cs
      else case split_lines cs of [] \<Rightarrow> [[c]] | l # ls \<Rightarrow> (c # l) # ls)"

definition pem_to_binary :: "string \<Rightarrow> bytes option" where
  "pem_to_binary pem = atob (concat (filter (\<lambda>l. \<not> has_infix ''-----'' l) (split_lines pem)))"

definition create_escrow_shard ::
  "webcrypto \<Rightarrow> string list \<Rightarrow> string \<Rightarrow> rp_error + string" where
  "create_escrow_shard wc ws contactPublicKey =
     (case pem_to_binary contactPublicKey of
        None \<Rightarrow> Inl (Failed ''Failed to create escrow shard'' NotBase64)
      | Some spki \<Rightarrow>
          (case wc_rsa_oaep wc spki (utf8_encode (join_words ws)) of
             None \<Rightarrow> Inl (Failed ''Failed to create escrow shard'' CryptoRejected)
           | Some c \<Rightarrow> Inr (btoa c)))"

definition set_trusted_contact :: "string \<Rightarrow> string \<Rightarrow> string \<Rightarrow> rp_store \<Rightarrow> rp_store" where
  "set_trusted_contact now email shard st =
     ls_set ESCROW_CONTACT
       (ContactCell \<lparr>tc_email = email, tc_shard = shard, tc_created = now\<rparr>) st"

definition get_trusted_contact :: "rp_store \<Rightarrow> (string \<times> string) option" where
  "get_trusted_contact st =
     (case ls_get ESCROW_CONTACT st of
        Some (ContactCell c) \<Rightarrow> Some (tc_email c, tc_created c)
      | _ \<Rightarrow> None)"

subsection \<open>The bit loops against the reference packing\<close>

lemma bit_byte_ops:
  fixes x :: byte
  assumes "j < 8" and "k < 8"
  shows "bit (x OR push_bit k 1) j \<longleftrightarrow> bit x j \<or> j = k"
    and "bit (x AND NOT (push_bit k 1)) j \<longleftrightarrow> bit x j \<and> j \<noteq> k"
  using assms by (auto simp: bit_simps)

lemma length_set_bit1 [simp]: "length (set_bit1 d p b) = length d"
  by (simp add: set_bit1_def Let_def)

lemma bit_pos_eq:
  fixes p q :: nat
  assumes "q div 8 = p div 8"
  shows "7 - q mod 8 = 7 - p mod 8 \<longleftrightarrow> q = p"
proof
  assume "7 - q mod 8 = 7 - p mod 8"
  moreover have "q mod 8 < 8" "p mod 8 < 8" by simp_all
  ultimately have "q mod 8 = p mod 8" by linarith
  with assms show "q = p" by (metis div_mult_mod_eq)
qed simp

lemma bit_at_set_bit1:
  "bit_at (set_bit1 d p b) q = (if q = p \<and> p < 8 * length d then b else bit_at d q)"
proof (cases "p div 8 < length d")
  case False
  then have "\<not> p < 8 * length d" and "set_bit1 d p b = d"
    by (auto simp: set_bit1_def Let_def list_update_beyond)
  then show ?thesis by simp
next
  case True
  then have p: "p < 8 * length d" by (simp add: div_less_iff_less_mult mult.commute)
  show ?thesis
  proof (cases "q div 8 = p div 8")
    case False
    then have "byte_at (set_bit1 d p b) (q div 8) = byte_at d (q div 8)" and "q \<noteq> p"
      by (auto simp: set_bit1_def byte_at_def Let_def)
    then show ?thesis by (simp add: bit_at_def)
  next
    case same: True
    have "byte_at (set_bit1 d p b) (p div 8) =
        (if b then byte_at d (p div 8) OR push_bit (7 - p mod 8) 1
         else byte_at d (p div 8) AND NOT (push_bit (7 - p mod 8) 1))"
      using True by (simp add: set_bit1_def byte_at_def Let_def)
    then show ?thesis
      using same bit_pos_eq [OF same] p
      by (auto simp: bit_at_def bit_byte_ops [unfolded push_bit_of_1])
  qed
qed

lemma bit_at_beyond: "8 * length d \<le> q \<Longrightarrow> \<not> bit_at d q"
  by (simp add: bit_at_def byte_at_def div_less_iff_less_mult not_less mult.commute)

lemma length_set_bits [simp]: "length (set_bits d s n v) = length d"
proof -
  have "length (fold (\<lambda>i d. set_bit1 d (s + i) (f i)) is d) = length d" for f "is"
    by (induction "is" arbitrary: d) simp_all
  then show ?thesis by (simp add: set_bits_def)
qed

lemma bit_at_set_bits:
  "bit_at (set_bits d s n v) q =
     (if s \<le> q \<and> q < s + n \<and> q < 8 * length d then bit v (n - 1 - (q - s)) else bit_at d q)"
proof -
  have "bit_at (fold (\<lambda>i d. set_bit1 d (s + i) (f i)) [0..<m] d) q =
      (if s \<le> q \<and> q < s + m \<and> q < 8 * length d then f (q - s) else bit_at d q) \<and>
      length (fold (\<lambda>i d. set_bit1 d (s + i) (f i)) [0..<m] d) = length d" for f m
    by (induction m) (auto simp: bit_at_set_bit1)
  then show ?thesis by (simp add: set_bits_def)
qed

lemma extract_bits_val:
  "extract_bits d s n = bits_val (map (bit_at d) [s..<s + n])"
proof (induction n)
  case 0
  then show ?case by (simp add: extract_bits_def)
next
  case (Suc n)
  have "push_bit 1 r OR of_bool b = 2 * r + of_bool b" for r :: nat and b
    by (cases b) (simp_all add: push_bit_eq_mult or_Suc_0_eq)
  with Suc show ?case
    by (simp add: extract_bits_def bits_val_snoc)
qed

lemma bit_at_combined:
  "bit_at (combine_bits_to_bytes e c n) q =
     (if q < 8 * length e then bit_at e q
      else if q < 8 * length e + n then bit_at c (q - 8 * length e) else False)"
proof -
  define tb where "tb = (length e * 8 + n + 7) div 8"
  define c0 :: bytes where "c0 = replicate tb 0"
  have tb: "8 * length e + n \<le> 8 * tb" by (simp add: tb_def)
  have z: "\<not> bit_at c0 q" for q
    by (simp add: bit_at_def byte_at_def c0_def)
  define c1 where "c1 m = fold (\<lambda>i c. set_bits c (8 * i) 8 (unat (e ! i))) [0..<m] c0" for m
  have c1: "m \<le> length e \<Longrightarrow> length (c1 m) = tb \<and>
      bit_at (c1 m) q = (q < 8 * m \<and> bit_at e q)" for m q
  proof (induction m)
    case 0
    then show ?case by (simp add: c1_def z) (simp add: c0_def)
  next
    case (Suc m)
    have "bit (unat (e ! m)) (8 - 1 - (q - 8 * m)) = bit_at e q" if "8 * m \<le> q" "q < 8 * m + 8"
    proof -
      have "q div 8 = m" "q mod 8 = q - 8 * m" using that by (auto simp: div_nat_eqI mod_nat_eqI)
      then show ?thesis
        using Suc.prems by (simp add: bit_at_def byte_at_def bit_unsigned_iff)
    qed
    moreover have "c1 (Suc m) = set_bits (c1 m) (8 * m) 8 (unat (e ! m))"
      by (simp add: c1_def)
    ultimately show ?case
      using Suc tb by (auto simp: bit_at_set_bits)
  qed
  define c2 where "c2 m = fold (\<lambda>i d. set_bits d (8 * length e + i) 1 (of_bool (bit_at c i)))
    [0..<m] (c1 (length e))" for m
  have c2: "m \<le> n \<Longrightarrow> length (c2 m) = tb \<and> bit_at (c2 m) q =
      (if q < 8 * length e then bit_at e q
       else if q < 8 * length e + m then bit_at c (q - 8 * length e) else False)" for m q
  proof (induction m)
    case 0
    then show ?case using c1 [of "length e" q] by (simp add: c2_def)
  next
    case (Suc m)
    have "c2 (Suc m) = set_bits (c2 m) (8 * length e + m) 1 (of_bool (bit_at c m))"
      by (simp add: c2_def)
    moreover have "8 * length e + m \<le> q \<and> q < 8 * length e + m + 1 \<longleftrightarrow> q = 8 * length e + m"
      by linarith
    ultimately show ?case
      using Suc tb by (cases "q = 8 * length e + m") (auto simp: bit_at_set_bits bit_simps)
  qed
  have "combine_bits_to_bytes e c n = c2 n"
    by (simp add: combine_bits_to_bytes_def c2_def c1_def c0_def tb_def Let_def)
  with c2 [of n q] show ?thesis by simp
qed

lemma bytes_eqI:
  assumes "length as = length bs" and "\<And>q. q < 8 * length bs \<Longrightarrow> bit_at as q = bit_at bs q"
  shows "as = bs"
proof -
  have "bytes_bits as = bytes_bits bs"
    using assms unfolding bytes_bits_conv by (intro map_cong) auto
  then show ?thesis by (simp add: bytes_bits_inject)
qed

lemma decode_entropy_bits:
  "length (decode_entropy bs) = 32 \<and> bit_at (decode_entropy bs) q = (q < 256 \<and> flag_at bs q)"
proof -
  define dec where "dec m = fold (\<lambda>i e. if flag_at bs i then set_bit1 e i True else e) [0..<m]
      (replicate 32 0)" for m
  have "decode_entropy bs = dec 256"
    by (simp add: decode_entropy_def dec_def set_bit1_def ENTROPY_BITS_def Let_def cong: if_cong)
  moreover have "m \<le> 256 \<Longrightarrow> length (dec m) = 32 \<and> bit_at (dec m) q = (q < m \<and> flag_at bs q)" for m
  proof (induction m)
    case 0
    then show ?case by (simp add: dec_def bit_at_def byte_at_def)
  next
    case (Suc m)
    have "dec (Suc m) = (if flag_at bs m then set_bit1 (dec m) m True else dec m)"
      by (simp add: dec_def)
    with Suc show ?case by (auto simp: bit_at_set_bit1 less_Suc_eq)
  qed
  ultimately show ?thesis by simp
qed

subsection \<open>Word indices\<close>

text \<open>
  What the phrase code relies on in its dictionary: as many words as 11 bits can name, none
  twice. Then a word and its index determine each other.
\<close>

locale dictionary =
  fixes words :: "string list"
  assumes size: "length words = 2 ^ 11" and distinct_words: "distinct words"
begin

lemma find_nth: "k < 2 ^ 11 \<Longrightarrow> find_index (\<lambda>x. x = words ! k) words = Some k"
proof -
  assume k: "k < 2 ^ 11"
  then have mem: "words ! k \<in> set words" by (simp add: size)
  then obtain i where i: "find_index (\<lambda>x. x = words ! k) words = Some i"
    using find_index_None [of "\<lambda>x. x = words ! k" words] by auto
  from find_index_Some [OF i] have "i = k"
    using k distinct_words by (auto simp: size nth_eq_iff_index_eq)
  with i show ?thesis by simp
qed

lemma find_member: "w \<in> set words \<Longrightarrow> \<exists>k < 2 ^ 11. w = words ! k"
  by (metis in_set_conv_nth size)

end

interpretation bip39: dictionary BIP39_ENGLISH_WORDLIST
  by unfold_locales (simp_all add: length_wordlist distinct_wordlist)

lemma word_index_nth: "k < 2048 \<Longrightarrow> word_index (BIP39_ENGLISH_WORDLIST ! k) = int k"
  using bip39.find_nth [of k] by (simp add: word_index_def)

lemma word_bits_nth:
  "k < 2048 \<Longrightarrow> word_bits [BIP39_ENGLISH_WORDLIST ! k] = msb_bits 11 k"
  by (simp add: word_bits_def word_index_nth msb_bits_def bit_of_nat_iff)

lemma word_bits_Cons: "word_bits (w # ws) = word_bits [w] @ word_bits ws"
  by (simp add: word_bits_def)

lemma length_word_bits: "length (word_bits ws) = 11 * length ws"
  by (induction ws) (simp_all add: word_bits_def)

lemma word_bits_conv: "word_bits ws = concat (map (\<lambda>w. word_bits [w]) ws)"
  by (simp add: word_bits_def)

subsection \<open>Generated phrases and valid phrases\<close>

definition phrase_of :: "bytes \<Rightarrow> bytes \<Rightarrow> string list" where
  "phrase_of e h = map (\<lambda>i. BIP39_ENGLISH_WORDLIST !
     extract_bits (combine_bits_to_bytes e (take 1 h) 8) (i * 11) 11) [0..<24]"

definition phrase_bits :: "bytes \<Rightarrow> bytes \<Rightarrow> bool list" where
  "phrase_bits e h = map (bit_at (combine_bits_to_bytes e (take 1 h) 8)) [0..<264]"

lemma generate_mnemonic_eq:
  "wc_sha256 wc e = Some h \<Longrightarrow> generate_mnemonic wc e = Inr (phrase_of e h)"
  by (simp add: generate_mnemonic_def phrase_of_def ENTROPY_BITS_def WORD_COUNT_def)

lemma extract_bits_less: "extract_bits d s 11 < 2048"
  using bits_val_less [of "map (bit_at d) [s..<s + 11]"] by (simp add: extract_bits_val)

lemma word_bits_phrase: "word_bits (phrase_of e h) = phrase_bits e h"
proof -
  let ?c = "combine_bits_to_bytes e (take 1 h) 8"
  have "word_bits [BIP39_ENGLISH_WORDLIST ! extract_bits ?c s 11] = map (bit_at ?c) [s..<s + 11]"
    for s
    using msb_bits_bits_val [of "map (bit_at ?c) [s..<s + 11]"]
    by (simp add: word_bits_nth [OF extract_bits_less]) (simp add: extract_bits_val)
  then have "word_bits (phrase_of e h) =
      concat (map (\<lambda>i. map (bit_at ?c) [i * 11..<i * 11 + 11]) [0..<24])"
    by (subst word_bits_conv) (simp add: phrase_of_def comp_def)
  also have "\<dots> = concat (map (\<lambda>i. take 11 (drop (11 * i) (phrase_bits e h))) [0..<24])"
    by (intro arg_cong [where f = concat] map_cong)
      (auto simp: phrase_bits_def drop_map take_map mult.commute)
  also have "\<dots> = phrase_bits e h"
    by (rule concat_groups) (simp add: phrase_bits_def)
  finally show ?thesis .
qed

lemma flag_phrase_bits:
  assumes "length e = 32" and "length h = 32"
  shows "flag_at (phrase_bits e h) q =
    (if q < 256 then bit_at e q else if q < 264 then bit_at h (q - 256) else False)"
proof -
  have "bit_at (take 1 h) j = bit_at h j" if "j < 8" for j
    using that assms(2) by (simp add: bit_at_def byte_at_def)
  with assms(1) show ?thesis
    by (auto simp: flag_at_def phrase_bits_def bit_at_combined)
qed

lemma decode_phrase:
  assumes "length e = 32" and "length h = 32"
  shows "decode_entropy (phrase_bits e h) = e"
  by (rule bytes_eqI) (use assms decode_entropy_bits in \<open>auto simp: flag_phrase_bits\<close>)

lemma phrase_words: "set (phrase_of e h) \<subseteq> set BIP39_ENGLISH_WORDLIST"
  using extract_bits_less by (auto simp: phrase_of_def length_wordlist intro!: nth_mem)

lemma unknown_words_Nil:
  "concat (map (\<lambda>(i, w). if w \<in> D then [] else [UnknownWord w i]) (enumerate n ws)) = []
     \<longleftrightarrow> set ws \<subseteq> D"
  by (induction ws arbitrary: n) auto

lemma valid_iff:
  "valid (validate_mnemonic wc ws) \<longleftrightarrow>
     length ws = 24 \<and> set ws \<subseteq> set BIP39_ENGLISH_WORDLIST \<and> validate_checksum wc ws"
  using unknown_words_Nil [of "set BIP39_ENGLISH_WORDLIST" 0 ws]
  by (auto simp: validate_mnemonic_def Let_def WORD_COUNT_def split: if_splits)

lemma validate_shape: "\<exists>es. validate_mnemonic wc ws = \<lparr>valid = (es = []), errors = es\<rparr>"
  unfolding validate_mnemonic_def Let_def by blast

lemma generated_valid:
  assumes "sha_documented wc" and "length e = 32" and "generate_mnemonic wc e = Inr ws"
  shows "valid (validate_mnemonic wc ws)" and "decode_entropy (word_bits ws) = e"
proof -
  obtain h where h: "wc_sha256 wc e = Some h" "length h = 32"
    using sha_documentedE [OF assms(1)] .
  have ws: "ws = phrase_of e h" using assms(3) generate_mnemonic_eq [OF h(1)] by simp
  show dec: "decode_entropy (word_bits ws) = e"
    by (simp add: ws word_bits_phrase decode_phrase [OF assms(2) h(2)])
  have "validate_checksum wc ws"
    unfolding validate_checksum_def Let_def dec
    by (simp add: ws h(1) word_bits_phrase flag_phrase_bits [OF assms(2) h(2)] ENTROPY_BITS_def
        list_all_iff)
  then show "valid (validate_mnemonic wc ws)"
    using phrase_words by (simp add: valid_iff) (simp add: ws phrase_of_def)
qed

lemma valid_generated:
  assumes "sha_documented wc" and "valid (validate_mnemonic wc ws)"
  shows "generate_mnemonic wc (decode_entropy (word_bits ws)) = Inr ws"
proof -
  define e where "e = decode_entropy (word_bits ws)"
  obtain h where h: "wc_sha256 wc e = Some h" "length h = 32"
    using sha_documentedE [OF assms(1)] .
  have len: "length ws = 24" and inD: "set ws \<subseteq> set BIP39_ENGLISH_WORDLIST"
    and chk: "validate_checksum wc ws"
    using assms(2) by (auto simp: valid_iff)
  have le: "length e = 32" and be: "\<And>q. bit_at e q = (q < 256 \<and> flag_at (word_bits ws) q)"
    using decode_entropy_bits by (auto simp: e_def)
  have sum: "bit_at h i = flag_at (word_bits ws) (256 + i)" if "i < 8" for i
    using chk h that by (auto simp: validate_checksum_def Let_def e_def ENTROPY_BITS_def list_all_iff)
  have "phrase_bits e h = word_bits ws"
  proof (rule nth_equalityI)
    show "length (phrase_bits e h) = length (word_bits ws)"
      by (simp add: phrase_bits_def length_word_bits len)
    fix q assume q: "q < length (phrase_bits e h)"
    have "flag_at (phrase_bits e h) q = flag_at (word_bits ws) q"
      using flag_phrase_bits [OF le h(2), of q] be [of q] sum [of "q - 256"] q
      by (auto simp: phrase_bits_def)
    with q show "phrase_bits e h ! q = word_bits ws ! q"
      by (simp add: flag_at_def phrase_bits_def length_word_bits len)
  qed
  then have wb: "word_bits (phrase_of e h) = word_bits ws"
    by (simp add: word_bits_phrase)
  have "phrase_of e h = ws"
  proof (rule nth_equalityI)
    show "length (phrase_of e h) = length ws" by (simp add: phrase_of_def len)
    fix i assume i: "i < length (phrase_of e h)"
    then have i24: "i < 24" by (simp add: phrase_of_def)
    have grp: "take 11 (drop (11 * i) (word_bits us)) = word_bits [us ! i]" if "length us = 24" for us
      using take_drop_concat [of "map (\<lambda>w. word_bits [w]) us" 11 i] that i24
      by (simp add: word_bits_conv [of us] length_word_bits)
    have lp: "length (phrase_of e h) = 24" by (simp add: phrase_of_def)
    have mem: "ws ! i \<in> set ws" "phrase_of e h ! i \<in> set (phrase_of e h)"
      using i i24 len by simp_all
    obtain k where k: "k < 2 ^ 11" "ws ! i = BIP39_ENGLISH_WORDLIST ! k"
      using bip39.find_member [OF subsetD [OF inD mem(1)]] by blast
    obtain j where j: "j < 2 ^ 11" "phrase_of e h ! i = BIP39_ENGLISH_WORDLIST ! j"
      using bip39.find_member [OF subsetD [OF phrase_words mem(2)]] by blast
    have "word_bits [phrase_of e h ! i] = word_bits [ws ! i]"
      using grp [OF len] grp [OF lp] wb by (simp only:)
    then have "msb_bits 11 j = msb_bits 11 k"
      using j k by (simp add: word_bits_nth)
    then have "j mod 2 ^ 11 = k mod 2 ^ 11"
      by (metis bits_val_msb_bits)
    then have "j = k"
      using j(1) k(1) by (simp only: mod_less)
    then show "phrase_of e h ! i = ws ! i" using j(2) k(2) by simp
  qed
  with generate_mnemonic_eq [OF h(1)] show ?thesis by (simp add: e_def)
qed

subsection \<open>Keys, hashes and contacts\<close>

lemma seed_of_valid:
  assumes "pbkdf2_documented wc" and "valid (validate_mnemonic wc ws)"
  obtains seed where "mnemonic_to_seed wc ws pp = Inr seed" and "length (take 32 seed) = 32"
proof -
  obtain d where "wc_pbkdf2 wc (utf8_encode (join_words ws)) (utf8_encode (SALT @ pp))
      PBKDF2_ITERATIONS 512 = Some d" "length d = 512 div 8"
    by (rule pbkdf2_documentedE [OF assms(1)])
  with assms(2) that [of d] show ?thesis by (simp add: mnemonic_to_seed_def Let_def)
qed

lemma key_roundtrip:
  assumes "pbkdf2_documented wc" and "gcm_documented wc"
    and "valid (validate_mnemonic wc ws)" and "length iv = IV_LENGTH"
  shows "\<exists>blob. encrypt_master_key wc iv key ws pp = Inr blob \<and>
    decrypt_master_key wc blob ws pp = Inr key"
proof -
  obtain seed where seed: "mnemonic_to_seed wc ws pp = Inr seed" "length (take 32 seed) = 32"
    by (rule seed_of_valid [OF assms(1,3)])
  obtain c where c: "wc_seal wc (take 32 seed) iv key = Some c"
    "wc_open wc (take 32 seed) iv c = Some key"
    using gcm_documentedE [OF assms(2) seed(2)] assms(4) by (metis IV_LENGTH_def)
  show ?thesis
    by (simp add: encrypt_master_key_def decrypt_master_key_def seed(1) c)
qed

lemma invalid_phrase_fails:
  assumes "\<not> valid (validate_mnemonic wc ws)"
  shows "\<exists>e. encrypt_master_key wc iv key ws pp = Inl e"
    and "\<exists>e. decrypt_master_key wc doc ws pp = Inl e"
  using assms
  by (auto simp: encrypt_master_key_def decrypt_master_key_def mnemonic_to_seed_def Let_def
      split: stored.split option.split)

lemma hash_hex_nonempty:
  assumes "sha_documented wc"
  obtains d where "wc_sha256 wc (utf8_encode (join_words ws)) = Some d" and "d \<noteq> []"
    and "phrase_hash_hex wc ws = Some (bytes_to_hex d)"
proof -
  obtain d where d: "wc_sha256 wc (utf8_encode (join_words ws)) = Some d" "length d = 32"
    by (rule sha_documentedE [OF assms])
  show ?thesis by (rule that [of d]) (use d in \<open>auto simp: phrase_hash_hex_def\<close>)
qed

lemma verify_stored:
  assumes "sha_documented wc" and "store_phrase_hash wc ws st = Inr st'"
  shows "verify_phrase_hash wc ws' st' \<longleftrightarrow>
    wc_sha256 wc (utf8_encode (join_words ws')) = wc_sha256 wc (utf8_encode (join_words ws))"
proof -
  obtain d where d: "wc_sha256 wc (utf8_encode (join_words ws)) = Some d" "d \<noteq> []"
    "phrase_hash_hex wc ws = Some (bytes_to_hex d)"
    by (rule hash_hex_nonempty [OF assms(1)])
  obtain d' where d': "wc_sha256 wc (utf8_encode (join_words ws')) = Some d'" "d' \<noteq> []"
    "phrase_hash_hex wc ws' = Some (bytes_to_hex d')"
    by (rule hash_hex_nonempty [OF assms(1)])
  obtain c cs where hex: "bytes_to_hex d = c # cs"
    using d(2) by (cases "bytes_to_hex d") auto
  have "ls_get RECOVERY_PHRASE_HASH st' = Some (TextCell (c # cs))"
    using assms(2) d(3) hex by (auto simp: store_phrase_hash_def)
  then have "verify_phrase_hash wc ws' st' \<longleftrightarrow> bytes_to_hex d' = bytes_to_hex d"
    using d'(3) hex by (simp add: verify_phrase_hash_def)
  with d(1) d'(1) show ?thesis by simp
qed

lemma after_clear:
  "k \<in> {RECOVERY_PHRASE_HASH, ENCRYPTED_MASTER_KEY, ESCROW_CONTACT} \<Longrightarrow>
     ls_get k (clear_recovery_data st) = None"
  unfolding clear_recovery_data_def ls.get_fold_del by auto

lemma unknown_words_set:
  "UnknownWord w i \<in> set (concat (map (\<lambda>(i, w). if w \<in> D then [] else [UnknownWord w i])
     (enumerate n ws))) \<longleftrightarrow> n \<le> i \<and> i < n + length ws \<and> ws ! (i - n) = w \<and> w \<notin> D"
proof (induction ws arbitrary: n i)
  case Nil
  then show ?case by simp
next
  case (Cons v ws)
  show ?case
    by (cases "i = n") (auto simp: Cons nth_Cons' simp del: set_concat)
qed

subsection \<open>Properties\<close>

text \<open>
  Every phrase the service generates is accepted by its validation, and carries the
  entropy it was made from: the 24 words decode to the 32 random bytes.
\<close>

theorem generated_phrase_valid:
  assumes "sha_documented wc" and "length entropy = 32"
  shows "\<exists>ws. generate_mnemonic wc entropy = Inr ws \<and> validate_mnemonic wc ws = \<lparr>valid = True, errors = []\<rparr> \<and>
    decode_entropy (word_bits ws) = entropy"
proof -
  obtain h where "wc_sha256 wc entropy = Some h"
    using sha_documentedE [OF assms(1)] .
  then have gen: "generate_mnemonic wc entropy = Inr (phrase_of entropy h)"
    by (rule generate_mnemonic_eq)
  note gv = generated_valid [OF assms gen]
  from gv(1) have "validate_mnemonic wc (phrase_of entropy h) = \<lparr>valid = True, errors = []\<rparr>"
    using validate_shape [of wc "phrase_of entropy h"] by auto
  with gen gv(2) show ?thesis by blast
qed

theorem generated_phrase_valid_witness:
  "\<exists>ws. generate_mnemonic demo_crypto (replicate 32 5) = Inr ws \<and>
     validate_mnemonic demo_crypto ws = \<lparr>valid = True, errors = []\<rparr> \<and>
     decode_entropy (word_bits ws) = replicate 32 5"
  by (rule generated_phrase_valid [OF demo_sha]) simp

text \<open>
  C23: Validation accepts nothing else: a list of words is valid exactly when some 32 bytes
  of entropy generate it, so a wrong count, an unknown word and a bad checksum are the only
  ways to fail and all of them do.
\<close>

theorem valid_iff_generated:
  assumes "sha_documented wc"
  shows "valid (validate_mnemonic wc ws) \<longleftrightarrow>
    (\<exists>entropy. length entropy = 32 \<and> generate_mnemonic wc entropy = Inr ws)"
  using valid_generated [OF assms] generated_valid(1) [OF assms] decode_entropy_bits by blast

theorem valid_iff_generated_witness:
  "\<not> (\<exists>entropy. length entropy = 32 \<and> generate_mnemonic demo_crypto entropy = Inr [''abandon''])"
  using valid_iff_generated [OF demo_sha, of "[''abandon'']"] by (simp add: valid_iff)

text \<open>
  C24: A master key encrypted under a valid phrase (and passphrase) is recovered from the
  stored document with the same phrase, through the Base64 fields and the split of
  ciphertext and tag.
\<close>

theorem master_key_roundtrip:
  assumes "pbkdf2_documented wc" and "gcm_documented wc"
    and "valid (validate_mnemonic wc ws)" and "length iv = IV_LENGTH"
  shows "\<exists>blob. encrypt_master_key wc iv key ws pp = Inr blob \<and>
    decrypt_master_key wc blob ws pp = Inr key"
  using assms by (rule key_roundtrip)

theorem master_key_roundtrip_witness:
  "\<exists>ws blob. encrypt_master_key demo_crypto (replicate 12 9) [1, 2, 3] ws ''pw'' = Inr blob \<and>
    decrypt_master_key demo_crypto blob ws ''pw'' = Inr [1, 2, 3]"
proof -
  obtain h where "wc_sha256 demo_crypto (replicate 32 5) = Some h"
    using sha_documentedE [OF demo_sha] .
  from generated_valid(1) [OF demo_sha _ generate_mnemonic_eq [OF this]]
  have "valid (validate_mnemonic demo_crypto (phrase_of (replicate 32 5) h))" by simp
  from master_key_roundtrip [OF demo_pbkdf2 demo_gcm this, of "replicate 12 9" "[1, 2, 3]" "''pw''"]
  show ?thesis by (auto simp: IV_LENGTH_def)
qed

text \<open>
  A word list that does not validate never reaches the cipher: encryption and
  decryption both fail with an error.
\<close>

theorem invalid_phrase_rejected:
  assumes "\<not> valid (validate_mnemonic wc ws)"
  shows "\<exists>e1 e2. encrypt_master_key wc iv key ws pp = Inl e1 \<and> decrypt_master_key wc doc ws pp = Inl e2"
  using invalid_phrase_fails [OF assms] by blast

theorem invalid_phrase_rejected_witness:
  "\<exists>e1 e2. encrypt_master_key demo_crypto (replicate 12 9) [1] [''abandon''] [] = Inl e1 \<and>
    decrypt_master_key demo_crypto Garbled [''abandon''] [] = Inl e2"
  by (rule invalid_phrase_rejected) (simp add: valid_iff)

text \<open>
  The stored hash verifies exactly the phrases with the same SHA-256 digest, the stored
  phrase among them; no plaintext is needed.
\<close>

theorem stored_hash_verifies:
  assumes "sha_documented wc" and "store_phrase_hash wc ws st = Inr st'"
  shows "verify_phrase_hash wc ws' st' \<longleftrightarrow>
    wc_sha256 wc (utf8_encode (join_words ws')) = wc_sha256 wc (utf8_encode (join_words ws))"
  using assms by (rule verify_stored)

theorem stored_hash_verifies_witness:
  "\<exists>st'. store_phrase_hash demo_crypto [''zoo''] [] = Inr st' \<and> verify_phrase_hash demo_crypto [''zoo''] st'"
proof -
  obtain d where "phrase_hash_hex demo_crypto [''zoo''] = Some (bytes_to_hex d)"
    by (rule hash_hex_nonempty [OF demo_sha])
  then obtain st' where st: "store_phrase_hash demo_crypto [''zoo''] [] = Inr st'"
    by (simp add: store_phrase_hash_def)
  with stored_hash_verifies [OF demo_sha st, of "[''zoo'']"] show ?thesis by blast
qed

text \<open>
  Validation reports every word that is not in the dictionary, with its position, and
  no other word.
\<close>

theorem unknown_words_reported:
  "UnknownWord w i \<in> set (errors (validate_mnemonic wc ws)) \<longleftrightarrow>
     i < length ws \<and> ws ! i = w \<and> w \<notin> set BIP39_ENGLISH_WORDLIST"
  using unknown_words_set [of w i "set BIP39_ENGLISH_WORDLIST" 0 ws]
  by (simp add: validate_mnemonic_def Let_def del: set_concat)

text \<open>
  Clearing the recovery data leaves no phrase, no escrow contact and nothing a phrase
  could verify against.
\<close>

theorem cleared_recovery_data:
  "\<not> has_recovery_phrase (clear_recovery_data st) \<and>
   get_trusted_contact (clear_recovery_data st) = None \<and>
   \<not> verify_phrase_hash wc ws (clear_recovery_data st) \<and>
   ls_get ENCRYPTED_MASTER_KEY (clear_recovery_data st) = None"
  by (simp add: has_recovery_phrase_def get_trusted_contact_def verify_phrase_hash_def after_clear)

end
