(* ===== verification/Steganography.thy ===== *)
theory Steganography
  imports Bit_Packing Hex_Codec Text_Codec Web_Crypto
begin

unbundle bit_operations_syntax

text \<open>
  \<open>services/crypto/steganography.ts\<close>: hiding an encrypted payload in the least
  significant bits of the red channel of an image. The browser's image decoder and canvas
  are the record \<open>canvas_api\<close>: \<open>cv_load\<close> gives the RGBA pixels of a data URL (\<open>None\<close> where
  the image does not load), \<open>cv_context\<close> says whether a 2d context is available,
  \<open>cv_png\<close> is \<open>toDataURL('image/png')\<close>, \<open>cv_text\<close> is \<open>TextDecoder\<close>. The audit log is passed
  along and returned with one entry per \<open>auditService.log\<close> call.
\<close>

subsection \<open>Data\<close>

record image =
  img_width :: nat
  img_height :: nat
  img_data :: bytes

record canvas_api =
  cv_load :: "string \<Rightarrow> image option"
  cv_context :: bool
  cv_png :: "image \<Rightarrow> string"
  cv_text :: "bytes \<Rightarrow> string"

datatype stego_cause = ImageNotLoaded | NoCanvasContext | SubtleCrypto | ShortHeader

datatype stego_error =
    WebOnly
  | DataTooLarge nat nat
  | EmbeddingFailed stego_cause
  | MagicNotFound
  | InvalidDataLength
  | ExtractionFailed stego_cause

record stego_capacity =
  max_bytes :: nat
  available_bytes :: nat
  cap_width :: nat
  cap_height :: nat

text \<open>\<open>used_percent\<close> is \<open>None\<close> where the code divides by a zero capacity (\<open>Infinity\<close>).\<close>

record stego_result =
  carrier :: "string option"
  original_size :: nat
  embedded_size :: nat
  used_percent :: "int option"
  stego_failure :: "stego_error option"

record extract_result =
  xdata :: "bytes option"
  xtext :: "string option"
  extract_failure :: "stego_error option"

datatype resistance = Low | Medium | High

datatype stego_event =
    CapacityError stego_cause
  | EmbedSuccess nat nat "int option" nat nat
  | EmbedError stego_cause
  | ExtractSuccess nat
  | ExtractError stego_cause
  | StatisticalAnalysis "rat option" resistance bool nat
  | StatisticalError stego_cause

definition MAGIC_BYTES :: string where "MAGIC_BYTES = ''USVS''"
definition HEADER_SIZE :: nat where "HEADER_SIZE = 28"
definition IV_SIZE :: nat where "IV_SIZE = 12"

subsection \<open>Canvas access and capacity\<close>

definition get_canvas_with_image :: "canvas_api \<Rightarrow> string \<Rightarrow> stego_cause + image" where
  "get_canvas_with_image cv url =
     (case cv_load cv url of
        None \<Rightarrow> Inl ImageNotLoaded
      | Some im \<Rightarrow> if cv_context cv then Inr im else Inl NoCanvasContext)"

definition get_image_dimensions :: "canvas_api \<Rightarrow> string \<Rightarrow> stego_cause + nat \<times> nat" where
  "get_image_dimensions cv url =
     (case cv_load cv url of
        None \<Rightarrow> Inl ImageNotLoaded
      | Some im \<Rightarrow> Inr (img_width im, img_height im))"

definition no_capacity :: stego_capacity where
  "no_capacity = \<lparr>max_bytes = 0, available_bytes = 0, cap_width = 0, cap_height = 0\<rparr>"

definition calculate_capacity ::
  "bool \<Rightarrow> canvas_api \<Rightarrow> string \<Rightarrow> stego_event list \<Rightarrow> stego_capacity \<times> stego_event list" where
  "calculate_capacity web cv url log0 =
     (if \<not> web then (no_capacity, log0)
      else case get_image_dimensions cv url of
          Inl e \<Rightarrow> (no_capacity, log0 @ [CapacityError e])
        | Inr (w, h) \<Rightarrow>
            (let mb = (w * h * 3) div 8 in
             (\<lparr>max_bytes = mb, available_bytes = mb - HEADER_SIZE,
               cap_width = w, cap_height = h\<rparr>, log0)))"

subsection \<open>The payload and the pixels\<close>

definition set_uint32 :: "nat \<Rightarrow> bytes" where
  "set_uint32 n = map (\<lambda>k. of_nat (n div 256 ^ (3 - k))) [0..<4]"

definition get_uint32 :: "bytes \<Rightarrow> nat" where
  "get_uint32 bs = fold (\<lambda>b a. 256 * a + unat b) bs 0"

definition build_payload :: "nat \<Rightarrow> bytes \<Rightarrow> bytes \<Rightarrow> bytes" where
  "build_payload len iv enc = utf8_encode MAGIC_BYTES @ set_uint32 len @ iv @ enc"

definition write_lsb :: "nat \<Rightarrow> bool \<Rightarrow> bytes \<Rightarrow> bytes" where
  "write_lsb bitIndex b px =
     px[bitIndex * 4 := (byte_at px (bitIndex * 4) AND 0xFE) OR of_bool b]"

definition embed_payload :: "bytes \<Rightarrow> bytes \<Rightarrow> bytes" where
  "embed_payload payload px = fst
     (fold (\<lambda>b. fold (\<lambda>k (px, bitIndex). (write_lsb bitIndex (bit b (7 - k)) px, Suc bitIndex)) [0..<8])
        payload (px, 0))"

definition red_bits :: "bytes \<Rightarrow> bool list" where
  "red_bits px = map (\<lambda>i. bit (px ! (4 * i)) 0) [0..<(length px + 3) div 4]"

text \<open>The first bits as \<open>detectStego\<close> reads them: \<open>i\<close> runs below 32 in steps of 4.\<close>

definition magic_bits :: "bytes \<Rightarrow> bool list" where
  "magic_bits px = map (\<lambda>i. bit (px ! (4 * i)) 0) [0..<(min 32 (length px) + 3) div 4]"

text \<open>
  Comparing decoded text with the magic: \<open>TextDecoder\<close> yields this ASCII text for exactly
  its own four bytes.
\<close>

definition is_magic :: "bytes \<Rightarrow> bool" where
  "is_magic bs = (bs = utf8_encode MAGIC_BYTES)"

subsection \<open>Embedding\<close>

definition embed_fail :: "nat \<Rightarrow> int \<Rightarrow> stego_error \<Rightarrow> stego_result" where
  "embed_fail n pct e = \<lparr>carrier = None, original_size = 0, embedded_size = n,
     used_percent = Some pct, stego_failure = Some e\<rparr>"

definition capacity_used :: "nat \<Rightarrow> nat \<Rightarrow> int option" where
  "capacity_used payload_len mb =
     (if mb = 0 then None else Some (js_round (of_nat payload_len / of_nat mb * 100)))"

definition embed ::
  "bool \<Rightarrow> canvas_api \<Rightarrow> webcrypto \<Rightarrow> bytes \<Rightarrow> string \<Rightarrow> bytes \<Rightarrow> string \<Rightarrow> stego_event list \<Rightarrow>
     stego_result \<times> stego_event list" where
  "embed web cv wc iv url secret keyHex log0 =
     (if \<not> web then (embed_fail 0 0 WebOnly, log0)
      else let (cap, log1) = calculate_capacity web cv url log0 in
        if length secret > available_bytes cap
        then (embed_fail (length secret) 100 (DataTooLarge (length secret) (available_bytes cap)), log1)
        else case wc_seal wc (hex_to_bytes keyHex) iv secret of
            None \<Rightarrow> (embed_fail 0 0 (EmbeddingFailed SubtleCrypto), log1 @ [EmbedError SubtleCrypto])
          | Some enc \<Rightarrow>
              (let payload = build_payload (length secret) iv enc in
               case get_canvas_with_image cv url of
                 Inl e \<Rightarrow> (embed_fail 0 0 (EmbeddingFailed e), log1 @ [EmbedError e])
               | Inr im \<Rightarrow>
                   (let im' = im\<lparr>img_data := embed_payload payload (img_data im)\<rparr>;
                        pct = capacity_used (length payload) (max_bytes cap)
                    in (\<lparr>carrier = Some (cv_png cv im'), original_size = length secret,
                         embedded_size = length payload, used_percent = pct,
                         stego_failure = None\<rparr>,
                        log1 @ [EmbedSuccess (length secret) (length payload) pct
                                  (img_width im) (img_height im)]))))"

subsection \<open>Extraction\<close>

definition extract_fail :: "stego_error \<Rightarrow> extract_result" where
  "extract_fail e = \<lparr>xdata = None, xtext = None, extract_failure = Some e\<rparr>"

definition open_payload ::
  "webcrypto \<Rightarrow> bytes \<Rightarrow> string \<Rightarrow> stego_event list \<Rightarrow> extract_result \<times> stego_event list" where
  "open_payload wc payload keyHex log0 =
     (if \<not> is_magic (take 4 payload) then (extract_fail MagicNotFound, log0)
      else if length payload < 8
        then (extract_fail (ExtractionFailed ShortHeader), log0 @ [ExtractError ShortHeader])
      else let dataLength = get_uint32 (take 4 (drop 4 payload));
               iv = take IV_SIZE (drop 8 payload);
               enc = drop (8 + IV_SIZE) payload
        in if dataLength = 0 \<or> dataLength > length enc
           then (extract_fail InvalidDataLength, log0)
           else case wc_open wc (hex_to_bytes keyHex) iv enc of
               None \<Rightarrow> (extract_fail (ExtractionFailed SubtleCrypto), log0 @ [ExtractError SubtleCrypto])
             | Some p \<Rightarrow> (\<lparr>xdata = Some (take dataLength p), xtext = None, extract_failure = None\<rparr>,
                 log0 @ [ExtractSuccess dataLength]))"

definition extract_data ::
  "bool \<Rightarrow> canvas_api \<Rightarrow> webcrypto \<Rightarrow> string \<Rightarrow> string \<Rightarrow> stego_event list \<Rightarrow>
     extract_result \<times> stego_event list" where
  "extract_data web cv wc url keyHex log0 =
     (if \<not> web then (extract_fail WebOnly, log0)
      else case get_canvas_with_image cv url of
          Inl e \<Rightarrow> (extract_fail (ExtractionFailed e), log0 @ [ExtractError e])
        | Inr im \<Rightarrow> open_payload wc (bits_to_bytes (red_bits (img_data im))) keyHex log0)"

definition embed_text ::
  "bool \<Rightarrow> canvas_api \<Rightarrow> webcrypto \<Rightarrow> bytes \<Rightarrow> string \<Rightarrow> string \<Rightarrow> string \<Rightarrow> stego_event list \<Rightarrow>
     stego_result \<times> stego_event list" where
  "embed_text web cv wc iv url plaintext keyHex log0 =
     embed web cv wc iv url (utf8_encode plaintext) keyHex log0"

definition extract_text ::
  "bool \<Rightarrow> canvas_api \<Rightarrow> webcrypto \<Rightarrow> string \<Rightarrow> string \<Rightarrow> stego_event list \<Rightarrow>
     extract_result \<times> stego_event list" where
  "extract_text web cv wc url keyHex log0 =
     (let (r, log1) = extract_data web cv wc url keyHex log0 in
      case xdata r of
        None \<Rightarrow> (r, log1)
      | Some d \<Rightarrow> (r\<lparr>xtext := Some (cv_text cv d)\<rparr>, log1))"

definition generate_embedding_key :: "bytes \<Rightarrow> string" where
  "generate_embedding_key random = bytes_to_hex random"

subsection \<open>Detection and statistics\<close>

definition detect_stego :: "bool \<Rightarrow> canvas_api \<Rightarrow> string \<Rightarrow> bool" where
  "detect_stego web cv url =
     (if \<not> web then False
      else case get_canvas_with_image cv url of
          Inl e \<Rightarrow> False
        | Inr im \<Rightarrow> is_magic (bits_to_bytes (magic_bits (img_data im))))"

definition rgb_lsbs :: "bytes \<Rightarrow> bool list" where
  "rgb_lsbs px = concat (map (\<lambda>i. map (\<lambda>c. bit (byte_at px (4 * i + c)) 0) [0..<3])
     [0..<(length px + 3) div 4])"

text \<open>\<open>None\<close> is \<open>NaN\<close>, the value for no sample at all.\<close>

definition chi_square :: "bool list \<Rightarrow> rat option" where
  "chi_square lsbs =
     (if lsbs = [] then None
      else let zeros = of_nat (length (filter Not lsbs)) :: rat;
               ones = of_nat (length lsbs) - zeros;
               expected = of_nat (length lsbs) / 2
        in Some ((zeros - expected)\<^sup>2 / expected + (ones - expected)\<^sup>2 / expected))"

definition below :: "rat option \<Rightarrow> rat \<Rightarrow> bool" where
  "below x c = (case x of None \<Rightarrow> False | Some v \<Rightarrow> v < c)"

definition classify :: "rat option \<Rightarrow> resistance" where
  "classify chi = (if below chi (3841 / 1000) then High else if below chi 10 then Medium else Low)"

definition get_statistical_profile ::
  "bool \<Rightarrow> canvas_api \<Rightarrow> string \<Rightarrow> stego_event list \<Rightarrow>
     (rat option \<times> resistance \<times> bool) \<times> stego_event list" where
  "get_statistical_profile web cv url log0 =
     (if \<not> web then ((Some 0, Low, False), log0)
      else case get_canvas_with_image cv url of
          Inl e \<Rightarrow> ((Some 0, Low, False), log0 @ [StatisticalError e])
        | Inr im \<Rightarrow>
            (let lsbs = rgb_lsbs (img_data im); chi = chi_square lsbs;
                 anomaly = (case chi of None \<Rightarrow> False | Some v \<Rightarrow> v > 10)
             in ((chi, classify chi, anomaly),
                 log0 @ [StatisticalAnalysis chi (classify chi) anomaly (length lsbs)])))"

subsection \<open>The pixel loops\<close>

lemma magic_ascii: "utf8_encode MAGIC_BYTES = [85, 83, 86, 83]"
  by (simp add: MAGIC_BYTES_def utf8_encode_def utf8_char_def)

lemma length_set_uint32 [simp]: "length (set_uint32 n) = 4"
  by (simp add: set_uint32_def)

lemma length_build_payload [simp, codec_simps]:
  "length (build_payload n iv enc) = 8 + length iv + length enc"
  by (simp add: build_payload_def magic_ascii)

lemma get_set_uint32: "n < 2 ^ 32 \<Longrightarrow> get_uint32 (set_uint32 n) = n"
proof -
  assume "n < 2 ^ 32"
  then have n: "n div 16777216 < 256" by (simp add: div_less_iff_less_mult)
  have u: "unat (of_nat k :: byte) = k mod 256" for k
    by (simp add: unat_of_nat)
  have e: "set_uint32 n = [of_nat (n div 16777216), of_nat (n div 65536), of_nat (n div 256), of_nat n]"
    by (simp add: set_uint32_def upt_rec)
  have "n div 65536 = n div 256 div 256" "n div 16777216 = n div 256 div 256 div 256"
    by (simp_all add: div_mult2_eq [symmetric])
  moreover have "k = 256 * (k div 256) + k mod 256" for k :: nat by simp
  ultimately show ?thesis using n
    by (simp add: e get_uint32_def u)
qed

lemma length_write_lsb [simp]: "length (write_lsb i b px) = length px"
  by (simp add: write_lsb_def)

definition write_bits :: "bool list \<Rightarrow> bytes \<times> nat \<Rightarrow> bytes \<times> nat" where
  "write_bits = fold (\<lambda>b (px, i). (write_lsb i b px, Suc i))"

lemma write_bits_simps [simp]:
  "write_bits [] st = st"
  "write_bits (b # bs) (px, i) = write_bits bs (write_lsb i b px, Suc i)"
  by (simp_all add: write_bits_def)

lemma write_bits_append: "write_bits (as @ bs) st = write_bits bs (write_bits as st)"
  by (simp add: write_bits_def)

lemma embed_payload_bits: "embed_payload payload px = fst (write_bits (bytes_bits payload) (px, 0))"
proof -
  have inner: "fold (\<lambda>k (px, i). (write_lsb i (bit b (7 - k)) px, Suc i)) [0..<8]
      = write_bits (byte_bits b)" for b
    unfolding write_bits_def byte_bits_def fold_map comp_def by (simp add: split_beta)
  have "fold (\<lambda>b. write_bits (byte_bits b)) payload st = write_bits (bytes_bits payload) st" for st
    by (induction payload arbitrary: st) (simp_all add: bytes_bits_def write_bits_append)
  then show ?thesis by (simp only: embed_payload_def inner)
qed

lemma write_bits_spec:
  "length (fst (write_bits bs (px, s))) = length px \<and>
   (\<forall>j. byte_at (fst (write_bits bs (px, s))) j =
      (if j mod 4 = 0 \<and> s \<le> j div 4 \<and> j div 4 < s + length bs \<and> j < length px
       then (byte_at px j AND 0xFE) OR of_bool (bs ! (j div 4 - s)) else byte_at px j))"
proof (induction bs arbitrary: px s)
  case Nil
  then show ?case by auto
next
  case (Cons b bs)
  have w: "byte_at (write_lsb s b px) j =
      (if j = 4 * s \<and> j < length px then (byte_at px j AND 0xFE) OR of_bool b else byte_at px j)" for j
    by (auto simp: write_lsb_def byte_at_def mult.commute)
  have "byte_at (fst (write_bits bs (write_lsb s b px, Suc s))) j =
      (if j mod 4 = 0 \<and> s \<le> j div 4 \<and> j div 4 < s + length (b # bs) \<and> j < length px
       then (byte_at px j AND 0xFE) OR of_bool ((b # bs) ! (j div 4 - s)) else byte_at px j)" for j
  proof (cases "j mod 4 = 0 \<and> j div 4 = s")
    case True
    then have "j = 4 * s" by auto
    with True show ?thesis using Cons [of "write_lsb s b px" "Suc s"] by (simp add: w)
  next
    case False
    then have "j \<noteq> 4 * s" by auto
    moreover have "(j mod 4 = 0 \<and> s \<le> j div 4) = (j mod 4 = 0 \<and> Suc s \<le> j div 4)"
      using False by auto
    moreover have "Suc s \<le> q \<Longrightarrow> (b # bs) ! (q - s) = bs ! (q - Suc s)" for q
      by (simp add: nth_Cons' Suc_diff_le)
    ultimately show ?thesis using Cons [of "write_lsb s b px" "Suc s"] by (auto simp: w)
  qed
  then show ?case using Cons [of "write_lsb s b px" "Suc s"] by simp
qed

lemma length_embed_payload [simp]: "length (embed_payload p px) = length px"
  by (simp add: embed_payload_bits write_bits_spec)

lemma byte_at_embed:
  "byte_at (embed_payload p px) j =
     (if j mod 4 = 0 \<and> j div 4 < 8 * length p \<and> j < length px
      then (byte_at px j AND 0xFE) OR of_bool (bytes_bits p ! (j div 4)) else byte_at px j)"
  by (simp add: embed_payload_bits write_bits_spec)

lemma lsb_written: "bit ((x AND 0xFE) OR of_bool b :: byte) 0 = b"
  by (simp add: bit_simps)

lemma length_red_bits [simp]: "length (red_bits px) = (length px + 3) div 4"
  by (simp add: red_bits_def)

lemma red_bits_embed:
  "red_bits (embed_payload p px) =
     take (length (red_bits px)) (bytes_bits p) @ drop (8 * length p) (red_bits px)"
  (is "?l = ?r")
proof (rule nth_equalityI)
  show len: "length ?l = length ?r" by simp
  fix i assume i: "i < length ?l"
  then have lt: "4 * i < length px" by (simp add: less_eq_div_iff_mult_less_eq)
  have "?l ! i = bit (byte_at (embed_payload p px) (4 * i)) 0"
    using i lt by (simp add: red_bits_def byte_at_def)
  also have "\<dots> = (if i < 8 * length p then bytes_bits p ! i else red_bits px ! i)"
    using i lt by (simp add: byte_at_embed lsb_written) (simp add: red_bits_def byte_at_def)
  also have "\<dots> = ?r ! i"
    using i by (simp add: nth_append min_def)
  finally show "?l ! i = ?r ! i" .
qed

text \<open>Reading back: all of the payload and the carrier's own bits, or a prefix of the payload.\<close>

lemma read_payload_fits:
  assumes "8 * length p \<le> length (red_bits px)"
  shows "bits_to_bytes (red_bits (embed_payload p px)) =
           p @ bits_to_bytes (drop (8 * length p) (red_bits px))"
  using assms by (simp only: red_bits_embed take_all length_bytes_bits bits_to_bytes_prefix)

lemma read_payload_short:
  assumes "length (red_bits px) < 8 * length p"
  obtains r where "bits_to_bytes (red_bits (embed_payload p px)) =
      take (length (red_bits px) div 8) p @ r"
proof -
  let ?n = "length (red_bits px)" and ?m = "length (red_bits px) div 8"
  have "red_bits (embed_payload p px) = take ?n (bytes_bits p)"
    using assms by (simp add: red_bits_embed)
  also have "\<dots> = take ?n (bytes_bits (take ?m p) @ bytes_bits (drop ?m p))"
    by (simp only: bytes_bits_append [symmetric] append_take_drop_id)
  also have "\<dots> = bytes_bits (take ?m p) @ take (?n - 8 * length (take ?m p)) (bytes_bits (drop ?m p))"
    by simp
  finally have "bits_to_bytes (red_bits (embed_payload p px)) = take ?m p @
      bits_to_bytes (take (?n - 8 * length (take ?m p)) (bytes_bits (drop ?m p)))"
    by (simp only: bits_to_bytes_prefix)
  then show thesis by (rule that)
qed

lemma header_fields:
  assumes "length iv = IV_SIZE"
  shows "take 4 (build_payload len iv enc) = utf8_encode MAGIC_BYTES"
    and "take 4 (drop 4 (build_payload len iv enc)) = set_uint32 len"
    and "take IV_SIZE (drop 8 (build_payload len iv enc @ t)) = iv"
    and "drop (8 + IV_SIZE) (build_payload len iv enc @ t) = enc @ t"
  using assms by (simp_all add: build_payload_def magic_ascii IV_SIZE_def numeral_eq_Suc)

lemma open_payload_built:
  assumes "length iv = IV_SIZE" and "0 < len" and "len < 2 ^ 32" and "len \<le> length enc"
  shows "open_payload wc (build_payload len iv enc @ t) key log0 =
     (case wc_open wc (hex_to_bytes key) iv (enc @ t) of
        None \<Rightarrow> (extract_fail (ExtractionFailed SubtleCrypto), log0 @ [ExtractError SubtleCrypto])
      | Some p \<Rightarrow> (\<lparr>xdata = Some (take len p), xtext = None, extract_failure = None\<rparr>,
          log0 @ [ExtractSuccess len]))"
proof -
  have "4 \<le> length (build_payload len iv enc)" "8 \<le> length (build_payload len iv enc)" by simp_all
  then have "take 4 (build_payload len iv enc @ t) = utf8_encode MAGIC_BYTES"
    and "take 4 (drop 4 (build_payload len iv enc @ t)) = set_uint32 len"
    using header_fields(1,2) [OF assms(1)] by simp_all
  then show ?thesis
    using assms unfolding open_payload_def is_magic_def
    by (simp only: header_fields(3,4) [OF assms(1)] get_set_uint32 [OF assms(3)]) (simp add: Let_def)
qed

lemma open_payload_cut:
  assumes "length iv = IV_SIZE" and "len < 2 ^ 32"
    and "p = take m (build_payload len iv enc) @ r" and "8 \<le> m"
    and "length p < 20 + len"
  shows "open_payload wc p key log0 = (extract_fail InvalidDataLength, log0)"
proof -
  have "take 4 p = take 4 (build_payload len iv enc)"
    and "take 4 (drop 4 p) = take 4 (drop 4 (build_payload len iv enc))"
    and "8 \<le> length p"
    using assms(4) by (auto simp: assms(3) min_def drop_take)
  moreover have "0 < len \<Longrightarrow> length p - 20 < len" using assms(5) by linarith
  ultimately show ?thesis
    unfolding open_payload_def is_magic_def
    by (simp only: header_fields(1,2) [OF assms(1)] get_set_uint32 [OF assms(2)])
      (auto simp add: Let_def IV_SIZE_def)
qed

subsection \<open>Carriers\<close>

definition well_formed :: "image \<Rightarrow> bool" where
  "well_formed im = (length (img_data im) = 4 * (img_width im * img_height im))"

definition opaque :: "image \<Rightarrow> bool" where
  "opaque im = list_all (\<lambda>i. img_data im ! (4 * i + 3) = 255) [0..<length (img_data im) div 4]"

text \<open>Documented behaviour of the canvas: a PNG keeps opaque pixels exactly.\<close>

definition png_lossless :: "canvas_api \<Rightarrow> bool" where
  "png_lossless cv = (\<forall>im. well_formed im \<and> opaque im \<longrightarrow> cv_load cv (cv_png cv im) = Some im)"

definition carrier_ok :: "canvas_api \<Rightarrow> string \<Rightarrow> image \<Rightarrow> bool" where
  "carrier_ok cv url im =
     (cv_load cv url = Some im \<and> cv_context cv \<and> well_formed im \<and> opaque im \<and> png_lossless cv)"

definition pixels :: "image \<Rightarrow> nat" where
  "pixels im = img_width im * img_height im"

lemma embedded_image_ok:
  assumes "carrier_ok cv url im"
  shows "cv_load cv (cv_png cv (im\<lparr>img_data := embed_payload p (img_data im)\<rparr>)) =
           Some (im\<lparr>img_data := embed_payload p (img_data im)\<rparr>)"
proof -
  let ?d = "img_data im"
  have "embed_payload p ?d ! (4 * i + 3) = ?d ! (4 * i + 3)" if "i < length ?d div 4" for i
  proof -
    have "4 * i + 3 < length ?d" using that by linarith
    then have "embed_payload p ?d ! (4 * i + 3) = byte_at (embed_payload p ?d) (4 * i + 3)"
      and "byte_at ?d (4 * i + 3) = ?d ! (4 * i + 3)"
      by (simp_all add: byte_at_def)
    moreover have "(4 * i + 3) mod 4 = 3" by presburger
    ultimately show ?thesis by (simp add: byte_at_embed)
  qed
  with assms show ?thesis
    by (auto simp: carrier_ok_def png_lossless_def well_formed_def opaque_def list_all_iff)
qed

lemma pixels_red_bits: "carrier_ok cv url im \<Longrightarrow> length (red_bits (img_data im)) = pixels im"
  by (simp add: carrier_ok_def well_formed_def pixels_def)

lemma embed_succeeds:
  assumes "carrier_ok cv url im" and "wc_seal wc (hex_to_bytes key) iv secret = Some enc"
    and "length secret + HEADER_SIZE \<le> (3 * pixels im) div 8"
  shows "fst (embed True cv wc iv url secret key log0) =
     \<lparr>carrier = Some (cv_png cv (im\<lparr>img_data :=
          embed_payload (build_payload (length secret) iv enc) (img_data im)\<rparr>)),
      original_size = length secret,
      embedded_size = 8 + length iv + length enc,
      used_percent = capacity_used (8 + length iv + length enc) ((3 * pixels im) div 8),
      stego_failure = None\<rparr>"
  using assms
  by (simp add: embed_def calculate_capacity_def get_image_dimensions_def
      get_canvas_with_image_def carrier_ok_def pixels_def Let_def mult.commute)

lemma extract_embedded:
  assumes "carrier_ok cv url im"
  shows "extract_data True cv wc (cv_png cv (im\<lparr>img_data := embed_payload p (img_data im)\<rparr>)) key log0 =
     open_payload wc (bits_to_bytes (red_bits (embed_payload p (img_data im)))) key log0"
  using assms embedded_image_ok [OF assms]
  by (simp add: extract_data_def get_canvas_with_image_def carrier_ok_def)

lemma bits_to_bytes_Nil: "bits_to_bytes [] = []"
  by (simp add: bits_to_bytes_def)

text \<open>A concrete canvas for the witnesses: PNG texts spell width, height and pixels.\<close>

definition demo_png :: "image \<Rightarrow> string" where
  "demo_png im = replicate (img_width im) CHR ''x'' @ CHR ''y'' #
     replicate (img_height im) CHR ''x'' @ CHR ''y'' # map (\<lambda>b. char_of (unat b)) (img_data im)"

definition demo_load :: "image \<Rightarrow> string \<Rightarrow> image option" where
  "demo_load im s =
     (if s = ''carrier'' then Some im
      else let w = length (takeWhile (\<lambda>c. c = CHR ''x'') s); r = drop (Suc w) s;
               h = length (takeWhile (\<lambda>c. c = CHR ''x'') r)
        in Some \<lparr>img_width = w, img_height = h, img_data = map (\<lambda>c. of_nat (of_char c)) (drop (Suc h) r)\<rparr>)"

definition demo_canvas :: "image \<Rightarrow> canvas_api" where
  "demo_canvas im = \<lparr>cv_load = demo_load im, cv_context = True, cv_png = demo_png,
     cv_text = map (\<lambda>b. char_of (unat b))\<rparr>"

definition white :: "nat \<Rightarrow> nat \<Rightarrow> image" where
  "white w h = \<lparr>img_width = w, img_height = h, img_data = replicate (4 * (w * h)) 255\<rparr>"

lemma demo_load_png: "demo_load im0 (demo_png im) = Some im"
proof -
  have tw: "takeWhile (\<lambda>c. c = CHR ''x'') (replicate n CHR ''x'' @ CHR ''y'' # s) = replicate n CHR ''x''"
    for n s by (induction n) simp_all
  have "demo_png im \<noteq> ''carrier''"
    by (cases "img_width im") (simp_all add: demo_png_def)
  moreover have "of_nat (unat b mod 256) = b" for b :: byte
  proof -
    have "unat b < 256" by (rule order_less_le_trans [OF unsigned_less]) simp
    then show ?thesis by simp
  qed
  then have "map (\<lambda>b. of_nat (unat b mod 256)) bs = bs" for bs :: bytes by simp
  ultimately show ?thesis by (simp add: demo_load_def demo_png_def tw Let_def comp_def)
qed

lemma white_carrier: "carrier_ok (demo_canvas (white w h)) ''carrier'' (white w h)"
  by (auto simp: carrier_ok_def demo_canvas_def png_lossless_def demo_load_png
      well_formed_def opaque_def white_def list_all_iff)
    (simp add: demo_load_def)

lemma pixels_white [simp]: "pixels (white w h) = w * h"
  by (simp add: pixels_def white_def)

subsection \<open>Properties\<close>

text \<open>
  Embedding changes an image only where it means to: channel value \<open>j\<close> changes only
  when it is a red value (\<open>j mod 4 = 0\<close>) of one of the first eight-times-payload-length
  pixels, and there only its lowest bit, which becomes the payload's bit, most significant
  bit of each byte first. Pixels past the end of the image are dropped silently.
\<close>
theorem embed_touches_red_lsb:
  "length (embed_payload p px) = length px \<and>
   drop_bit 1 (byte_at (embed_payload p px) j) = drop_bit 1 (byte_at px j) \<and>
   bit (byte_at (embed_payload p px) j) 0 =
     (if j mod 4 = 0 \<and> j div 4 < 8 * length p \<and> j < length px
      then bit_at p (j div 4) else bit (byte_at px j) 0)"
proof -
  have hi: "drop_bit 1 ((x AND 0xFE) OR of_bool b) = drop_bit 1 x" for x :: byte and b
  proof (rule bit_word_eqI)
    fix n assume n: "n < LENGTH(8)"
    then have "Suc n < 8 \<longrightarrow> bit (0xFE :: byte) (Suc n)"
      by (auto simp: less_Suc_eq numeral_eq_Suc)
    then show "bit (drop_bit 1 ((x AND 0xFE) OR of_bool b)) n = bit (drop_bit 1 x) n"
      using bit_imp_le_length [of x "Suc n"]
      by (auto simp: bit_drop_bit_eq bit_and_iff bit_or_iff bit_of_bool_iff)
  qed
  show ?thesis
  proof (cases "j mod 4 = 0 \<and> j div 4 < 8 * length p \<and> j < length px")
    case True
    then have "bytes_bits p ! (j div 4) = bit_at p (j div 4)"
      by (simp add: nth_bytes_bits)
    with True show ?thesis
      by (simp only: byte_at_embed hi lsb_written length_embed_payload simp_thms if_True)
  next
    case False
    then show ?thesis by (simp only: byte_at_embed length_embed_payload simp_thms if_False)
  qed
qed

text \<open>
  C33: Round trip on an image of exactly the payload's size: with a 32-byte key, a
  12-byte IV and an opaque lossless carrier of \<open>8 * (36 + n)\<close> pixels, a text of \<open>n\<close>
  bytes embedded by \<open>embedText\<close> is what \<open>extractText\<close> returns.
\<close>
theorem stego_text_roundtrip:
  assumes "carrier_ok cv url im" and "gcm_documented wc"
    and "length (hex_to_bytes key) = 32" and "length iv = IV_SIZE"
    and "0 < length (utf8_encode s)" and "length (utf8_encode s) < 2 ^ 32"
    and "pixels im = 8 * (36 + length (utf8_encode s))"
    and "cv_text cv (utf8_encode s) = s"
  shows "\<exists>stego. carrier (fst (embed_text True cv wc iv url s key log0)) = Some stego \<and>
      xtext (fst (extract_text True cv wc stego key log1)) = Some s"
proof -
  let ?d = "utf8_encode s"
  obtain enc where enc: "wc_seal wc (hex_to_bytes key) iv ?d = Some enc"
      "length enc = length ?d + 16" "wc_open wc (hex_to_bytes key) iv enc = Some ?d"
    using gcm_documentedE [OF assms(2,3)] assms(4) by (auto simp: IV_SIZE_def)
  let ?p = "build_payload (length ?d) iv enc"
  have "8 * length ?p = length (red_bits (img_data im))"
    using assms(4,7) enc(2) by (simp only: pixels_red_bits [OF assms(1)]) (simp add: IV_SIZE_def)
  then have "bits_to_bytes (red_bits (embed_payload ?p (img_data im))) = ?p @ []"
    by (simp add: read_payload_fits bits_to_bytes_Nil)
  moreover have "fst (open_payload wc (?p @ []) key log1) =
      \<lparr>xdata = Some ?d, xtext = None, extract_failure = None\<rparr>"
    using open_payload_built [OF assms(4,5,6), of enc wc "[]" key log1] enc by simp
  moreover have "length ?d + HEADER_SIZE \<le> (3 * pixels im) div 8"
    using assms(7) by (simp add: HEADER_SIZE_def)
  note embed_succeeds [OF assms(1) enc(1) this, of log0]
  ultimately show ?thesis
    using assms(8) extract_embedded [OF assms(1), of wc ?p key log1]
    by (simp add: embed_text_def extract_text_def split_beta)
qed

lemma demo_key: "length (hex_to_bytes (replicate 64 CHR ''0'')) = 32"
  by (simp add: numeral_eq_Suc)

lemma demo_text: "cv_text (demo_canvas im) (utf8_encode ''hi'') = ''hi''"
  by (simp add: demo_canvas_def) code_simp

theorem stego_text_roundtrip_witness:
  "\<exists>stego. carrier (fst (embed_text True (demo_canvas (white 19 16)) demo_crypto (replicate 12 5)
        ''carrier'' ''hi'' (replicate 64 CHR ''0'') [])) = Some stego \<and>
      xtext (fst (extract_text True (demo_canvas (white 19 16)) demo_crypto stego
        (replicate 64 CHR ''0'') [])) = Some ''hi''"
  by (rule stego_text_roundtrip [OF white_carrier demo_gcm demo_key])
    (simp_all only: demo_text, simp_all add: IV_SIZE_def utf8_encode_def utf8_char_def)

text \<open>
  On a larger image the extraction hands the cipher every byte of the image after the
  IV: it decrypts the ciphertext followed by \<open>(pixels + 7) div 8 - (36 + n)\<close> bytes read
  from the untouched pixels, so it returns the data only if the cipher accepts a ciphertext
  with those bytes appended.
\<close>
theorem extract_decrypts_trailing_bytes:
  assumes "carrier_ok cv url im" and "length iv = IV_SIZE"
    and "wc_seal wc (hex_to_bytes key) iv secret = Some enc" and "length enc = length secret + 16"
    and "0 < length secret" and "length secret < 2 ^ 32"
    and "8 * (36 + length secret) \<le> pixels im"
  shows "\<exists>stego trailing. carrier (fst (embed True cv wc iv url secret key log0)) = Some stego \<and>
      length trailing = (pixels im + 7) div 8 - (36 + length secret) \<and>
      xdata (fst (extract_data True cv wc stego key log1)) =
        map_option (take (length secret)) (wc_open wc (hex_to_bytes key) iv (enc @ trailing))"
proof -
  let ?p = "build_payload (length secret) iv enc"
  let ?t = "bits_to_bytes (drop (8 * length ?p) (red_bits (img_data im)))"
  have fits: "8 * length ?p \<le> length (red_bits (img_data im))"
    using assms(2,4,7) by (simp only: pixels_red_bits [OF assms(1)]) (simp add: IV_SIZE_def)
  have "length secret + HEADER_SIZE \<le> (3 * pixels im) div 8"
    using assms(7) by (simp add: HEADER_SIZE_def)
  note emb = embed_succeeds [OF assms(1,3) this, of log0]
  have "length secret \<le> length enc" using assms(4) by simp
  note opened = open_payload_built [OF assms(2,5,6) this, of wc ?t key log1]
  have "length ?t = (pixels im + 7) div 8 - (36 + length secret)"
    using fits assms(2,4) by (simp only: length_bits_to_bytes length_drop pixels_red_bits [OF assms(1)])
      (simp add: IV_SIZE_def)
  moreover have "xdata (fst (extract_data True cv wc (cv_png cv
        (im\<lparr>img_data := embed_payload ?p (img_data im)\<rparr>)) key log1)) =
      map_option (take (length secret)) (wc_open wc (hex_to_bytes key) iv (enc @ ?t))"
    unfolding extract_embedded [OF assms(1)] read_payload_fits [OF fits] opened
    by (simp add: extract_fail_def split: option.split)
  ultimately show ?thesis unfolding emb by (intro exI conjI) (simp_all only: stego_result.select_convs fst_conv)
qed

theorem extract_decrypts_trailing_bytes_witness:
  "\<exists>stego trailing. carrier (fst (embed True (demo_canvas (white 20 20)) demo_crypto (replicate 12 5)
        ''carrier'' [1] (replicate 64 CHR ''0'') [])) = Some stego \<and>
      length trailing = (pixels (white 20 20) + 7) div 8 - (36 + length [1::byte]) \<and>
      xdata (fst (extract_data True (demo_canvas (white 20 20)) demo_crypto stego
        (replicate 64 CHR ''0'') [])) =
        map_option (take (length [1::byte])) (wc_open demo_crypto
          (hex_to_bytes (replicate 64 CHR ''0'')) (replicate 12 5) ((1 # replicate 16 8) @ trailing))"
  by (rule extract_decrypts_trailing_bytes [OF white_carrier])
    (simp_all add: IV_SIZE_def demo_crypto_def)

text \<open>
  The capacity check counts three bits per pixel and 28 bytes of overhead, but one bit
  per pixel is written and the overhead is 36 bytes. For every secret that passes the check
  on an image with fewer than \<open>8 * (20 + n)\<close> pixels (rounded up to whole bytes), embedding
  reports success with a stego image from which extraction fails with an invalid length:
  the secret is lost without an error.
\<close>
theorem undersized_image_loses_data:
  assumes "carrier_ok cv url im" and "length iv = IV_SIZE"
    and "wc_seal wc (hex_to_bytes key) iv secret = Some enc" and "length enc = length secret + 16"
    and "length secret < 2 ^ 32" and "64 \<le> pixels im"
    and "length secret + HEADER_SIZE \<le> (3 * pixels im) div 8"
    and "(pixels im + 7) div 8 < 20 + length secret"
  shows "\<exists>stego. carrier (fst (embed True cv wc iv url secret key log0)) = Some stego \<and>
      stego_failure (fst (embed True cv wc iv url secret key log0)) = None \<and>
      extract_data True cv wc stego key log1 = (extract_fail InvalidDataLength, log1)"
proof -
  let ?p = "build_payload (length secret) iv enc"
  have n: "length (red_bits (img_data im)) = pixels im" by (rule pixels_red_bits [OF assms(1)])
  have "length (red_bits (img_data im)) < 8 * length ?p"
    using assms(2,4,8) unfolding n by (simp add: IV_SIZE_def)
  then obtain r where r: "bits_to_bytes (red_bits (embed_payload ?p (img_data im))) =
      take (pixels im div 8) ?p @ r"
    unfolding n [symmetric] by (rule read_payload_short)
  have "length (bits_to_bytes (red_bits (embed_payload ?p (img_data im)))) = (pixels im + 7) div 8"
    using n by (simp only: length_bits_to_bytes length_red_bits length_embed_payload)
  then have "length (take (pixels im div 8) ?p @ r) < 20 + length secret"
    unfolding r using assms(8) by simp
  moreover have "8 \<le> pixels im div 8" using assms(6) by simp
  ultimately have "open_payload wc (take (pixels im div 8) ?p @ r) key log1 =
      (extract_fail InvalidDataLength, log1)"
    by (intro open_payload_cut [OF assms(2,5) refl])
  then show ?thesis
    unfolding embed_succeeds [OF assms(1,3,7), of log0] using extract_embedded [OF assms(1)] r by simp
qed

theorem undersized_image_loses_data_witness:
  "\<exists>stego. carrier (fst (embed True (demo_canvas (white 16 16)) demo_crypto (replicate 12 5)
        ''carrier'' (replicate 40 1) (replicate 64 CHR ''0'') [])) = Some stego \<and>
      stego_failure (fst (embed True (demo_canvas (white 16 16)) demo_crypto (replicate 12 5)
        ''carrier'' (replicate 40 1) (replicate 64 CHR ''0'') [])) = None \<and>
      extract_data True (demo_canvas (white 16 16)) demo_crypto stego (replicate 64 CHR ''0'') [] =
        (extract_fail InvalidDataLength, [])"
  by (rule undersized_image_loses_data [OF white_carrier,
        where enc = "replicate 40 1 @ replicate 16 (fold (+) (replicate 40 1) 7)"])
    (simp_all only: length_append length_replicate pixels_white, simp_all add: IV_SIZE_def HEADER_SIZE_def demo_crypto_def)

text \<open>
  Detection never finds anything: it reads every fourth of the first 32 channel values,
  eight bits, and compares the single byte they make with the four-byte magic.
\<close>
theorem detection_always_false: "detect_stego web cv url = False"
proof -
  have "length (bits_to_bytes (magic_bits px)) \<le> 1" for px
    by (simp add: magic_bits_def)
  moreover have "length (utf8_encode MAGIC_BYTES) = 4" by (simp add: magic_ascii)
  ultimately have "\<not> is_magic (bits_to_bytes (magic_bits px))" for px
    unfolding is_magic_def by (metis one_le_numeral not_less numeral_le_one_iff semiring_norm(69))
  then show ?thesis by (simp add: detect_stego_def split: sum.split)
qed

text \<open>
  The chi-square statistic of \<open>z\<close> zero and \<open>o\<close> one bits is \<open>(z - o) ^ 2 / (z + o)\<close>,
  so its thresholds read as integer comparisons: resistance is high iff
  \<open>1000 (z - o) ^ 2 < 3841 (z + o)\<close>, medium iff not high and \<open>(z - o) ^ 2 < 10 (z + o)\<close>, and
  the anomaly flag is raised iff \<open>(z - o) ^ 2 > 10 (z + o)\<close>.
\<close>
theorem statistical_profile_spec:
  assumes "cv_load cv url = Some im" and "cv_context cv" and "0 < length (img_data im)"
    and "z = int (length (filter Not (rgb_lsbs (img_data im))))"
    and "n = int (length (rgb_lsbs (img_data im)))"
  shows "fst (get_statistical_profile True cv url log0) =
     (Some (of_int ((2 * z - n)\<^sup>2) / of_int n),
      (if 1000 * (2 * z - n)\<^sup>2 < 3841 * n then High
       else if (2 * z - n)\<^sup>2 < 10 * n then Medium else Low),
      (2 * z - n)\<^sup>2 > 10 * n)"
proof -
  let ?l = "rgb_lsbs (img_data im)"
  have "length ?l = 3 * ((length (img_data im) + 3) div 4)"
    by (simp add: rgb_lsbs_def length_concat comp_def sum_list_triv)
  moreover have "0 < (length (img_data im) + 3) div 4" using assms(3) by linarith
  ultimately have ne: "?l \<noteq> []" by auto
  then have n: "0 < n" using assms(5) by simp
  then have r: "(0 :: rat) < of_int n" by simp
  have chi: "chi_square ?l = Some (of_int ((2 * z - n)\<^sup>2) / of_int n)"
    using ne r assms(4,5) by (simp add: chi_square_def Let_def field_simps power2_eq_square)
  have lt: "of_int a / of_int n < (of_int b / of_int c :: rat) \<longleftrightarrow> c * a < b * n" if "0 < c" for a b c
  proof -
    have "of_int a / of_int n < (of_int b / of_int c :: rat) \<longleftrightarrow> (of_int (c * a) :: rat) < of_int (b * n)"
      using r that by (simp add: field_simps)
    then show ?thesis by (simp only: of_int_less_iff)
  qed
  have gt: "(10 :: rat) < of_int a / of_int n \<longleftrightarrow> 10 * n < a" for a
  proof -
    have "(10 :: rat) < of_int a / of_int n \<longleftrightarrow> (of_int (10 * n) :: rat) < of_int a"
      using r by (simp add: field_simps)
    then show ?thesis by (simp only: of_int_less_iff)
  qed
  have cls: "classify (Some (of_int a / of_int n)) =
      (if 1000 * a < 3841 * n then High else if a < 10 * n then Medium else Low)" for a
  proof -
    have "of_int a / of_int n < (3841 / 1000 :: rat) \<longleftrightarrow> 1000 * a < 3841 * n"
      and "of_int a / of_int n < (10 :: rat) \<longleftrightarrow> a < 10 * n"
      using lt [of 1000 a 3841] lt [of 1 a 10] by simp_all
    then show ?thesis by (simp only: classify_def below_def option.case)
  qed
  show ?thesis
    by (simp only: get_statistical_profile_def get_canvas_with_image_def assms(1,2) option.case
        sum.case if_True if_False simp_thms Let_def chi cls gt fst_conv)
qed

theorem statistical_profile_spec_witness:
  "fst (get_statistical_profile True (demo_canvas (white 2 1)) ''carrier'' []) =
     (Some (of_int ((2 * 0 - 6)\<^sup>2) / of_int 6),
      (if 1000 * (2 * 0 - 6)\<^sup>2 < 3841 * (6 :: int) then High
       else if (2 * 0 - 6)\<^sup>2 < 10 * (6 :: int) then Medium else Low),
      (2 * 0 - 6)\<^sup>2 > 10 * (6 :: int))"
  by (rule statistical_profile_spec [where im = "white 2 1"]) code_simp+

end
