(* ===== verification/Event_System.thy ===== *)
theory Event_System
  imports QS_Prelude
begin

text \<open>
  Services as event systems. JavaScript runs one handler at a time, up to the next
  \<open>await\<close>: a service is a state and a partial step function on events (\<open>None\<close>: the event
  cannot happen in that state), a history is a list of events. \<open>reaches\<close> is the reachability
  relation of the events a client is allowed to use; the locale turns an invariant of every
  allowed step into an invariant of every history.
\<close>

fun run :: "('e \<Rightarrow> 's \<Rightarrow> 's option) \<Rightarrow> 'e list \<Rightarrow> 's \<Rightarrow> 's option" where
  "run step [] s = Some s"
| "run step (e # es) s = (case step e s of None \<Rightarrow> None | Some s' \<Rightarrow> run step es s')"

inductive reaches :: "('e \<Rightarrow> 's \<Rightarrow> 's option) \<Rightarrow> ('e \<Rightarrow> bool) \<Rightarrow> 's \<Rightarrow> 's \<Rightarrow> bool"
  for step allowed where
  reaches_refl: "reaches step allowed s s"
| reaches_step: "reaches step allowed s t \<Longrightarrow> allowed e \<Longrightarrow> step e t = Some u \<Longrightarrow> reaches step allowed s u"

inductive_cases reachesE: "reaches step allowed s t"

lemma run_append: "run step (as @ bs) s = (case run step as s of None \<Rightarrow> None | Some t \<Rightarrow> run step bs t)"
  by (induction "as" arbitrary: s) (auto split: option.split)

lemma run_reaches:
  "run step es s = Some t \<Longrightarrow> list_all allowed es \<Longrightarrow> reaches step allowed s t"
proof (induction es arbitrary: t rule: rev_induct)
  case Nil
  then show ?case by (simp add: reaches_refl)
next
  case (snoc e es)
  then show ?case
    by (auto simp: run_append split: option.splits intro: reaches_step)
qed

lemma reaches_run: "reaches step allowed s t \<Longrightarrow> \<exists>es. list_all allowed es \<and> run step es s = Some t"
proof (induction rule: reaches.induct)
  case (reaches_refl s)
  show ?case by (rule exI [of _ "[]"]) simp
next
  case (reaches_step s t e u)
  then obtain es where "list_all allowed es" "run step es s = Some t" by blast
  with reaches_step show ?case by (intro exI [of _ "es @ [e]"]) (simp add: run_append)
qed

locale event_system =
  fixes step :: "'e \<Rightarrow> 's \<Rightarrow> 's option"
    and allowed :: "'e \<Rightarrow> bool"
    and inv :: "'s \<Rightarrow> bool"
  assumes step_inv: "inv s \<Longrightarrow> allowed e \<Longrightarrow> step e s = Some t \<Longrightarrow> inv t"
begin

lemma reaches_inv: "reaches step allowed s t \<Longrightarrow> inv s \<Longrightarrow> inv t"
  by (induction rule: reaches.induct) (auto intro: step_inv)

lemma run_inv: "inv s \<Longrightarrow> list_all allowed es \<Longrightarrow> run step es s = Some t \<Longrightarrow> inv t"
  by (rule reaches_inv [OF run_reaches])

end

end
