(* ===== verification/Offline_Queue.thy ===== *)
theory Offline_Queue
  imports Event_System
begin

text \<open>
  \<open>services/offlineQueueService.ts\<close>: vault and file operations queued for replay. Operations
  are objects shared between \<open>this.queue\<close> and the \<open>pending\<close> array of a running
  \<open>processQueue\<close>, so the model has a heap: \<open>cells\<close> holds the objects, \<open>queue\<close> and the loops
  hold references (indices). A \<open>processQueue\<close> call in flight is an entry of \<open>loops\<close>: either
  it awaits the handler of one operation or it sleeps, with the references still to do.
  The events of \<open>oq_step\<close> are the atomic sections between two \<open>await\<close>s. Listeners record
  the state they are shown; a listener that calls back into the service synchronously is not
  modelled.
\<close>

subsection \<open>Data\<close>

datatype operation_type =
  CreateVault | DeleteVault | RenameVault | UploadFile | DeleteFile | RenameFile

datatype operation_status = Pending | Processing | Completed | OpFailed | Conflict

record queued_op =
  op_id :: string
  op_type :: operation_type
  op_payload :: string
  op_status :: operation_status
  created_at :: time
  retry_count :: nat
  max_retries :: nat
  last_error :: "string option"
  last_attempt :: "time option"

record queue_view =
  pending_count :: nat
  processing_count :: nat
  failed_count :: nat
  view_processing :: bool
  view_online :: bool

text \<open>A thrown value: an object with a \<open>code\<close>, an \<open>Error\<close> without one, or anything else.\<close>

datatype thrown = ThrownCode string string | ThrownError string | ThrownOther string

datatype outcome = Resolved | Rejected thrown

datatype flush = Awaiting nat "nat list" | Sleeping nat "nat list"

datatype audit_entry =
    OpQueued string operation_type
  | OpCompleted string operation_type
  | OpFailedForGood string operation_type string

record oq =
  web :: bool
  cells :: "queued_op list"
  queue :: "nat list"
  is_processing :: bool
  is_online :: bool
  handlers :: "operation_type \<Rightarrow> bool"
  listeners :: "nat list"
  delivered :: "(nat \<times> queue_view) list"
  listening :: bool
  loops :: "flush list"
  slot :: "queued_op list stored option"
  audit :: "audit_entry list"

definition MAX_QUEUE_SIZE :: nat where "MAX_QUEUE_SIZE = 100"
definition MAX_RETRIES_DEFAULT :: nat where "MAX_RETRIES_DEFAULT = 5"
definition RETRY_DELAYS_MS :: "nat list" where "RETRY_DELAYS_MS = [1000, 2000, 4000, 8000, 16000]"

subsection \<open>State, listeners, persistence\<close>

abbreviation cell :: "oq \<Rightarrow> nat \<Rightarrow> queued_op" where
  "cell s r \<equiv> cells s ! r"

definition status_of :: "oq \<Rightarrow> nat \<Rightarrow> operation_status" where
  "status_of s r = op_status (cell s r)"

definition set_op :: "nat \<Rightarrow> (queued_op \<Rightarrow> queued_op) \<Rightarrow> oq \<Rightarrow> oq" where
  "set_op r f s = s\<lparr>cells := (cells s)[r := f (cell s r)]\<rparr>"

definition count_status :: "operation_status \<Rightarrow> oq \<Rightarrow> nat" where
  "count_status st s = length (filter (\<lambda>r. status_of s r = st) (queue s))"

definition get_state :: "oq \<Rightarrow> queue_view" where
  "get_state s = \<lparr>pending_count = count_status Pending s,
     processing_count = count_status Processing s, failed_count = count_status OpFailed s,
     view_processing = is_processing s, view_online = is_online s\<rparr>"

definition notify_listeners :: "oq \<Rightarrow> oq" where
  "notify_listeners s = s\<lparr>delivered := delivered s @ map (\<lambda>l. (l, get_state s)) (listeners s)\<rparr>"

definition save_queue :: "oq \<Rightarrow> oq" where
  "save_queue s = (if \<not> web s then s else s\<lparr>slot := Some (Json (map (cell s) (queue s)))\<rparr>)"

definition reset_interrupted :: "queued_op \<Rightarrow> queued_op" where
  "reset_interrupted c = (if op_status c = Processing then c\<lparr>op_status := Pending\<rparr> else c)"

definition load_queue :: "oq \<Rightarrow> oq" where
  "load_queue s =
     (if \<not> web s then s
      else case slot s of
          Some (Json ops) \<Rightarrow> s\<lparr>cells := map reset_interrupted ops, queue := [0..<length ops]\<rparr>
        | Some Garbled \<Rightarrow> s\<lparr>queue := []\<rparr>
        | None \<Rightarrow> s)"

text \<open>A new page: \<open>nav\<close> is \<open>navigator.onLine\<close> where there is one.\<close>

definition setup_network_listeners :: "bool option \<Rightarrow> oq \<Rightarrow> oq" where
  "setup_network_listeners nav s =
     (if \<not> web s then s
      else s\<lparr>is_online := (case nav of Some b \<Rightarrow> b | None \<Rightarrow> is_online s), listening := True\<rparr>)"

definition start :: "bool \<Rightarrow> bool option \<Rightarrow> queued_op list stored option \<Rightarrow> oq" where
  "start w nav doc = setup_network_listeners nav (load_queue
     \<lparr>web = w, cells = [], queue = [], is_processing = False, is_online = True,
      handlers = (\<lambda>_. False), listeners = [], delivered = [], listening = False,
      loops = [], slot = doc, audit = []\<rparr>)"

subsection \<open>Queue operations\<close>

definition removable :: "oq \<Rightarrow> nat \<Rightarrow> bool" where
  "removable s r = (status_of s r = OpFailed \<or> status_of s r = Completed)"

definition trim_queue :: "oq \<Rightarrow> oq" where
  "trim_queue s =
     (if length (queue s) > MAX_QUEUE_SIZE
      then s\<lparr>queue := fold remove1
               (take (length (queue s) - MAX_QUEUE_SIZE) (filter (removable s) (queue s))) (queue s)\<rparr>
      else s)"

definition enqueue :: "string \<Rightarrow> operation_type \<Rightarrow> string \<Rightarrow> time \<Rightarrow> oq \<Rightarrow> oq" where
  "enqueue i ty pl now s =
     (let c = \<lparr>op_id = i, op_type = ty, op_payload = pl, op_status = Pending, created_at = now,
               retry_count = 0, max_retries = MAX_RETRIES_DEFAULT, last_error = None,
               last_attempt = None\<rparr>;
          s1 = s\<lparr>cells := cells s @ [c], queue := queue s @ [length (cells s)]\<rparr>;
          s2 = notify_listeners (save_queue (trim_queue s1))
      in s2\<lparr>audit := audit s2 @ [OpQueued i ty]\<rparr>)"

definition remove_operation :: "string \<Rightarrow> oq \<Rightarrow> bool \<times> oq" where
  "remove_operation i s =
     (case find_index (\<lambda>r. op_id (cell s r) = i) (queue s) of
        None \<Rightarrow> (False, s)
      | Some idx \<Rightarrow> (True, notify_listeners (save_queue (s\<lparr>queue := splice1 idx (queue s)\<rparr>))))"

definition revive :: "queued_op \<Rightarrow> queued_op" where
  "revive c = (if op_status c = OpFailed
     then c\<lparr>op_status := Pending, retry_count := 0, last_error := None\<rparr> else c)"

definition retry_failed :: "oq \<Rightarrow> oq" where
  "retry_failed s = notify_listeners (save_queue (fold (\<lambda>r. set_op r revive) (queue s) s))"

definition clear :: "oq \<Rightarrow> oq" where
  "clear s = notify_listeners (save_queue
     (s\<lparr>queue := [], is_processing := False, is_online := True\<rparr>))"

definition register_handler :: "operation_type \<Rightarrow> oq \<Rightarrow> oq" where
  "register_handler ty s = s\<lparr>handlers := (handlers s)(ty := True)\<rparr>"

definition subscribe :: "nat \<Rightarrow> oq \<Rightarrow> oq" where
  "subscribe l s = s\<lparr>listeners := (if l \<in> set (listeners s) then listeners s else listeners s @ [l])\<rparr>"

definition unsubscribe :: "nat \<Rightarrow> oq \<Rightarrow> oq" where
  "unsubscribe l s = s\<lparr>listeners := removeAll l (listeners s)\<rparr>"

definition destroy :: "oq \<Rightarrow> oq" where
  "destroy s = s\<lparr>listening := False, listeners := []\<rparr>"

definition get_operations :: "oq \<Rightarrow> queued_op list" where
  "get_operations s = map (cell s) (queue s)"

subsection \<open>Processing\<close>

definition lower_char :: "char \<Rightarrow> char" where
  "lower_char c = (let n = of_char c :: nat in
     if (65 \<le> n \<and> n \<le> 90) \<or> (192 \<le> n \<and> n \<le> 222 \<and> n \<noteq> 215) then char_of (n + 32) else c)"

definition is_network_error :: "thrown \<Rightarrow> bool" where
  "is_network_error e =
     (case e of
        ThrownCode code _ \<Rightarrow> code \<in> {''NETWORK_ERROR'', ''OFFLINE'', ''ERR_NETWORK''}
      | ThrownError msg \<Rightarrow> (let m = map lower_char msg in
          has_infix ''network'' m \<or> has_infix ''offline'' m \<or> has_infix ''failed to fetch'' m)
      | ThrownOther _ \<Rightarrow> False)"

definition thrown_text :: "thrown \<Rightarrow> string" where
  "thrown_text e = (case e of ThrownCode _ t \<Rightarrow> t | ThrownError t \<Rightarrow> t | ThrownOther t \<Rightarrow> t)"

definition finish :: "oq \<Rightarrow> oq" where
  "finish s = notify_listeners (save_queue
     (s\<lparr>queue := filter (\<lambda>r. status_of s r \<noteq> Completed) (queue s), is_processing := False\<rparr>))"

text \<open>The \<open>for\<close> loop up to its next \<open>await\<close>, or to its end.\<close>

fun advance :: "time \<Rightarrow> nat list \<Rightarrow> oq \<Rightarrow> flush option \<times> oq" where
  "advance now [] s = (None, finish s)"
| "advance now (r # rs) s =
     (if \<not> handlers s (op_type (cell s r))
      then advance now rs (set_op r (\<lambda>c. c\<lparr>op_status := OpFailed,
             last_error := Some ''No handler registered''\<rparr>) s)
      else (Some (Awaiting r rs), notify_listeners (set_op r
             (\<lambda>c. c\<lparr>op_status := Processing, last_attempt := Some now\<rparr>) s)))"

definition put_loop :: "nat \<Rightarrow> flush option \<times> oq \<Rightarrow> oq" where
  "put_loop k p = (case p of
      (None, s) \<Rightarrow> s\<lparr>loops := splice1 k (loops s)\<rparr>
    | (Some l, s) \<Rightarrow> s\<lparr>loops := take k (loops s) @ l # drop (Suc k) (loops s)\<rparr>)"

definition process_queue :: "time \<Rightarrow> oq \<Rightarrow> oq" where
  "process_queue now s =
     (if is_processing s \<or> \<not> is_online s then s
      else let todo = filter (\<lambda>r. status_of s r = Pending) (queue s) in
        if todo = [] then s
        else put_loop (length (loops s)) (advance now todo (notify_listeners (s\<lparr>is_processing := True\<rparr>))))"

definition backoff :: "nat \<Rightarrow> nat" where
  "backoff retries = RETRY_DELAYS_MS ! min (retries - 1) (length RETRY_DELAYS_MS - 1)"

text \<open>The loop continues after its handler settled, or after its sleep.\<close>

definition handler_settled :: "time \<Rightarrow> outcome \<Rightarrow> nat \<Rightarrow> nat list \<Rightarrow> oq \<Rightarrow> flush option \<times> oq" where
  "handler_settled now out r rs s =
     (case out of
        Resolved \<Rightarrow>
          (let s1 = set_op r (\<lambda>c. c\<lparr>op_status := Completed\<rparr>) s in
           advance now rs (s1\<lparr>audit := audit s1 @ [OpCompleted (op_id (cell s r)) (op_type (cell s r))]\<rparr>))
      | Rejected e \<Rightarrow>
          (let s1 = set_op r (\<lambda>c. c\<lparr>retry_count := retry_count c + 1,
                      last_error := Some (thrown_text e)\<rparr>) s
           in if retry_count (cell s1 r) \<ge> max_retries (cell s1 r)
              then let s2 = set_op r (\<lambda>c. c\<lparr>op_status := OpFailed\<rparr>) s1 in
                advance now rs (s2\<lparr>audit := audit s2 @
                  [OpFailedForGood (op_id (cell s r)) (op_type (cell s r)) (thrown_text e)]\<rparr>)
              else let s2 = set_op r (\<lambda>c. c\<lparr>op_status := Pending\<rparr>) s1 in
                if is_network_error e then (None, finish (s2\<lparr>is_online := False\<rparr>))
                else (Some (Sleeping (backoff (retry_count (cell s1 r))) rs), s2)))"

subsection \<open>Events\<close>

datatype oq_event =
    Enqueue string operation_type string time
  | Flush time
  | Settle time nat outcome
  | Wake time nat
  | Remove string
  | RetryFailed
  | Clear
  | Register operation_type
  | Subscribe nat
  | Unsubscribe nat
  | Online time
  | Offline
  | Destroy
  | Reload "bool option"

definition oq_step :: "oq_event \<Rightarrow> oq \<Rightarrow> oq option" where
  "oq_step e s =
     (case e of
        Enqueue i ty pl now \<Rightarrow> Some (enqueue i ty pl now s)
      | Flush now \<Rightarrow> Some (process_queue now s)
      | Settle now k out \<Rightarrow>
          (if k < length (loops s)
           then case loops s ! k of
               Awaiting r rs \<Rightarrow> Some (put_loop k (handler_settled now out r rs s))
             | Sleeping _ _ \<Rightarrow> None
           else None)
      | Wake now k \<Rightarrow>
          (if k < length (loops s)
           then case loops s ! k of
               Awaiting _ _ \<Rightarrow> None
             | Sleeping _ rs \<Rightarrow> Some (put_loop k (advance now rs s))
           else None)
      | Remove i \<Rightarrow> Some (snd (remove_operation i s))
      | RetryFailed \<Rightarrow> Some (retry_failed s)
      | Clear \<Rightarrow> Some (clear s)
      | Register ty \<Rightarrow> Some (register_handler ty s)
      | Subscribe l \<Rightarrow> Some (subscribe l s)
      | Unsubscribe l \<Rightarrow> Some (unsubscribe l s)
      | Online now \<Rightarrow>
          (if listening s then Some (process_queue now (notify_listeners (s\<lparr>is_online := True\<rparr>))) else None)
      | Offline \<Rightarrow> (if listening s then Some (notify_listeners (s\<lparr>is_online := False\<rparr>)) else None)
      | Destroy \<Rightarrow> Some (destroy s)
      | Reload nav \<Rightarrow> Some (start (web s) nav (slot s)))"

subsection \<open>Frame facts\<close>

lemma set_op_simps [simp]:
  "queue (set_op r f s) = queue s" "is_processing (set_op r f s) = is_processing s"
  "is_online (set_op r f s) = is_online s" "loops (set_op r f s) = loops s"
  "slot (set_op r f s) = slot s" "web (set_op r f s) = web s"
  "handlers (set_op r f s) = handlers s" "listening (set_op r f s) = listening s"
  "length (cells (set_op r f s)) = length (cells s)"
  by (simp_all add: set_op_def)

lemma set_op_twice [simp]: "set_op r f (set_op r g s) = set_op r (\<lambda>c. f (g c)) s"
proof (cases "r < length (cells s)")
  case False
  then show ?thesis by (simp add: set_op_def list_update_beyond)
qed (simp add: set_op_def)

lemma cell_set_op:
  "cell (set_op r f s) q = (if q = r \<and> r < length (cells s) then f (cell s r) else cell s q)"
  by (cases "r < length (cells s)") (auto simp: set_op_def nth_list_update list_update_beyond)

lemma status_set_op:
  "status_of (set_op r f s) q =
     (if q = r \<and> r < length (cells s) then op_status (f (cell s r)) else status_of s q)"
  by (simp add: status_of_def cell_set_op)

lemma notify_simps [simp]:
  "cells (notify_listeners s) = cells s" "queue (notify_listeners s) = queue s"
  "is_processing (notify_listeners s) = is_processing s" "is_online (notify_listeners s) = is_online s"
  "loops (notify_listeners s) = loops s" "slot (notify_listeners s) = slot s"
  "web (notify_listeners s) = web s" "handlers (notify_listeners s) = handlers s"
  "listening (notify_listeners s) = listening s" "audit (notify_listeners s) = audit s"
  by (simp_all add: notify_listeners_def)

lemma save_simps [simp]:
  "cells (save_queue s) = cells s" "queue (save_queue s) = queue s"
  "is_processing (save_queue s) = is_processing s" "is_online (save_queue s) = is_online s"
  "loops (save_queue s) = loops s" "web (save_queue s) = web s"
  "handlers (save_queue s) = handlers s" "listening (save_queue s) = listening s"
  "audit (save_queue s) = audit s"
  "slot (save_queue s) = (if web s then Some (Json (map (cell s) (queue s))) else slot s)"
  by (simp_all add: save_queue_def)

lemma trim_simps [simp]:
  "cells (trim_queue s) = cells s" "is_processing (trim_queue s) = is_processing s"
  "is_online (trim_queue s) = is_online s" "loops (trim_queue s) = loops s"
  "slot (trim_queue s) = slot s" "web (trim_queue s) = web s"
  "handlers (trim_queue s) = handlers s" "listening (trim_queue s) = listening s"
  by (simp_all add: trim_queue_def)

lemma fold_set_op_frame:
  "queue (fold (\<lambda>r. set_op r f) rs s) = queue s \<and>
   is_processing (fold (\<lambda>r. set_op r f) rs s) = is_processing s \<and>
   is_online (fold (\<lambda>r. set_op r f) rs s) = is_online s \<and>
   loops (fold (\<lambda>r. set_op r f) rs s) = loops s \<and>
   slot (fold (\<lambda>r. set_op r f) rs s) = slot s \<and>
   web (fold (\<lambda>r. set_op r f) rs s) = web s \<and>
   listening (fold (\<lambda>r. set_op r f) rs s) = listening s \<and>
   length (cells (fold (\<lambda>r. set_op r f) rs s)) = length (cells s)"
  by (induction rs arbitrary: s) simp_all

lemma finish_simps [simp]:
  "cells (finish s) = cells s" "is_processing (finish s) = False"
  "is_online (finish s) = is_online s" "loops (finish s) = loops s" "web (finish s) = web s"
  "queue (finish s) = filter (\<lambda>r. status_of s r \<noteq> Completed) (queue s)"
  "handlers (finish s) = handlers s" "listening (finish s) = listening s" "audit (finish s) = audit s"
  by (simp_all add: finish_def)

lemma status_cong: "cells t = cells s \<Longrightarrow> status_of t r = status_of s r"
  by (simp add: status_of_def)

lemma fold_remove1_subset: "set (fold remove1 ys xs) \<subseteq> set xs"
  by (induction ys arbitrary: xs) (auto dest: subsetD [OF set_remove1_subset])

lemma distinct_fold_remove1: "distinct xs \<Longrightarrow> distinct (fold remove1 ys xs)"
  by (induction ys arbitrary: xs) (simp_all add: distinct_remove1)

lemma set_splice1: "set (splice1 i xs) \<subseteq> set xs"
  unfolding splice1_def by (auto dest: in_set_takeD in_set_dropD)

lemma distinct_splice1: "distinct xs \<Longrightarrow> distinct (splice1 i xs)"
  unfolding splice1_def using set_take_disj_set_drop_if_distinct [of xs i "Suc i"] by simp

subsection \<open>The invariant\<close>

definition op_ok :: "queued_op \<Rightarrow> bool" where
  "op_ok c = (0 < max_retries c \<and> retry_count c \<le> max_retries c \<and>
     (op_status c \<in> {Pending, Processing} \<longrightarrow> retry_count c < max_retries c))"

definition slot_ok :: "queued_op list stored option \<Rightarrow> bool" where
  "slot_ok d = (case d of Some (Json ops) \<Rightarrow> list_all op_ok ops | _ \<Rightarrow> True)"

definition core :: "oq \<Rightarrow> bool" where
  "core s = (distinct (queue s) \<and> (\<forall>r\<in>set (queue s). r < length (cells s)) \<and>
     list_all op_ok (cells s) \<and> slot_ok (slot s))"

definition todo_ok :: "oq \<Rightarrow> nat list \<Rightarrow> bool" where
  "todo_ok s rs = (distinct rs \<and> (\<forall>r\<in>set rs. r < length (cells s) \<and> status_of s r = Pending))"

definition only_processing :: "oq \<Rightarrow> nat set \<Rightarrow> bool" where
  "only_processing s R = (\<forall>r<length (cells s). status_of s r = Processing \<longrightarrow> r \<in> R)"

definition flush_ok :: "oq \<Rightarrow> flush option \<Rightarrow> bool" where
  "flush_ok s l = (case l of
      None \<Rightarrow> \<not> is_processing s \<and> only_processing s {}
    | Some (Sleeping d rs) \<Rightarrow> is_processing s \<and> only_processing s {} \<and> todo_ok s rs \<and>
        d \<in> set RETRY_DELAYS_MS
    | Some (Awaiting r rs) \<Rightarrow> is_processing s \<and> only_processing s {r} \<and> todo_ok s rs \<and>
        r \<notin> set rs \<and> r < length (cells s) \<and> status_of s r = Processing)"

definition sound :: "oq \<Rightarrow> bool" where
  "sound s = (core s \<and> (\<exists>l. loops s = (case l of None \<Rightarrow> [] | Some f \<Rightarrow> [f]) \<and> flush_ok s l))"

lemma op_okI:
  "0 < max_retries c \<Longrightarrow> retry_count c < max_retries c \<Longrightarrow> op_ok c"
  by (simp add: op_ok_def)

lemma list_all_update: "list_all P xs \<Longrightarrow> P y \<Longrightarrow> list_all P (xs[i := y])"
  unfolding list_all_iff using set_update_subset_insert [of xs i y] by auto

lemma core_set_op:
  assumes "core s" and "r < length (cells s) \<Longrightarrow> op_ok (cell s r) \<Longrightarrow> op_ok (f (cell s r))"
  shows "core (set_op r f s)"
proof (cases "r < length (cells s)")
  case True
  then have "op_ok (cell s r)" using assms(1) by (simp add: core_def list_all_length)
  with True assms show ?thesis
    by (auto simp: core_def set_op_def intro!: list_all_update)
next
  case False
  with assms(1) show ?thesis by (simp add: core_def set_op_def list_update_beyond)
qed

lemma slot_saved:
  "list_all op_ok (cells s) \<Longrightarrow> \<forall>r\<in>set rs. r < length (cells s) \<Longrightarrow>
   slot_ok (Some (Json (map (cell s) rs)))"
  by (simp add: slot_ok_def list_all_iff)

lemma core_save: "core s \<Longrightarrow> core (save_queue s)"
  using slot_saved [of s "queue s"] by (simp add: core_def)

lemma core_notify [simp]: "core (notify_listeners s) = core s"
  by (simp add: core_def)

lemma core_queue: "core s \<Longrightarrow> distinct q \<Longrightarrow> set q \<subseteq> set (queue s) \<Longrightarrow> core (s\<lparr>queue := q\<rparr>)"
  by (auto simp: core_def)

lemma core_cong:
  "core s \<Longrightarrow> cells t = cells s \<Longrightarrow> queue t = queue s \<Longrightarrow> slot t = slot s \<Longrightarrow> core t"
  by (simp add: core_def)

lemma core_trim: "core s \<Longrightarrow> core (trim_queue s)"
  unfolding trim_queue_def
  by (auto intro!: core_queue distinct_fold_remove1 dest: subsetD [OF fold_remove1_subset])
    (simp add: core_def)

lemma core_finish: "core s \<Longrightarrow> core (finish s)"
  unfolding finish_def core_notify
  by (intro core_save) (auto simp: core_def)

lemma only_processing_cong:
  "cells t = cells s \<Longrightarrow> only_processing t R = only_processing s R"
  by (simp add: only_processing_def status_of_def)

lemma todo_cong: "cells t = cells s \<Longrightarrow> todo_ok t rs = todo_ok s rs"
  by (simp add: todo_ok_def status_of_def)

lemma flush_ok_cong:
  "cells t = cells s \<Longrightarrow> is_processing t = is_processing s \<Longrightarrow> flush_ok t l = flush_ok s l"
  using only_processing_cong [of t s] todo_cong [of t s] status_cong [of t s]
  by (simp add: flush_ok_def split: option.split flush.split)

lemma advance_inv:
  assumes "core s" and "only_processing s {}" and "todo_ok s rs" and "is_processing s"
  shows "core (snd (advance now rs s)) \<and> flush_ok (snd (advance now rs s)) (fst (advance now rs s)) \<and>
     loops (snd (advance now rs s)) = loops s"
  using assms
proof (induction rs arbitrary: s)
  case Nil
  then show ?case
    by (simp add: core_finish flush_ok_def only_processing_cong [of "finish s" s])
next
  case (Cons r rs)
  show ?case
  proof (cases "handlers s (op_type (cell s r))")
    case True
    let ?t = "set_op r (\<lambda>c. c\<lparr>op_status := Processing, last_attempt := Some now\<rparr>) s"
    have "core ?t"
      using Cons.prems(1,3) by (intro core_set_op) (auto simp: op_ok_def todo_ok_def status_of_def)
    moreover have "flush_ok ?t (Some (Awaiting r rs))"
      using Cons.prems by (auto simp: flush_ok_def only_processing_def todo_ok_def status_set_op)
    ultimately show ?thesis
      using True by (simp add: flush_ok_cong [of "notify_listeners ?t" ?t])
  next
    case False
    let ?t = "set_op r (\<lambda>c. c\<lparr>op_status := OpFailed, last_error := Some ''No handler registered''\<rparr>) s"
    have "core ?t" "only_processing ?t {}" "todo_ok ?t rs" "is_processing ?t"
      using Cons.prems
      by (auto intro!: core_set_op simp: op_ok_def only_processing_def todo_ok_def status_set_op)
    from Cons.IH [OF this] False show ?thesis by simp
  qed
qed

lemma op_released:
  assumes "flush_ok s (Some (Awaiting r rs))" and "cells u = cells (set_op r f s)"
    and "op_status (f (cell s r)) \<noteq> Processing"
  shows "only_processing u {}" and "todo_ok u rs"
proof -
  from assms(1) have only: "only_processing s {r}" and todo: "todo_ok s rs"
    and r: "r \<notin> set rs" "r < length (cells s)"
    by (simp_all add: flush_ok_def)
  have st: "status_of u q = (if q = r then op_status (f (cell s r)) else status_of s q)" for q
    unfolding status_cong [OF assms(2)] status_set_op using r(2) by simp
  have ln: "length (cells u) = length (cells s)" by (simp add: assms(2))
  show "only_processing u {}"
    unfolding only_processing_def ln st using only assms(3) by (auto simp: only_processing_def)
  show "todo_ok u rs"
    unfolding todo_ok_def ln st using todo r(1) by (auto simp: todo_ok_def)
qed

lemma handler_settled_inv:
  assumes "core s" and "flush_ok s (Some (Awaiting r rs))"
  shows "core (snd (handler_settled now out r rs s)) \<and>
     flush_ok (snd (handler_settled now out r rs s)) (fst (handler_settled now out r rs s)) \<and>
     loops (snd (handler_settled now out r rs s)) = loops s"
proof -
  from assms(2) have pr: "is_processing s"
    and r: "r \<notin> set rs" "r < length (cells s)" "status_of s r = Processing"
    by (simp_all add: flush_ok_def)
  have okr: "op_ok (cell s r)" using assms(1) r(2) by (simp add: core_def list_all_length)
  have go: "core (snd (advance now rs u)) \<and> flush_ok (snd (advance now rs u)) (fst (advance now rs u)) \<and>
      loops (snd (advance now rs u)) = loops s"
    if "core u" "cells u = cells (set_op r f s)" "op_status (f (cell s r)) \<noteq> Processing"
      "is_processing u" "loops u = loops s" for u f
  proof -
    have "only_processing u {}" "todo_ok u rs" by (rule op_released [OF assms(2) that(2,3)])+
    from advance_inv [OF that(1) this that(4)] that(5) show ?thesis by simp
  qed
  show ?thesis
  proof (cases out)
    case Resolved
    let ?f = "\<lambda>c. c\<lparr>op_status := Completed\<rparr>"
    let ?u = "set_op r ?f s\<lparr>audit := audit (set_op r ?f s) @ [OpCompleted (op_id (cell s r)) (op_type (cell s r))]\<rparr>"
    have "core (set_op r ?f s)"
      using assms(1) by (rule core_set_op) (simp add: op_ok_def)
    then have "core ?u" by (rule core_cong) simp_all
    from go [OF this, of ?f] pr show ?thesis by (simp add: Resolved handler_settled_def Let_def)
  next
    case (Rejected e)
    let ?g = "\<lambda>c. c\<lparr>retry_count := retry_count c + 1, last_error := Some (thrown_text e)\<rparr>"
    have lim: "retry_count (cell s r) < max_retries (cell s r)"
      using okr r(3) by (simp add: op_ok_def status_of_def)
    show ?thesis
    proof (cases "retry_count (cell s r) + 1 \<ge> max_retries (cell s r)")
      case True
      let ?f = "\<lambda>c. (?g c)\<lparr>op_status := OpFailed\<rparr>"
      let ?u = "set_op r ?f s\<lparr>audit := audit (set_op r ?f s) @
          [OpFailedForGood (op_id (cell s r)) (op_type (cell s r)) (thrown_text e)]\<rparr>"
      have "core (set_op r ?f s)"
        using assms(1) lim by (intro core_set_op) (auto simp: op_ok_def)
      then have "core ?u" by (rule core_cong) simp_all
      from go [OF this, of ?f] pr True r(2) show ?thesis
        by (simp add: Rejected handler_settled_def Let_def cell_set_op)
    next
      case False
      let ?f = "\<lambda>c. (?g c)\<lparr>op_status := Pending\<rparr>"
      let ?v = "set_op r ?f s"
      have c: "core ?v" using assms(1) False by (intro core_set_op) (auto simp: op_ok_def)
      have q: "only_processing ?v {}" and t: "todo_ok ?v rs"
        by (rule op_released [OF assms(2) refl]; simp)+
      have d: "backoff n \<in> set RETRY_DELAYS_MS" for n
        unfolding backoff_def by (rule nth_mem) (simp add: RETRY_DELAYS_MS_def)
      show ?thesis
      proof (cases "is_network_error e")
        case True
        let ?w = "finish (?v\<lparr>is_online := False\<rparr>)"
        have "handler_settled now out r rs s = (None, ?w)"
          using True False r(2) by (simp add: Rejected handler_settled_def Let_def cell_set_op)
        moreover have "core (?v\<lparr>is_online := False\<rparr>)" using c by (rule core_cong) simp_all
        then have "core ?w" by (rule core_finish)
        moreover have "only_processing ?w {}"
          using q only_processing_cong [of ?w ?v] by simp
        ultimately show ?thesis by (simp add: flush_ok_def)
      next
        case no_net: False
        have "handler_settled now out r rs s =
            (Some (Sleeping (backoff (Suc (retry_count (cell s r)))) rs), ?v)"
          using no_net False r(2) by (simp add: Rejected handler_settled_def Let_def cell_set_op)
        with q t c pr d show ?thesis by (simp add: flush_ok_def)
      qed
    qed
  qed
qed

lemma sound_simple:
  assumes "sound s" and "core t" and "cells t = cells s" and "is_processing t = is_processing s"
    and "loops t = loops s"
  shows "sound t"
  using assms flush_ok_cong [of t s] unfolding sound_def by auto

lemma sound_put_loop:
  assumes "core u" and "flush_ok u l" and "loops u = [f] \<and> k = 0 \<or> loops u = [] \<and> k = 0"
  shows "sound (put_loop k (l, u))"
proof (cases l)
  case None
  then have "put_loop k (l, u) = u\<lparr>loops := []\<rparr>"
    using assms(3) by (auto simp: put_loop_def splice1_def)
  moreover have "core (u\<lparr>loops := []\<rparr>)" using assms(1) by (simp add: core_def)
  ultimately show ?thesis
    using assms(2) None flush_ok_cong [of "u\<lparr>loops := []\<rparr>" u] by (auto simp: sound_def intro: exI [of _ None])
next
  case (Some g)
  then have "put_loop k (l, u) = u\<lparr>loops := [g]\<rparr>"
    using assms(3) by (auto simp: put_loop_def)
  moreover have "core (u\<lparr>loops := [g]\<rparr>)" using assms(1) by (simp add: core_def)
  ultimately show ?thesis
    using assms(2) Some flush_ok_cong [of "u\<lparr>loops := [g]\<rparr>" u]
    by (auto simp: sound_def intro: exI [of _ "Some g"])
qed

lemma sound_process_queue:
  assumes "sound s"
  shows "sound (process_queue now s)"
proof (cases "is_processing s \<or> \<not> is_online s \<or> filter (\<lambda>r. status_of s r = Pending) (queue s) = []")
  case True
  then show ?thesis using assms by (auto simp: process_queue_def Let_def)
next
  case False
  let ?todo = "filter (\<lambda>r. status_of s r = Pending) (queue s)"
  let ?u = "notify_listeners (s\<lparr>is_processing := True\<rparr>)"
  from assms obtain l where l: "loops s = (case l of None \<Rightarrow> [] | Some f \<Rightarrow> [f])" "flush_ok s l"
    and c: "core s" by (auto simp: sound_def)
  with False have "l = None" by (cases l) (auto simp: flush_ok_def split: flush.splits)
  with l have none: "loops s = []" "only_processing s {}" by (simp_all add: flush_ok_def)
  have "core ?u" using c by (simp add: core_def)
  moreover have "only_processing ?u {}" using none(2) by (simp add: only_processing_cong [of ?u s])
  moreover have "todo_ok ?u ?todo" using c by (simp add: todo_cong [of ?u s]) (simp add: todo_ok_def core_def)
  ultimately have a: "core (snd (advance now ?todo ?u)) \<and>
      flush_ok (snd (advance now ?todo ?u)) (fst (advance now ?todo ?u)) \<and>
      loops (snd (advance now ?todo ?u)) = loops ?u"
    by (intro advance_inv) simp_all
  then have "sound (put_loop 0 (fst (advance now ?todo ?u), snd (advance now ?todo ?u)))"
    using none(1) by (intro sound_put_loop) auto
  moreover have "process_queue now s = put_loop 0 (advance now ?todo ?u)"
    using False none(1) by (simp add: process_queue_def Let_def)
  ultimately show ?thesis by simp
qed

lemma status_revive:
  "status_of (set_op r revive s) q =
     (if q = r \<and> r < length (cells s) \<and> status_of s r = OpFailed then Pending else status_of s q)"
  unfolding status_set_op by (auto simp: revive_def status_of_def)

lemma sound_revive: "sound s \<Longrightarrow> sound (set_op r revive s)"
proof -
  assume s: "sound s"
  then obtain l where l: "loops s = (case l of None \<Rightarrow> [] | Some f \<Rightarrow> [f])" "flush_ok s l" and c: "core s"
    by (auto simp: sound_def)
  have c': "core (set_op r revive s)"
    using c by (rule core_set_op) (auto simp: op_ok_def revive_def)
  have o: "only_processing (set_op r revive s) R" if "only_processing s R" for R
    using that by (auto simp: only_processing_def status_revive split: if_splits)
  have t: "todo_ok (set_op r revive s) rs" if "todo_ok s rs" for rs
    using that by (auto simp: todo_ok_def status_revive)
  have "flush_ok (set_op r revive s) l"
    using l(2) o t by (cases l) (auto simp: flush_ok_def status_revive split: flush.splits)
  with l(1) c' show ?thesis by (auto simp: sound_def)
qed

lemma sound_fold_revive: "sound s \<Longrightarrow> sound (fold (\<lambda>r. set_op r revive) rs s)"
  by (induction rs arbitrary: s) (simp_all add: sound_revive)

lemma sound_enqueue: "sound s \<Longrightarrow> sound (enqueue i ty pl now s)"
proof -
  assume s: "sound s"
  let ?c = "\<lparr>op_id = i, op_type = ty, op_payload = pl, op_status = Pending, created_at = now,
    retry_count = 0, max_retries = MAX_RETRIES_DEFAULT, last_error = None, last_attempt = None\<rparr>"
  let ?s1 = "s\<lparr>cells := cells s @ [?c], queue := queue s @ [length (cells s)]\<rparr>"
  from s obtain l where l: "loops s = (case l of None \<Rightarrow> [] | Some f \<Rightarrow> [f])" "flush_ok s l" and c: "core s"
    by (auto simp: sound_def)
  have st: "status_of ?s1 r = (if r = length (cells s) then Pending else status_of s r)"
    if "r \<le> length (cells s)" for r
    using that by (simp add: status_of_def nth_append)
  have c1: "core ?s1" using c
    by (auto simp: core_def op_ok_def MAX_RETRIES_DEFAULT_def less_Suc_eq)
  have o: "only_processing ?s1 R" if "only_processing s R" for R
    using that st by (auto simp: only_processing_def less_Suc_eq)
  have t: "todo_ok ?s1 rs" if "todo_ok s rs" for rs
    using that st by (auto simp: todo_ok_def)
  have f1: "flush_ok ?s1 l"
    using l(2) o t st by (cases l) (auto simp: flush_ok_def split: flush.splits)
  have c2: "core (trim_queue ?s1)"
    by (rule core_trim [OF c1])
  have s1: "sound ?s1" using c1 f1 l(1) by (auto simp: sound_def)
  let ?s2 = "notify_listeners (save_queue (trim_queue ?s1))"
  have "core (?s2\<lparr>audit := a\<rparr>)" for a
    using core_save [OF c2] by (rule core_cong) simp_all
  then have "sound (?s2\<lparr>audit := a\<rparr>)" for a
    by (intro sound_simple [OF s1]) simp_all
  then show ?thesis by (simp only: enqueue_def Let_def)
qed

lemma sound_start: "slot_ok doc \<Longrightarrow> sound (start w nav doc)"
proof -
  assume d: "slot_ok doc"
  have r: "op_ok (reset_interrupted c)" if "op_ok c" for c
    using that by (simp add: op_ok_def reset_interrupted_def)
  have n: "op_status (reset_interrupted c) \<noteq> Processing" for c
    by (simp add: reset_interrupted_def)
  have "core (start w nav doc) \<and> flush_ok (start w nav doc) None \<and> loops (start w nav doc) = []"
    using d r n
    by (cases doc; cases w)
      (auto simp: start_def setup_network_listeners_def load_queue_def core_def slot_ok_def
        flush_ok_def only_processing_def status_of_def list_all_iff split: stored.splits)
  then show ?thesis by (auto simp: sound_def intro: exI [of _ None])
qed

lemma sound_oq_step:
  assumes s: "sound s" and e: "e \<noteq> Clear" and st: "oq_step e s = Some t"
  shows "sound t"
proof -
  from s obtain l where l: "loops s = (case l of None \<Rightarrow> [] | Some f \<Rightarrow> [f])" "flush_ok s l" and c: "core s"
    by (auto simp: sound_def)
  have plain: "sound u" if "cells u = cells s" "queue u = queue s" "slot u = slot s"
    "is_processing u = is_processing s" "loops u = loops s" for u
    using sound_simple [OF s core_cong [OF c]] that by blast
  show ?thesis
  proof (cases e)
    case (Enqueue i ty pl now)
    then show ?thesis using st sound_enqueue [OF s] by (auto simp: oq_step_def)
  next
    case (Flush now)
    then show ?thesis using st sound_process_queue [OF s] by (auto simp: oq_step_def)
  next
    case (Settle now k out)
    with st l obtain r rs where a: "loops s = [Awaiting r rs]" "k = 0"
        "t = put_loop 0 (handler_settled now out r rs s)" "flush_ok s (Some (Awaiting r rs))"
      by (auto simp: oq_step_def split: if_splits flush.splits option.splits)
    let ?p = "handler_settled now out r rs s"
    have "sound (put_loop 0 (fst ?p, snd ?p))"
      using handler_settled_inv [OF c a(4), of now out] a(1) by (intro sound_put_loop) auto
    with a(3) show ?thesis by simp
  next
    case (Wake now k)
    with st l obtain d rs where a: "loops s = [Sleeping d rs]" "k = 0"
        "t = put_loop 0 (advance now rs s)" "flush_ok s (Some (Sleeping d rs))"
      by (auto simp: oq_step_def split: if_splits flush.splits option.splits)
    let ?p = "advance now rs s"
    have "sound (put_loop 0 (fst ?p, snd ?p))"
      using advance_inv [OF c, of rs now] a(1,4) by (intro sound_put_loop) (auto simp: flush_ok_def)
    with a(3) show ?thesis by simp
  next
    case (Remove i)
    have "core (s\<lparr>queue := splice1 k (queue s)\<rparr>)" for k
      using c subsetD [OF set_splice1 [of k "queue s"]]
      by (intro core_queue) (auto simp: core_def intro: distinct_splice1)
    then have "sound (snd (remove_operation i s))"
      using s by (auto simp: remove_operation_def core_save split: option.split
          intro!: sound_simple [OF s])
    with Remove st show ?thesis by (simp add: oq_step_def)
  next
    case RetryFailed
    let ?u = "fold (\<lambda>r. set_op r revive) (queue s) s"
    have u: "sound ?u" by (rule sound_fold_revive [OF s])
    then have "core ?u" by (simp add: sound_def)
    then have "sound (retry_failed s)"
      unfolding retry_failed_def by (intro sound_simple [OF u]) (simp_all add: core_save)
    with RetryFailed st show ?thesis by (simp add: oq_step_def)
  next
    case Clear
    with e show ?thesis by simp
  next
    case (Online now)
    then have "t = process_queue now (notify_listeners (s\<lparr>is_online := True\<rparr>))"
      using st by (simp add: oq_step_def split: if_splits)
    then show ?thesis by (simp add: sound_process_queue plain)
  next
    case (Reload nav)
    have "slot_ok (slot s)" using c by (simp add: core_def)
    with Reload st show ?thesis by (auto simp: oq_step_def intro: sound_start)
  qed (use st in \<open>auto simp: oq_step_def register_handler_def subscribe_def unsubscribe_def
      destroy_def split: if_splits intro!: plain\<close>)
qed

interpretation oq: event_system oq_step "\<lambda>e. e \<noteq> Clear" sound
  by unfold_locales (rule sound_oq_step)

subsection \<open>Properties\<close>

definition no_clear :: "oq_event \<Rightarrow> bool" where
  "no_clear e = (e \<noteq> Clear)"

text \<open>
  C25: Mutual exclusion and retry bounds, for every history without \<open>clear()\<close>: at most one
  flush is in flight, \<open>isProcessing\<close> says exactly whether one is, at most one operation is
  being processed, no operation exceeds its retry budget and every operation still pending
  or in progress has budget left, and a sleeping flush waits for one of the configured delays.
\<close>
theorem single_flush:
  assumes "slot_ok doc" and "reaches oq_step no_clear (start w nav doc) s"
  shows "length (loops s) \<le> 1 \<and> (is_processing s \<longleftrightarrow> loops s \<noteq> []) \<and>
     length (filter (\<lambda>c. op_status c = Processing) (cells s)) \<le> 1 \<and>
     list_all op_ok (cells s) \<and>
     (\<forall>d rs. loops s = [Sleeping d rs] \<longrightarrow> d \<in> set RETRY_DELAYS_MS)"
proof -
  have "reaches oq_step (\<lambda>e. e \<noteq> Clear) (start w nav doc) s"
    using assms(2) by (simp add: no_clear_def [abs_def])
  then have "sound s" by (rule oq.reaches_inv) (rule sound_start [OF assms(1)])
  then obtain l where l: "loops s = (case l of None \<Rightarrow> [] | Some f \<Rightarrow> [f])" "flush_ok s l" and c: "core s"
    by (auto simp: sound_def)
  obtain r where r: "only_processing s {r}"
    using l(2) by (cases l) (auto simp: flush_ok_def only_processing_def split: flush.splits)
  have "filter (\<lambda>c. op_status c = Processing) (cells s) =
      filter (\<lambda>c. op_status c = Processing) (map (cell s) [0..<length (cells s)])"
    by (simp add: map_nth)
  also have "\<dots> = map (cell s) (filter (\<lambda>q. status_of s q = Processing) [0..<length (cells s)])"
    by (simp add: filter_map comp_def status_of_def)
  finally have "filter (\<lambda>c. op_status c = Processing) (cells s) = \<dots>" .
  moreover have "length (filter (\<lambda>q. status_of s q = Processing) [0..<length (cells s)]) \<le> 1"
  proof -
    have "set (filter (\<lambda>q. status_of s q = Processing) [0..<length (cells s)]) \<subseteq> {r}"
      using r by (auto simp: only_processing_def)
    then have "card (set (filter (\<lambda>q. status_of s q = Processing) [0..<length (cells s)])) \<le> 1"
      using card_mono [of "{r}"] by fastforce
    then show ?thesis by (subst (asm) distinct_card) simp_all
  qed
  ultimately have "length (filter (\<lambda>c. op_status c = Processing) (cells s)) \<le> 1" by simp
  with l c show ?thesis
    by (cases l) (auto simp: flush_ok_def core_def split: flush.splits)
qed

theorem single_flush_witness:
  "\<exists>s. run oq_step [Register CreateVault, Enqueue ''a'' CreateVault [] 0,
         Enqueue ''b'' CreateVault [] 0, Flush 1] (start True None (Some (Json []))) = Some s \<and>
     loops s = [Awaiting 0 [1]] \<and>
     length (filter (\<lambda>c. op_status c = Processing) (cells s)) \<le> 1"
proof -
  let ?es = "[Register CreateVault, Enqueue ''a'' CreateVault [] 0,
      Enqueue ''b'' CreateVault [] 0, Flush 1]"
  have "map_option loops (run oq_step ?es (start True None (Some (Json [])))) = Some [Awaiting 0 [1]]"
    by code_simp
  then obtain s where s: "run oq_step ?es (start True None (Some (Json []))) = Some s"
    "loops s = [Awaiting 0 [1]]" by (auto simp del: run.simps)
  have "list_all no_clear ?es" by (simp add: no_clear_def)
  with s(1) have "reaches oq_step no_clear (start True None (Some (Json []))) s" by (rule run_reaches)
  with s single_flush [of "Some (Json [])" True None s] show ?thesis by (simp add: slot_ok_def)
qed

text \<open>
  With \<open>clear()\<close> the exclusion is lost: clearing the queue while a flush awaits its
  handler resets \<open>isProcessing\<close>, the old flush then also resets it under a newer one, and
  two flushes end up awaiting the handler of the same operation at the same time.
\<close>
theorem clear_breaks_exclusion:
  "map_option loops (run oq_step
     [Register CreateVault, Enqueue ''a'' CreateVault [] 0, Flush 1, Clear,
      Enqueue ''b'' CreateVault [] 2, Enqueue ''c'' CreateVault [] 3, Flush 4,
      Settle 5 0 Resolved, Flush 6, Settle 7 0 Resolved]
     (start True None None)) = Some [Awaiting 2 [], Awaiting 2 []]"
  by code_simp

lemma fold_remove1_distinct:
  "distinct xs \<Longrightarrow> fold remove1 ys xs = filter (\<lambda>x. x \<notin> set ys) xs"
proof (induction ys arbitrary: xs)
  case (Cons y ys)
  have "fold remove1 (y # ys) xs = fold remove1 ys (filter (\<lambda>x. y \<noteq> x) xs)"
    using Cons.prems by (simp add: distinct_remove1_removeAll removeAll_filter_not_eq)
  also have "\<dots> = filter (\<lambda>x. x \<notin> set ys) (filter (\<lambda>x. y \<noteq> x) xs)"
    using Cons.prems by (intro Cons.IH distinct_filter)
  also have "\<dots> = filter (\<lambda>x. x \<notin> set (y # ys)) xs"
    by (auto simp: filter_filter intro!: filter_cong)
  finally show ?case .
qed simp

lemma length_trimmed:
  assumes "distinct q" and "set d \<subseteq> set q" and "distinct d"
  shows "length (filter (\<lambda>x. x \<notin> set d) q) = length q - length d"
proof -
  have "length (filter (\<lambda>x. x \<in> set d) q) = length d"
  proof -
    have "set (filter (\<lambda>x. x \<in> set d) q) = set d" using assms(2) by auto
    then show ?thesis using assms(1,3) by (metis distinct_card distinct_filter)
  qed
  then show ?thesis using sum_length_filter_compl [of "\<lambda>x. x \<in> set d" q] by simp
qed

text \<open>
  Enqueueing never drops work: the pending operations afterwards are those before, in
  order, then the new one. The queue grows by one up to 100 entries; past that, failed and
  completed entries are dropped from the front, and the length is 100 or the number of
  entries that are neither, whichever is larger (pending entries are never dropped, so the
  maximum size can be exceeded).
\<close>
theorem enqueue_keeps_pending:
  assumes "sound s" and "t = enqueue i ty pl now s"
  shows "filter (\<lambda>r. status_of t r = Pending) (queue t) =
           filter (\<lambda>r. status_of s r = Pending) (queue s) @ [length (cells s)] \<and>
     op_id (cell t (length (cells s))) = i \<and>
     length (queue t) = (if length (queue s) < MAX_QUEUE_SIZE then length (queue s) + 1
       else max MAX_QUEUE_SIZE (length (filter (\<lambda>r. \<not> removable s r) (queue s)) + 1))"
proof -
  let ?n = "length (cells s)"
  define c where "c = \<lparr>op_id = i, op_type = ty, op_payload = pl, op_status = Pending,
    created_at = now, retry_count = 0, max_retries = MAX_RETRIES_DEFAULT, last_error = None,
    last_attempt = None\<rparr>"
  define u where "u = s\<lparr>cells := cells s @ [c], queue := queue s @ [?n]\<rparr>"
  have t: "queue t = queue (trim_queue u)" "cells t = cells s @ [c]"
    by (simp_all add: assms(2) enqueue_def Let_def c_def u_def)
  have q: "distinct (queue s)" "\<forall>r\<in>set (queue s). r < ?n"
    using assms(1) by (simp_all add: sound_def core_def)
  then have du: "distinct (queue u)" by (auto simp: u_def)
  have st: "status_of t r = status_of s r" "status_of u r = status_of s r" if "r \<in> set (queue s)" for r
    using that q(2) t(2) by (simp_all add: status_of_def nth_append u_def)
  have stn: "status_of t ?n = Pending" "status_of u ?n = Pending"
    using t(2) by (simp_all add: status_of_def u_def c_def)
  let ?rem = "filter (removable u) (queue u)"
  have rem: "?rem = filter (removable s) (queue s)"
    using st(2) stn(2) by (auto simp: u_def removable_def intro!: filter_cong)
  define k where "k = length (queue u) - MAX_QUEUE_SIZE"
  have tr: "queue t = (if length (queue u) > MAX_QUEUE_SIZE
      then filter (\<lambda>x. x \<notin> set (take k ?rem)) (queue u) else queue u)"
    unfolding t(1) trim_queue_def k_def by (simp add: fold_remove1_distinct [OF du])
  have no: "status_of t r \<noteq> Pending" if "r \<in> set (take k ?rem)" for r
    using that in_set_takeD [OF that] st(1) unfolding rem by (auto simp: removable_def)
  have "filter (\<lambda>r. status_of t r = Pending) (queue t) = filter (\<lambda>r. status_of t r = Pending) (queue u)"
    unfolding tr using no by (auto simp: filter_filter intro: filter_cong)
  also have "\<dots> = filter (\<lambda>r. status_of s r = Pending) (queue s) @ [?n]"
    using stn(1) st(1) by (auto simp: u_def intro: filter_cong)
  finally have pend: "filter (\<lambda>r. status_of t r = Pending) (queue t) = \<dots>" .
  have "set (take k ?rem) \<subseteq> set (queue u)" "distinct (take k ?rem)"
    using du by (auto dest: in_set_takeD)
  from length_trimmed [OF du this] have "length (filter (\<lambda>x. x \<notin> set (take k ?rem)) (queue u)) =
      length (queue u) - min (length (filter (removable s) (queue s))) k"
    by (simp add: rem)
  moreover have "length (filter (removable s) (queue s)) + length (filter (\<lambda>r. \<not> removable s r) (queue s))
      = length (queue s)" by (rule sum_length_filter_compl)
  moreover have "length (queue u) = length (queue s) + 1" by (simp add: u_def)
  ultimately have len: "length (queue t) = (if length (queue s) < MAX_QUEUE_SIZE then length (queue s) + 1
       else max MAX_QUEUE_SIZE (length (filter (\<lambda>r. \<not> removable s r) (queue s)) + 1))"
    unfolding tr k_def by (auto simp: min_def max_def)
  have "op_id (cell t ?n) = i" using t(2) by (simp add: c_def)
  with pend len show ?thesis by blast
qed

theorem enqueue_keeps_pending_witness:
  "length (queue (enqueue ''x'' UploadFile [] 1 (start True None (Some (Json []))))) = 1"
  using enqueue_keeps_pending [OF sound_start [of "Some (Json [])" True None] HOL.refl,
      of "''x''" UploadFile "[]" 1]
  by (simp add: slot_ok_def MAX_QUEUE_SIZE_def start_def setup_network_listeners_def load_queue_def)

text \<open>A network failure of a running flush.\<close>

lemma network_settle:
  assumes "sound s" and "loops s = [Awaiting r rs]" and "is_network_error e"
    and "retry_count (cell s r) + 1 < max_retries (cell s r)"
    and "oq_step (Settle now 0 (Rejected e)) s = Some t"
  shows "loops t = [] \<and> \<not> is_processing t \<and> \<not> is_online t \<and> web t = web s \<and>
     listening t = listening s \<and>
     retry_count (cell t r) = retry_count (cell s r) + 1 \<and> status_of t r = Pending \<and>
     (\<forall>q. q \<noteq> r \<longrightarrow> cell t q = cell s q) \<and>
     queue t = filter (\<lambda>q. q = r \<or> status_of s q \<noteq> Completed) (queue s)"
proof -
  from assms(1,2) obtain l where "Some (Awaiting r rs) = l" "flush_ok s l"
    by (auto simp: sound_def split: option.splits)
  then have r: "r < length (cells s)" by (auto simp: flush_ok_def)
  let ?f = "\<lambda>c. c\<lparr>retry_count := Suc (retry_count c), last_error := Some (thrown_text e),
    op_status := Pending\<rparr>"
  have t: "t = put_loop 0 (None, finish (set_op r ?f s\<lparr>is_online := False\<rparr>))"
    using assms(2-5) r by (simp add: oq_step_def handler_settled_def Let_def cell_set_op)
  have c: "cells t = cells (set_op r ?f s)" by (simp add: t put_loop_def)
  have s': "status_of t q = (if q = r then Pending else status_of s q)" for q
    unfolding status_cong [OF c] status_set_op using r by simp
  have "queue t = filter (\<lambda>q. status_of t q \<noteq> Completed) (queue s)"
    by (simp add: t put_loop_def status_of_def)
  also have "\<dots> = filter (\<lambda>q. q = r \<or> status_of s q \<noteq> Completed) (queue s)"
    by (intro filter_cong) (auto simp: s')
  finally show ?thesis
    using c r s' assms(2) by (simp add: t put_loop_def splice1_def cell_set_op)
qed

text \<open>The events of one page, \<open>clear()\<close> excluded.\<close>

fun in_session :: "oq_event \<Rightarrow> bool" where
  "in_session Clear = False"
| "in_session (Reload _) = False"
| "in_session _ = True"

definition stuck_offline :: "oq \<Rightarrow> bool" where
  "stuck_offline s = (\<not> web s \<and> \<not> listening s \<and> \<not> is_online s \<and> \<not> is_processing s \<and> loops s = [])"

interpretation native: event_system oq_step in_session stuck_offline
proof unfold_locales
  fix s t e
  assume s: "stuck_offline s" and e: "in_session e" and st: "oq_step e s = Some t"
  show "stuck_offline t"
  proof (cases e)
    case (Remove i)
    with s st show ?thesis
      by (auto simp: stuck_offline_def oq_step_def remove_operation_def split: option.splits)
  next
    case (Reload nav)
    with e show ?thesis by simp
  qed (use s e st fold_set_op_frame [of revive "queue s" s] in
      \<open>auto simp: stuck_offline_def oq_step_def enqueue_def Let_def process_queue_def
        retry_failed_def register_handler_def subscribe_def unsubscribe_def destroy_def\<close>)
qed

text \<open>
  On a platform without the browser's online event, one network error disables the queue
  for good: after a flush stopped on a network error, no later event of the session other
  than \<open>clear()\<close> brings it back online, and \<open>processQueue\<close> does nothing.
\<close>
theorem native_stays_offline:
  assumes "sound s" and "\<not> web s" and "\<not> listening s" and "loops s = [Awaiting r rs]"
    and "is_network_error e" and "retry_count (cell s r) + 1 < max_retries (cell s r)"
    and "oq_step (Settle now 0 (Rejected e)) s = Some t" and "reaches oq_step in_session t u"
  shows "\<not> is_online u \<and> loops u = [] \<and> process_queue later u = u"
proof -
  have "stuck_offline t"
    using network_settle [OF assms(1,4,5,6,7)] assms(2,3) by (simp add: stuck_offline_def)
  from native.reaches_inv [OF assms(8) this] show ?thesis
    by (simp add: stuck_offline_def process_queue_def)
qed

lemma run_projections:
  assumes "map_option f (run step es s) = Some v"
  obtains t where "run step es s = Some t" and "f t = v"
  using assms by blast

theorem native_stays_offline_witness:
  "\<exists>s t. run oq_step [Register CreateVault, Enqueue ''a'' CreateVault [] 0, Flush 1]
       (start False None None) = Some s \<and>
     oq_step (Settle 2 0 (Rejected (ThrownError ''Network request failed''))) s = Some t \<and>
     \<not> is_online t \<and> loops t = [] \<and> process_queue 3 t = t"
proof -
  let ?es = "[Register CreateVault, Enqueue ''a'' CreateVault [] 0, Flush 1]"
  let ?e = "Settle 2 0 (Rejected (ThrownError ''Network request failed''))"
  have "map_option (\<lambda>s. (web s, listening s, loops s, retry_count (cell s 0) + 1 < max_retries (cell s 0)))
      (run oq_step ?es (start False None None)) = Some (False, False, [Awaiting 0 []], True)"
    by code_simp
  then obtain s where run: "run oq_step ?es (start False None None) = Some s"
    and s: "\<not> web s" "\<not> listening s" "loops s = [Awaiting 0 []]"
      "retry_count (cell s 0) + 1 < max_retries (cell s 0)"
    by (rule run_projections) auto
  have "sound s"
    by (rule oq.run_inv [OF sound_start [of None] _ run]) (simp_all add: slot_ok_def)
  moreover obtain t where t: "oq_step ?e s = Some t"
    using s(3) by (simp add: oq_step_def)
  moreover have "is_network_error (ThrownError ''Network request failed'')"
    by code_simp
  ultimately show ?thesis
    using native_stays_offline [OF _ s(1-3) _ s(4) t reaches_refl] run by blast
qed

text \<open>A flush all of whose handlers resolve.\<close>

lemma settle_all:
  assumes "loops s = [Awaiting r rs]" and "\<And>ty. handlers s ty" and "distinct (r # rs)"
    and "\<forall>q\<in>set (r # rs). q < length (cells s)"
  shows "\<exists>t. run oq_step (map (\<lambda>_. Settle now 0 Resolved) (r # rs)) s = Some t \<and>
     loops t = [] \<and> \<not> is_processing t \<and>
     queue t = filter (\<lambda>q. q \<notin> set (r # rs) \<and> status_of s q \<noteq> Completed) (queue s) \<and>
     (\<forall>q. q \<notin> set (r # rs) \<longrightarrow> cell t q = cell s q)"
  using assms
proof (induction rs arbitrary: r s)
  case Nil
  let ?u = "set_op r (\<lambda>c. c\<lparr>op_status := Completed\<rparr>) s"
  have st: "status_of ?u q = (if q = r then Completed else status_of s q)" for q
    using Nil.prems(4) by (simp add: status_set_op)
  show ?case
    using Nil.prems(1)
    by (auto simp: oq_step_def handler_settled_def Let_def put_loop_def splice1_def
        status_cong [of _ ?u] st cell_set_op intro!: filter_cong)
next
  case (Cons r' rs)
  let ?u = "set_op r (\<lambda>c. c\<lparr>op_status := Completed\<rparr>) s"
  let ?a = "?u\<lparr>audit := audit ?u @ [OpCompleted (op_id (cell s r)) (op_type (cell s r))]\<rparr>"
  let ?p = "set_op r' (\<lambda>c. c\<lparr>op_status := Processing, last_attempt := Some now\<rparr>) ?a"
  define v where "v = (notify_listeners ?p)\<lparr>loops := [Awaiting r' rs]\<rparr>"
  have step: "oq_step (Settle now 0 Resolved) s = Some v"
    using Cons.prems(1,2)
    by (simp add: oq_step_def handler_settled_def Let_def put_loop_def v_def)
  have c: "cells v = cells ?p" by (simp add: v_def)
  have cv: "cell v q = cell ?p q" for q by (simp add: c)
  have st: "status_of v q = (if q = r' then Processing else if q = r then Completed else status_of s q)" for q
    using Cons.prems(3,4) by (simp add: status_cong [OF c] status_set_op status_cong [of ?a ?u])
  have "\<exists>t. run oq_step (map (\<lambda>_. Settle now 0 Resolved) (r' # rs)) v = Some t \<and>
     loops t = [] \<and> \<not> is_processing t \<and>
     queue t = filter (\<lambda>q. q \<notin> set (r' # rs) \<and> status_of v q \<noteq> Completed) (queue v) \<and>
     (\<forall>q. q \<notin> set (r' # rs) \<longrightarrow> cell t q = cell v q)"
    using Cons.prems by (intro Cons.IH) (simp_all add: v_def)
  then obtain t where t: "run oq_step (map (\<lambda>_. Settle now 0 Resolved) (r' # rs)) v = Some t"
     "loops t = []" "\<not> is_processing t"
     "queue t = filter (\<lambda>q. q \<notin> set (r' # rs) \<and> status_of v q \<noteq> Completed) (queue v)"
     "\<forall>q. q \<notin> set (r' # rs) \<longrightarrow> cell t q = cell v q" by blast
  have "queue t = filter (\<lambda>q. q \<notin> set (r # r' # rs) \<and> status_of s q \<noteq> Completed) (queue s)"
    unfolding t(4) using st by (auto simp: v_def intro!: filter_cong)
  moreover have "cell t q = cell s q" if "q \<notin> set (r # r' # rs)" for q
    using that t(5) cv by (simp add: set_op_def)
  ultimately show ?case using step t(1-3) by auto
qed

text \<open>
  C26: A flush delivers: when every type has a handler, the queue is idle and online and some
  operation is pending, starting a flush and letting each handler resolve in turn ends with
  no flush in flight and a queue from which exactly the pending (and already completed)
  operations are gone, all other operations untouched.
\<close>
theorem flush_delivers:
  assumes "sound s" and "\<not> is_processing s" and "is_online s" and "\<And>ty. handlers s ty"
    and "ps = filter (\<lambda>r. status_of s r = Pending) (queue s)" and "ps \<noteq> []"
  shows "\<exists>t. run oq_step (Flush now # map (\<lambda>_. Settle now 0 Resolved) ps) s = Some t \<and>
     loops t = [] \<and> \<not> is_processing t \<and>
     queue t = filter (\<lambda>r. status_of s r \<noteq> Pending \<and> status_of s r \<noteq> Completed) (queue s) \<and>
     (\<forall>r\<in>set (queue t). cell t r = cell s r)"
proof -
  from assms(6) obtain r rs where ps: "ps = r # rs" by (cases ps) auto
  have core: "distinct (queue s)" "\<forall>r\<in>set (queue s). r < length (cells s)"
    using assms(1) by (simp_all add: sound_def core_def)
  have pend: "q \<in> set (r # rs) \<longleftrightarrow> q \<in> set (queue s) \<and> status_of s q = Pending" for q
    unfolding ps [symmetric] assms(5) by auto
  have dist: "distinct (r # rs)" unfolding ps [symmetric] assms(5) using core(1) by simp
  from assms(1,2) have lp: "loops s = []"
    by (auto simp: sound_def flush_ok_def split: option.splits flush.splits)
  let ?b = "notify_listeners (s\<lparr>is_processing := True\<rparr>)"
  let ?p = "set_op r (\<lambda>c. c\<lparr>op_status := Processing, last_attempt := Some now\<rparr>) ?b"
  define v where "v = (notify_listeners ?p)\<lparr>loops := [Awaiting r rs]\<rparr>"
  have step: "oq_step (Flush now) s = Some v"
    using assms(2-4) lp ps unfolding assms(5)
    by (simp add: oq_step_def process_queue_def Let_def put_loop_def v_def)
  have c: "cells v = cells ?p" by (simp add: v_def)
  have rv: "r < length (cells s)" using pend [of r] core(2) by simp
  have st: "status_of v q = (if q = r then Processing else status_of s q)" for q
    using rv by (simp add: status_cong [OF c] status_set_op status_cong [of ?b s])
  have cv: "cell v q = cell s q" if "q \<noteq> r" for q
    using that by (simp add: c set_op_def)
  have "\<exists>t. run oq_step (map (\<lambda>_. Settle now 0 Resolved) (r # rs)) v = Some t \<and>
     loops t = [] \<and> \<not> is_processing t \<and>
     queue t = filter (\<lambda>q. q \<notin> set (r # rs) \<and> status_of v q \<noteq> Completed) (queue v) \<and>
     (\<forall>q. q \<notin> set (r # rs) \<longrightarrow> cell t q = cell v q)"
    using assms(4) dist pend core(2) by (intro settle_all) (auto simp: v_def)
  then obtain t where t: "run oq_step (map (\<lambda>_. Settle now 0 Resolved) (r # rs)) v = Some t"
     "loops t = []" "\<not> is_processing t"
     "queue t = filter (\<lambda>q. q \<notin> set (r # rs) \<and> status_of v q \<noteq> Completed) (queue v)"
     "\<forall>q. q \<notin> set (r # rs) \<longrightarrow> cell t q = cell v q" by blast
  have q: "queue t = filter (\<lambda>r. status_of s r \<noteq> Pending \<and> status_of s r \<noteq> Completed) (queue s)"
    unfolding t(4) using pend st by (auto simp: v_def intro!: filter_cong)
  have "cell t q = cell s q" if "q \<in> set (queue t)" for q
    using that t(5) cv [of q] pend [of q] q by auto
  with q t(1-3) step show ?thesis unfolding ps by auto
qed

theorem flush_delivers_witness:
  "\<exists>s t. run oq_step (map Register [CreateVault, DeleteVault, RenameVault, UploadFile, DeleteFile, RenameFile]
       @ [Enqueue ''a'' CreateVault [] 0, Enqueue ''b'' UploadFile [] 1]) (start True (Some True) None) = Some s \<and>
     run oq_step (Flush 2 # map (\<lambda>_. Settle 2 0 Resolved) [0, 1 :: nat]) s = Some t \<and>
     loops t = [] \<and> queue t = []"
proof -
  let ?es = "map Register [CreateVault, DeleteVault, RenameVault, UploadFile, DeleteFile, RenameFile]
       @ [Enqueue ''a'' CreateVault [] 0, Enqueue ''b'' UploadFile [] 1]"
  have "map_option (\<lambda>s. (is_processing s, is_online s,
        map (handlers s) [CreateVault, DeleteVault, RenameVault, UploadFile, DeleteFile, RenameFile],
        queue s, map (status_of s) [0, 1]))
      (run oq_step ?es (start True (Some True) None)) =
      Some (False, True, [True, True, True, True, True, True], [0, 1], [Pending, Pending])"
    by code_simp
  then obtain s where run: "run oq_step ?es (start True (Some True) None) = Some s"
    and s: "\<not> is_processing s" "is_online s"
      "map (handlers s) [CreateVault, DeleteVault, RenameVault, UploadFile, DeleteFile, RenameFile] =
        [True, True, True, True, True, True]"
      "queue s = [0, 1]" "map (status_of s) [0, 1] = [Pending, Pending]"
    by (rule run_projections) auto
  have h: "handlers s ty" for ty using s(3) by (cases ty) simp_all
  have "sound s"
    by (rule oq.run_inv [OF sound_start [of None] _ run]) (simp_all add: slot_ok_def)
  moreover have "[0, 1] = filter (\<lambda>r. status_of s r = Pending) (queue s)" and "[0, 1 :: nat] \<noteq> []"
    using s(4,5) by simp_all
  ultimately obtain t where "run oq_step (Flush 2 # map (\<lambda>_. Settle 2 0 Resolved) [0, 1 :: nat]) s = Some t"
    and "loops t = []"
    and "queue t = filter (\<lambda>r. status_of s r \<noteq> Pending \<and> status_of s r \<noteq> Completed) (queue s)"
    using flush_delivers [OF _ s(1,2) h, of "[0, 1]" 2] by blast
  moreover from this(3) have "queue t = []" using s(4,5) by simp
  ultimately show ?thesis using run by blast
qed

lemma reload_saved:
  assumes "slot t = Some (Json (map (cell t) (queue t)))"
  shows "get_operations (start True nav (slot t)) = map reset_interrupted (get_operations t)"
proof -
  have "map ((!) ys) [0..<length ys] = ys" for ys :: "queued_op list" by (rule map_nth)
  from this [of "map (\<lambda>x. reset_interrupted (cell t x)) (queue t)"] show ?thesis
    unfolding assms
    by (simp add: get_operations_def start_def load_queue_def setup_network_listeners_def comp_def)
qed

text \<open>
  Crash recovery on the web: after every operation that saves, a page that reloads finds
  the operations of the queue in their order, those that were being processed pending again.
\<close>
theorem reload_restores_queue:
  assumes "web s" and "t \<in> {enqueue i ty pl now s, retry_failed s, clear s, finish s}"
  shows "get_operations (start True nav (slot t)) = map reset_interrupted (get_operations t)"
proof (rule reload_saved)
  have "slot t = Some (Json (map (cell t) (queue t)))" if "t = enqueue i ty pl now s"
    using assms(1) by (simp add: that enqueue_def Let_def)
  moreover have "slot t = Some (Json (map (cell t) (queue t)))" if "t = retry_failed s"
    using assms(1) fold_set_op_frame [of revive "queue s" s] by (simp add: that retry_failed_def)
  ultimately show "slot t = Some (Json (map (cell t) (queue t)))"
    using assms by (auto simp: clear_def finish_def)
qed

theorem reload_restores_queue_witness:
  "map op_id (get_operations (start True None
     (slot (enqueue ''a'' DeleteFile [] 1 (start True None None))))) = [''a'']"
proof -
  have "web (start True None None)" by code_simp
  from reload_restores_queue [OF this, of "enqueue ''a'' DeleteFile [] 1 (start True None None)"
      "''a''" DeleteFile "[]" 1 None]
  have "map op_id (get_operations (start True None
     (slot (enqueue ''a'' DeleteFile [] 1 (start True None None))))) =
    map op_id (map reset_interrupted (get_operations (enqueue ''a'' DeleteFile [] 1 (start True None None))))"
    by simp
  also have "\<dots> = [''a'']" by code_simp
  finally show ?thesis .
qed

end
