(* ===== verification/Vault_Compaction.thy ===== *)
theory Vault_Compaction
  imports Web_Storage Text_Codec "HOL-Library.Multiset"
begin

text \<open>
  \<open>services/vault/compaction.ts\<close>: storage statistics and the removal of entries whose key
  is marked \<open>deleted:\<close>. The state is the key/value store (the history slot apart, which no
  vault prefix matches), the parsed contents of the history slot, the in-progress flag and
  the audit log. \<open>compact\<close> has no \<open>await\<close>, so a call is one atomic section; the four clock
  readings it makes are arguments.
\<close>

subsection \<open>Data\<close>

record compaction_stats =
  total_size :: nat
  used_size :: nat
  reclaimable_size :: nat
  fragmentation_percent :: int
  deleted_entries :: nat
  last_compacted_at :: "time option"

record compaction_result =
  compaction_success :: bool
  stats_before :: compaction_stats
  stats_after :: compaction_stats
  space_saved :: nat
  entries_removed :: nat
  compacted_at :: time
  duration :: time

record compaction_record =
  cr_result :: compaction_result
  cr_reason :: string
  cr_recorded_at :: time

record storage_breakdown =
  category :: string
  sb_size :: nat
  percentage :: int

record compaction_preview =
  pv_stats :: compaction_stats
  pv_needed :: bool
  pv_time :: rat
  pv_breakdown :: "storage_breakdown list"

datatype compaction_audit =
    CompactionStarted compaction_stats
  | CompactionCompleted nat nat time
  | AutoCompaction int

record vc =
  vc_web :: bool
  vc_store :: "string local_storage"
  vc_history :: "compaction_record list stored option"
  in_progress :: bool
  vc_audit :: "compaction_audit list"

datatype compaction_error = AlreadyInProgress

definition VAULT_PREFIX :: string where "VAULT_PREFIX = ''usbvault:vault_''"
definition MAX_HISTORY_RECORDS :: nat where "MAX_HISTORY_RECORDS = 100"
definition FRAGMENTATION_THRESHOLD :: int where "FRAGMENTATION_THRESHOLD = 10"

subsection \<open>Analysis\<close>

definition vc_load_history :: "vc \<Rightarrow> compaction_record list" where
  "vc_load_history s =
     (if \<not> vc_web s then [] else case vc_history s of Some (Json h) \<Rightarrow> h | _ \<Rightarrow> [])"

definition vc_save_history :: "compaction_record list \<Rightarrow> vc \<Rightarrow> vc" where
  "vc_save_history h s =
     (if \<not> vc_web s then s else s\<lparr>vc_history := Some (Json (last_n MAX_HISTORY_RECORDS h))\<rparr>)"

definition get_vault_entries :: "vc \<Rightarrow> (string \<times> nat) list" where
  "get_vault_entries s =
     (if \<not> vc_web s then []
      else map (\<lambda>k. (k, case ls_get k (vc_store s) of None \<Rightarrow> 0 | Some v \<Rightarrow> length (utf8_encode v)))
        (filter (\<lambda>k. k \<noteq> [] \<and> starts_with VAULT_PREFIX k) (ls_keys (vc_store s))))"

definition marked_deleted :: "string \<Rightarrow> bool" where
  "marked_deleted k = has_infix ''deleted:'' k"

definition get_last_compaction_result :: "vc \<Rightarrow> compaction_result option" where
  "get_last_compaction_result s =
     (let h = vc_load_history s in if h = [] then None else Some (cr_result (last h)))"

definition scan_entry :: "string \<times> nat \<Rightarrow> nat \<times> nat \<times> nat \<Rightarrow> nat \<times> nat \<times> nat" where
  "scan_entry e acc = (case (e, acc) of ((k, n), (tot, used, deleted)) \<Rightarrow>
     if marked_deleted k then (tot + n, used, deleted + 1) else (tot + n, used + n, deleted))"

definition analyze_vault :: "vc \<Rightarrow> compaction_stats" where
  "analyze_vault s =
     (let (tot, used, deleted) = fold scan_entry (get_vault_entries s) (0, 0, 0);
          reclaimable = tot - used
      in \<lparr>total_size = tot, used_size = used, reclaimable_size = reclaimable,
          fragmentation_percent = percent_of reclaimable tot, deleted_entries = deleted,
          last_compacted_at = map_option compacted_at (get_last_compaction_result s)\<rparr>)"

subsection \<open>Compaction\<close>

definition compact ::
  "time \<Rightarrow> time \<Rightarrow> time \<Rightarrow> time \<Rightarrow> vc \<Rightarrow> (compaction_error + compaction_result) \<times> vc" where
  "compact t0 t1 t2 t3 s =
     (if in_progress s then (Inl AlreadyInProgress, s)
      else let s0 = s\<lparr>in_progress := True\<rparr>;
               before = analyze_vault s0;
               s1 = s0\<lparr>vc_audit := vc_audit s0 @ [CompactionStarted before]\<rparr>;
               (res, s2) =
                 (if vc_web s1 then
                    let entries = get_vault_entries s1;
                        doomed = filter (\<lambda>(k, n). marked_deleted k) entries;
                        s3 = s1\<lparr>vc_store := fold (\<lambda>(k, n). ls_remove k) doomed (vc_store s1)\<rparr>;
                        remaining = sum_list (map snd (get_vault_entries s3));
                        result = \<lparr>compaction_success = True, stats_before = before,
                          stats_after = analyze_vault s3,
                          space_saved = total_size before - remaining,
                          entries_removed = length doomed, compacted_at = t2, duration = t1 - t0\<rparr>;
                        s4 = vc_save_history (vc_load_history s3 @
                          [\<lparr>cr_result = result, cr_reason = ''manual_compaction'', cr_recorded_at = t3\<rparr>]) s3
                    in (result, s4\<lparr>vc_audit := vc_audit s4 @
                         [CompactionCompleted (space_saved result) (entries_removed result) (duration result)]\<rparr>)
                  else (\<lparr>compaction_success = False, stats_before = before, stats_after = before,
                         space_saved = 0, entries_removed = 0, compacted_at = t2, duration = t1 - t0\<rparr>, s1))
           in (Inr res, s2\<lparr>in_progress := False\<rparr>))"

definition get_compaction_history :: "vc \<Rightarrow> compaction_record list" where
  "get_compaction_history s = vc_load_history s"

definition category_of :: "string \<Rightarrow> string" where
  "category_of k =
     (if has_infix ''password'' k then ''passwords''
      else if has_infix ''file'' k \<or> has_infix ''document'' k then ''files''
      else if has_infix ''message'' k then ''messages''
      else if has_infix ''audit'' k then ''audit_logs''
      else if has_infix ''recovery'' k then ''recovery_data''
      else if has_infix ''backup'' k then ''backups''
      else ''other'')"

definition add_category :: "string \<times> nat \<Rightarrow> nat local_storage \<Rightarrow> nat local_storage" where
  "add_category e b = (case e of (k, n) \<Rightarrow>
     ls_set (category_of k) (case_option 0 id (ls_get (category_of k) b) + n) b)"

definition get_storage_breakdown :: "vc \<Rightarrow> storage_breakdown list" where
  "get_storage_breakdown s =
     (let entries = get_vault_entries s;
          tot = sum_list (map snd entries);
          b = fold add_category entries []
      in sort_key (\<lambda>r. - int (sb_size r))
           (map (\<lambda>(c, n). \<lparr>category = c, sb_size = n, percentage = percent_of n tot\<rparr>) b))"

definition estimate_compaction_time :: "compaction_stats \<Rightarrow> rat" where
  "estimate_compaction_time st =
     max 50 (of_nat (deleted_entries st) * (1 / 10) + of_nat (total_size st) * (1 / 1000))"

definition is_compaction_needed :: "vc \<Rightarrow> bool" where
  "is_compaction_needed s = (fragmentation_percent (analyze_vault s) > FRAGMENTATION_THRESHOLD)"

definition get_compaction_preview :: "vc \<Rightarrow> compaction_preview" where
  "get_compaction_preview s =
     \<lparr>pv_stats = analyze_vault s, pv_needed = is_compaction_needed s,
      pv_time = estimate_compaction_time (analyze_vault s), pv_breakdown = get_storage_breakdown s\<rparr>"

definition compact_if_needed ::
  "time \<Rightarrow> time \<Rightarrow> time \<Rightarrow> time \<Rightarrow> vc \<Rightarrow> (compaction_error + compaction_result option) \<times> vc" where
  "compact_if_needed t0 t1 t2 t3 s =
     (if \<not> is_compaction_needed s then (Inr None, s)
      else let s1 = s\<lparr>vc_audit := vc_audit s @
                 [AutoCompaction (fragmentation_percent (analyze_vault s))]\<rparr>
        in case compact t0 t1 t2 t3 s1 of
             (Inl e, s2) \<Rightarrow> (Inl e, s2)
           | (Inr r, s2) \<Rightarrow> (Inr (Some r), s2))"

subsection \<open>Facts\<close>

lemma scan_entries:
  "fold scan_entry es (t, u, d) =
     (t + sum_list (map snd es),
      u + sum_list (map snd (filter (\<lambda>e. \<not> marked_deleted (fst e)) es)),
      d + length (filter (\<lambda>e. marked_deleted (fst e)) es))"
  by (induction es arbitrary: t u d) (auto simp: scan_entry_def)

lemma sum_split:
  "sum_list (map snd es) = sum_list (map snd (filter (\<lambda>e. \<not> P (fst e)) es)) +
     sum_list (map snd (filter (\<lambda>e. P (fst e)) es))" for es :: "('a \<times> nat) list"
  by (induction es) auto

lemma analyze_fields:
  "total_size (analyze_vault s) = sum_list (map snd (get_vault_entries s))"
  "used_size (analyze_vault s) =
     sum_list (map snd (filter (\<lambda>e. \<not> marked_deleted (fst e)) (get_vault_entries s)))"
  "reclaimable_size (analyze_vault s) =
     sum_list (map snd (filter (\<lambda>e. marked_deleted (fst e)) (get_vault_entries s)))"
  "deleted_entries (analyze_vault s) =
     length (filter (\<lambda>e. marked_deleted (fst e)) (get_vault_entries s))"
  using sum_split [of "get_vault_entries s" marked_deleted]
  by (simp_all add: analyze_vault_def scan_entries Let_def)

lemma fold_remove_pairs: "fold (\<lambda>(k, n). ls_remove k) es st = fold ls_remove (map fst es) st"
  by (induction es arbitrary: st) (auto simp: split_beta)

lemma ls_remove_all: "fold ls_remove ks st = filter (\<lambda>p. fst p \<notin> set ks) st"
proof (induction ks arbitrary: st)
  case (Cons k ks)
  have "fold ls_remove (k # ks) st = filter (\<lambda>p. fst p \<notin> set ks) (ls_remove k st)"
    by (simp add: Cons.IH)
  also have "\<dots> = filter (\<lambda>p. fst p \<notin> set (k # ks)) st"
    by (auto simp: ls_remove_def split_beta intro!: filter_cong)
  finally show ?case .
qed simp

definition vault_key :: "string \<Rightarrow> bool" where
  "vault_key k = (k \<noteq> [] \<and> starts_with VAULT_PREFIX k)"

definition doomed_key :: "string \<Rightarrow> bool" where
  "doomed_key k = (vault_key k \<and> marked_deleted k)"

lemma entries_web:
  "vc_web s \<Longrightarrow> get_vault_entries s =
     map (\<lambda>k. (k, case ls_get k (vc_store s) of None \<Rightarrow> 0 | Some v \<Rightarrow> length (utf8_encode v)))
       (filter vault_key (ls_keys (vc_store s)))"
  by (simp add: get_vault_entries_def vault_key_def [abs_def])

lemma doomed_entries:
  assumes "vc_web s"
  shows "map fst (filter (\<lambda>(k, n). marked_deleted k) (get_vault_entries s)) =
    filter doomed_key (ls_keys (vc_store s))"
  using assms by (simp add: entries_web filter_map comp_def split_beta doomed_key_def [abs_def] conj_commute)

definition purged :: "vc \<Rightarrow> string local_storage" where
  "purged s = filter (\<lambda>p. \<not> doomed_key (fst p)) (vc_store s)"

lemma purge_store:
  assumes "vc_web s"
  shows "fold (\<lambda>(k, n). ls_remove k) (filter (\<lambda>(k, n). marked_deleted k) (get_vault_entries s)) (vc_store s)
     = purged s"
  unfolding fold_remove_pairs doomed_entries [OF assms] ls_remove_all purged_def
  by (intro filter_cong) (auto simp: ls_keys_def)

lemma map_of_filter_fst:
  "map_of (filter (\<lambda>p. P (fst p)) st) k = (if P k then map_of st k else None)"
  by (induction st) auto

lemma entries_purged:
  assumes "vc_web s"
  shows "get_vault_entries (s\<lparr>vc_store := purged s\<rparr>) =
     filter (\<lambda>e. \<not> marked_deleted (fst e)) (get_vault_entries s)"
proof -
  have keys: "filter vault_key (ls_keys (purged s)) =
      filter (\<lambda>k. \<not> marked_deleted k) (filter vault_key (ls_keys (vc_store s)))"
    by (simp add: ls_keys_def purged_def filter_map comp_def)
      (rule arg_cong [where f = "map fst"], rule filter_cong, auto simp: doomed_key_def)
  have "ls_get k (purged s) = ls_get k (vc_store s)" if "\<not> doomed_key k" for k
    using that by (simp add: ls_get_def purged_def map_of_filter_fst [where P = "\<lambda>k. \<not> doomed_key k"])
  then show ?thesis
    using assms by (simp add: entries_web keys filter_map comp_def doomed_key_def)
qed

lemma analyze_cong:
  "vc_store t = vc_store s \<Longrightarrow> vc_web t = vc_web s \<Longrightarrow> get_vault_entries t = get_vault_entries s"
  by (simp add: get_vault_entries_def)

lemma analyze_flags [simp]:
  "analyze_vault (s\<lparr>in_progress := b\<rparr>) = analyze_vault s"
  "analyze_vault (s\<lparr>vc_audit := a\<rparr>) = analyze_vault s"
  by (simp_all add: analyze_vault_def get_vault_entries_def get_last_compaction_result_def
      vc_load_history_def)

lemma save_history_simps [simp]:
  "vc_store (vc_save_history h s) = vc_store s" "vc_web (vc_save_history h s) = vc_web s"
  "in_progress (vc_save_history h s) = in_progress s"
  "vc_audit (vc_save_history h s) = vc_audit s"
  by (simp_all add: vc_save_history_def)

lemma compact_web:
  assumes "vc_web s" and "\<not> in_progress s"
  shows "\<exists>r s'. compact t0 t1 t2 t3 s = (Inr r, s') \<and>
     vc_store s' = purged s \<and> vc_web s' \<and> \<not> in_progress s' \<and>
     compaction_success r \<and> stats_before r = analyze_vault s \<and>
     stats_after r = analyze_vault (s\<lparr>vc_store := purged s\<rparr>) \<and>
     space_saved r = total_size (analyze_vault s) -
       sum_list (map snd (get_vault_entries (s\<lparr>vc_store := purged s\<rparr>))) \<and>
     entries_removed r = length (filter (\<lambda>(k, n). marked_deleted k) (get_vault_entries s)) \<and>
     get_compaction_history s' = last_n MAX_HISTORY_RECORDS (get_compaction_history s @
       [\<lparr>cr_result = r, cr_reason = ''manual_compaction'', cr_recorded_at = t3\<rparr>])"
proof -
  let ?s1 = "s\<lparr>in_progress := True, vc_audit := vc_audit s @ [CompactionStarted (analyze_vault s)]\<rparr>"
  let ?p = "s\<lparr>vc_store := purged s\<rparr>"
  have e1: "get_vault_entries ?s1 = get_vault_entries s" by (rule analyze_cong) simp_all
  let ?s3 = "?s1\<lparr>vc_store := purged s\<rparr>"
  have a3: "analyze_vault ?s3 = analyze_vault ?p" and e3: "get_vault_entries ?s3 = get_vault_entries ?p"
    by (simp_all add: analyze_vault_def get_vault_entries_def get_last_compaction_result_def
        vc_load_history_def)
  show ?thesis
    using assms e1 e3 a3
    by (simp add: compact_def Let_def purge_store vc_load_history_def vc_save_history_def
        get_compaction_history_def)
qed

subsection \<open>Properties\<close>

text \<open>
  Compaction on the web removes exactly the vault entries marked deleted, leaves every
  other entry and its order alone, reports the reclaimable size and the deleted count of the
  analysis as saved and removed, leaves nothing reclaimable, is recorded as the last of at
  most 100 history records, and a second compaction removes nothing.
\<close>
theorem compact_spec:
  assumes "vc_web s" and "\<not> in_progress s"
  shows "\<exists>r s'. compact t0 t1 t2 t3 s = (Inr r, s') \<and>
     vc_store s' = filter (\<lambda>(k, v). \<not> (starts_with VAULT_PREFIX k \<and> has_infix ''deleted:'' k)) (vc_store s) \<and>
     space_saved r = reclaimable_size (analyze_vault s) \<and>
     entries_removed r = deleted_entries (analyze_vault s) \<and>
     reclaimable_size (stats_after r) = 0 \<and> deleted_entries (stats_after r) = 0 \<and>
     total_size (stats_after r) = used_size (analyze_vault s) \<and>
     get_last_compaction_result s' = Some r \<and>
     length (get_compaction_history s') \<le> MAX_HISTORY_RECORDS \<and>
     (\<exists>r2 s2. compact t4 t5 t6 t7 s' = (Inr r2, s2) \<and> entries_removed r2 = 0 \<and>
        space_saved r2 = 0 \<and> vc_store s2 = vc_store s')"
proof -
  from compact_web [OF assms] obtain r s' where r: "compact t0 t1 t2 t3 s = (Inr r, s')"
    and st: "vc_store s' = purged s" "vc_web s'" "\<not> in_progress s'"
    and af: "stats_after r = analyze_vault (s\<lparr>vc_store := purged s\<rparr>)"
    and sp: "space_saved r = total_size (analyze_vault s) -
       sum_list (map snd (get_vault_entries (s\<lparr>vc_store := purged s\<rparr>)))"
    and rm: "entries_removed r = length (filter (\<lambda>(k, n). marked_deleted k) (get_vault_entries s))"
    and h: "get_compaction_history s' = last_n MAX_HISTORY_RECORDS (get_compaction_history s @
       [\<lparr>cr_result = r, cr_reason = ''manual_compaction'', cr_recorded_at = t3\<rparr>])"
    by blast
  from compact_web [OF st(2,3)] obtain r2 s2 where r2: "compact t4 t5 t6 t7 s' = (Inr r2, s2)"
    and st2: "vc_store s2 = purged s'"
    and sp2: "space_saved r2 = total_size (analyze_vault s') -
       sum_list (map snd (get_vault_entries (s'\<lparr>vc_store := purged s'\<rparr>)))"
    and rm2: "entries_removed r2 = length (filter (\<lambda>(k, n). marked_deleted k) (get_vault_entries s'))"
    by blast
  note ents = entries_purged [OF assms(1)]
  have again: "purged s' = purged s"
    using st(1) unfolding purged_def by (simp add: filter_filter)
  have e': "get_vault_entries s' = filter (\<lambda>e. \<not> marked_deleted (fst e)) (get_vault_entries s)"
    unfolding ents [symmetric] by (rule analyze_cong) (simp_all add: st assms)
  have e'': "get_vault_entries (s'\<lparr>vc_store := purged s'\<rparr>) = get_vault_entries s'"
    by (rule analyze_cong) (simp_all add: st again)
  have "purged s = filter (\<lambda>(k, v). \<not> (starts_with VAULT_PREFIX k \<and> has_infix ''deleted:'' k)) (vc_store s)"
    unfolding purged_def
    by (intro filter_cong) (auto simp: doomed_key_def vault_key_def marked_deleted_def starts_with_def VAULT_PREFIX_def)
  moreover have "last (get_compaction_history s') =
      \<lparr>cr_result = r, cr_reason = ''manual_compaction'', cr_recorded_at = t3\<rparr>"
    and "get_compaction_history s' \<noteq> []" and "length (get_compaction_history s') \<le> MAX_HISTORY_RECORDS"
    unfolding h by (simp_all add: MAX_HISTORY_RECORDS_def last_n_def)
  moreover have "deleted_entries (stats_after r) = 0" "reclaimable_size (stats_after r) = 0"
    "total_size (stats_after r) = used_size (analyze_vault s)"
    unfolding af analyze_fields ents by (simp_all add: filter_filter)
  moreover have "space_saved r = reclaimable_size (analyze_vault s)"
    unfolding sp analyze_fields ents
    using sum_split [of "get_vault_entries s" marked_deleted] by simp
  moreover have "entries_removed r = deleted_entries (analyze_vault s)"
    unfolding rm analyze_fields by (intro arg_cong [where f = length] filter_cong) auto
  moreover have "space_saved r2 = 0"
    unfolding sp2 e'' by (simp add: analyze_fields)
  moreover have "entries_removed r2 = 0"
    unfolding rm2 e' by (simp add: filter_filter split_beta)
  ultimately show ?thesis
    using r st(1) r2 st2 again
    by (auto simp: get_last_compaction_result_def get_compaction_history_def [symmetric] Let_def)
qed

lemma demo_vc: "vc_web \<lparr>vc_web = True, vc_store = st, vc_history = h, in_progress = False, vc_audit = a\<rparr>"
  "\<not> in_progress \<lparr>vc_web = True, vc_store = st, vc_history = h, in_progress = False, vc_audit = a\<rparr>"
  by simp_all

theorem compact_spec_witness:
  "\<exists>r s'. compact 0 1 2 3 \<lparr>vc_web = True, vc_store = [(''usbvault:vault_deleted:a'', ''xx''), (''b'', ''y'')],
     vc_history = None, in_progress = False, vc_audit = []\<rparr> = (Inr r, s') \<and>
     vc_store s' = [(''b'', ''y'')] \<and> get_last_compaction_result s' = Some r"
proof -
  have "filter (\<lambda>(k, v). \<not> (starts_with VAULT_PREFIX k \<and> has_infix ''deleted:'' k))
      [(''usbvault:vault_deleted:a'', ''xx''), (''b'', ''y'')] = [(''b'', ''y'')]" by code_simp
  with compact_spec [OF demo_vc, of 0 1 2 3 "[(''usbvault:vault_deleted:a'', ''xx''), (''b'', ''y'')]" None "[]"]
  show ?thesis by fastforce
qed

lemma ls_get_Cons: "ls_get k ((k', v) # b) = (if k = k' then Some v else ls_get k b)"
  by (simp add: ls_get_def)

lemma sum_add_category:
  "sum_list (map snd (ls_set k (case_option 0 id (ls_get k b) + n) b)) = sum_list (map snd b) + n"
  for n :: nat
proof (induction b)
  case Nil
  then show ?case by (simp add: ls_get_def)
next
  case (Cons p b)
  then show ?case by (cases p) (auto simp: ls_get_Cons)
qed

lemma breakdown_fold:
  "sum_list (map snd (fold add_category es b)) = sum_list (map snd b) + sum_list (map snd es)"
proof (induction es arbitrary: b)
  case (Cons e es)
  have "sum_list (map snd (add_category e b)) = sum_list (map snd b) + snd e"
    by (cases e) (simp add: add_category_def sum_add_category)
  with Cons show ?case by simp
qed simp

lemma breakdown_valid: "ls_valid b \<Longrightarrow> ls_valid (fold add_category es b)"
  by (induction es arbitrary: b) (auto simp: add_category_def ls_valid_set split: prod.split)

lemma breakdown_get:
  "case_option 0 id (ls_get c (fold add_category es b)) =
     case_option 0 id (ls_get c b) + sum_list (map snd (filter (\<lambda>e. category_of (fst e) = c) es))"
proof (induction es arbitrary: b)
  case (Cons e es)
  have "case_option 0 id (ls_get c (add_category e b)) =
      case_option 0 id (ls_get c b) + (if category_of (fst e) = c then snd e else 0)"
    by (cases e) (auto simp: add_category_def ls_get_set)
  with Cons show ?case by auto
qed simp

text \<open>
  The storage breakdown: its sizes add up to the total size of the vault entries, each
  category appears once with the sum of its own entries, the list is sorted by descending
  size, and every percentage lies between 0 and 100.
\<close>
theorem breakdown_spec:
  "sum_list (map sb_size (get_storage_breakdown s)) = total_size (analyze_vault s) \<and>
   distinct (map category (get_storage_breakdown s)) \<and>
   sorted_wrt (\<ge>) (map sb_size (get_storage_breakdown s)) \<and>
   list_all (\<lambda>r. sb_size r = sum_list (map snd (filter (\<lambda>e. category_of (fst e) = category r)
      (get_vault_entries s))) \<and> 0 \<le> percentage r \<and> percentage r \<le> 100) (get_storage_breakdown s)"
proof -
  let ?b = "fold add_category (get_vault_entries s) []"
  let ?t = "sum_list (map snd (get_vault_entries s))"
  let ?f = "\<lambda>(c, n). \<lparr>category = c, sb_size = n, percentage = percent_of n ?t\<rparr>"
  let ?r = "get_storage_breakdown s"
  have r: "?r = sort_key (\<lambda>r. - int (sb_size r)) (map ?f ?b)"
    by (simp add: get_storage_breakdown_def Let_def)
  have valid: "ls_valid ?b" by (rule breakdown_valid) (simp add: ls_valid_def)
  have "mset (map sb_size ?r) = mset (map snd ?b)"
    unfolding r by (simp add: multiset.map_comp comp_def split_beta)
  then have sum: "sum_list (map sb_size ?r) = ?t"
    by (metis (no_types) breakdown_fold sum_mset_sum_list add_0 list.simps(8) sum_list.Nil)
  have "mset (map category ?r) = mset (map fst ?b)"
    unfolding r by (simp add: multiset.map_comp comp_def split_beta)
  then have dist: "distinct (map category ?r)"
    using valid by (metis ls_valid_def mset_eq_imp_distinct_iff)
  have "sorted (map (\<lambda>r. - int (sb_size r)) ?r)" unfolding r by (rule sorted_sort_key)
  then have sorted: "sorted_wrt (\<ge>) (map sb_size ?r)"
    by (simp add: sorted_map sorted_wrt_map)
  have "sb_size x = sum_list (map snd (filter (\<lambda>e. category_of (fst e) = category x)
      (get_vault_entries s))) \<and> 0 \<le> percentage x \<and> percentage x \<le> 100" if x: "x \<in> set ?r" for x
  proof -
    from x obtain c n where p: "(c, n) \<in> set ?b" "x = \<lparr>category = c, sb_size = n, percentage = percent_of n ?t\<rparr>"
      unfolding r by auto
    then have "ls_get c ?b = Some n"
      using valid by (simp add: ls_get_def ls_valid_def)
    with breakdown_get [of c "get_vault_entries s" "[]"]
    have n: "n = sum_list (map snd (filter (\<lambda>e. category_of (fst e) = c) (get_vault_entries s)))"
      by (simp add: ls_get_def)
    then have "n \<le> ?t"
      using sum_split [of "get_vault_entries s" "\<lambda>k. category_of k = c"] by simp
    from percent_of_bounds [OF this] p(2) n show ?thesis by simp
  qed
  with sum dist sorted show ?thesis by (simp add: list_all_iff analyze_fields)
qed

end
