(* ===== verification/Result_State.thy ===== *)
theory Result_State
  imports QS_Prelude
begin

text \<open>
  Service calls that change state and may throw: a call maps the state to a result (\<open>Inl\<close>
  the thrown error, \<open>Inr\<close> the value) and the state it leaves, which a throw does not undo.
  \<open>identified\<close> is the interface of an array kept by identifier (find the index of the id,
  replace there or push), and what batches of such writes leave behind.
\<close>

type_synonym ('s, 'e, 'a) call = "'s \<Rightarrow> ('e + 'a) \<times> 's"

definition ret :: "'a \<Rightarrow> ('s, 'e, 'a) call" where
  "ret a s = (Inr a, s)"

definition throw :: "'e \<Rightarrow> ('s, 'e, 'a) call" where
  "throw e s = (Inl e, s)"

definition modify :: "('s \<Rightarrow> 's) \<Rightarrow> ('s, 'e, unit) call" where
  "modify f s = (Inr (), f s)"

definition and_then :: "('s, 'e, 'a) call \<Rightarrow> ('a \<Rightarrow> ('s, 'e, 'b) call) \<Rightarrow> ('s, 'e, 'b) call" where
  "and_then m f s = (case m s of (Inl e, s') \<Rightarrow> (Inl e, s') | (Inr a, s') \<Rightarrow> f a s')"

fun all_of :: "('s, 'e, unit) call list \<Rightarrow> ('s, 'e, unit) call" where
  "all_of [] s = (Inr (), s)"
| "all_of (m # ms) s = and_then m (\<lambda>_. all_of ms) s"

text \<open>\<open>catch (error) { ...; throw error }\<close>.\<close>

definition on_throw :: "('e \<Rightarrow> 's \<Rightarrow> 's) \<Rightarrow> ('s, 'e, 'a) call \<Rightarrow> ('s, 'e, 'a) call" where
  "on_throw h m s = (case m s of (Inl e, s') \<Rightarrow> (Inl e, h e s') | (Inr a, s') \<Rightarrow> (Inr a, s'))"

text \<open>A catch that throws another error, one that ignores the error, and a call that only computes.\<close>

definition relabel :: "('e \<Rightarrow> 'f) \<Rightarrow> ('s, 'e, 'a) call \<Rightarrow> ('s, 'f, 'a) call" where
  "relabel f m s = (case m s of (Inl e, s') \<Rightarrow> (Inl (f e), s') | (Inr a, s') \<Rightarrow> (Inr a, s'))"

definition swallow :: "('s, 'e, 'a) call \<Rightarrow> ('s, 'f, unit) call" where
  "swallow m s = (Inr (), snd (m s))"

definition of_result :: "'e + 'a \<Rightarrow> ('s, 'e, 'a) call" where
  "of_result r s = (r, s)"

text \<open>A property of states that a call keeps, whether it throws or not.\<close>

definition keeps :: "('s \<Rightarrow> bool) \<Rightarrow> ('s, 'e, 'a) call \<Rightarrow> bool" where
  "keeps P m = (\<forall>s. P s \<longrightarrow> P (snd (m s)))"

named_theorems keeps_intros \<open>calls that keep a property\<close>

lemma keepsD: "keeps P m \<Longrightarrow> P s \<Longrightarrow> P (snd (m s))"
  by (simp add: keeps_def)

lemma keeps_ret [keeps_intros]: "keeps P (ret a)"
  by (simp add: keeps_def ret_def)

lemma keeps_throw [keeps_intros]: "keeps P (throw e)"
  by (simp add: keeps_def throw_def)

lemma keeps_modify: "(\<And>s. P s \<Longrightarrow> P (f s)) \<Longrightarrow> keeps P (modify f)"
  by (simp add: keeps_def modify_def)

lemma keeps_and_then [keeps_intros]:
  "keeps P m \<Longrightarrow> (\<And>a. keeps P (f a)) \<Longrightarrow> keeps P (and_then m f)"
  unfolding keeps_def and_then_def by (auto split: prod.split sum.split)

lemma keeps_all_of [keeps_intros]:
  "(\<And>m. m \<in> set ms \<Longrightarrow> keeps P m) \<Longrightarrow> keeps P (all_of ms)"
proof (induction ms)
  case Nil
  then show ?case by (simp add: keeps_def)
next
  case (Cons m ms)
  have "keeps P (and_then m (\<lambda>_. all_of ms))"
    using Cons by (intro keeps_and_then) auto
  then show ?case by (simp add: keeps_def)
qed

lemma keeps_on_throw [keeps_intros]:
  "keeps P m \<Longrightarrow> (\<And>e s. P s \<Longrightarrow> P (h e s)) \<Longrightarrow> keeps P (on_throw h m)"
  unfolding keeps_def on_throw_def by (auto split: prod.split sum.split)

lemma keeps_if [keeps_intros]: "(b \<Longrightarrow> keeps P m) \<Longrightarrow> (\<not> b \<Longrightarrow> keeps P n) \<Longrightarrow> keeps P (if b then m else n)"
  by simp

lemma keeps_option [keeps_intros]:
  "keeps P m \<Longrightarrow> (\<And>c. keeps P (f c)) \<Longrightarrow> keeps P (case x of None \<Rightarrow> m | Some c \<Rightarrow> f c)"
  by (cases x) simp_all

lemma keeps_prod [keeps_intros]:
  "(\<And>a b. keeps P (f a b)) \<Longrightarrow> keeps P (case x of (a, b) \<Rightarrow> f a b)"
  by (cases x) simp

lemma keeps_read [keeps_intros]: "keeps P (\<lambda>s. ret (g s) s)"
  by (simp add: keeps_def ret_def)

lemma keeps_relabel [keeps_intros]: "keeps P m \<Longrightarrow> keeps P (relabel f m)"
  unfolding keeps_def relabel_def by (auto split: prod.split sum.split)

lemma keeps_swallow [keeps_intros]: "keeps P m \<Longrightarrow> keeps P (swallow m)"
  by (simp add: keeps_def swallow_def)

lemma keeps_of_result [keeps_intros]: "keeps P (of_result r)"
  by (simp add: keeps_def of_result_def)

lemma and_then_Inr:
  "and_then m f s = (Inr b, t) \<longleftrightarrow> (\<exists>a u. m s = (Inr a, u) \<and> f a u = (Inr b, t))"
  by (auto simp: and_then_def split: prod.split sum.split)

text \<open>A property that a call keeps when it throws.\<close>

definition keeps_failing :: "('s \<Rightarrow> bool) \<Rightarrow> ('s, 'e, 'a) call \<Rightarrow> bool" where
  "keeps_failing P m = (\<forall>s e t. P s \<longrightarrow> m s = (Inl e, t) \<longrightarrow> P t)"

named_theorems failing_intros \<open>calls that keep a property when they throw\<close>

lemma keeps_failing_weaken: "keeps P m \<Longrightarrow> keeps_failing P m"
  unfolding keeps_def keeps_failing_def by (metis snd_conv)

lemma failing_and_then [failing_intros]:
  "keeps P m \<Longrightarrow> (\<And>a. keeps_failing P (f a)) \<Longrightarrow> keeps_failing P (and_then m f)"
  unfolding keeps_failing_def keeps_def and_then_def
  by (auto split: prod.split_asm sum.split_asm)

lemma failing_modify [failing_intros]: "keeps_failing P (modify f)"
  by (simp add: keeps_failing_def modify_def)

lemma failing_throw [failing_intros]: "keeps_failing P (throw e)"
  by (simp add: keeps_failing_def throw_def)

lemma failing_if [failing_intros]:
  "(b \<Longrightarrow> keeps_failing P m) \<Longrightarrow> (\<not> b \<Longrightarrow> keeps_failing P n) \<Longrightarrow> keeps_failing P (if b then m else n)"
  by simp

lemma failing_option [failing_intros]:
  "keeps_failing P m \<Longrightarrow> (\<And>c. keeps_failing P (f c)) \<Longrightarrow> keeps_failing P (case x of None \<Rightarrow> m | Some c \<Rightarrow> f c)"
  by (cases x) simp_all

lemma failing_relabel [failing_intros]: "keeps_failing P m \<Longrightarrow> keeps_failing P (relabel f m)"
  unfolding keeps_failing_def relabel_def by (auto split: prod.split_asm sum.split_asm)

subsection \<open>Arrays kept by identifier\<close>

definition upsert :: "('a \<Rightarrow> string) \<Rightarrow> 'a \<Rightarrow> 'a list \<Rightarrow> 'a list" where
  "upsert ident x xs =
     (case find_index (\<lambda>y. ident y = ident x) xs of Some i \<Rightarrow> xs[i := x] | None \<Rightarrow> xs @ [x])"

definition find_id :: "('a \<Rightarrow> string) \<Rightarrow> string \<Rightarrow> 'a list \<Rightarrow> 'a option" where
  "find_id ident i xs = List.find (\<lambda>y. ident y = i) xs"

locale identified =
  fixes ident :: "'a \<Rightarrow> string"
    and put :: "'a \<Rightarrow> 'a list \<Rightarrow> 'a list"
  assumes find_put: "find_id ident i (put x xs) = (if i = ident x then Some x else find_id ident i xs)"
    and set_put: "set (put x xs) \<subseteq> insert x (set xs)"
    and ids_put: "distinct (map ident xs) \<Longrightarrow> distinct (map ident (put x xs))"
begin

lemma find_fold_put:
  assumes "distinct (map ident ys)"
  shows "find_id ident i (fold put ys xs) =
     (case find_id ident i ys of None \<Rightarrow> find_id ident i xs | Some y \<Rightarrow> Some y)"
  using assms
proof (induction ys arbitrary: xs)
  case Nil
  then show ?case by (simp add: find_id_def)
next
  case (Cons y ys)
  have "find_id ident (ident y) ys = None"
    using Cons.prems by (simp add: find_id_def find_None_iff) (metis imageI)
  with Cons show ?case by (auto simp: find_put [unfolded find_id_def] find_id_def split: option.splits)
qed

lemma ids_fold_put: "distinct (map ident xs) \<Longrightarrow> distinct (map ident (fold put ys xs))"
  by (induction ys arbitrary: xs) (auto simp: ids_put)

lemma put_present:
  assumes "x \<in> set xs" and "distinct (map ident xs)"
  shows "find_id ident (ident x) xs = Some x"
  using assms by (induction xs) (auto simp: find_id_def)

lemma rewrite_all:
  assumes "distinct (map ident xs)" and "\<And>x. ident (f x) = ident x" and "\<And>x. x \<in> set xs \<Longrightarrow> P (f x)"
    and "x \<in> set (fold put (map f xs) xs)"
  shows "P x"
proof -
  have "map ident (map f xs) = map ident xs" using assms(2) by simp
  then have d: "distinct (map ident (map f xs))" using assms(1) by argo
  have "find_id ident (ident x) (fold put (map f xs) xs) = Some x"
    by (rule put_present [OF assms(4) ids_fold_put [OF assms(1)]])
  then have "(case find_id ident (ident x) (map f xs) of
      None \<Rightarrow> find_id ident (ident x) xs | Some y \<Rightarrow> Some y) = Some x"
    using find_fold_put [OF d] by simp
  moreover have "find_id ident i (map f xs) = map_option f (find_id ident i xs)" for i
    using assms(2) by (induction xs) (simp_all add: find_id_def)
  ultimately obtain y where "find_id ident (ident x) xs = Some y" "x = f y"
    by (auto split: option.splits)
  then show ?thesis using assms(3) list_find_SomeD [of _ xs y] by (auto simp: find_id_def)
qed

end

lemma find_update_first:
  assumes "find_index (\<lambda>y. ident y = ident x) xs = Some k"
  shows "find_id ident i (xs[k := x]) = (if i = ident x then Some x else find_id ident i xs)"
  using assms
proof (induction xs arbitrary: k)
  case Nil
  then show ?case by simp
next
  case (Cons y ys)
  show ?case
  proof (cases k)
    case 0
    with Cons.prems have "ident y = ident x" by (auto split: if_splits)
    with 0 show ?thesis by (simp add: find_id_def)
  next
    case (Suc k')
    with Cons.prems have "ident y \<noteq> ident x" "find_index (\<lambda>y. ident y = ident x) ys = Some k'"
      by (auto split: if_splits)
    with Suc Cons.IH [of k'] show ?thesis by (auto simp: find_id_def)
  qed
qed

lemma find_append_new:
  "find_index (\<lambda>y. ident y = ident x) xs = None \<Longrightarrow>
   find_id ident i (xs @ [x]) = (if i = ident x then Some x else find_id ident i xs)"
  by (induction xs) (auto simp: find_id_def split: if_splits)

lemma identified_upsert: "identified ident (upsert ident)"
proof
  show "find_id ident i (upsert ident x xs) = (if i = ident x then Some x else find_id ident i xs)" for i x xs
    by (auto simp: upsert_def find_update_first find_append_new split: option.split)
  show "set (upsert ident x xs) \<subseteq> insert x (set xs)" for x xs
    by (auto simp: upsert_def split: option.splits dest: subsetD [OF set_update_subset_insert])
  show "distinct (map ident (upsert ident x xs))" if "distinct (map ident xs)" for x xs
  proof (cases "find_index (\<lambda>y. ident y = ident x) xs")
    case None
    then have "\<forall>y\<in>set xs. ident y \<noteq> ident x" by (simp add: find_index_None)
    with that None show ?thesis by (auto simp: upsert_def)
  next
    case (Some k)
    with find_index_Some [OF Some] have "map ident (xs[k := x]) = map ident xs"
      by (simp add: map_update list_update_same_conv)
    with Some that show ?thesis by (simp add: upsert_def)
  qed
qed

end
