(* ===== verification/Emergency_Access.thy ===== *)
theory Emergency_Access
  imports Result_State Event_System Hex_Codec Web_Storage
begin

text \<open>
  \<open>services/emergencyAccessService.ts\<close>, with the key lookup of \<open>services/sharing/p2p.ts\<close> and
  \<open>sealToPublicKey\<close> of \<open>crypto/bridge.ts\<close> that \<open>designateContact\<close> calls. Contacts, requests
  and history are JSON documents in \<open>localStorage\<close> or \<open>AsyncStorage\<close> (the same code for both,
  \<open>None\<close>: nothing stored). A call is a \<open>call\<close> of \<open>Result_State\<close>: it may throw at any parse, and
  what it wrote before stays written. Ids and clock readings are arguments; callers await one
  call before the next, so calls do not interleave. The native sealing routine and key
  generation are parameters.
\<close>

subsection \<open>Data\<close>

datatype contact_status = Active | Revoked

record contact =
  c_id :: string
  c_email :: string
  c_name :: string
  c_public :: string
  c_vault_key :: string
  c_designated :: time
  c_status :: contact_status

datatype request_status = RPending | Approved | Denied | Expired | Accessed

record request =
  r_id :: string
  r_contact :: string
  r_email :: string
  r_requested :: time
  r_expires :: time
  r_status :: request_status
  r_denied :: "time option"
  r_accessed :: "time option"
  r_reason :: "string option"

datatype history_action = HRequested | HApproved | HDenied | HAccessed | HExpired

record history_entry =
  h_id :: string
  h_request :: string
  h_email :: string
  h_action :: history_action
  h_time :: time
  h_reason :: "string option"

datatype ea_error =
    MissingArgument | ParseFailed | NoPublicKey string | BadKeyText | SealFailed
  | ContactNotFound string | NoActiveContact string | RequestNotFound string
  | CannotDeny request_status | CannotApprove request_status
  | NotApproved request_status | EmailMismatch | ContactNotActive

datatype ea_audit = AuditOk string string | AuditError string ea_error

record ea =
  ea_web :: bool
  contacts_doc :: "contact list stored option"
  requests_doc :: "request list stored option"
  history_doc :: "history_entry list stored option"
  keypair :: "(string \<times> string) option"
  keypair_doc :: "(string \<times> string) stored option"
  directory_doc :: "string local_storage stored option"
  ea_log :: "ea_audit list"
  outbox :: "(string \<times> string list) list"

definition ACCESS_WAIT_PERIOD_MS :: int where
  "ACCESS_WAIT_PERIOD_MS = 72 * 60 * 60 * 1000"

type_synonym 'a ea_call = "(ea, ea_error, 'a) call"

subsection \<open>Storage\<close>

definition load_contacts :: "contact list ea_call" where
  "load_contacts s = (case contacts_doc s of
     None \<Rightarrow> (Inr [], s) | Some Garbled \<Rightarrow> (Inl ParseFailed, s) | Some (Json cs) \<Rightarrow> (Inr cs, s))"

definition load_requests :: "request list ea_call" where
  "load_requests s = (case requests_doc s of
     None \<Rightarrow> (Inr [], s) | Some Garbled \<Rightarrow> (Inl ParseFailed, s) | Some (Json rs) \<Rightarrow> (Inr rs, s))"

definition load_history :: "history_entry list ea_call" where
  "load_history s = (case history_doc s of
     None \<Rightarrow> (Inr [], s) | Some Garbled \<Rightarrow> (Inl ParseFailed, s) | Some (Json hs) \<Rightarrow> (Inr hs, s))"

definition persist_contact :: "contact \<Rightarrow> unit ea_call" where
  "persist_contact c = and_then load_contacts
     (\<lambda>cs. modify (\<lambda>s. s\<lparr>contacts_doc := Some (Json (upsert c_id c cs))\<rparr>))"

definition persist_request :: "request \<Rightarrow> unit ea_call" where
  "persist_request r = and_then load_requests
     (\<lambda>rs. modify (\<lambda>s. s\<lparr>requests_doc := Some (Json (upsert r_id r rs))\<rparr>))"

definition persist_requests :: "request list \<Rightarrow> unit ea_call" where
  "persist_requests rs = modify (\<lambda>s. s\<lparr>requests_doc := Some (Json rs)\<rparr>)"

definition add_history_entry :: "history_entry \<Rightarrow> unit ea_call" where
  "add_history_entry h = and_then load_history
     (\<lambda>hs. modify (\<lambda>s. s\<lparr>history_doc := Some (Json (hs @ [h]))\<rparr>))"

definition audit_ok :: "string \<Rightarrow> string \<Rightarrow> unit ea_call" where
  "audit_ok what who = modify (\<lambda>s. s\<lparr>ea_log := ea_log s @ [AuditOk what who]\<rparr>)"

definition audit_error :: "string \<Rightarrow> ea_error \<Rightarrow> ea \<Rightarrow> ea" where
  "audit_error what e s = s\<lparr>ea_log := ea_log s @ [AuditError what e]\<rparr>"

definition sync_enqueue :: "string \<Rightarrow> string list \<Rightarrow> unit ea_call" where
  "sync_enqueue kind payload = modify (\<lambda>s. s\<lparr>outbox := outbox s @ [(kind, payload)]\<rparr>)"

text \<open>Several calls in order, then a result.\<close>

definition after :: "unit ea_call list \<Rightarrow> 'a \<Rightarrow> 'a ea_call" where
  "after ms a = and_then (all_of ms) (\<lambda>_. ret a)"

subsection \<open>Keys\<close>

definition get_or_create_keypair :: "string \<times> string \<Rightarrow> (string \<times> string) ea_call" where
  "get_or_create_keypair fresh s =
     (case keypair s of
        Some kp \<Rightarrow> (Inr kp, s)
      | None \<Rightarrow>
          (case (ea_web s, keypair_doc s) of
             (True, Some (Json kp)) \<Rightarrow> (Inr kp, s\<lparr>keypair := Some kp\<rparr>)
           | _ \<Rightarrow> (Inr fresh, s\<lparr>keypair := Some fresh,
                 keypair_doc := (if ea_web s then Some (Json fresh) else keypair_doc s)\<rparr>)))"

definition read_public_keys :: "ea \<Rightarrow> string local_storage" where
  "read_public_keys s =
     (if \<not> ea_web s then [] else case directory_doc s of Some (Json d) \<Rightarrow> d | _ \<Rightarrow> [])"

definition register_public_key :: "string \<Rightarrow> string \<Rightarrow> unit ea_call" where
  "register_public_key email pk = modify (\<lambda>s.
     if \<not> ea_web s then s
     else s\<lparr>directory_doc := Some (Json (ls_set email pk (read_public_keys s)))\<rparr>)"

definition get_public_key :: "string \<Rightarrow> ea \<Rightarrow> string option" where
  "get_public_key email s = (case ls_get email (read_public_keys s) of
     Some (c # cs) \<Rightarrow> Some (c # cs) | _ \<Rightarrow> None)"

text \<open>\<open>match(/.{1,2}/g)\<close>: pairs of characters within a line, \<open>null\<close> where there is none.\<close>

definition line_end :: "char \<Rightarrow> bool" where
  "line_end c = (c = CHR 0x0A \<or> c = CHR 0x0D)"

fun pairs :: "string \<Rightarrow> string list" where
  "pairs [] = []"
| "pairs [c] = (if line_end c then [] else [[c]])"
| "pairs (c # d # cs) =
     (if line_end c then pairs (d # cs)
      else if line_end d then [c] # pairs cs
      else [c, d] # pairs cs)"

definition match_bytes :: "string \<Rightarrow> bytes option" where
  "match_bytes s = (if pairs s = [] then None else Some (map (\<lambda>p. to_uint8 (parse_int16 p)) (pairs s)))"

definition seal_to_public_key :: "(bytes \<Rightarrow> bytes \<Rightarrow> bytes option) \<Rightarrow> bytes \<Rightarrow> bytes \<Rightarrow> bytes option" where
  "seal_to_public_key native pk plain =
     (if length pk \<noteq> 32 then None else if plain = [] then None else native pk plain)"

subsection \<open>Contacts\<close>

definition designate_contact ::
  "(bytes \<Rightarrow> bytes \<Rightarrow> bytes option) \<Rightarrow> string \<times> string \<Rightarrow> string \<Rightarrow> time \<Rightarrow>
     string \<Rightarrow> string \<Rightarrow> string \<Rightarrow> contact ea_call" where
  "designate_contact native fresh i now email name vaultKey =
     (if email = [] \<or> name = [] \<or> vaultKey = [] then throw MissingArgument
      else on_throw (audit_error ''emergency_contact_error'')
        (and_then (get_or_create_keypair fresh) (\<lambda>kp.
         and_then (register_public_key email (fst kp)) (\<lambda>_.
         and_then (\<lambda>s. ret (case get_public_key email s of Some k \<Rightarrow> k | None \<Rightarrow> fst kp) s) (\<lambda>pk.
           if pk = [] then throw (NoPublicKey email)
           else case (match_bytes vaultKey, match_bytes pk) of
               (Some vk, Some pkb) \<Rightarrow>
                 (case seal_to_public_key native pkb vk of
                    None \<Rightarrow> throw SealFailed
                  | Some sealed \<Rightarrow>
                      (let c = \<lparr>c_id = i, c_email = email, c_name = name, c_public = pk,
                                c_vault_key = bytes_to_hex sealed, c_designated = now,
                                c_status = Active\<rparr>
                       in after [persist_contact c, audit_ok ''emergency_contact_designated'' i,
                                 sync_enqueue ''share'' [i, email, name, pk]] c))
             | _ \<Rightarrow> throw BadKeyText)))))"

definition deny_pending_of :: "string \<Rightarrow> time \<Rightarrow> request \<Rightarrow> request" where
  "deny_pending_of cid now r =
     (if r_contact r = cid \<and> r_status r = RPending
      then r\<lparr>r_status := Denied, r_denied := Some now\<rparr> else r)"

definition remove_contact :: "time \<Rightarrow> string \<Rightarrow> unit ea_call" where
  "remove_contact now cid =
     (if cid = [] then throw MissingArgument
      else on_throw (audit_error ''remove_contact_failed'')
        (and_then load_contacts (\<lambda>cs.
           case find_id c_id cid cs of
             None \<Rightarrow> throw (ContactNotFound cid)
           | Some c \<Rightarrow>
               and_then (persist_contact (c\<lparr>c_status := Revoked\<rparr>)) (\<lambda>_.
               and_then load_requests (\<lambda>rs.
                 all_of [persist_requests (map (deny_pending_of cid now) rs),
                         audit_ok ''share_revoke'' (c_email c),
                         sync_enqueue ''share_revoke'' [cid]])))))"

definition get_contacts :: "ea \<Rightarrow> contact list \<times> ea" where
  "get_contacts s = (case load_contacts s of
     (Inr cs, s') \<Rightarrow> (cs, s') | (Inl e, s') \<Rightarrow> ([], audit_error ''get_contacts_failed'' e s'))"

subsection \<open>Requests\<close>

definition request_access ::
  "string \<Rightarrow> string \<Rightarrow> time \<Rightarrow> string \<Rightarrow> string option \<Rightarrow> request ea_call" where
  "request_access i hid now email reason =
     (if email = [] then throw MissingArgument
      else on_throw (audit_error ''request_access_failed'')
        (and_then load_contacts (\<lambda>cs.
           case List.find (\<lambda>c. c_email c = email \<and> c_status c = Active) cs of
             None \<Rightarrow> throw (NoActiveContact email)
           | Some c \<Rightarrow>
               (let r = \<lparr>r_id = i, r_contact = c_id c, r_email = email, r_requested = now,
                         r_expires = now + ACCESS_WAIT_PERIOD_MS, r_status = RPending,
                         r_denied = None, r_accessed = None, r_reason = reason\<rparr>
                in after [persist_request r, audit_ok ''emergency_access_requested'' i,
                          add_history_entry \<lparr>h_id = hid, h_request = i, h_email = email,
                            h_action = HRequested, h_time = now, h_reason = reason\<rparr>,
                          sync_enqueue ''share'' [i, email]] r))))"

text \<open>Find a request and go on, or throw.\<close>

definition with_request :: "string \<Rightarrow> (request \<Rightarrow> 'a ea_call) \<Rightarrow> 'a ea_call" where
  "with_request i f = and_then load_requests (\<lambda>rs.
     case find_id r_id i rs of None \<Rightarrow> throw (RequestNotFound i) | Some r \<Rightarrow> f r)"

definition deny_access :: "string \<Rightarrow> time \<Rightarrow> string \<Rightarrow> unit ea_call" where
  "deny_access hid now i =
     (if i = [] then throw MissingArgument
      else on_throw (audit_error ''deny_access_failed'')
        (with_request i (\<lambda>r.
           if r_status r \<noteq> RPending then throw (CannotDeny (r_status r))
           else all_of
             [persist_request (r\<lparr>r_status := Denied, r_denied := Some now\<rparr>),
              audit_ok ''emergency_access_denied'' i,
              add_history_entry \<lparr>h_id = hid, h_request = i, h_email = r_email r,
                h_action = HDenied, h_time = now, h_reason = None\<rparr>,
              sync_enqueue ''share'' [i]])))"

definition approve_access :: "string \<Rightarrow> time \<Rightarrow> string \<Rightarrow> unit ea_call" where
  "approve_access hid now i =
     (if i = [] then throw MissingArgument
      else on_throw (audit_error ''approve_access_failed'')
        (with_request i (\<lambda>r.
           if r_status r = Denied \<or> r_status r = Accessed then throw (CannotApprove (r_status r))
           else all_of
             [persist_request (r\<lparr>r_status := Approved\<rparr>),
              audit_ok ''emergency_access_approved'' i,
              add_history_entry \<lparr>h_id = hid, h_request = i, h_email = r_email r,
                h_action = HApproved, h_time = now, h_reason = None\<rparr>,
              sync_enqueue ''share'' [i]])))"

text \<open>
  The two \<open>if\<close>s of \<open>checkAccessStatus\<close> in order; the request object is shared, so the second
  sees the status the first one set.
\<close>

definition expire_overdue :: "string \<Rightarrow> time \<Rightarrow> request \<Rightarrow> request ea_call" where
  "expire_overdue hid now r =
     (if now > r_expires r \<and> r_status r = RPending
      then let r' = r\<lparr>r_status := Expired\<rparr> in
        after [persist_request r', audit_ok ''emergency_access_expired'' (r_id r),
               add_history_entry \<lparr>h_id = hid, h_request = r_id r, h_email = r_email r,
                 h_action = HExpired, h_time = now, h_reason = None\<rparr>] r'
      else ret r)"

definition auto_approve :: "string \<Rightarrow> time \<Rightarrow> request \<Rightarrow> request ea_call" where
  "auto_approve hid now r =
     (if now > r_expires r \<and> r_status r = RPending \<and> r_denied r = None
      then let r' = r\<lparr>r_status := Approved\<rparr> in
        after [persist_request r', audit_ok ''emergency_access_auto_approved'' (r_id r),
               add_history_entry \<lparr>h_id = hid, h_request = r_id r, h_email = r_email r,
                 h_action = HApproved, h_time = now, h_reason = None\<rparr>] r'
      else ret r)"

definition check_access_status :: "string \<Rightarrow> string \<Rightarrow> time \<Rightarrow> string \<Rightarrow> request ea_call" where
  "check_access_status hid hid2 now i =
     (if i = [] then throw MissingArgument
      else on_throw (audit_error ''check_access_status_failed'')
        (with_request i (\<lambda>r. and_then (expire_overdue hid now r) (auto_approve hid2 now))))"

definition expire_if_due :: "time \<Rightarrow> request \<Rightarrow> request" where
  "expire_if_due now r =
     (if r_status r = RPending \<and> r_expires r < now \<and> r_denied r = None
      then r\<lparr>r_status := Expired\<rparr> else r)"

text \<open>
  \<open>map\<close> changes the request objects in place, so both sides of the comparison that decides
  about persisting serialize the same, already updated, objects.
\<close>

definition get_active_requests :: "time \<Rightarrow> ea \<Rightarrow> request list \<times> ea" where
  "get_active_requests now s =
     (case load_requests s of
        (Inl e, s') \<Rightarrow> ([], audit_error ''get_active_requests_failed'' e s')
      | (Inr rs, s') \<Rightarrow>
          (let updated = map (expire_if_due now) rs; requests = updated;
               s2 = (if requests \<noteq> updated then snd (persist_requests updated s') else s')
           in (filter (\<lambda>r. r_status r = RPending \<or> r_status r = Approved) updated, s2)))"

definition access_vault :: "string \<Rightarrow> time \<Rightarrow> string \<Rightarrow> string \<Rightarrow> string ea_call" where
  "access_vault hid now i email =
     (if i = [] \<or> email = [] then throw MissingArgument
      else on_throw (audit_error ''access_vault_failed'')
        (with_request i (\<lambda>r.
           if r_status r \<noteq> Approved then throw (NotApproved (r_status r))
           else if r_email r \<noteq> email then throw EmailMismatch
           else and_then load_contacts (\<lambda>cs.
             case find_id c_id (r_contact r) cs of
               None \<Rightarrow> throw ContactNotActive
             | Some c \<Rightarrow>
                 if c_status c \<noteq> Active then throw ContactNotActive
                 else after
                   [persist_request (r\<lparr>r_status := Accessed, r_accessed := Some now\<rparr>),
                    audit_ok ''emergency_vault_accessed'' i,
                    add_history_entry \<lparr>h_id = hid, h_request = i, h_email = email,
                      h_action = HAccessed, h_time = now, h_reason = None\<rparr>,
                    sync_enqueue ''share'' [i, email]] (c_vault_key c)))))"

definition deny_open :: "time \<Rightarrow> request \<Rightarrow> request" where
  "deny_open now r =
     (if r_status r = RPending \<or> r_status r = Approved
      then r\<lparr>r_status := Denied, r_denied := Some now\<rparr> else r)"

definition revoke_all_access :: "(nat \<Rightarrow> string) \<Rightarrow> time \<Rightarrow> unit ea_call" where
  "revoke_all_access hid now =
     on_throw (audit_error ''revoke_all_access_failed'')
       (and_then load_contacts (\<lambda>cs.
        and_then load_requests (\<lambda>rs.
          (let cs' = map (\<lambda>c. c\<lparr>c_status := Revoked\<rparr>) cs;
               rs' = map (deny_open now) rs;
               denied = filter (\<lambda>r. r_status r = Denied \<and> r_denied r = Some now) rs'
           in all_of
                ([persist_requests rs'] @ map persist_contact cs' @
                 [audit_ok ''emergency_all_access_revoked'' []] @
                 map (\<lambda>(n, r). add_history_entry \<lparr>h_id = hid n, h_request = r_id r,
                    h_email = r_email r, h_action = HDenied, h_time = now,
                    h_reason = Some ''Emergency revocation of all access''\<rparr>) (enumerate 0 denied) @
                 [sync_enqueue ''share'' []])))))"

definition get_access_history :: "ea \<Rightarrow> history_entry list \<times> ea" where
  "get_access_history s = (case load_history s of
     (Inr hs, s') \<Rightarrow> (hs, s') | (Inl e, s') \<Rightarrow> ([], audit_error ''get_access_history_failed'' e s'))"

subsection \<open>Histories of calls\<close>

datatype ea_event =
    Designate "bytes \<Rightarrow> bytes \<Rightarrow> bytes option" "string \<times> string" string time string string string
  | RemoveContact time string
  | RequestAccess string string time string "string option"
  | DenyAccess string time string
  | ApproveAccess string time string
  | CheckStatus string string time string
  | ActiveRequests time
  | AccessVault string time string string
  | RevokeAll "nat \<Rightarrow> string" time

definition requests_of :: "ea \<Rightarrow> request list" where
  "requests_of s = (case requests_doc s of Some (Json rs) \<Rightarrow> rs | _ \<Rightarrow> [])"

definition lookup :: "ea \<Rightarrow> string \<Rightarrow> request option" where
  "lookup s i = find_id r_id i (requests_of s)"

text \<open>
  One call per event. A new request's id is one not in use, as \<open>generateEmergencyId\<close>
  (a time stamp and random digits) is meant to give.
\<close>

definition ea_step :: "ea_event \<Rightarrow> ea \<Rightarrow> ea option" where
  "ea_step e s =
     (case e of
        Designate native fresh i now email name vk \<Rightarrow>
          Some (snd (designate_contact native fresh i now email name vk s))
      | RemoveContact now cid \<Rightarrow> Some (snd (remove_contact now cid s))
      | RequestAccess i hid now email reason \<Rightarrow>
          (if lookup s i = None then Some (snd (request_access i hid now email reason s)) else None)
      | DenyAccess hid now i \<Rightarrow> Some (snd (deny_access hid now i s))
      | ApproveAccess hid now i \<Rightarrow> Some (snd (approve_access hid now i s))
      | CheckStatus hid hid2 now i \<Rightarrow> Some (snd (check_access_status hid hid2 now i s))
      | ActiveRequests now \<Rightarrow> Some (snd (get_active_requests now s))
      | AccessVault hid now i email \<Rightarrow> Some (snd (access_vault hid now i email s))
      | RevokeAll hid now \<Rightarrow> Some (snd (revoke_all_access hid now s)))"

interpretation contacts: identified c_id "upsert c_id"
  by (rule identified_upsert)

interpretation requests: identified r_id "upsert r_id"
  by (rule identified_upsert)

subsection \<open>What a call does to the requests\<close>

text \<open>How a request may change: its status along these edges, never its identity.\<close>

definition may_become :: "request_status \<Rightarrow> request_status \<Rightarrow> bool" where
  "may_become a b = (a = b \<or> a = RPending \<or> (a = Expired \<and> b \<noteq> RPending) \<or>
     (a = Approved \<and> b \<in> {Accessed, Denied}))"

definition same_request :: "request \<Rightarrow> request \<Rightarrow> bool" where
  "same_request r r' = (r_id r' = r_id r \<and> r_contact r' = r_contact r \<and> r_email r' = r_email r \<and>
     r_requested r' = r_requested r \<and> r_expires r' = r_expires r \<and> r_reason r' = r_reason r)"

definition progress :: "request \<Rightarrow> request \<Rightarrow> bool" where
  "progress r r' = (same_request r r' \<and> may_become (r_status r) (r_status r'))"

lemma may_become_refl [simp]: "may_become a a"
  by (simp add: may_become_def)

lemma may_become_trans: "may_become a b \<Longrightarrow> may_become b c \<Longrightarrow> may_become a c"
  by (cases a; cases b; cases c) (simp_all add: may_become_def)

lemma progress_refl [simp]: "progress r r"
  by (simp add: progress_def same_request_def)

lemma progress_trans: "progress a b \<Longrightarrow> progress b c \<Longrightarrow> progress a c"
  by (auto simp: progress_def same_request_def intro: may_become_trans)

text \<open>
  Every request of \<open>s\<close> is still there in \<open>t\<close>, related by \<open>R\<close>: further along, or further along
  without having been approved.
\<close>

definition evolves_by :: "(request \<Rightarrow> request \<Rightarrow> bool) \<Rightarrow> ea \<Rightarrow> ea \<Rightarrow> bool" where
  "evolves_by R s t = (\<forall>i r. lookup s i = Some r \<longrightarrow> (\<exists>r'. lookup t i = Some r' \<and> R r r'))"

definition calm :: "request \<Rightarrow> request \<Rightarrow> bool" where
  "calm r r' = (progress r r' \<and> (r_status r' = Approved \<longrightarrow> r_status r = Approved))"

lemma calm_refl [simp]: "calm r r"
  by (simp add: calm_def)

lemma calm_trans: "calm a b \<Longrightarrow> calm b c \<Longrightarrow> calm a c"
  by (auto simp: calm_def intro: progress_trans)

lemma evolves_trans:
  assumes "\<And>a b c. R a b \<Longrightarrow> R b c \<Longrightarrow> R a c"
  shows "evolves_by R s t \<Longrightarrow> evolves_by R t u \<Longrightarrow> evolves_by R s u"
  using assms unfolding evolves_by_def by meson

lemma evolves_mono: "(\<And>a b. R a b \<Longrightarrow> Q a b) \<Longrightarrow> evolves_by R s t \<Longrightarrow> evolves_by Q s t"
  unfolding evolves_by_def by meson

lemma lookup_id: "lookup s i = Some r \<Longrightarrow> r_id r = i"
  unfolding lookup_def find_id_def by (auto dest: list_find_SomeD)

text \<open>Calls that leave the requests alone.\<close>

definition same_requests :: "ea \<Rightarrow> ea \<Rightarrow> bool" where
  "same_requests s t = (requests_doc t = requests_doc s)"

lemma keeps_same [keeps_intros]:
  "keeps (same_requests s) load_contacts" "keeps (same_requests s) load_requests"
  "keeps (same_requests s) load_history" "keeps (same_requests s) (audit_ok a b)"
  "keeps (same_requests s) (sync_enqueue k p)"
  "keeps (same_requests s) (get_or_create_keypair f)"
  "keeps (same_requests s) (register_public_key e k)"
  by (simp_all add: keeps_def same_requests_def load_contacts_def load_requests_def load_history_def
      audit_ok_def sync_enqueue_def modify_def get_or_create_keypair_def register_public_key_def
      split: option.split stored.split bool.split)

lemma keeps_same_persist [keeps_intros]:
  "keeps (same_requests s) (persist_contact c)" "keeps (same_requests s) (add_history_entry h)"
  unfolding persist_contact_def add_history_entry_def
  by (intro keeps_intros keeps_modify; simp add: same_requests_def)+

lemma same_requests_audit: "same_requests s t \<Longrightarrow> same_requests s (audit_error w e t)"
  by (simp add: same_requests_def audit_error_def)

lemma load_requests_cases:
  obtains (bad) "load_requests s = (Inl ParseFailed, s)"
  | (ok) "load_requests s = (Inr (requests_of s), s)"
proof (cases "requests_doc s")
  case None
  then show thesis using ok by (simp add: load_requests_def requests_of_def)
next
  case (Some d)
  then show thesis using bad ok by (cases d) (simp_all add: load_requests_def requests_of_def)
qed

lemma load_contacts_state: "snd (load_contacts s) = s"
  by (simp add: load_contacts_def split: option.split stored.split)

lemma all_of_Cons: "all_of (m # ms) s = and_then m (\<lambda>_. all_of ms) s"
  by simp

text \<open>Writing one request, or all of them, then calls that leave the requests alone.\<close>

definition quiet :: "'a ea_call \<Rightarrow> bool" where
  "quiet m = (\<forall>s. same_requests s (snd (m s)))"

lemma quietI: "(\<And>s. keeps (same_requests s) m) \<Longrightarrow> quiet m"
  by (simp add: quiet_def keeps_def same_requests_def)

lemma quiet_tail: "list_all quiet ms \<Longrightarrow> quiet (all_of ms)"
proof -
  assume "list_all quiet ms"
  then have q: "\<And>m. m \<in> set ms \<Longrightarrow> quiet m" by (simp add: list_all_iff)
  have "keeps (same_requests s) m" if "m \<in> set ms" for m s
    using q [OF that] by (auto simp: quiet_def keeps_def same_requests_def)
  then show ?thesis by (intro quietI keeps_all_of)
qed

lemma persist_then:
  assumes "load_requests s = (Inr rs, s)" and "list_all quiet ms"
  shows "requests_doc (snd (all_of (persist_request r # ms) s)) = Some (Json (upsert r_id r rs))"
proof -
  let ?s = "s\<lparr>requests_doc := Some (Json (upsert r_id r rs))\<rparr>"
  have "all_of (persist_request r # ms) s = all_of ms ?s"
    using assms(1) by (simp add: persist_request_def and_then_def modify_def)
  then show ?thesis using quiet_tail [OF assms(2)] by (simp add: quiet_def same_requests_def)
qed

lemma persist_all_then:
  assumes "list_all quiet ms"
  shows "requests_doc (snd (all_of (persist_requests rs # ms) s)) = Some (Json rs)"
proof -
  have "all_of (persist_requests rs # ms) s = all_of ms (s\<lparr>requests_doc := Some (Json rs)\<rparr>)"
    by (simp add: persist_requests_def and_then_def modify_def)
  then show ?thesis using quiet_tail [OF assms] by (simp add: quiet_def same_requests_def)
qed

lemma after_state: "snd (after ms a s) = snd (all_of ms s)"
  by (simp add: after_def and_then_def ret_def split: prod.split sum.split)

lemma on_throw_doc:
  "requests_doc (snd (on_throw (audit_error w) m s)) = requests_doc (snd (m s))"
  by (simp add: on_throw_def audit_error_def split: prod.split sum.split)

lemma quiet_calls [simp, intro]:
  "quiet (audit_ok a b)" "quiet (sync_enqueue k p)" "quiet (add_history_entry h)"
  "quiet (persist_contact c)"
  by (intro quietI keeps_intros)+

text \<open>The document after a call on one request.\<close>

lemma with_request_doc:
  "requests_doc (snd (with_request i f s)) =
     (case load_requests s of (Inl e, _) \<Rightarrow> requests_doc s
      | (Inr rs, _) \<Rightarrow> (case find_id r_id i rs of None \<Rightarrow> requests_doc s
          | Some r \<Rightarrow> requests_doc (snd (f r s))))"
  by (rule load_requests_cases [of s])
    (simp_all add: with_request_def and_then_def throw_def split: option.split)

lemma lookup_doc: "requests_doc t = Some (Json rs) \<Longrightarrow> lookup t i = find_id r_id i rs"
  by (simp add: lookup_def requests_of_def)

lemma lookup_same: "requests_doc t = requests_doc s \<Longrightarrow> lookup t i = lookup s i"
  by (simp add: lookup_def requests_of_def)

lemma lookup_loaded: "load_requests s = (Inr rs, s) \<Longrightarrow> lookup s i = find_id r_id i rs"
  by (auto simp: lookup_def requests_of_def load_requests_def split: option.splits stored.splits)

lemma evolves_same:
  "(\<And>r. R r r) \<Longrightarrow> requests_doc t = requests_doc s \<Longrightarrow> evolves_by R s t"
  using lookup_same [of t s] by (simp add: evolves_by_def)

lemma evolves_one:
  assumes "\<And>r. R r r" and "load_requests s = (Inr rs, s)" and "find_id r_id i rs = Some r"
    and "R r r'" and "r_id r' = i" and "requests_doc t = Some (Json (upsert r_id r' rs))"
  shows "evolves_by R s t"
  using assms(1,3-5) lookup_loaded [OF assms(2)] lookup_doc [OF assms(6)]
  by (simp add: evolves_by_def requests.find_put)

lemma evolves_all:
  assumes "load_requests s = (Inr rs, s)" and "\<And>r. R r (f r)" and "\<And>r. r_id (f r) = r_id r"
    and "requests_doc t = Some (Json (map f rs))"
  shows "evolves_by R s t"
proof -
  have "find_id r_id i (map f rs) = map_option f (find_id r_id i rs)" for i
    using assms(3) by (induction rs) (simp_all add: find_id_def)
  with assms(2) lookup_loaded [OF assms(1)] lookup_doc [OF assms(4)] show ?thesis
    by (simp add: evolves_by_def)
qed

text \<open>A call that writes at most the one request it is about.\<close>

definition writes :: "(request \<Rightarrow> bool) \<Rightarrow> string \<Rightarrow> request list \<Rightarrow> ea \<Rightarrow> 'a ea_call \<Rightarrow> bool" where
  "writes Q i rs s m = (requests_doc (snd (m s)) = requests_doc s \<or>
     (\<exists>q. Q q \<and> r_id q = i \<and> requests_doc (snd (m s)) = Some (Json (upsert r_id q rs))))"

named_theorems writes_intros \<open>calls that write one request\<close>

lemma writes_throw [writes_intros]: "writes Q i rs s (throw e)"
  by (simp add: writes_def throw_def)

lemma writes_ret [writes_intros]: "writes Q i rs s (ret a)"
  by (simp add: writes_def ret_def)

lemma writes_if [writes_intros]:
  "(b \<Longrightarrow> writes Q i rs s m) \<Longrightarrow> (\<not> b \<Longrightarrow> writes Q i rs s n) \<Longrightarrow>
   writes Q i rs s (if b then m else n)"
  by simp

lemma writes_all [writes_intros]:
  "load_requests s = (Inr rs, s) \<Longrightarrow> list_all quiet ms \<Longrightarrow> r_id q = i \<Longrightarrow> Q q \<Longrightarrow>
   writes Q i rs s (all_of (persist_request q # ms))"
  unfolding writes_def using persist_then by blast

lemma writes_after [writes_intros]:
  "load_requests s = (Inr rs, s) \<Longrightarrow> list_all quiet ms \<Longrightarrow> r_id q = i \<Longrightarrow> Q q \<Longrightarrow>
   writes Q i rs s (after (persist_request q # ms) a)"
  using writes_all [of s rs ms q i Q] by (simp only: writes_def after_state)

lemma writes_contacts [writes_intros]:
  "(\<And>cs. writes Q i rs s (f cs)) \<Longrightarrow> writes Q i rs s (and_then load_contacts f)"
  by (simp add: writes_def and_then_def load_contacts_def split: option.split stored.split)

lemma writes_option [writes_intros]:
  "(x = None \<Longrightarrow> writes Q i rs s m) \<Longrightarrow> (\<And>c. x = Some c \<Longrightarrow> writes Q i rs s (f c)) \<Longrightarrow>
   writes Q i rs s (case x of None \<Rightarrow> m | Some c \<Rightarrow> f c)"
  by (cases x) simp_all

lemma with_request_evolves:
  assumes "\<And>r. R r r"
    and "\<And>rs r. load_requests s = (Inr rs, s) \<Longrightarrow> find_id r_id i rs = Some r \<Longrightarrow> r_id r = i \<Longrightarrow>
      writes (R r) i rs s (f r)"
  shows "evolves_by R s
     (snd ((if c then throw MissingArgument else on_throw (audit_error w) (with_request i f)) s))"
proof -
  let ?t = "snd (on_throw (audit_error w) (with_request i f) s)"
  have doc: "requests_doc ?t = (case load_requests s of (Inl e, _) \<Rightarrow> requests_doc s
      | (Inr rs, _) \<Rightarrow> (case find_id r_id i rs of None \<Rightarrow> requests_doc s
          | Some r \<Rightarrow> requests_doc (snd (f r s))))"
    by (simp only: on_throw_doc with_request_doc)
  have "evolves_by R s ?t"
  proof (cases rule: load_requests_cases [of s])
    case bad
    with doc show ?thesis by (intro evolves_same assms(1)) simp
  next
    case ok
    show ?thesis
    proof (cases "find_id r_id i (requests_of s)")
      case None
      with ok doc show ?thesis by (intro evolves_same assms(1)) simp
    next
      case (Some r)
      with ok doc have d: "requests_doc ?t = requests_doc (snd (f r s))" by simp
      have "r_id r = i" using Some by (intro lookup_id [of s]) (simp add: lookup_def)
      from assms(2) [OF ok Some this] show ?thesis
        unfolding writes_def d [symmetric]
        by (auto intro: evolves_same assms(1) evolves_one [OF assms(1) ok Some])
    qed
  qed
  then show ?thesis by (simp add: throw_def evolves_same [OF assms(1)])
qed

lemmas edge_simps = calm_def progress_def same_request_def may_become_def

lemma deny_evolves: "evolves_by calm s (snd (deny_access hid now i s))"
  unfolding deny_access_def
  by (rule with_request_evolves, simp) (intro writes_intros; simp add: edge_simps)

lemma approve_edge: "\<not> (a = Denied \<or> a = Accessed) \<Longrightarrow> may_become a Approved"
  by (cases a) (simp_all add: may_become_def)

lemma approve_evolves: "evolves_by progress s (snd (approve_access hid now i s))"
  unfolding approve_access_def
  by (rule with_request_evolves, simp)
    (intro writes_intros; simp add: progress_def same_request_def approve_edge)

lemma access_evolves: "evolves_by calm s (snd (access_vault hid now i email s))"
  unfolding access_vault_def
  by (rule with_request_evolves, simp) (intro writes_intros; simp add: edge_simps)

text \<open>The second \<open>if\<close> of \<open>checkAccessStatus\<close> never fires.\<close>

lemma auto_approve_dead:
  "and_then (expire_overdue hid now r) (auto_approve hid2 now) = expire_overdue hid now r"
proof
  fix s
  let ?r = "r\<lparr>r_status := Expired\<rparr>"
  let ?m = "all_of [persist_request ?r, audit_ok ''emergency_access_expired'' (r_id r),
               add_history_entry \<lparr>h_id = hid, h_request = r_id r, h_email = r_email r,
                 h_action = HExpired, h_time = now, h_reason = None\<rparr>]"
  show "and_then (expire_overdue hid now r) (auto_approve hid2 now) s = expire_overdue hid now r s"
  proof (cases "now > r_expires r \<and> r_status r = RPending")
    case True
    then have e: "expire_overdue hid now r s = and_then ?m (\<lambda>_. ret ?r) s"
      by (simp add: expire_overdue_def after_def Let_def del: all_of.simps)
    have "auto_approve hid2 now ?r = ret ?r" by (simp add: auto_approve_def)
    then show ?thesis unfolding and_then_def [of _ "auto_approve hid2 now"] e
      by (simp add: and_then_def ret_def split: prod.split sum.split del: all_of.simps)
  next
    case False
    then have "expire_overdue hid now r = ret r" and "auto_approve hid2 now r = ret r"
      by (auto simp: expire_overdue_def auto_approve_def)
    then show ?thesis by (simp add: and_then_def ret_def)
  qed
qed

lemma check_evolves: "evolves_by calm s (snd (check_access_status hid hid2 now i s))"
  unfolding check_access_status_def auto_approve_dead
  unfolding expire_overdue_def Let_def
  by (rule with_request_evolves, simp) (intro writes_intros; simp add: edge_simps)

lemma active_evolves: "evolves_by calm s (snd (get_active_requests now s))"
  by (cases rule: load_requests_cases [of s])
    (simp_all add: get_active_requests_def Let_def evolves_same audit_error_def)

lemma designate_evolves: "evolves_by calm s (snd (designate_contact native fresh i now email name vk s))"
proof -
  have "keeps (same_requests s) (designate_contact native fresh i now email name vk)"
    unfolding designate_contact_def Let_def after_def
    by (intro keeps_intros same_requests_audit) (auto intro: keeps_intros)
  then show ?thesis
    using keepsD [of "same_requests s" _ s] by (intro evolves_same) (auto simp: same_requests_def)
qed

lemma persist_bad:
  "load_requests s = (Inl e, s) \<Longrightarrow> snd (all_of (persist_request r # ms) s) = s"
  by (simp add: persist_request_def and_then_def)

lemma request_evolves:
  assumes "lookup s i = None"
  shows "evolves_by calm s (snd (request_access i hid now email reason s))"
proof (cases rule: load_requests_cases [of s])
  case bad
  have "requests_doc (snd (request_access i hid now email reason s)) = requests_doc s"
    unfolding request_access_def Let_def
    by (simp add: throw_def on_throw_doc and_then_def load_contacts_def after_state
        persist_bad [OF bad] split: option.split stored.split del: all_of.simps)
  then show ?thesis by (intro evolves_same) simp_all
next
  case ok
  define body where "body = and_then load_contacts (\<lambda>cs.
           case List.find (\<lambda>c. c_email c = email \<and> c_status c = Active) cs of
             None \<Rightarrow> throw (NoActiveContact email)
           | Some c \<Rightarrow>
               (let r = \<lparr>r_id = i, r_contact = c_id c, r_email = email, r_requested = now,
                         r_expires = now + ACCESS_WAIT_PERIOD_MS, r_status = RPending,
                         r_denied = None, r_accessed = None, r_reason = reason\<rparr>
                in after [persist_request r, audit_ok ''emergency_access_requested'' i,
                          add_history_entry \<lparr>h_id = hid, h_request = i, h_email = email,
                            h_action = HRequested, h_time = now, h_reason = reason\<rparr>,
                          sync_enqueue ''share'' [i, email]] r))"
  have "writes (\<lambda>_. True) i (requests_of s) s body"
    unfolding body_def Let_def using ok by (intro writes_intros) simp_all
  then have "evolves_by calm s (snd (on_throw (audit_error w) body s))" for w
  proof -
    let ?t = "snd (on_throw (audit_error w) body s)"
    assume "writes (\<lambda>_. True) i (requests_of s) s body"
    then consider "requests_doc ?t = requests_doc s"
      | q where "r_id q = i" "requests_doc ?t = Some (Json (upsert r_id q (requests_of s)))"
      unfolding writes_def on_throw_doc by blast
    then show ?thesis
    proof cases
      case 1
      then show ?thesis by (intro evolves_same) simp_all
    next
      case 2
      then have "lookup ?t j = (if j = i then Some q else lookup s j)" for j
        by (simp add: lookup_doc requests.find_put lookup_loaded [OF ok])
      with assms show ?thesis by (auto simp: evolves_by_def)
    qed
  qed
  then show ?thesis
    unfolding request_access_def body_def [symmetric] by (simp add: throw_def evolves_same)
qed

text \<open>A call that rewrites every request with the same function.\<close>

definition maps :: "(request \<Rightarrow> request) \<Rightarrow> ea \<Rightarrow> 'a ea_call \<Rightarrow> bool" where
  "maps f s m = (\<forall>s'. same_requests s s' \<longrightarrow> requests_doc (snd (m s')) = requests_doc s \<or>
     (load_requests s = (Inr (requests_of s), s) \<and>
      requests_doc (snd (m s')) = Some (Json (map f (requests_of s)))))"

lemma maps_throw: "maps f s (throw e)"
  by (simp add: maps_def throw_def same_requests_def)

lemma maps_quiet: "quiet m \<Longrightarrow> (\<And>a. maps f s (g a)) \<Longrightarrow> maps f s (and_then m g)"
proof (unfold maps_def, intro allI impI)
  fix s'
  assume m: "quiet m" and g: "\<And>a. \<forall>s'. same_requests s s' \<longrightarrow> requests_doc (snd (g a s')) = requests_doc s \<or>
     (load_requests s = (Inr (requests_of s), s) \<and>
      requests_doc (snd (g a s')) = Some (Json (map f (requests_of s))))"
    and s': "same_requests s s'"
  have "same_requests s (snd (m s'))"
    using m s' by (simp add: quiet_def same_requests_def)
  with g show "requests_doc (snd (and_then m g s')) = requests_doc s \<or>
     (load_requests s = (Inr (requests_of s), s) \<and>
      requests_doc (snd (and_then m g s')) = Some (Json (map f (requests_of s))))"
    by (cases "m s'") (auto simp: and_then_def same_requests_def split: sum.split)
qed

lemma maps_load:
  assumes "load_requests s = (Inr (requests_of s), s) \<Longrightarrow> maps f s (g (requests_of s))"
  shows "maps f s (and_then load_requests g)"
proof (unfold maps_def, intro allI impI)
  fix s' assume s': "same_requests s s'"
  show "requests_doc (snd (and_then load_requests g s')) = requests_doc s \<or>
     (load_requests s = (Inr (requests_of s), s) \<and>
      requests_doc (snd (and_then load_requests g s')) = Some (Json (map f (requests_of s))))"
  proof (cases rule: load_requests_cases [of s])
    case bad
    with s' show ?thesis
      by (auto simp: and_then_def load_requests_def same_requests_def split: option.splits stored.splits)
  next
    case ok
    with s' have "load_requests s' = (Inr (requests_of s), s')"
      by (auto simp: load_requests_def requests_of_def same_requests_def split: option.splits stored.splits)
    with assms [OF ok] s' show ?thesis by (simp add: and_then_def maps_def)
  qed
qed

lemma maps_all:
  assumes "load_requests s = (Inr (requests_of s), s)" and "list_all quiet ms"
  shows "maps f s (all_of (persist_requests (map f (requests_of s)) # ms))"
  using assms persist_all_then [OF assms(2)] by (simp add: maps_def del: all_of.simps)

lemma maps_evolves:
  assumes "maps f s m" and "\<And>r. R r r" and "\<And>r. R r (f r)" and "\<And>r. r_id (f r) = r_id r"
  shows "evolves_by R s (snd (on_throw (audit_error w) m s))"
proof -
  have "same_requests s s" by (simp add: same_requests_def)
  with assms(1) consider "requests_doc (snd (m s)) = requests_doc s"
    | "load_requests s = (Inr (requests_of s), s)"
      "requests_doc (snd (m s)) = Some (Json (map f (requests_of s)))"
    unfolding maps_def by blast
  then show ?thesis
  proof cases
    case 1
    then show ?thesis by (intro evolves_same assms(2)) (simp add: on_throw_doc)
  next
    case 2
    then show ?thesis using assms(3,4) by (intro evolves_all [of s _ R f]) (simp_all add: on_throw_doc)
  qed
qed

lemma maps_revoke:
  "maps (deny_open now) s (and_then load_contacts (\<lambda>cs.
        and_then load_requests (\<lambda>rs.
          (let cs' = map (\<lambda>c. c\<lparr>c_status := Revoked\<rparr>) cs;
               rs' = map (deny_open now) rs;
               denied = filter (\<lambda>r. r_status r = Denied \<and> r_denied r = Some now) rs'
           in all_of
                ([persist_requests rs'] @ map persist_contact cs' @
                 [audit_ok ''emergency_all_access_revoked'' []] @
                 map (\<lambda>(n, r). add_history_entry \<lparr>h_id = hid n, h_request = r_id r,
                    h_email = r_email r, h_action = HDenied, h_time = now,
                    h_reason = Some ''Emergency revocation of all access''\<rparr>) (enumerate 0 denied) @
                 [sync_enqueue ''share'' []])))))"
  unfolding Let_def append_Cons append_Nil
  by (intro maps_quiet maps_load maps_all quietI keeps_intros)
    (auto simp: list_all_iff)

lemma revoke_evolves: "evolves_by calm s (snd (revoke_all_access hid now s))"
  unfolding revoke_all_access_def
  by (rule maps_evolves [OF maps_revoke]) (simp_all add: deny_open_def edge_simps)

lemma remove_evolves: "evolves_by calm s (snd (remove_contact now cid s))"
proof -
  have "maps (deny_pending_of cid now) s (and_then load_contacts (\<lambda>cs.
           case find_id c_id cid cs of
             None \<Rightarrow> throw (ContactNotFound cid)
           | Some c \<Rightarrow>
               and_then (persist_contact (c\<lparr>c_status := Revoked\<rparr>)) (\<lambda>_.
               and_then load_requests (\<lambda>rs.
                 all_of [persist_requests (map (deny_pending_of cid now) rs),
                         audit_ok ''share_revoke'' (c_email c),
                         sync_enqueue ''share_revoke'' [cid]]))))"
  proof (rule maps_quiet, intro quietI keeps_intros)
    fix cs
    show "maps (deny_pending_of cid now) s (case find_id c_id cid cs of
             None \<Rightarrow> throw (ContactNotFound cid)
           | Some c \<Rightarrow>
               and_then (persist_contact (c\<lparr>c_status := Revoked\<rparr>)) (\<lambda>_.
               and_then load_requests (\<lambda>rs.
                 all_of [persist_requests (map (deny_pending_of cid now) rs),
                         audit_ok ''share_revoke'' (c_email c),
                         sync_enqueue ''share_revoke'' [cid]])))"
      by (cases "find_id c_id cid cs")
        (auto intro!: maps_throw maps_quiet maps_load maps_all simp del: all_of.simps)
  qed
  then have "evolves_by calm s (snd (on_throw (audit_error w) (and_then load_contacts (\<lambda>cs.
           case find_id c_id cid cs of
             None \<Rightarrow> throw (ContactNotFound cid)
           | Some c \<Rightarrow>
               and_then (persist_contact (c\<lparr>c_status := Revoked\<rparr>)) (\<lambda>_.
               and_then load_requests (\<lambda>rs.
                 all_of [persist_requests (map (deny_pending_of cid now) rs),
                         audit_ok ''share_revoke'' (c_email c),
                         sync_enqueue ''share_revoke'' [cid]])))) s))" for w
    by (rule maps_evolves) (simp_all add: deny_pending_of_def edge_simps)
  then show ?thesis unfolding remove_contact_def by (simp add: throw_def evolves_same)
qed

subsection \<open>Histories\<close>

fun not_approving :: "string \<Rightarrow> ea_event \<Rightarrow> bool" where
  "not_approving i (ApproveAccess hid now j) = (i \<noteq> j)"
| "not_approving i _ = True"

lemma calm_progress: "evolves_by calm s t \<Longrightarrow> evolves_by progress s t"
  unfolding evolves_by_def calm_def by blast

lemma step_progress: "ea_step e s = Some t \<Longrightarrow> evolves_by progress s t"
  by (cases e)
    (auto simp: ea_step_def split: if_splits
      intro: approve_evolves calm_progress designate_evolves remove_evolves request_evolves deny_evolves
        check_evolves active_evolves access_evolves revoke_evolves)

lemma approve_other:
  assumes "j \<noteq> i"
  shows "lookup (snd (approve_access hid now i s)) j = lookup s j"
proof (cases rule: load_requests_cases [of s])
  case bad
  then have "requests_doc (snd (approve_access hid now i s)) = requests_doc s"
    by (simp add: approve_access_def throw_def on_throw_doc with_request_doc)
  then show ?thesis by (rule lookup_same)
next
  case ok
  have w: "writes (\<lambda>_. True) i (requests_of s) s
      (if r_status r = Denied \<or> r_status r = Accessed then throw (CannotApprove (r_status r))
       else all_of [persist_request (r\<lparr>r_status := Approved\<rparr>), audit_ok ''emergency_access_approved'' i,
              add_history_entry \<lparr>h_id = hid, h_request = i, h_email = r_email r,
                h_action = HApproved, h_time = now, h_reason = None\<rparr>,
              sync_enqueue ''share'' [i]])" if "r_id r = i" for r
    using ok that by (intro writes_intros) simp_all
  have "requests_doc (snd (approve_access hid now i s)) = requests_doc s \<or>
      (\<exists>q. r_id q = i \<and> requests_doc (snd (approve_access hid now i s)) =
         Some (Json (upsert r_id q (requests_of s))))"
  proof (cases "find_id r_id i (requests_of s)")
    case None
    with ok show ?thesis by (simp add: approve_access_def throw_def on_throw_doc with_request_doc)
  next
    case (Some r)
    then have "r_id r = i" by (intro lookup_id [of s]) (simp add: lookup_def)
    from w [OF this] Some ok show ?thesis
      unfolding writes_def
      by (simp add: approve_access_def on_throw_doc with_request_doc del: all_of.simps)
        (simp add: throw_def)
  qed
  then show ?thesis
  proof (elim disjE exE conjE)
    assume "requests_doc (snd (approve_access hid now i s)) = requests_doc s"
    then show ?thesis by (rule lookup_same)
  next
    fix q assume "r_id q = i" and "requests_doc (snd (approve_access hid now i s)) =
         Some (Json (upsert r_id q (requests_of s)))"
    with assms show ?thesis by (simp add: lookup_doc requests.find_put lookup_loaded [OF ok])
  qed
qed

lemma step_calm:
  assumes "ea_step e s = Some t" and "not_approving i e" and "lookup s i = Some r"
  shows "\<exists>r'. lookup t i = Some r' \<and> calm r r'"
proof (cases "\<exists>hid now j. e = ApproveAccess hid now j")
  case True
  with assms show ?thesis by (auto simp: ea_step_def approve_other)
next
  case False
  with assms(1) have "evolves_by calm s t"
    by (cases e)
      (auto simp: ea_step_def split: if_splits
        intro!: designate_evolves remove_evolves request_evolves deny_evolves
          check_evolves active_evolves access_evolves revoke_evolves)
  with assms(3) show ?thesis by (simp add: evolves_by_def)
qed

interpretation ea: event_system ea_step "\<lambda>_. True" "evolves_by progress s0" for s0
  by unfold_locales (blast intro: evolves_trans [of progress] progress_trans step_progress)

interpretation waiting: event_system ea_step "not_approving i"
  "\<lambda>t. \<exists>r'. lookup t i = Some r' \<and> calm r r'" for i r
  by unfold_locales (blast intro: calm_trans dest: step_calm)

lemma access_needs_approval:
  assumes "lookup s i = Some r" and "r_status r \<noteq> Approved"
  shows "\<exists>e. fst (access_vault hid now i email s) = Inl e"
proof (cases rule: load_requests_cases [of s])
  case bad
  then show ?thesis
    by (simp add: access_vault_def throw_def on_throw_def with_request_def and_then_def)
next
  case ok
  with assms show ?thesis
    using lookup_loaded [OF ok, of i]
    by (simp add: access_vault_def throw_def on_throw_def with_request_def and_then_def)
qed

lemma start_progress: "evolves_by progress s s"
  by (rule evolves_same) simp_all

subsection \<open>Properties\<close>

text \<open>A concrete state for the witnesses: one active contact, one request of theirs.\<close>

definition demo_contact :: contact where
  "demo_contact = \<lparr>c_id = ''c1'', c_email = ''a@b'', c_name = ''A'', c_public = ''aa'',
     c_vault_key = ''beef'', c_designated = 0, c_status = Active\<rparr>"

definition demo_request :: "request_status \<Rightarrow> request" where
  "demo_request st = \<lparr>r_id = ''r1'', r_contact = ''c1'', r_email = ''a@b'', r_requested = 0,
     r_expires = 10, r_status = st, r_denied = None, r_accessed = None, r_reason = None\<rparr>"

definition demo_ea :: "request_status \<Rightarrow> ea" where
  "demo_ea st = \<lparr>ea_web = True, contacts_doc = Some (Json [demo_contact]),
     requests_doc = Some (Json [demo_request st]), history_doc = None, keypair = None,
     keypair_doc = None, directory_doc = None, ea_log = [], outbox = []\<rparr>"

lemma demo_lookup: "lookup (demo_ea st) ''r1'' = Some (demo_request st)"
  by (simp add: lookup_def requests_of_def demo_ea_def find_id_def demo_request_def)

text \<open>
  C8: The life of a request, over every history of calls: a request is never lost, its
  identity (contact, email, times, reason) never changes, its status moves only along the
  edges pending to anything, expired to anything but pending, approved to accessed or denied;
  in particular a denied or accessed request keeps its status for good.
\<close>
theorem request_life_cycle:
  assumes "reaches ea_step (\<lambda>_. True) s t" and "lookup s i = Some r"
  shows "\<exists>r'. lookup t i = Some r' \<and> same_request r r' \<and> may_become (r_status r) (r_status r') \<and>
     (r_status r \<in> {Denied, Accessed} \<longrightarrow> r_status r' = r_status r)"
proof -
  from ea.reaches_inv [OF assms(1) start_progress] assms(2)
  obtain r' where "lookup t i = Some r'" "progress r r'" by (auto simp: evolves_by_def)
  then show ?thesis by (auto simp: progress_def may_become_def)
qed

theorem request_life_cycle_witness:
  "\<exists>t r'. run ea_step [DenyAccess ''h'' 5 ''r1'', ApproveAccess ''h'' 6 ''r1''] (demo_ea RPending) = Some t \<and>
     run ea_step [ApproveAccess ''h'' 6 ''r1''] (demo_ea Denied) \<noteq> None \<and>
     lookup t ''r1'' = Some r' \<and> same_request (demo_request RPending) r' \<and> r_status r' = Denied"
proof -
  let ?es = "[DenyAccess ''h'' 5 ''r1'', ApproveAccess ''h'' 6 ''r1'']"
  obtain t where t: "run ea_step ?es (demo_ea RPending) = Some t"
    by (simp add: ea_step_def)
  have "map_option (\<lambda>t. map_option r_status (lookup t ''r1'')) (run ea_step ?es (demo_ea RPending)) =
      Some (Some Denied)" by code_simp
  with t have d: "map_option r_status (lookup t ''r1'') = Some Denied" by simp
  have "reaches ea_step (\<lambda>_. True) (demo_ea RPending) t"
    using t by (rule run_reaches) simp
  from request_life_cycle [OF this demo_lookup] d t show ?thesis
    by (auto simp: ea_step_def)
qed

text \<open>
  Waiting never grants access: from a request that is not approved, no history without an
  explicit approval of it, however long it lasts, makes it approved, and \<open>accessVault\<close>
  throws. (The automatic approval after 72 hours cannot happen: the same call marks the
  overdue request expired first.)
\<close>
theorem waiting_never_grants:
  assumes "reaches ea_step (not_approving i) s t" and "lookup s i = Some r"
    and "r_status r \<noteq> Approved"
  shows "(\<exists>r'. lookup t i = Some r' \<and> r_status r' \<noteq> Approved) \<and>
     (\<exists>e. fst (access_vault hid now i email t) = Inl e)"
proof -
  have "\<exists>r'. lookup s i = Some r' \<and> calm r r'" using assms(2) by simp
  from waiting.reaches_inv [OF assms(1) this] obtain r'
    where "lookup t i = Some r'" "calm r r'" by blast
  with assms(3) have "lookup t i = Some r' \<and> r_status r' \<noteq> Approved" by (auto simp: calm_def)
  with access_needs_approval show ?thesis by blast
qed

theorem waiting_never_grants_witness:
  "\<exists>t. run ea_step [CheckStatus ''h'' ''k'' 400000000 ''r1'', ActiveRequests 500000000] (demo_ea RPending) = Some t \<and>
     (\<exists>r'. lookup t ''r1'' = Some r' \<and> r_status r' \<noteq> Approved) \<and>
     (\<exists>e. fst (access_vault ''h'' 600000000 ''r1'' ''a@b'' t) = Inl e)"
proof -
  let ?es = "[CheckStatus ''h'' ''k'' 400000000 ''r1'', ActiveRequests 500000000]"
  obtain t where t: "run ea_step ?es (demo_ea RPending) = Some t"
    by (simp add: ea_step_def)
  then have "reaches ea_step (not_approving ''r1'') (demo_ea RPending) t"
    by (rule run_reaches) simp
  from waiting_never_grants [OF this demo_lookup] t show ?thesis by (auto simp: demo_request_def)
qed

definition contacts_of :: "ea \<Rightarrow> contact list" where
  "contacts_of s = (case contacts_doc s of Some (Json cs) \<Rightarrow> cs | _ \<Rightarrow> [])"

lemma after_InrD: "after ms a s = (Inr b, t) \<Longrightarrow> b = a \<and> t = snd (all_of ms s)"
  by (auto simp: after_def and_then_def ret_def split: prod.splits sum.splits)

lemma on_throw_InrD: "on_throw h m s = (Inr a, t) \<Longrightarrow> m s = (Inr a, t)"
  by (auto simp: on_throw_def split: prod.splits sum.splits)

lemma load_contactsD: "load_contacts s = (Inr cs, s') \<Longrightarrow> s' = s \<and> cs = contacts_of s"
  by (auto simp: load_contacts_def contacts_of_def split: option.splits stored.splits)

lemma with_requestD:
  assumes "with_request i f s = (Inr a, t)"
  obtains rs r where "load_requests s = (Inr rs, s)" and "find_id r_id i rs = Some r"
    and "f r s = (Inr a, t)"
proof (cases rule: load_requests_cases [of s])
  case bad
  with assms show ?thesis by (simp add: with_request_def and_then_def)
next
  case ok
  show ?thesis
  proof (cases "find_id r_id i (requests_of s)")
    case None
    with ok assms show ?thesis by (simp add: with_request_def and_then_def throw_def)
  next
    case (Some r)
    with ok assms show ?thesis by (intro that [OF ok Some]) (simp add: with_request_def and_then_def)
  qed
qed



text \<open>
  Emergency revocation: with contacts and requests readable and contact ids distinct, it
  leaves every contact revoked and no request pending or approved, and for every request that
  was, \<open>accessVault\<close> throws from then on, whatever is called in between.
\<close>
theorem revoke_all_cuts_access:
  assumes "load_contacts s = (Inr cs, s)" and "load_requests s = (Inr rs, s)"
    and "distinct (map c_id cs)" and "t = snd (revoke_all_access hid now s)"
  shows "list_all (\<lambda>c. c_status c = Revoked) (contacts_of t) \<and>
     list_all (\<lambda>r. r_status r \<notin> {RPending, Approved}) (requests_of t) \<and>
     (\<forall>i r u. lookup s i = Some r \<and> r_status r \<in> {RPending, Approved} \<and>
        reaches ea_step (\<lambda>_. True) t u \<longrightarrow>
        (\<forall>hid' now' email. \<exists>e. fst (access_vault hid' now' i email u) = Inl e))"
proof -
  define tl where "tl = [audit_ok ''emergency_all_access_revoked'' []] @
                 map (\<lambda>(n, r). add_history_entry \<lparr>h_id = hid n, h_request = r_id r,
                    h_email = r_email r, h_action = HDenied, h_time = now,
                    h_reason = Some ''Emergency revocation of all access''\<rparr>)
                  (enumerate 0 (filter (\<lambda>r. r_status r = Denied \<and> r_denied r = Some now)
                     (map (deny_open now) rs))) @
                 [sync_enqueue ''share'' [] :: unit ea_call]"
  let ?f = "\<lambda>c. c\<lparr>c_status := Revoked\<rparr>"
  let ?s1 = "s\<lparr>requests_doc := Some (Json (map (deny_open now) rs))\<rparr>"
  have step: "all_of (map persist_contact ys @ ms) u = all_of ms (if ys = [] then u else
      u\<lparr>contacts_doc := Some (Json (fold (upsert c_id) ys xs))\<rparr>)"
    if "load_contacts u = (Inr xs, u)" for ys ms u xs
    using that
  proof (induction ys arbitrary: u xs)
    case Nil
    then show ?case by simp
  next
    case (Cons y ys)
    let ?u = "u\<lparr>contacts_doc := Some (Json (upsert c_id y xs))\<rparr>"
    have "load_contacts ?u = (Inr (upsert c_id y xs), ?u)" by (simp add: load_contacts_def)
    from Cons.IH [OF this] Cons.prems show ?case
      by (simp add: persist_contact_def and_then_def modify_def)
  qed
  have l1: "load_contacts ?s1 = (Inr cs, ?s1)"
    using assms(1) by (auto simp: load_contacts_def split: option.splits stored.splits)
  have keep: "keeps (\<lambda>u. contacts_doc u = d \<and> requests_doc u = q) (all_of tl)" for d q
    unfolding tl_def add_history_entry_def
    by (intro keeps_intros)
      (auto simp: keeps_def audit_ok_def sync_enqueue_def modify_def and_then_def load_history_def
        split: option.splits stored.splits)
  have "t = snd (on_throw (audit_error ''revoke_all_access_failed'')
      (all_of ([persist_requests (map (deny_open now) rs)] @ map persist_contact (map ?f cs) @ tl)) s)"
    using assms(1,2)
    by (simp add: assms(4) revoke_all_access_def on_throw_def and_then_def tl_def Let_def del: all_of.simps)
  then have t: "t = snd (on_throw (audit_error ''revoke_all_access_failed'') (all_of tl)
      (if cs = [] then ?s1 else ?s1\<lparr>contacts_doc := Some (Json (fold (upsert c_id) (map ?f cs) cs))\<rparr>))"
    using step [OF l1, of "map ?f cs" tl]
    by (simp add: on_throw_def persist_requests_def and_then_def modify_def)
  have ot: "contacts_doc (snd (on_throw (audit_error w) m u)) = contacts_doc (snd (m u)) \<and>
      requests_doc (snd (on_throw (audit_error w) m u)) = requests_doc (snd (m u))"
    for w u and m :: "unit ea_call"
    by (simp add: on_throw_def audit_error_def split: prod.split sum.split)
  have docs: "requests_doc t = Some (Json (map (deny_open now) rs))"
    "contacts_doc t = (if cs = [] then contacts_doc s else
       Some (Json (fold (upsert c_id) (map ?f cs) cs)))"
    unfolding t using ot keepsD [OF keep] by auto
  have "c_status c = Revoked" if "c \<in> set (fold (upsert c_id) (map ?f cs) cs)" for c
    using contacts.rewrite_all [OF assms(3) _ _ that, of "\<lambda>c. c_status c = Revoked"] by simp
  moreover have "contacts_of t = (if cs = [] then [] else fold (upsert c_id) (map ?f cs) cs)"
    using docs(2) load_contactsD [OF assms(1)] by (simp add: contacts_of_def split: if_splits)
  ultimately have "list_all (\<lambda>c. c_status c = Revoked) (contacts_of t)"
    by (simp add: list_all_iff)
  moreover have "requests_of t = map (deny_open now) rs" using docs(1) by (simp add: requests_of_def)
  moreover have "list_all (\<lambda>r. r_status r \<notin> {RPending, Approved}) (map (deny_open now) rs)"
    by (auto simp: list_all_iff deny_open_def)
  moreover have "\<exists>e. fst (access_vault hid' now' i email u) = Inl e"
    if "lookup s i = Some r" "r_status r \<in> {RPending, Approved}" "reaches ea_step (\<lambda>_. True) t u"
    for i r u hid' now' email
  proof -
    have "find_id r_id i (map (deny_open now) rs) = map_option (deny_open now) (find_id r_id i rs)"
      by (induction rs) (simp_all add: find_id_def deny_open_def)
    with that(1) have "lookup t i = Some (deny_open now r)"
      by (simp add: lookup_doc [OF docs(1)] lookup_loaded [OF assms(2)])
    with ea.reaches_inv [OF that(3) start_progress] obtain r' where "lookup u i = Some r'"
      "progress (deny_open now r) r'" by (auto simp: evolves_by_def)
    moreover from this(2) that(2) have "r_status r' \<noteq> Approved"
      by (auto simp: progress_def may_become_def deny_open_def)
    ultimately show ?thesis using access_needs_approval by blast
  qed
  ultimately show ?thesis by auto
qed

theorem revoke_all_cuts_access_witness:
  "list_all (\<lambda>c. c_status c = Revoked) (contacts_of (snd (revoke_all_access (\<lambda>_. ''h'') 5 (demo_ea Approved)))) \<and>
   list_all (\<lambda>r. r_status r \<notin> {RPending, Approved})
     (requests_of (snd (revoke_all_access (\<lambda>_. ''h'') 5 (demo_ea Approved)))) \<and>
   (\<exists>e. fst (access_vault ''h'' 6 ''r1'' ''a@b'' (snd (revoke_all_access (\<lambda>_. ''h'') 5 (demo_ea Approved)))) = Inl e)"
proof -
  have "load_contacts (demo_ea Approved) = (Inr [demo_contact], demo_ea Approved)"
    and "load_requests (demo_ea Approved) = (Inr [demo_request Approved], demo_ea Approved)"
    by (simp_all add: load_contacts_def load_requests_def demo_ea_def)
  note rev = revoke_all_cuts_access [OF this _ HOL.refl, of "\<lambda>_. ''h''" 5]
  let ?t = "snd (revoke_all_access (\<lambda>_. ''h'') 5 (demo_ea Approved))"
  have "r_status (demo_request Approved) \<in> {RPending, Approved}" by (simp add: demo_request_def)
  with rev demo_lookup [of Approved] reaches_refl [of ea_step "\<lambda>_. True" ?t]
  have "\<exists>e. fst (access_vault ''h'' 6 ''r1'' ''a@b'' ?t) = Inl e" by (simp del: insert_iff)
  with rev show ?thesis by simp
qed

lemma ls_get_nil: "ls_get k [] = None"
  by (simp add: ls_get_def)

lemma keypair_total:
  "\<exists>kp t. get_or_create_keypair fresh s = (Inr kp, t) \<and> ea_web t = ea_web s"
  by (simp add: get_or_create_keypair_def split: option.split stored.split bool.split)

text \<open>
  The contact's key is the owner's: whatever the email and the directory held, a
  successful \<open>designateContact\<close> seals the vault key to the owner's own public key, stores it
  as the contact's, and on the web overwrites the contact's directory entry with it.
\<close>
theorem designation_seals_to_owner:
  assumes "designate_contact native fresh i now email name vk s = (Inr c, t)"
  shows "\<exists>pk sk plain pkb sealed. fst (get_or_create_keypair fresh s) = Inr (pk, sk) \<and>
     c_public c = pk \<and> c_status c = Active \<and> c_email c = email \<and>
     match_bytes vk = Some plain \<and> match_bytes pk = Some pkb \<and>
     seal_to_public_key native pkb plain = Some sealed \<and> c_vault_key c = bytes_to_hex sealed \<and>
     (ea_web s \<longrightarrow> get_public_key email t = Some pk)"
proof -
  obtain kp s1 where k: "get_or_create_keypair fresh s = (Inr kp, s1)" and w1: "ea_web s1 = ea_web s"
    using keypair_total [of fresh s] by blast
  define s2 where "s2 = (if \<not> ea_web s1 then s1
     else s1\<lparr>directory_doc := Some (Json (ls_set email (fst kp) (read_public_keys s1)))\<rparr>)"
  have reg: "register_public_key email (fst kp) s1 = (Inr (), s2)"
    by (simp add: register_public_key_def modify_def s2_def)
  have got: "(case get_public_key email s2 of Some k \<Rightarrow> k | None \<Rightarrow> fst kp) = fst kp"
    by (auto simp: s2_def get_public_key_def read_public_keys_def ls_get_set ls_get_nil split: option.splits list.splits)
  have ne: "email \<noteq> []" "name \<noteq> []" "vk \<noteq> []"
    using assms by (auto simp: designate_contact_def throw_def split: if_splits)
  define rest where "rest pk = (if pk = [] then throw (NoPublicKey email)
           else case (match_bytes vk, match_bytes pk) of
               (Some vkb, Some pkb) \<Rightarrow>
                 (case seal_to_public_key native pkb vkb of
                    None \<Rightarrow> throw SealFailed
                  | Some sealed \<Rightarrow>
                      (let c = \<lparr>c_id = i, c_email = email, c_name = name, c_public = pk,
                                c_vault_key = bytes_to_hex sealed, c_designated = now,
                                c_status = Active\<rparr>
                       in after [persist_contact c, audit_ok ''emergency_contact_designated'' i,
                                 sync_enqueue ''share'' [i, email, name, pk]] c))
             | _ \<Rightarrow> throw BadKeyText)" for pk
  have d: "designate_contact native fresh i now email name vk =
      on_throw (audit_error ''emergency_contact_error'')
        (and_then (get_or_create_keypair fresh) (\<lambda>kp.
         and_then (register_public_key email (fst kp)) (\<lambda>_.
         and_then (\<lambda>s. ret (case get_public_key email s of Some k \<Rightarrow> k | None \<Rightarrow> fst kp) s) rest)))"
    using ne by (simp add: designate_contact_def rest_def [abs_def])
  from assms [unfolded d] have "and_then (get_or_create_keypair fresh) (\<lambda>kp.
         and_then (register_public_key email (fst kp)) (\<lambda>_.
         and_then (\<lambda>s. ret (case get_public_key email s of Some k \<Rightarrow> k | None \<Rightarrow> fst kp) s) rest)) s = (Inr c, t)"
    by (rule on_throw_InrD)
  then have "rest (fst kp) s2 = (Inr c, t)"
    by (simp add: and_then_def k reg ret_def got split del: if_split)
  note body = this [unfolded rest_def]
  have m1: "fst kp \<noteq> []"
  proof
    assume "fst kp = []"
    with body show False by (simp add: throw_def)
  qed
  obtain vkb where m2: "match_bytes vk = Some vkb"
    using body m1 by (cases "match_bytes vk") (simp_all add: throw_def)
  obtain pkb where m3: "match_bytes (fst kp) = Some pkb"
    using body m1 m2 by (cases "match_bytes (fst kp)") (simp_all add: throw_def)
  obtain sealed where m4: "seal_to_public_key native pkb vkb = Some sealed"
    using body m1 m2 m3 by (cases "seal_to_public_key native pkb vkb") (simp_all add: throw_def)
  note m = m1 m2 m3 m4
  from body m have aft: "after [persist_contact \<lparr>c_id = i, c_email = email, c_name = name, c_public = fst kp,
                                c_vault_key = bytes_to_hex sealed, c_designated = now,
                                c_status = Active\<rparr>, audit_ok ''emergency_contact_designated'' i,
                sync_enqueue ''share'' [i, email, name, fst kp]]
               \<lparr>c_id = i, c_email = email, c_name = name, c_public = fst kp,
                c_vault_key = bytes_to_hex sealed, c_designated = now, c_status = Active\<rparr> s2 = (Inr c, t)"
    by (simp add: Let_def)
  note ct = after_InrD [OF aft]
  have keep: "keeps (\<lambda>u. directory_doc u = d \<and> ea_web u = w) (all_of [persist_contact x,
      audit_ok a b, sync_enqueue k p])" for d w x a b k p
    by (intro keeps_intros)
      (auto simp: persist_contact_def keeps_def audit_ok_def sync_enqueue_def modify_def and_then_def
        load_contacts_def split: option.splits stored.splits)
  have "directory_doc t = directory_doc s2 \<and> ea_web t = ea_web s2"
    unfolding conjunct2 [OF ct] by (rule keepsD [OF keep]) simp
  then have "get_public_key email t = get_public_key email s2"
    by (simp add: get_public_key_def read_public_keys_def)
  then have "ea_web s \<longrightarrow> get_public_key email t = Some (fst kp)"
    using w1 m(1) by (auto simp: s2_def get_public_key_def read_public_keys_def ls_get_set split: list.split)
  with k m ct show ?thesis by (cases kp) auto
qed

definition demo_owner :: string where
  "demo_owner = concat (replicate 32 ''ab'')"

theorem designation_seals_to_owner_witness:
  "\<exists>c t. designate_contact (\<lambda>pk p. Some (pk @ p)) (demo_owner, ''00'') ''c2'' 7 ''x@y'' ''X'' ''0102'' (demo_ea RPending) =
     (Inr c, t) \<and> c_public c = demo_owner \<and> get_public_key ''x@y'' t = Some demo_owner"
proof -
  let ?d = "designate_contact (\<lambda>pk p. Some (pk @ p)) (demo_owner, ''00'') ''c2'' 7 ''x@y'' ''X'' ''0102'' (demo_ea RPending)"
  have "(case fst ?d of Inr c \<Rightarrow> True | Inl e \<Rightarrow> False)" by code_simp
  then obtain c t where d: "?d = (Inr c, t)"
    by (cases ?d) (auto split: sum.splits)
  have "fst (get_or_create_keypair (demo_owner, ''00'') (demo_ea RPending)) = Inr (demo_owner, ''00'')"
    by (simp add: get_or_create_keypair_def demo_ea_def)
  moreover have "ea_web (demo_ea RPending)" by (simp add: demo_ea_def)
  ultimately show ?thesis using designation_seals_to_owner [OF d] d by auto
qed

end
