(* ===== verification/Settings_Storage.thy ===== *)
theory Settings_Storage
  imports Web_Storage
begin

text \<open>
  \<open>services/settingsStorage.ts\<close>: the security settings with their in-memory cache, the
  migration of older keys, and the UI settings. One \<open>localStorage\<close> holds texts and the JSON
  documents of the services that share it; \<open>settings_cell\<close> is what a slot parses to, and any
  slot of another kind stands for a text that does not parse as the wanted document. A
  \<open>Partial\<close> object is a patch record of options. Without \<open>localStorage\<close> (native) every access
  throws and is caught, which \<open>has_storage\<close> models.
\<close>

subsection \<open>Data\<close>

record security_settings =
  auto_lock_timeout_ms :: int
  auto_lock_enabled :: bool
  self_destruct_enabled :: bool
  self_destruct_attempts :: int
  biometric_enabled :: bool
  pin_enabled :: bool
  ghost_mode_enabled :: bool
  emergency_access_enabled :: bool
  emergency_access_contacts :: "string list"

record security_patch =
  p_timeout :: "int option"
  p_auto_lock :: "bool option"
  p_self_destruct :: "bool option"
  p_attempts :: "int option"
  p_biometric :: "bool option"
  p_pin :: "bool option"
  p_ghost :: "bool option"
  p_emergency :: "bool option"
  p_contacts :: "string list option"

record ui_settings =
  theme :: string
  language :: string
  sidebar_collapsed :: bool
  notifications_enabled :: bool

record ui_patch =
  p_theme :: "string option"
  p_language :: "string option"
  p_sidebar :: "bool option"
  p_notifications :: "bool option"

text \<open>The old settings document and the self-destruct document, as far as they are read.\<close>

record legacy_settings =
  l_timeout :: "int option"
  l_auto_lock :: "bool option"
  l_self_destruct :: "bool option"
  l_attempts :: "int option"
  l_biometric :: "bool option"
  l_ghost :: "bool option"

record self_destruct_doc =
  d_threshold :: "int option"
  d_email_enabled :: "bool option"
  d_email :: "string option"
  d_fail_count :: "nat option"
  d_armed :: "bool option"
  d_triggered :: "time option"

record failed_attempt =
  fa_id :: string
  fa_time :: time
  fa_agent :: "string option"

record pending_alert =
  pa_id :: string
  pa_reason :: string
  pa_time :: time
  pa_sent :: bool

datatype settings_cell =
    Plain string
  | SecurityDoc security_patch
  | UiDoc ui_patch
  | LegacyDoc legacy_settings
  | SelfDestructDoc self_destruct_doc
  | AttemptsDoc "failed_attempt list"
  | AlertsDoc "pending_alert list"

record settings =
  has_storage :: bool
  local :: "settings_cell local_storage"
  cache :: "security_settings option"

definition SECURITY_SETTINGS_KEY :: string where "SECURITY_SETTINGS_KEY = ''usbvault:security-settings''"
definition MIGRATION_KEY :: string where "MIGRATION_KEY = ''usbvault:settings-migrated''"
definition LEGACY_KEY :: string where "LEGACY_KEY = ''usbvault:settings''"
definition CONFIG_STORAGE_KEY :: string where "CONFIG_STORAGE_KEY = ''usbvault:self_destruct_config''"
definition UI_KEY :: string where "UI_KEY = ''usbvault:ui-settings''"

definition DEFAULT_SECURITY_SETTINGS :: security_settings where
  "DEFAULT_SECURITY_SETTINGS =
     \<lparr>auto_lock_timeout_ms = 5 * 60 * 1000, auto_lock_enabled = True,
      self_destruct_enabled = False, self_destruct_attempts = 10, biometric_enabled = False,
      pin_enabled = False, ghost_mode_enabled = False, emergency_access_enabled = False,
      emergency_access_contacts = []\<rparr>"

definition DEFAULT_UI_SETTINGS :: ui_settings where
  "DEFAULT_UI_SETTINGS = \<lparr>theme = ''dark'', language = ''en'', sidebar_collapsed = False,
     notifications_enabled = True\<rparr>"

text \<open>Object spread: a present field replaces the one before it.\<close>

definition spread :: "'a option \<Rightarrow> 'a \<Rightarrow> 'a" where
  "spread p old = (case p of None \<Rightarrow> old | Some v \<Rightarrow> v)"

lemma spread_simps [simp]: "spread None a = a" "spread (Some b) a = b"
  by (simp_all add: spread_def)

definition merge_security :: "security_settings \<Rightarrow> security_patch \<Rightarrow> security_settings" where
  "merge_security s p =
     \<lparr>auto_lock_timeout_ms = spread (p_timeout p) (auto_lock_timeout_ms s),
      auto_lock_enabled = spread (p_auto_lock p) (auto_lock_enabled s),
      self_destruct_enabled = spread (p_self_destruct p) (self_destruct_enabled s),
      self_destruct_attempts = spread (p_attempts p) (self_destruct_attempts s),
      biometric_enabled = spread (p_biometric p) (biometric_enabled s),
      pin_enabled = spread (p_pin p) (pin_enabled s),
      ghost_mode_enabled = spread (p_ghost p) (ghost_mode_enabled s),
      emergency_access_enabled = spread (p_emergency p) (emergency_access_enabled s),
      emergency_access_contacts = spread (p_contacts p) (emergency_access_contacts s)\<rparr>"

definition full_patch :: "security_settings \<Rightarrow> security_patch" where
  "full_patch s =
     \<lparr>p_timeout = Some (auto_lock_timeout_ms s), p_auto_lock = Some (auto_lock_enabled s),
      p_self_destruct = Some (self_destruct_enabled s), p_attempts = Some (self_destruct_attempts s),
      p_biometric = Some (biometric_enabled s), p_pin = Some (pin_enabled s),
      p_ghost = Some (ghost_mode_enabled s), p_emergency = Some (emergency_access_enabled s),
      p_contacts = Some (emergency_access_contacts s)\<rparr>"

definition empty_patch :: security_patch where
  "empty_patch = \<lparr>p_timeout = None, p_auto_lock = None, p_self_destruct = None, p_attempts = None,
     p_biometric = None, p_pin = None, p_ghost = None, p_emergency = None, p_contacts = None\<rparr>"

lemma merge_full [simp]: "merge_security t (full_patch s) = s"
  by (simp add: merge_security_def full_patch_def)

subsection \<open>Security settings\<close>

definition store_cell :: "string \<Rightarrow> settings_cell \<Rightarrow> settings \<Rightarrow> settings" where
  "store_cell k c m = (if has_storage m then m\<lparr>local := ls_set k c (local m)\<rparr> else m)"

definition read_cell :: "string \<Rightarrow> settings \<Rightarrow> settings_cell option" where
  "read_cell k m = (if has_storage m then ls_get k (local m) else None)"

definition load_security :: "settings \<Rightarrow> security_settings \<times> settings" where
  "load_security m =
     (case cache m of
        Some s \<Rightarrow> (s, m)
      | None \<Rightarrow>
          (case read_cell SECURITY_SETTINGS_KEY m of
             Some (SecurityDoc p) \<Rightarrow>
               (let s = merge_security DEFAULT_SECURITY_SETTINGS p in (s, m\<lparr>cache := Some s\<rparr>))
           | _ \<Rightarrow> (DEFAULT_SECURITY_SETTINGS, m)))"

definition save_security :: "security_patch \<Rightarrow> settings \<Rightarrow> settings" where
  "save_security p m =
     (let (current, m1) = load_security m; merged = merge_security current p
      in store_cell SECURITY_SETTINGS_KEY (SecurityDoc (full_patch merged)) (m1\<lparr>cache := Some merged\<rparr>))"

definition clear_cache :: "settings \<Rightarrow> settings" where
  "clear_cache m = m\<lparr>cache := None\<rparr>"

definition needs_migration :: "settings \<Rightarrow> bool" where
  "needs_migration m = (has_storage m \<and> read_cell MIGRATION_KEY m \<noteq> Some (Plain ''true''))"

definition or_else :: "'a option \<Rightarrow> 'a option \<Rightarrow> 'a option" where
  "or_else a b = (case a of None \<Rightarrow> b | Some v \<Rightarrow> Some v)"

text \<open>A slot that is set (and not empty) but is not the wanted document fails to parse.\<close>

definition migrate_from_legacy :: "settings \<Rightarrow> settings" where
  "migrate_from_legacy m =
     (let mark = store_cell MIGRATION_KEY (Plain ''true'');
          old = (case read_cell LEGACY_KEY m of
              None \<Rightarrow> Some empty_patch
            | Some (Plain []) \<Rightarrow> Some empty_patch
            | Some (LegacyDoc l) \<Rightarrow> Some (empty_patch\<lparr>p_timeout := l_timeout l, p_auto_lock := l_auto_lock l,
                p_self_destruct := l_self_destruct l, p_attempts := l_attempts l,
                p_biometric := l_biometric l, p_ghost := l_ghost l\<rparr>)
            | Some _ \<Rightarrow> None);
          migrated = (case (old, read_cell CONFIG_STORAGE_KEY m) of
              (None, _) \<Rightarrow> None
            | (Some p, None) \<Rightarrow> Some p
            | (Some p, Some (Plain [])) \<Rightarrow> Some p
            | (Some p, Some (SelfDestructDoc d)) \<Rightarrow>
                Some (p\<lparr>p_self_destruct := or_else (d_armed d) (p_self_destruct p),
                        p_attempts := or_else (d_threshold d) (p_attempts p)\<rparr>)
            | (Some p, Some _) \<Rightarrow> None)
      in case migrated of
           None \<Rightarrow> mark m
         | Some p \<Rightarrow> mark (if p \<noteq> empty_patch then save_security p m else m))"

subsection \<open>UI settings\<close>

definition merge_ui :: "ui_settings \<Rightarrow> ui_patch \<Rightarrow> ui_settings" where
  "merge_ui s p = \<lparr>theme = spread (p_theme p) (theme s), language = spread (p_language p) (language s),
     sidebar_collapsed = spread (p_sidebar p) (sidebar_collapsed s),
     notifications_enabled = spread (p_notifications p) (notifications_enabled s)\<rparr>"

definition load_ui :: "settings \<Rightarrow> ui_settings" where
  "load_ui m = (case read_cell UI_KEY m of
     Some (UiDoc p) \<Rightarrow> merge_ui DEFAULT_UI_SETTINGS p | _ \<Rightarrow> DEFAULT_UI_SETTINGS)"

definition save_ui :: "ui_patch \<Rightarrow> settings \<Rightarrow> settings" where
  "save_ui p m = (let s = merge_ui (load_ui m) p in
     store_cell UI_KEY (UiDoc \<lparr>p_theme = Some (theme s), p_language = Some (language s),
       p_sidebar = Some (sidebar_collapsed s), p_notifications = Some (notifications_enabled s)\<rparr>) m)"

subsection \<open>Facts\<close>

lemma read_store [simp]:
  "has_storage m \<Longrightarrow> read_cell k (store_cell k' c m) = (if k = k' then Some c else read_cell k m)"
  by (simp add: read_cell_def store_cell_def ls_get_set)

lemma store_simps [simp]:
  "has_storage (store_cell k c m) = has_storage m" "cache (store_cell k c m) = cache m"
  "local (store_cell k c m) = (if has_storage m then ls_set k c (local m) else local m)"
  by (simp_all add: store_cell_def)

lemma load_frame [simp]:
  "has_storage (snd (load_security m)) = has_storage m" "local (snd (load_security m)) = local m"
  by (simp_all add: load_security_def Let_def split: option.split settings_cell.split)

text \<open>The settings are a persistent cell: loading twice agrees, and a full save is read back.\<close>

interpretation security: persistent_cell "\<lambda>_ :: unit. load_security" "\<lambda>_ s. save_security (full_patch s)"
  by unfold_locales
    (auto simp: load_security_def save_security_def Let_def split_beta
      split: option.splits settings_cell.splits)

lemma save_security_view:
  "fst (load_security (save_security p m)) = merge_security (fst (load_security m)) p \<and>
   cache (save_security p m) = Some (merge_security (fst (load_security m)) p)"
  by (simp add: save_security_def load_security_def [of "store_cell _ _ _"] split_beta Let_def)

lemma save_security_local:
  "has_storage m \<Longrightarrow> local (save_security p m) = ls_set SECURITY_SETTINGS_KEY
     (SecurityDoc (full_patch (merge_security (fst (load_security m)) p))) (local m)"
  by (simp add: save_security_def split_beta Let_def)

lemma save_security_storage [simp]: "has_storage (save_security p m) = has_storage m"
  by (simp add: save_security_def split_beta Let_def)

text \<open>What is saved survives the loss of the cache.\<close>

lemma save_survives_clear:
  assumes "has_storage m"
  shows "fst (load_security (clear_cache (save_security p m))) = merge_security (fst (load_security m)) p"
proof -
  have "read_cell SECURITY_SETTINGS_KEY (clear_cache (save_security p m)) =
      Some (SecurityDoc (full_patch (merge_security (fst (load_security m)) p)))"
    using assms by (simp add: read_cell_def clear_cache_def save_security_local ls_get_set)
  then show ?thesis by (simp add: load_security_def clear_cache_def Let_def)
qed

end
