(* ===== verification/Auto_Lock.thy ===== *)
theory Auto_Lock
  imports Settings_Storage Event_System
begin

text \<open>
  \<open>services/security/autoLock.ts\<close>: locking after inactivity. The state is the service's fields
  (the timer as the time at which it is due) and the settings it persists to; \<open>locks\<close> records
  the calls of the lock callback. The web and the native listener do the same on hiding
  (\<open>Hide\<close>: tab hidden, app in background or inactive) and showing (\<open>Show\<close>); they exist only
  between \<open>start\<close> and \<open>stop\<close>. A timer never fires early but may fire late.
\<close>

record auto_lock_config =
  al_enabled :: bool
  timeout_minutes :: int

record auto_lock =
  timer :: "time option"
  background_timestamp :: "time option"
  config :: auto_lock_config
  on_lock :: bool
  listener :: bool
  started :: bool
  al_settings :: settings
  locks :: "time list"

definition timeout_ms :: "auto_lock \<Rightarrow> int" where
  "timeout_ms s = timeout_minutes (config s) * 60 * 1000"

definition load_persisted_config :: "settings \<Rightarrow> auto_lock_config \<times> settings" where
  "load_persisted_config m =
     (let (stored, m') = load_security m in
      (\<lparr>al_enabled = auto_lock_enabled stored,
        timeout_minutes = js_round (of_int (auto_lock_timeout_ms stored) / 60000)\<rparr>, m'))"

definition new_auto_lock :: "settings \<Rightarrow> auto_lock" where
  "new_auto_lock m =
     (let (c, m') = load_persisted_config m in
      \<lparr>timer = None, background_timestamp = None, config = c, on_lock = False, listener = False,
       started = False, al_settings = m', locks = []\<rparr>)"

definition clear_timer :: "auto_lock \<Rightarrow> auto_lock" where
  "clear_timer s = s\<lparr>timer := None\<rparr>"

definition start_timer :: "time \<Rightarrow> auto_lock \<Rightarrow> auto_lock" where
  "start_timer now s = (clear_timer s)\<lparr>timer := Some (now + timeout_ms s)\<rparr>"

definition trigger_lock :: "time \<Rightarrow> auto_lock \<Rightarrow> auto_lock" where
  "trigger_lock now s =
     (let s' = (clear_timer s)\<lparr>background_timestamp := None\<rparr> in
      if on_lock s' then s'\<lparr>locks := locks s' @ [now]\<rparr> else s')"

definition start_auto_lock :: "auto_lock \<Rightarrow> auto_lock" where
  "start_auto_lock s =
     (if started s then s else s\<lparr>started := True, on_lock := True, listener := True\<rparr>)"

definition stop_auto_lock :: "auto_lock \<Rightarrow> auto_lock" where
  "stop_auto_lock s = (clear_timer (s\<lparr>started := False, on_lock := False\<rparr>))\<lparr>listener := False\<rparr>"

definition record_activity :: "auto_lock \<Rightarrow> auto_lock" where
  "record_activity s = s\<lparr>background_timestamp := None\<rparr>"

text \<open>A time stamp of 0 counts as none.\<close>

definition check_lock :: "time \<Rightarrow> auto_lock \<Rightarrow> bool" where
  "check_lock now s =
     (al_enabled (config s) \<and>
      (case background_timestamp s of
         None \<Rightarrow> False
       | Some b \<Rightarrow> b \<noteq> 0 \<and> now - b \<ge> timeout_ms s))"

definition set_config :: "bool option \<Rightarrow> int option \<Rightarrow> auto_lock \<Rightarrow> auto_lock" where
  "set_config en minutes s =
     (let c = \<lparr>al_enabled = spread en (al_enabled (config s)),
               timeout_minutes = spread minutes (timeout_minutes (config s))\<rparr>;
          s1 = s\<lparr>config := c, al_settings := save_security
            (empty_patch\<lparr>p_auto_lock := Some (al_enabled c),
              p_timeout := Some (timeout_minutes c * 60 * 1000)\<rparr>) (al_settings s)\<rparr>
      in if \<not> al_enabled c then clear_timer s1 else s1)"

definition handle_hidden :: "time \<Rightarrow> auto_lock \<Rightarrow> auto_lock" where
  "handle_hidden now s =
     (if \<not> al_enabled (config s) then s
      else start_timer now (s\<lparr>background_timestamp := Some now\<rparr>))"

definition handle_visible :: "time \<Rightarrow> auto_lock \<Rightarrow> auto_lock" where
  "handle_visible now s =
     (if \<not> al_enabled (config s) then s
      else if check_lock now s then trigger_lock now s
      else (clear_timer s)\<lparr>background_timestamp := None\<rparr>)"

datatype lock_event =
    Start | Stop | Activity | Config "bool option" "int option" | Hide time | Show time | Fire time

definition lock_step :: "lock_event \<Rightarrow> auto_lock \<Rightarrow> auto_lock option" where
  "lock_step e s =
     (case e of
        Start \<Rightarrow> Some (start_auto_lock s)
      | Stop \<Rightarrow> Some (stop_auto_lock s)
      | Activity \<Rightarrow> Some (record_activity s)
      | Config en minutes \<Rightarrow> Some (set_config en minutes s)
      | Hide now \<Rightarrow> (if listener s then Some (handle_hidden now s) else None)
      | Show now \<Rightarrow> (if listener s then Some (handle_visible now s) else None)
      | Fire now \<Rightarrow> (case timer s of
            Some due \<Rightarrow> if due \<le> now then Some (trigger_lock now s) else None
          | None \<Rightarrow> None))"

lemmas lock_defs = lock_step_def start_auto_lock_def stop_auto_lock_def record_activity_def
  set_config_def handle_hidden_def handle_visible_def trigger_lock_def start_timer_def
  clear_timer_def check_lock_def timeout_ms_def Let_def

text \<open>Events that neither enable the service nor give it a new timeout.\<close>

fun not_enabling :: "lock_event \<Rightarrow> bool" where
  "not_enabling (Config en minutes) = (en \<noteq> Some True)"
| "not_enabling _ = True"

definition disarmed :: "time list \<Rightarrow> auto_lock \<Rightarrow> bool" where
  "disarmed ts s = (\<not> al_enabled (config s) \<and> timer s = None \<and> locks s = ts)"

interpretation off: event_system lock_step not_enabling "disarmed ts" for ts
proof unfold_locales
  fix s e t assume "disarmed ts s" "not_enabling e" "lock_step e s = Some t"
  then show "disarmed ts t"
    by (cases e) (auto simp: lock_defs disarmed_def spread_def split: if_splits option.splits)
qed

text \<open>Without the callback (stopped), nothing locks until the next start.\<close>

fun not_starting :: "lock_event \<Rightarrow> bool" where
  "not_starting Start = False"
| "not_starting _ = True"

definition silent :: "time list \<Rightarrow> auto_lock \<Rightarrow> bool" where
  "silent ts s = (\<not> on_lock s \<and> \<not> listener s \<and> timer s = None \<and> locks s = ts)"

interpretation stopped: event_system lock_step not_starting "silent ts" for ts
proof unfold_locales
  fix s e t assume "silent ts s" "not_starting e" "lock_step e s = Some t"
  then show "silent ts t"
    by (cases e) (auto simp: lock_defs silent_def split: if_splits option.splits)
qed

subsection \<open>Properties\<close>

text \<open>
  The lock condition: for a started, enabled service hidden at \<open>t0\<close> (a positive time) and
  shown at \<open>t1\<close>, the callback runs at \<open>t1\<close> iff at least the timeout has passed, and no timer
  is left either way; while hidden, the timer can fire at \<open>t\<close> iff the timeout has passed by
  then, and locks at \<open>t\<close>; after that, showing the app does not lock again.
\<close>
theorem lock_iff_timeout:
  assumes "listener s" and "on_lock s" and "al_enabled (config s)" and "0 < t0"
  shows "\<exists>u. run lock_step [Hide t0, Show t1] s = Some u \<and> timer u = None \<and>
     background_timestamp u = None \<and>
     locks u = (if t1 - t0 \<ge> timeout_ms s then locks s @ [t1] else locks s) \<and>
     (run lock_step [Hide t0, Fire t] s \<noteq> None \<longleftrightarrow> t0 + timeout_ms s \<le> t) \<and>
     (t0 + timeout_ms s \<le> t \<longrightarrow>
        map_option locks (run lock_step [Hide t0, Fire t, Show t1] s) = Some (locks s @ [t]))"
  using assms by (auto simp: lock_defs)

definition demo_lock :: "bool \<Rightarrow> auto_lock" where
  "demo_lock en = \<lparr>timer = None, background_timestamp = None,
     config = \<lparr>al_enabled = en, timeout_minutes = 5\<rparr>, on_lock = True, listener = True, started = True,
     al_settings = \<lparr>has_storage = True, local = [], cache = None\<rparr>, locks = []\<rparr>"

theorem lock_iff_timeout_witness:
  "map_option locks (run lock_step [Hide 1000, Show 301000] (demo_lock True)) = Some [301000] \<and>
   run lock_step [Hide 1000, Fire 300999] (demo_lock True) = None"
proof -
  have d: "listener (demo_lock True)" "on_lock (demo_lock True)" "al_enabled (config (demo_lock True))"
    "timeout_ms (demo_lock True) = 300000" "locks (demo_lock True) = []"
    by (simp_all add: demo_lock_def timeout_ms_def)
  have "(0::time) < 1000" by simp
  from lock_iff_timeout [OF d(1-3) this, of 301000 300999] d(4,5)
  show ?thesis by (auto simp del: run.simps)
qed

text \<open>
  Switched off means off: from a disabled service without a timer (which \<open>setConfig\<close> with
  \<open>enabled: false\<close> leaves), no history that does not enable it runs the callback; the same holds
  after \<open>stop()\<close> for every history that does not start it again; and the switch survives: a new
  service that loses the settings cache reads it back from storage.
\<close>
theorem off_never_locks:
  assumes "has_storage (al_settings s)"
  shows "(\<forall>t. reaches lock_step not_enabling (set_config (Some False) minutes s) t \<longrightarrow> locks t = locks s) \<and>
     (\<forall>t. reaches lock_step not_starting (stop_auto_lock s) t \<longrightarrow> locks t = locks s) \<and>
     \<not> al_enabled (config (new_auto_lock (clear_cache (al_settings (set_config (Some False) minutes s)))))"
proof (intro conjI allI impI)
  fix t assume "reaches lock_step not_enabling (set_config (Some False) minutes s) t"
  moreover have "disarmed (locks s) (set_config (Some False) minutes s)"
    by (simp add: disarmed_def lock_defs)
  ultimately have "disarmed (locks s) t" by (rule off.reaches_inv)
  then show "locks t = locks s" by (simp add: disarmed_def)
next
  fix t assume "reaches lock_step not_starting (stop_auto_lock s) t"
  moreover have "silent (locks s) (stop_auto_lock s)"
    by (simp add: silent_def lock_defs)
  ultimately have "silent (locks s) t" by (rule stopped.reaches_inv)
  then show "locks t = locks s" by (simp add: silent_def)
next
  show "\<not> al_enabled (config (new_auto_lock (clear_cache (al_settings (set_config (Some False) minutes s)))))"
    using save_survives_clear [OF assms]
    by (simp add: new_auto_lock_def load_persisted_config_def split_beta set_config_def Let_def
        clear_timer_def merge_security_def)
qed

theorem off_never_locks_witness:
  "map_option locks (run lock_step [Hide 5, Show 900000000] (set_config (Some False) None (demo_lock True))) = Some []"
proof -
  let ?s = "set_config (Some False) None (demo_lock True)"
  obtain t where t: "run lock_step [Hide 5, Show 900000000] ?s = Some t"
    by (simp add: lock_defs demo_lock_def)
  then have "reaches lock_step not_enabling ?s t" by (rule run_reaches) simp
  moreover have "has_storage (al_settings (demo_lock True))" "locks (demo_lock True) = []"
    by (simp_all add: demo_lock_def)
  ultimately have "locks t = []" using off_never_locks [of "demo_lock True" None] by auto
  with t show ?thesis by simp
qed

end
