(* ===== verification/Self_Destruct.thy ===== *)
theory Self_Destruct
  imports Settings_Storage
begin

text \<open>
  \<open>services/security/selfDestructService.ts\<close>: the failure threshold and the wipe. Policy fields
  come from the security settings, the others from the service's own document. \<open>DEFAULT_CONFIG\<close>
  is a shared mutable object: where \<open>readConfig\<close> returns it (native, or a document that does not
  parse), an assignment to the configuration changes the default itself, so it is part of the
  state and \<open>read_config\<close> says whether the object returned is the shared one.
\<close>

subsection \<open>Data\<close>

record self_destruct_config =
  fail_threshold :: int
  email_alert_enabled :: bool
  alert_email :: string
  current_fail_count :: nat
  is_armed :: bool
  last_triggered_at :: "time option"

datatype sd_audit =
    PolicyUpdate | ConfigArmed | ConfigDisarmed | FailedLogin nat | FailCountReset
  | Destroyed | AlertQueued string

record sd =
  is_web :: bool
  settings_of :: settings
  default_config :: self_destruct_config
  sd_log :: "sd_audit list"

definition FAIL_ATTEMPTS_STORAGE_KEY :: string where
  "FAIL_ATTEMPTS_STORAGE_KEY = ''usbvault:fail_attempts''"
definition PENDING_ALERTS_STORAGE_KEY :: string where
  "PENDING_ALERTS_STORAGE_KEY = ''usbvault:self_destruct_pending_alerts''"
definition MAX_FAIL_HISTORY :: nat where "MAX_FAIL_HISTORY = 20"

definition DEFAULT_CONFIG :: self_destruct_config where
  "DEFAULT_CONFIG = \<lparr>fail_threshold = 5, email_alert_enabled = False, alert_email = [],
     current_fail_count = 0, is_armed = False, last_triggered_at = None\<rparr>"

subsection \<open>Storage\<close>

definition merge_config :: "self_destruct_config \<Rightarrow> self_destruct_doc \<Rightarrow> self_destruct_config" where
  "merge_config c d =
     \<lparr>fail_threshold = spread (d_threshold d) (fail_threshold c),
      email_alert_enabled = spread (d_email_enabled d) (email_alert_enabled c),
      alert_email = spread (d_email d) (alert_email c),
      current_fail_count = spread (d_fail_count d) (current_fail_count c),
      is_armed = spread (d_armed d) (is_armed c),
      last_triggered_at = (case d_triggered d of None \<Rightarrow> last_triggered_at c | Some t \<Rightarrow> Some t)\<rparr>"

definition config_doc :: "self_destruct_config \<Rightarrow> self_destruct_doc" where
  "config_doc c =
     \<lparr>d_threshold = Some (fail_threshold c), d_email_enabled = Some (email_alert_enabled c),
      d_email = Some (alert_email c), d_fail_count = Some (current_fail_count c),
      d_armed = Some (is_armed c), d_triggered = last_triggered_at c\<rparr>"

definition overlay_policy :: "self_destruct_config \<Rightarrow> sd \<Rightarrow> self_destruct_config \<times> bool \<times> sd" where
  "overlay_policy stored s =
     (let (sec, m) = load_security (settings_of s) in
      (stored\<lparr>is_armed := self_destruct_enabled sec, fail_threshold := self_destruct_attempts sec\<rparr>,
       False, s\<lparr>settings_of := m\<rparr>))"

definition read_config :: "sd \<Rightarrow> self_destruct_config \<times> bool \<times> sd" where
  "read_config s =
     (if \<not> is_web s then (default_config s, True, s)
      else case read_cell CONFIG_STORAGE_KEY (settings_of s) of
          None \<Rightarrow> overlay_policy (default_config s) s
        | Some (Plain []) \<Rightarrow> overlay_policy (default_config s) s
        | Some (SelfDestructDoc d) \<Rightarrow> overlay_policy (merge_config (default_config s) d) s
        | Some _ \<Rightarrow> (default_config s, True, s))"

text \<open>Assignments to the object \<open>readConfig\<close> returned.\<close>

definition assign :: "bool \<Rightarrow> self_destruct_config \<Rightarrow> sd \<Rightarrow> sd" where
  "assign shared c s = (if shared then s\<lparr>default_config := c\<rparr> else s)"

definition write_config :: "self_destruct_config \<Rightarrow> sd \<Rightarrow> sd" where
  "write_config c s =
     (if \<not> is_web s then s
      else s\<lparr>settings_of := save_security
          (empty_patch\<lparr>p_self_destruct := Some (is_armed c), p_attempts := Some (fail_threshold c)\<rparr>)
          (store_cell CONFIG_STORAGE_KEY (SelfDestructDoc (config_doc c)) (settings_of s))\<rparr>)"

definition read_fail_attempts :: "sd \<Rightarrow> failed_attempt list" where
  "read_fail_attempts s = (if \<not> is_web s then [] else
     case read_cell FAIL_ATTEMPTS_STORAGE_KEY (settings_of s) of Some (AttemptsDoc xs) \<Rightarrow> xs | _ \<Rightarrow> [])"

definition write_fail_attempts :: "failed_attempt list \<Rightarrow> sd \<Rightarrow> sd" where
  "write_fail_attempts xs s = (if \<not> is_web s then s else
     s\<lparr>settings_of := store_cell FAIL_ATTEMPTS_STORAGE_KEY
       (AttemptsDoc (last_n MAX_FAIL_HISTORY xs)) (settings_of s)\<rparr>)"

definition read_pending_alerts :: "sd \<Rightarrow> pending_alert list" where
  "read_pending_alerts s = (if \<not> is_web s then [] else
     case read_cell PENDING_ALERTS_STORAGE_KEY (settings_of s) of Some (AlertsDoc xs) \<Rightarrow> xs | _ \<Rightarrow> [])"

definition write_pending_alerts :: "pending_alert list \<Rightarrow> sd \<Rightarrow> sd" where
  "write_pending_alerts xs s = (if \<not> is_web s then s else
     s\<lparr>settings_of := store_cell PENDING_ALERTS_STORAGE_KEY (AlertsDoc xs) (settings_of s)\<rparr>)"

definition sd_audit_log :: "sd_audit \<Rightarrow> sd \<Rightarrow> sd" where
  "sd_audit_log e s = s\<lparr>sd_log := sd_log s @ [e]\<rparr>"

subsection \<open>Operations\<close>

record config_patch =
  c_threshold :: "int option"
  c_email_enabled :: "bool option"
  c_email :: "string option"
  c_fail_count :: "nat option"
  c_armed :: "bool option"
  c_triggered :: "time option"

definition patch_config :: "self_destruct_config \<Rightarrow> config_patch \<Rightarrow> self_destruct_config" where
  "patch_config c p = merge_config c
     \<lparr>d_threshold = c_threshold p, d_email_enabled = c_email_enabled p, d_email = c_email p,
      d_fail_count = c_fail_count p, d_armed = c_armed p, d_triggered = c_triggered p\<rparr>"

definition get_config :: "sd \<Rightarrow> self_destruct_config \<times> sd" where
  "get_config s = (let (c, shared, s1) = read_config s in (c, s1))"

definition update_config :: "config_patch \<Rightarrow> sd \<Rightarrow> sd" where
  "update_config p s =
     (let (current, shared, s1) = read_config s;
          u = patch_config current p;
          u1 = (if fail_threshold u < 3 then u\<lparr>fail_threshold := 3\<rparr> else u);
          u2 = (if fail_threshold u1 > 10 then u1\<lparr>fail_threshold := 10\<rparr> else u1)
      in sd_audit_log PolicyUpdate (write_config u2 s1))"

definition send_alert :: "string \<Rightarrow> time \<Rightarrow> string \<Rightarrow> sd \<Rightarrow> sd" where
  "send_alert i now reason s =
     sd_audit_log (AlertQueued reason) (write_pending_alerts
       (read_pending_alerts s @ [\<lparr>pa_id = i, pa_reason = reason, pa_time = now, pa_sent = False\<rparr>]) s)"

definition wipe_vault_keys :: "settings \<Rightarrow> settings" where
  "wipe_vault_keys m =
     m\<lparr>local := fold ls_remove (filter (starts_with ''usbvault:'') (ls_keys (local m))) (local m)\<rparr>"

definition trigger_self_destruct :: "string \<Rightarrow> time \<Rightarrow> sd \<Rightarrow> sd" where
  "trigger_self_destruct alert_id now s =
     (if \<not> is_web s then s
      else let s1 = s\<lparr>settings_of := wipe_vault_keys (settings_of s)\<rparr>;
               (c, shared, s2) = read_config s1;
               c' = c\<lparr>last_triggered_at := Some now\<rparr>;
               s3 = sd_audit_log Destroyed (write_config c' (assign shared c' s2))
        in if email_alert_enabled c' \<and> alert_email c' \<noteq> []
           then send_alert alert_id now ''self_destruct_triggered'' s3 else s3)"

definition record_failed_attempt :: "failed_attempt \<Rightarrow> string \<Rightarrow> sd \<Rightarrow> bool \<times> sd" where
  "record_failed_attempt a alert_id s =
     (let (c, shared, s1) = read_config s;
          attempts = read_fail_attempts s1 @ [a];
          s2 = write_fail_attempts attempts s1;
          c' = c\<lparr>current_fail_count := length attempts\<rparr>;
          s3 = write_config c' (assign shared c' s2);
          s4 = sd_audit_log (FailedLogin (length attempts)) s3;
          reached = (int (length attempts) \<ge> fail_threshold c' \<and> is_armed c')
      in (reached, if reached then trigger_self_destruct alert_id (fa_time a) s4 else s4))"

definition reset_fail_count :: "sd \<Rightarrow> sd" where
  "reset_fail_count s =
     (let (c, shared, s1) = read_config s; c' = c\<lparr>current_fail_count := 0\<rparr>
      in sd_audit_log FailCountReset (write_fail_attempts [] (write_config c' (assign shared c' s1))))"

definition set_armed :: "bool \<Rightarrow> sd \<Rightarrow> sd" where
  "set_armed b s =
     (let (c, shared, s1) = read_config s; c' = c\<lparr>is_armed := b\<rparr>
      in sd_audit_log (if b then ConfigArmed else ConfigDisarmed) (write_config c' (assign shared c' s1)))"

definition arm_self_destruct :: "sd \<Rightarrow> sd" where "arm_self_destruct = set_armed True"
definition disarm_self_destruct :: "sd \<Rightarrow> sd" where "disarm_self_destruct = set_armed False"

definition get_fail_history :: "sd \<Rightarrow> failed_attempt list" where
  "get_fail_history s = read_fail_attempts s"

definition get_pending_alerts :: "sd \<Rightarrow> pending_alert list" where
  "get_pending_alerts s = read_pending_alerts s"

definition mark_alert_sent :: "string \<Rightarrow> sd \<Rightarrow> sd" where
  "mark_alert_sent i s =
     (let alerts = read_pending_alerts s in
      case find_index (\<lambda>a. pa_id a = i) alerts of
        None \<Rightarrow> s
      | Some k \<Rightarrow> write_pending_alerts (alerts[k := (alerts ! k)\<lparr>pa_sent := True\<rparr>]) s)"

subsection \<open>Facts\<close>

lemmas sd_keys = CONFIG_STORAGE_KEY_def SECURITY_SETTINGS_KEY_def FAIL_ATTEMPTS_STORAGE_KEY_def
  PENDING_ALERTS_STORAGE_KEY_def

text \<open>The invariant of a page: on the web, with storage, documents of their own kind.\<close>

definition web_ready :: "sd \<Rightarrow> bool" where
  "web_ready s = (is_web s \<and> has_storage (settings_of s) \<and>
     (case read_cell CONFIG_STORAGE_KEY (settings_of s) of
        None \<Rightarrow> True | Some (SelfDestructDoc _) \<Rightarrow> True | Some _ \<Rightarrow> False))"

definition policy :: "sd \<Rightarrow> bool \<times> int" where
  "policy s = (let sec = fst (load_security (settings_of s)) in
     (self_destruct_enabled sec, self_destruct_attempts sec))"

lemma read_config_web:
  assumes "web_ready s"
  shows "\<exists>c. read_config s = (c, False, s\<lparr>settings_of := snd (load_security (settings_of s))\<rparr>) \<and>
     is_armed c = fst (policy s) \<and> fail_threshold c = snd (policy s)"
  using assms
  by (auto simp: web_ready_def read_config_def overlay_policy_def split_beta policy_def Let_def
      split: option.splits settings_cell.splits)

lemma policy_cong:
  "fst (load_security (settings_of t)) = fst (load_security (settings_of s)) \<Longrightarrow> policy t = policy s"
  by (simp add: policy_def)

lemma policy_saved:
  "self_destruct_enabled (merge_security x (empty_patch\<lparr>p_self_destruct := Some a, p_attempts := Some n\<rparr>)) = a"
  "self_destruct_attempts (merge_security x (empty_patch\<lparr>p_self_destruct := Some a, p_attempts := Some n\<rparr>)) = n"
  by (simp_all add: merge_security_def empty_patch_def)

lemma policy_after:
  "policy (s\<lparr>settings_of := save_security
     (empty_patch\<lparr>p_self_destruct := Some x, p_attempts := Some y\<rparr>) m, sd_log := l\<rparr>) = (x, y)"
  using conjunct1 [OF save_security_view [of "empty_patch\<lparr>p_self_destruct := Some x, p_attempts := Some y\<rparr>" m]]
  by (simp add: policy_def policy_saved Let_def)

lemma attempts_after:
  "is_web s \<Longrightarrow> read_cell FAIL_ATTEMPTS_STORAGE_KEY m = Some (AttemptsDoc xs) \<Longrightarrow>
   read_fail_attempts (s\<lparr>settings_of := m, sd_log := l\<rparr>) = xs"
  by (simp add: read_fail_attempts_def)

lemma read_cell_save:
  "has_storage m \<Longrightarrow> k \<noteq> SECURITY_SETTINGS_KEY \<Longrightarrow> read_cell k (save_security p m) = read_cell k m"
  by (simp add: read_cell_def save_security_local ls_get_set)

text \<open>A failed attempt that does not reach the threshold.\<close>

lemma failed_attempt_step:
  assumes "web_ready s"
  defines "n \<equiv> length (read_fail_attempts s) + 1"
  shows "fst (record_failed_attempt a i s) = (fst (policy s) \<and> snd (policy s) \<le> int n)"
    and "\<not> fst (record_failed_attempt a i s) \<Longrightarrow>
      web_ready (snd (record_failed_attempt a i s)) \<and>
      policy (snd (record_failed_attempt a i s)) = policy s \<and>
      read_fail_attempts (snd (record_failed_attempt a i s)) =
        last_n MAX_FAIL_HISTORY (read_fail_attempts s @ [a]) \<and>
      current_fail_count (fst (get_config (snd (record_failed_attempt a i s)))) = n"
proof -
  obtain c where c: "read_config s = (c, False, s\<lparr>settings_of := snd (load_security (settings_of s))\<rparr>)"
    "is_armed c = fst (policy s)" "fail_threshold c = snd (policy s)"
    using read_config_web [OF assms(1)] by blast
  let ?m = "snd (load_security (settings_of s))"
  have web: "is_web s" "has_storage (settings_of s)" using assms(1) by (simp_all add: web_ready_def)
  have rd: "read_fail_attempts (s\<lparr>settings_of := ?m\<rparr>) = read_fail_attempts s"
    by (simp add: read_fail_attempts_def read_cell_def)
  let ?c = "c\<lparr>current_fail_count := n\<rparr>"
  let ?m1 = "store_cell FAIL_ATTEMPTS_STORAGE_KEY
       (AttemptsDoc (last_n MAX_FAIL_HISTORY (read_fail_attempts s @ [a]))) ?m"
  let ?m2 = "save_security (empty_patch\<lparr>p_self_destruct := Some (fst (policy s)), p_attempts := Some (snd (policy s))\<rparr>)
     (store_cell CONFIG_STORAGE_KEY (SelfDestructDoc (config_doc ?c)) ?m1)"
  let ?t = "sd_audit_log (FailedLogin n) (s\<lparr>settings_of := ?m2\<rparr>)"
  have r: "record_failed_attempt a i s =
     (fst (policy s) \<and> snd (policy s) \<le> int n,
      if fst (policy s) \<and> snd (policy s) \<le> int n then trigger_self_destruct i (fa_time a) ?t else ?t)"
    using web c rd
    by (auto simp: record_failed_attempt_def Let_def write_fail_attempts_def write_config_def assign_def n_def)
  show "fst (record_failed_attempt a i s) = (fst (policy s) \<and> snd (policy s) \<le> int n)"
    unfolding r by simp
  assume "\<not> fst (record_failed_attempt a i s)"
  then have t: "snd (record_failed_attempt a i s) = ?t" unfolding r by auto
  have cell: "read_cell k ?m2 = (if k = SECURITY_SETTINGS_KEY then read_cell k ?m2
      else if k = CONFIG_STORAGE_KEY then Some (SelfDestructDoc (config_doc ?c))
      else if k = FAIL_ATTEMPTS_STORAGE_KEY
        then Some (AttemptsDoc (last_n MAX_FAIL_HISTORY (read_fail_attempts s @ [a])))
      else read_cell k (settings_of s))" for k
    using web by (simp add: read_cell_save) (simp add: read_cell_def)
  have rc: "read_cell CONFIG_STORAGE_KEY ?m2 = Some (SelfDestructDoc (config_doc ?c))"
    and ra: "read_cell FAIL_ATTEMPTS_STORAGE_KEY ?m2 =
      Some (AttemptsDoc (last_n MAX_FAIL_HISTORY (read_fail_attempts s @ [a])))"
    by (subst cell, simp add: sd_keys)+
  have wr: "web_ready ?t" using web rc by (simp add: web_ready_def sd_audit_log_def)
  moreover have "policy ?t = policy s"
    by (simp add: sd_audit_log_def policy_after)
  moreover have "read_fail_attempts ?t = last_n MAX_FAIL_HISTORY (read_fail_attempts s @ [a])"
    unfolding sd_audit_log_def using attempts_after [OF web(1) ra] by simp
  moreover have "current_fail_count (fst (get_config ?t)) = n"
    using web rc by (simp add: get_config_def read_config_def sd_audit_log_def overlay_policy_def
        split_beta Let_def merge_config_def config_doc_def)
  ultimately show "web_ready (snd (record_failed_attempt a i s)) \<and>
      policy (snd (record_failed_attempt a i s)) = policy s \<and>
      read_fail_attempts (snd (record_failed_attempt a i s)) =
        last_n MAX_FAIL_HISTORY (read_fail_attempts s @ [a]) \<and>
      current_fail_count (fst (get_config (snd (record_failed_attempt a i s)))) = n"
    unfolding t by blast
qed

fun record_attempts :: "(failed_attempt \<times> string) list \<Rightarrow> sd \<Rightarrow> bool list \<times> sd" where
  "record_attempts [] s = ([], s)"
| "record_attempts ((a, i) # as) s =
     (let (b, s1) = record_failed_attempt a i s; (bs, s2) = record_attempts as s1 in (b # bs, s2))"

lemma attempts_until_threshold:
  assumes "web_ready s" and "fst (policy s)" and "snd (policy s) = int n" and "n \<le> MAX_FAIL_HISTORY"
    and "length (read_fail_attempts s) + length as = n" and "as \<noteq> []"
  shows "fst (record_attempts as s) = replicate (length as - 1) False @ [True]"
  using assms
proof (induction "as" arbitrary: s)
  case Nil
  then show ?case by simp
next
  case (Cons p rest)
  obtain a i where p: "p = (a, i)" by (cases p)
  note step = failed_attempt_step [OF Cons.prems(1), of a i]
  have hit: "fst (record_failed_attempt a i s) = (rest = [])"
    unfolding step(1) using Cons.prems(2,3,5) by auto
  show ?case
  proof (cases "rest = []")
    case True
    then show ?thesis using hit p by (simp add: split_beta Let_def)
  next
    case False
    let ?t = "snd (record_failed_attempt a i s)"
    have "\<not> fst (record_failed_attempt a i s)" using hit False by simp
    note t = step(2) [OF this]
    have "length (read_fail_attempts ?t) + length rest = n"
      using t Cons.prems(4,5) False by (cases rest) auto
    then have "fst (record_attempts rest ?t) = replicate (length rest - 1) False @ [True]"
      using t Cons.prems(2-4) False by (intro Cons.IH) simp_all
    with hit p False show ?thesis
      by (cases rest) (simp_all add: split_beta Let_def)
  qed
qed

text \<open>The wipe.\<close>

lemma wipe_get:
  "ls_get k (local (wipe_vault_keys m)) =
     (if starts_with ''usbvault:'' k then None else ls_get k (local m))"
  unfolding wipe_vault_keys_def by (simp add: ls.del_filtered_keys)

lemma wiped_store:
  assumes "is_web s" and "has_storage (settings_of s)" and "\<not> email_alert_enabled (default_config s)"
  shows "\<exists>sec cfg. local (settings_of (trigger_self_destruct i now s)) =
     ls_set SECURITY_SETTINGS_KEY (SecurityDoc sec)
       (ls_set CONFIG_STORAGE_KEY (SelfDestructDoc cfg) (local (wipe_vault_keys (settings_of s)))) \<and>
     d_triggered cfg = Some now"
proof -
  let ?s1 = "s\<lparr>settings_of := wipe_vault_keys (settings_of s)\<rparr>"
  have st: "has_storage (wipe_vault_keys (settings_of s))" using assms(2) by (simp add: wipe_vault_keys_def)
  have "starts_with ''usbvault:'' CONFIG_STORAGE_KEY"
    by (simp add: starts_with_def CONFIG_STORAGE_KEY_def)
  then have "read_cell CONFIG_STORAGE_KEY (wipe_vault_keys (settings_of s)) = None"
    by (simp add: read_cell_def wipe_get)
  then have rc: "read_config ?s1 = overlay_policy (default_config s) ?s1"
    using assms(1) by (simp add: read_config_def)
  show ?thesis
    using assms(1,3) st
    by (simp add: trigger_self_destruct_def rc overlay_policy_def split_beta Let_def assign_def
        sd_audit_log_def write_config_def save_security_local config_doc_def)
      (rule exI, rule exI, rule conjI, rule HOL.refl, simp)
qed

subsection \<open>Properties\<close>

text \<open>
  The threshold is exact: on the web, armed with threshold \<open>n\<close> (at most the 20 attempts
  kept) and no attempts on record, \<open>n - 1\<close> failed attempts return false and the \<open>n\<close>-th
  returns true.
\<close>
theorem threshold_is_exact:
  assumes "web_ready s" and "policy s = (True, int n)" and "0 < n" and "n \<le> MAX_FAIL_HISTORY"
    and "read_fail_attempts s = []" and "length as = n"
  shows "fst (record_attempts as s) = replicate (n - 1) False @ [True]"
  using attempts_until_threshold [of s n "as"] assms by (cases "as") auto

definition demo_sd :: sd where
  "demo_sd = \<lparr>is_web = True, settings_of = \<lparr>has_storage = True,
     local = [(''usbvault_recovery_phrase_hash'', Plain ''ab''), (''usbvault:vault_1'', Plain ''x'')],
     cache = Some (DEFAULT_SECURITY_SETTINGS\<lparr>self_destruct_enabled := True, self_destruct_attempts := 3\<rparr>)\<rparr>,
     default_config = DEFAULT_CONFIG, sd_log = []\<rparr>"

lemma demo_sd_ready: "web_ready demo_sd" "policy demo_sd = (True, int 3)" "read_fail_attempts demo_sd = []"
  by (simp_all add: demo_sd_def web_ready_def policy_def read_fail_attempts_def read_cell_def
      ls_get_def load_security_def sd_keys)

theorem threshold_is_exact_witness:
  "fst (record_attempts (map (\<lambda>k. (\<lparr>fa_id = ''a'', fa_time = k, fa_agent = None\<rparr>, ''i'')) [1, 2, 3]) demo_sd) =
     [False, False, True]"
  using threshold_is_exact [OF demo_sd_ready(1,2) _ _ demo_sd_ready(3),
      of "map (\<lambda>k. (\<lparr>fa_id = ''a'', fa_time = k, fa_agent = None\<rparr>, ''i'')) [1, 2, 3]"]
  by (simp add: MAX_FAIL_HISTORY_def numeral_eq_Suc del: record_attempts.simps)

text \<open>
  What the wipe removes: every \<open>usbvault:\<close> key except the two configuration documents it
  writes back; every other key keeps its value. No alert is ever queued, even when email
  alerts were configured, because the configuration is read after it was wiped.
\<close>
theorem wipe_spec:
  assumes "is_web s" and "has_storage (settings_of s)" and "\<not> email_alert_enabled (default_config s)"
    and "t = trigger_self_destruct i now s"
  shows "(\<forall>k. \<not> starts_with ''usbvault:'' k \<longrightarrow> ls_get k (local (settings_of t)) = ls_get k (local (settings_of s))) \<and>
     (\<forall>k. starts_with ''usbvault:'' k \<and> k \<noteq> CONFIG_STORAGE_KEY \<and> k \<noteq> SECURITY_SETTINGS_KEY \<longrightarrow>
        ls_get k (local (settings_of t)) = None) \<and>
     read_pending_alerts t = []"
proof -
  obtain sec cfg where l: "local (settings_of t) = ls_set SECURITY_SETTINGS_KEY (SecurityDoc sec)
       (ls_set CONFIG_STORAGE_KEY (SelfDestructDoc cfg) (local (wipe_vault_keys (settings_of s))))"
    using wiped_store [OF assms(1-3)] unfolding assms(4) by blast
  have keys: "starts_with ''usbvault:'' SECURITY_SETTINGS_KEY" "starts_with ''usbvault:'' CONFIG_STORAGE_KEY"
    "starts_with ''usbvault:'' PENDING_ALERTS_STORAGE_KEY"
    "PENDING_ALERTS_STORAGE_KEY \<noteq> SECURITY_SETTINGS_KEY" "PENDING_ALERTS_STORAGE_KEY \<noteq> CONFIG_STORAGE_KEY"
    by (simp_all add: starts_with_def sd_keys)
  have g: "ls_get k (local (settings_of t)) =
      (if k = SECURITY_SETTINGS_KEY then Some (SecurityDoc sec)
       else if k = CONFIG_STORAGE_KEY then Some (SelfDestructDoc cfg)
       else if starts_with ''usbvault:'' k then None else ls_get k (local (settings_of s)))" for k
    unfolding l by (simp add: ls_get_set wipe_get)
  have "read_pending_alerts t = []"
    using keys by (simp add: read_pending_alerts_def read_cell_def g)
  with g keys show ?thesis by auto
qed

theorem wipe_spec_witness:
  "ls_get ''usbvault_recovery_phrase_hash'' (local (settings_of (trigger_self_destruct ''i'' 9 demo_sd))) = Some (Plain ''ab'') \<and>
   ls_get ''usbvault:vault_1'' (local (settings_of (trigger_self_destruct ''i'' 9 demo_sd))) = None"
proof -
  have "is_web demo_sd" "has_storage (settings_of demo_sd)" "\<not> email_alert_enabled (default_config demo_sd)"
    by (simp_all add: demo_sd_def DEFAULT_CONFIG_def)
  note w = wipe_spec [OF this HOL.refl, of "''i''" 9]
  have "\<not> starts_with ''usbvault:'' ''usbvault_recovery_phrase_hash''" "starts_with ''usbvault:'' ''usbvault:vault_1''"
    "''usbvault:vault_1'' \<noteq> CONFIG_STORAGE_KEY" "''usbvault:vault_1'' \<noteq> SECURITY_SETTINGS_KEY"
    "ls_get ''usbvault_recovery_phrase_hash'' (local (settings_of demo_sd)) = Some (Plain ''ab'')"
    by (simp_all add: starts_with_def sd_keys demo_sd_def ls_get_def)
  with w show ?thesis by metis
qed

end
