(* ===== verification/Stream_Bridge.thy ===== *)
theory Stream_Bridge
  imports Hex_Codec Web_Storage
begin

text \<open>
  \<open>crypto/streamBridge.ts\<close>: encrypting and decrypting a file chunk by chunk. The native crypto
  module is a parameter: \<open>init\<close> opens a session for a key, \<open>step\<close> takes a session, a chunk and
  the final flag and gives the output chunk and the session's next state (\<open>None\<close>: the call
  throws). The file system is the map \<open>files\<close>; \<open>writable\<close> says where writing succeeds, \<open>fetch\<close>
  is the browser's. \<open>opened\<close> and \<open>freed\<close> count sessions, \<open>progress\<close> collects the callbacks. The
  encrypting and the decrypting functions have the same code up to the session functions and
  the error texts, so each of the two platform variants is modelled once, with those as
  arguments. Base64 in and out of the file system cancels and is left out.
\<close>

subsection \<open>Data and parameters\<close>

datatype stream_cause = SourceMissing | FetchFailed | InitFailed | ChunkFailed | WriteFailed

datatype stream_error = BadKey | NoSourcePath | NoDestPath | StreamFailed stream_cause

record stream_state =
  files :: "bytes local_storage"
  opened :: nat
  freed :: nat
  progress :: "(nat \<times> nat) list"

definition DEFAULT_CHUNK_SIZE :: nat where "DEFAULT_CHUNK_SIZE = 4 * 1024 * 1024"

definition effective_chunk_size :: "nat option \<Rightarrow> nat" where
  "effective_chunk_size opt = max 4096 (min (case opt of None \<Rightarrow> DEFAULT_CHUNK_SIZE | Some n \<Rightarrow> n)
     (64 * 1024 * 1024))"

text \<open>\<open>Buffer.from(hex, 'hex')\<close> stops at the first pair that is not hexadecimal.\<close>

fun buffer_from_hex :: "string \<Rightarrow> bytes" where
  "buffer_from_hex (c # d # cs) =
     (case (digit_val c, digit_val d) of
        (Some h, Some l) \<Rightarrow> of_nat (16 * h + l) # buffer_from_hex cs
      | _ \<Rightarrow> [])"
| "buffer_from_hex _ = []"

definition stream_init :: "(bytes \<Rightarrow> 's option) \<Rightarrow> bytes \<Rightarrow> 's option" where
  "stream_init native key = (if length key \<noteq> 32 then None else native key)"

subsection \<open>The two chunk loops\<close>

function native_loop ::
  "('s \<Rightarrow> bytes \<Rightarrow> bool \<Rightarrow> (bytes \<times> 's) option) \<Rightarrow> nat \<Rightarrow> bytes \<Rightarrow> nat \<Rightarrow> 's \<Rightarrow>
     bytes list \<Rightarrow> nat \<Rightarrow> nat list \<Rightarrow> (bytes list \<times> nat) option \<times> nat list" where
  "native_loop step chunkSize fileBytes position sess out processed prog =
     (if position < length fileBytes \<and> 0 < chunkSize then
        let bytesRemaining = length fileBytes - position;
            readSize = min chunkSize bytesRemaining;
            chunkBytes = take readSize (drop position fileBytes);
            isFinal = (position + readSize \<ge> length fileBytes)
        in case step sess chunkBytes isFinal of
             None \<Rightarrow> (None, prog)
           | Some (c, sess') \<Rightarrow>
               native_loop step chunkSize fileBytes (position + readSize) sess' (out @ [c])
                 (processed + readSize) (prog @ [processed + readSize])
      else (Some (out, processed), prog))"
  by pat_completeness auto
termination
  by (relation "measure (\<lambda>(_, _, fb, pos, _). length fb - pos)") auto

function web_loop ::
  "('s \<Rightarrow> bytes \<Rightarrow> bool \<Rightarrow> (bytes \<times> 's) option) \<Rightarrow> nat \<Rightarrow> bytes \<Rightarrow> nat \<Rightarrow> 's \<Rightarrow>
     bytes list \<Rightarrow> nat \<Rightarrow> nat list \<Rightarrow> (bytes list \<times> nat) option \<times> nat list" where
  "web_loop step chunkSize fileBytes offset sess out processed prog =
     (if offset < length fileBytes \<and> 0 < chunkSize then
        let endp = min (offset + chunkSize) (length fileBytes);
            chunkBytes = take (endp - offset) (drop offset fileBytes);
            isFinal = (endp \<ge> length fileBytes)
        in case step sess chunkBytes isFinal of
             None \<Rightarrow> (None, prog)
           | Some (c, sess') \<Rightarrow>
               web_loop step chunkSize fileBytes endp sess' (out @ [c])
                 (processed + length chunkBytes) (prog @ [processed + length chunkBytes])
      else (Some (out, processed), prog))"
  by pat_completeness auto
termination
  by (relation "measure (\<lambda>(_, _, fb, pos, _). length fb - pos)") auto

declare native_loop.simps [simp del] web_loop.simps [simp del]

subsection \<open>Whole files\<close>

text \<open>The \<open>try\<close> body of the native functions, then \<open>catch\<close> and \<open>finally\<close>.\<close>

definition native_attempt ::
  "(bytes \<Rightarrow> 's option) \<Rightarrow> ('s \<Rightarrow> bytes \<Rightarrow> bool \<Rightarrow> (bytes \<times> 's) option) \<Rightarrow> (string \<Rightarrow> bool) \<Rightarrow>
     string \<Rightarrow> string \<Rightarrow> string \<Rightarrow> nat \<Rightarrow> stream_state \<Rightarrow> (stream_cause + nat) \<times> stream_state" where
  "native_attempt init step writable keyHex src dst cs s =
     (case ls_get src (files s) of
        None \<Rightarrow> (Inl SourceMissing, s)
      | Some fb \<Rightarrow>
          (case stream_init init (buffer_from_hex keyHex) of
             None \<Rightarrow> (Inl InitFailed, s)
           | Some sess \<Rightarrow>
               (let (r, prog) = native_loop step cs fb 0 sess [] 0 [];
                    s1 = s\<lparr>opened := opened s + 1,
                           progress := progress s @ map (\<lambda>p. (p, length fb)) prog\<rparr>
                in case r of
                     None \<Rightarrow> (Inl ChunkFailed, s1)
                   | Some (out, processed) \<Rightarrow>
                       if writable dst then (Inr processed, s1\<lparr>files := ls_set dst (concat out) (files s1)\<rparr>)
                       else (Inl WriteFailed, s1))))"

definition free_session :: "stream_state \<Rightarrow> stream_state \<Rightarrow> stream_state" where
  "free_session s t = (if opened t > opened s then t\<lparr>freed := freed t + 1\<rparr> else t)"

definition native_file ::
  "(bytes \<Rightarrow> 's option) \<Rightarrow> ('s \<Rightarrow> bytes \<Rightarrow> bool \<Rightarrow> (bytes \<times> 's) option) \<Rightarrow> (string \<Rightarrow> bool) \<Rightarrow>
     string \<Rightarrow> string \<Rightarrow> string \<Rightarrow> nat \<Rightarrow> stream_state \<Rightarrow> (stream_error + nat) \<times> stream_state" where
  "native_file init step writable keyHex src dst cs s =
     (case native_attempt init step writable keyHex src dst cs s of
        (Inl e, t) \<Rightarrow> (Inl (StreamFailed e), free_session s (t\<lparr>files := ls_remove dst (files t)\<rparr>))
      | (Inr n, t) \<Rightarrow> (Inr n, free_session s t))"

text \<open>On the web the output is combined and measured; it is not stored or returned.\<close>

definition web_file ::
  "(bytes \<Rightarrow> 's option) \<Rightarrow> ('s \<Rightarrow> bytes \<Rightarrow> bool \<Rightarrow> (bytes \<times> 's) option) \<Rightarrow> (string \<Rightarrow> bytes option) \<Rightarrow>
     string \<Rightarrow> string \<Rightarrow> nat \<Rightarrow> stream_state \<Rightarrow> (stream_error + nat) \<times> stream_state" where
  "web_file init step fetch keyHex src cs s =
     (case fetch src of
        None \<Rightarrow> (Inl (StreamFailed FetchFailed), s)
      | Some fb \<Rightarrow>
          (case stream_init init (buffer_from_hex keyHex) of
             None \<Rightarrow> (Inl (StreamFailed InitFailed), s)
           | Some sess \<Rightarrow>
               (let (r, prog) = web_loop step cs fb 0 sess [] 0 [];
                    s1 = s\<lparr>opened := opened s + 1, freed := freed s + 1,
                           progress := progress s @ map (\<lambda>p. (p, length fb)) prog\<rparr>
                in case r of
                     None \<Rightarrow> (Inl (StreamFailed ChunkFailed), s1)
                   | Some (out, processed) \<Rightarrow> (Inr (length (concat out)), s1))))"

text \<open>
  \<open>streamEncryptFile\<close> and \<open>streamDecryptFile\<close>: validation, the chunk size, the platform.
\<close>

definition stream_file ::
  "bool \<Rightarrow> (bytes \<Rightarrow> 's option) \<Rightarrow> ('s \<Rightarrow> bytes \<Rightarrow> bool \<Rightarrow> (bytes \<times> 's) option) \<Rightarrow> (string \<Rightarrow> bool) \<Rightarrow>
     (string \<Rightarrow> bytes option) \<Rightarrow> string \<Rightarrow> string \<Rightarrow> string \<Rightarrow> nat option \<Rightarrow> stream_state \<Rightarrow>
     (stream_error + nat) \<times> stream_state" where
  "stream_file web init step writable fetch keyHex src dst opt s =
     (if length keyHex \<noteq> 64 then (Inl BadKey, s)
      else if src = [] then (Inl NoSourcePath, s)
      else if dst = [] then (Inl NoDestPath, s)
      else if web then web_file init step fetch keyHex src (effective_chunk_size opt) s
      else native_file init step writable keyHex src dst (effective_chunk_size opt) s)"

subsection \<open>The reference: split, then feed\<close>

function split_chunks :: "nat \<Rightarrow> bytes \<Rightarrow> bytes list" where
  "split_chunks n xs = (if xs = [] \<or> n = 0 then [] else take n xs # split_chunks n (drop n xs))"
  by pat_completeness auto
termination
  by (relation "measure (\<lambda>(n, xs). length xs)") auto

declare split_chunks.simps [simp del]

fun feed :: "('s \<Rightarrow> bytes \<Rightarrow> bool \<Rightarrow> (bytes \<times> 's) option) \<Rightarrow> 's \<Rightarrow> bytes list \<Rightarrow> bytes list option" where
  "feed step sess [] = Some []"
| "feed step sess (x # xs) =
     (case step sess x (xs = []) of
        None \<Rightarrow> None | Some (c, sess') \<Rightarrow> map_option ((#) c) (feed step sess' xs))"

lemma split_Nil [simp]: "split_chunks n [] = []"
  by (simp add: split_chunks.simps)

lemma split_eq_Nil: "0 < n \<Longrightarrow> split_chunks n xs = [] \<longleftrightarrow> xs = []"
  by (simp add: split_chunks.simps [of n xs])

lemma concat_split: "0 < n \<Longrightarrow> concat (split_chunks n xs) = xs"
proof (induction n xs rule: split_chunks.induct)
  case (1 n xs)
  then show ?case by (subst split_chunks.simps) auto
qed

lemma length_split: "0 < n \<Longrightarrow> length (split_chunks n xs) = (length xs + n - 1) div n"
proof (induction n xs rule: split_chunks.induct)
  case (1 n xs)
  show ?case
  proof (cases "xs = []")
    case True
    then show ?thesis using 1(2) by simp
  next
    case False
    then have "length (split_chunks n xs) = Suc ((length (drop n xs) + n - 1) div n)"
      using 1 by (subst split_chunks.simps) simp
    also have "\<dots> = (length xs + n - 1) div n"
    proof (cases "length xs \<le> n")
      case True
      have "length xs + n - 1 = n + (length xs - 1)" using False by (cases xs) auto
      moreover have "length xs - 1 < n" using True False by (cases xs) auto
      ultimately have "(length xs + n - 1) div n = 1" using 1(2) by (simp only: div_add_self1) simp
      moreover have "(n - 1) div n = 0" using 1(2) by simp
      ultimately show ?thesis using True by simp
    next
      case False
      then have e: "length xs + n - 1 = (length xs - n + n - 1) + n" by linarith
      have "(length xs + n - 1) div n = (length xs - n + n - 1) div n + 1"
        unfolding e using 1(2) by (intro div_add_self2) simp
      then show ?thesis by (simp only: length_drop Suc_eq_plus1)
    qed
    finally show ?thesis .
  qed
qed

lemma split_sizes:
  "0 < n \<Longrightarrow> list_all (\<lambda>c. length c = n) (butlast (split_chunks n xs)) \<and>
     list_all (\<lambda>c. 0 < length c \<and> length c \<le> n) (split_chunks n xs)"
proof (induction n xs rule: split_chunks.induct)
  case (1 n xs)
  show ?case
  proof (cases "xs = []")
    case True
    then show ?thesis by simp
  next
    case False
    have s: "split_chunks n xs = take n xs # split_chunks n (drop n xs)"
      using False 1(2) by (simp add: split_chunks.simps [of n xs])
    have "split_chunks n (drop n xs) \<noteq> [] \<Longrightarrow> length (take n xs) = n"
      using split_eq_Nil [OF 1(2), of "drop n xs"] by simp
    with 1 False show ?thesis unfolding s by auto
  qed
qed

text \<open>The contract of a chunk loop, and what the file functions take from it.\<close>

locale chunk_loop =
  fixes loop :: "('s \<Rightarrow> bytes \<Rightarrow> bool \<Rightarrow> (bytes \<times> 's) option) \<Rightarrow> nat \<Rightarrow> bytes \<Rightarrow> nat \<Rightarrow> 's \<Rightarrow>
     bytes list \<Rightarrow> nat \<Rightarrow> nat list \<Rightarrow> (bytes list \<times> nat) option \<times> nat list"
  assumes loop_feed: "0 < cs \<Longrightarrow> pos \<le> length fb \<Longrightarrow> fst (loop step cs fb pos sess out n prog) =
     map_option (\<lambda>cs'. (out @ cs', n + (length fb - pos))) (feed step sess (split_chunks cs (drop pos fb)))"
begin

lemma from_start:
  "0 < cs \<Longrightarrow> fst (loop step cs fb 0 sess [] 0 []) =
     map_option (\<lambda>out. (out, length fb)) (feed step sess (split_chunks cs fb))"
  using loop_feed [of cs 0 fb step sess "[]" 0 "[]"] by simp

lemma one_chunk:
  assumes "fb \<noteq> []" and "length fb \<le> cs"
  shows "fst (loop step cs fb 0 sess [] 0 []) =
     map_option (\<lambda>(c, _). ([c], length fb)) (step sess fb True)"
proof -
  have "0 < cs" using assms by (cases fb) auto
  moreover from this have "split_chunks cs fb = [fb]"
    using assms by (simp add: split_chunks.simps [of cs fb])
  ultimately show ?thesis by (auto simp: from_start split: option.split)
qed

lemma first_chunk_refused:
  assumes "0 < cs" and "cs < length fb" and "step sess (take cs fb) False = None"
  shows "fst (loop step cs fb 0 sess [] 0 []) = None"
proof -
  have "split_chunks cs fb = take cs fb # split_chunks cs (drop cs fb)"
    using assms(1,2) by (auto simp: split_chunks.simps [of cs fb])
  moreover have "split_chunks cs (drop cs fb) \<noteq> []"
    using assms(1,2) by (simp add: split_eq_Nil)
  ultimately show ?thesis using assms(1,3) by (simp add: from_start)
qed

end

lemma feed_unfold:
  assumes "0 < cs" and "pos < length fb"
  shows "feed step sess (split_chunks cs (drop pos fb)) =
     (case step sess (take cs (drop pos fb)) (length fb \<le> pos + cs) of
        None \<Rightarrow> None
      | Some (c, sess') \<Rightarrow> map_option ((#) c) (feed step sess' (split_chunks cs (drop (pos + cs) fb))))"
proof -
  have "split_chunks cs (drop pos fb) = take cs (drop pos fb) # split_chunks cs (drop (pos + cs) fb)"
    using assms by (simp add: split_chunks.simps [of cs "drop pos fb"] add.commute)
  moreover have "split_chunks cs (drop (pos + cs) fb) = [] \<longleftrightarrow> length fb \<le> pos + cs"
    using assms(1) by (simp add: split_eq_Nil)
  ultimately show ?thesis by simp
qed

lemma native_loop_feed:
  "0 < cs \<Longrightarrow> pos \<le> length fb \<Longrightarrow> fst (native_loop step cs fb pos sess out n prog) =
     map_option (\<lambda>cs'. (out @ cs', n + (length fb - pos))) (feed step sess (split_chunks cs (drop pos fb)))"
proof (induction step cs fb pos sess out n prog rule: native_loop.induct)
  case (1 step cs fb pos sess out n prog)
  show ?case
  proof (cases "pos < length fb")
    case False
    then show ?thesis using 1(3) by (subst native_loop.simps) simp
  next
    case True
    let ?r = "min cs (length fb - pos)"
    have tk: "take ?r (drop pos fb) = take cs (drop pos fb)" by (simp add: min_def)
    have fin: "(pos + ?r \<ge> length fb) = (length fb \<le> pos + cs)" by (auto simp: min_def)
    have rest: "drop (pos + ?r) fb = drop (pos + cs) fb" by (auto simp: min_def)
    show ?thesis
    proof (cases "step sess (take cs (drop pos fb)) (length fb \<le> pos + cs)")
      case None
      then show ?thesis using True 1(2)
        by (subst native_loop.simps) (simp add: Let_def tk fin feed_unfold)
    next
      case (Some p)
      obtain c sess' where p: "p = (c, sess')" by (cases p)
      have "fst (native_loop step cs fb (pos + ?r) sess' (out @ [c]) (n + ?r) (prog @ [n + ?r])) =
        map_option (\<lambda>cs'. ((out @ [c]) @ cs', n + ?r + (length fb - (pos + ?r))))
          (feed step sess' (split_chunks cs (drop (pos + ?r) fb)))"
        using True 1(2) Some p by (intro 1(1)) (simp_all add: tk fin)
      then show ?thesis using True 1(2) Some p
        by (subst native_loop.simps)
          (simp add: Let_def tk fin rest feed_unfold option.map_comp comp_def)
    qed
  qed
qed

lemma web_loop_feed:
  "0 < cs \<Longrightarrow> pos \<le> length fb \<Longrightarrow> fst (web_loop step cs fb pos sess out n prog) =
     map_option (\<lambda>cs'. (out @ cs', n + (length fb - pos))) (feed step sess (split_chunks cs (drop pos fb)))"
proof (induction step cs fb pos sess out n prog rule: web_loop.induct)
  case (1 step cs fb pos sess out n prog)
  show ?case
  proof (cases "pos < length fb")
    case False
    then show ?thesis using 1(3) by (subst web_loop.simps) simp
  next
    case True
    let ?e = "min (pos + cs) (length fb)"
    have tk: "take (?e - pos) (drop pos fb) = take cs (drop pos fb)" by (auto simp: min_def)
    have fin: "(?e \<ge> length fb) = (length fb \<le> pos + cs)" by (auto simp: min_def)
    have rest: "drop ?e fb = drop (pos + cs) fb" by (auto simp: min_def)
    have len: "n + length (take cs (drop pos fb)) + (length fb - ?e) = n + (length fb - pos)"
      using True by (auto simp: min_def)
    show ?thesis
    proof (cases "step sess (take cs (drop pos fb)) (length fb \<le> pos + cs)")
      case None
      then show ?thesis using True 1(2)
        by (subst web_loop.simps) (simp only: Let_def tk fin feed_unfold, simp)
    next
      case (Some p)
      obtain c sess' where p: "p = (c, sess')" by (cases p)
      let ?c = "take (?e - pos) (drop pos fb)" and ?b = "length fb \<le> ?e"
      have "step sess ?c ?b = Some p" using Some by (simp only: tk fin)
      then have "fst (web_loop step cs fb ?e sess' (out @ [c]) (n + length ?c) (prog @ [n + length ?c])) =
        map_option (\<lambda>cs'. ((out @ [c]) @ cs', n + length ?c + (length fb - ?e)))
          (feed step sess' (split_chunks cs (drop ?e fb)))"
        using True 1(2) p
        by (intro 1(1) [OF _ HOL.refl HOL.refl HOL.refl, of p c sess']) simp_all
      then have "fst (web_loop step cs fb ?e sess' (out @ [c]) (n + length ?c) (prog @ [n + length ?c])) =
        map_option (\<lambda>cs'. (out @ c # cs', n + (length fb - pos)))
          (feed step sess' (split_chunks cs (drop (pos + cs) fb)))"
        unfolding tk len rest by simp
      moreover have "web_loop step cs fb pos sess out n prog =
        web_loop step cs fb ?e sess' (out @ [c]) (n + length ?c) (prog @ [n + length ?c])"
        using True 1(2) Some p
        by (subst web_loop.simps) (simp only: Let_def tk fin if_True simp_thms option.case prod.case)
      ultimately show ?thesis using True 1(2) Some p
        by (simp add: feed_unfold option.map_comp comp_def)
    qed
  qed
qed

interpretation native: chunk_loop native_loop
  by unfold_locales (rule native_loop_feed)

interpretation web: chunk_loop web_loop
  by unfold_locales (rule web_loop_feed)

subsection \<open>The file functions against the reference\<close>

text \<open>
  What a call promises: the source read whole, split into chunks of the effective size and fed
  to one session. \<open>None\<close>: the call fails.
\<close>

definition stream_spec ::
  "(bytes \<Rightarrow> 's option) \<Rightarrow> ('s \<Rightarrow> bytes \<Rightarrow> bool \<Rightarrow> (bytes \<times> 's) option) \<Rightarrow>
     string \<Rightarrow> nat \<Rightarrow> bytes option \<Rightarrow> bytes list option" where
  "stream_spec init step keyHex cs source =
     Option.bind source (\<lambda>fb. Option.bind (stream_init init (buffer_from_hex keyHex))
       (\<lambda>sess. feed step sess (split_chunks cs fb)))"

lemma effective_chunk_bounds:
  "4096 \<le> effective_chunk_size opt \<and> effective_chunk_size opt \<le> 67108864"
  by (simp add: effective_chunk_size_def)

lemma effective_chunk_pos: "0 < effective_chunk_size opt"
  using effective_chunk_bounds [of opt] by linarith

lemma effective_chunk_id:
  "4096 \<le> n \<Longrightarrow> n \<le> 67108864 \<Longrightarrow> effective_chunk_size (Some n) = n"
  by (simp add: effective_chunk_size_def)

lemma native_file_spec:
  assumes "0 < cs"
  shows "case stream_spec init step keyHex cs (ls_get src (files s)) of
       Some out \<Rightarrow>
         if writable dst
         then fst (native_file init step writable keyHex src dst cs s) =
                Inr (length (the (ls_get src (files s)))) \<and>
              files (snd (native_file init step writable keyHex src dst cs s)) =
                ls_set dst (concat out) (files s)
         else fst (native_file init step writable keyHex src dst cs s) = Inl (StreamFailed WriteFailed) \<and>
              files (snd (native_file init step writable keyHex src dst cs s)) = ls_remove dst (files s)
     | None \<Rightarrow> isl (fst (native_file init step writable keyHex src dst cs s)) \<and>
         files (snd (native_file init step writable keyHex src dst cs s)) = ls_remove dst (files s)"
proof (cases "ls_get src (files s)")
  case None
  then show ?thesis
    by (simp add: stream_spec_def native_file_def native_attempt_def free_session_def)
next
  case (Some fb)
  show ?thesis
  proof (cases "stream_init init (buffer_from_hex keyHex)")
    case None
    then show ?thesis using Some
      by (simp add: stream_spec_def native_file_def native_attempt_def free_session_def)
  next
    case (Some sess)
    obtain r prog where l: "native_loop step cs fb 0 sess [] 0 [] = (r, prog)"
      by (cases "native_loop step cs fb 0 sess [] 0 []")
    have r: "r = map_option (\<lambda>out. (out, length fb)) (feed step sess (split_chunks cs fb))"
      using native.from_start [OF assms, of step fb sess] unfolding l by simp
    show ?thesis
      using \<open>ls_get src (files s) = Some fb\<close> Some r
      by (cases "feed step sess (split_chunks cs fb)")
        (simp_all add: stream_spec_def native_file_def native_attempt_def free_session_def l)
  qed
qed

lemma web_file_spec:
  assumes "0 < cs"
  shows "(case stream_spec init step keyHex cs (fetch src) of
       Some out \<Rightarrow> fst (web_file init step fetch keyHex src cs s) = Inr (length (concat out))
     | None \<Rightarrow> isl (fst (web_file init step fetch keyHex src cs s))) \<and>
     files (snd (web_file init step fetch keyHex src cs s)) = files s"
proof (cases "fetch src")
  case None
  then show ?thesis by (simp add: stream_spec_def web_file_def)
next
  case (Some fb)
  show ?thesis
  proof (cases "stream_init init (buffer_from_hex keyHex)")
    case None
    then show ?thesis using Some by (simp add: stream_spec_def web_file_def)
  next
    case (Some sess)
    obtain r prog where l: "web_loop step cs fb 0 sess [] 0 [] = (r, prog)"
      by (cases "web_loop step cs fb 0 sess [] 0 []")
    have r: "r = map_option (\<lambda>out. (out, length fb)) (feed step sess (split_chunks cs fb))"
      using web.from_start [OF assms, of step fb sess] unfolding l by simp
    show ?thesis
      using \<open>fetch src = Some fb\<close> Some r
      by (cases "feed step sess (split_chunks cs fb)")
        (simp_all add: stream_spec_def web_file_def l)
  qed
qed

lemma session_balance:
  "freed (snd (stream_file web init step writable fetch keyHex src dst opt s)) + opened s =
   opened (snd (stream_file web init step writable fetch keyHex src dst opt s)) + freed s"
  by (simp add: stream_file_def native_file_def native_attempt_def web_file_def free_session_def Let_def
      split: option.split prod.split sum.split)


lemma feed_roundtrip:
  assumes pair: "\<And>es ds m b. R es ds \<Longrightarrow> m \<noteq> [] \<Longrightarrow> \<exists>c es' ds'. se es m b = Some (c, es') \<and>
      length c = length m + k \<and> sd ds c b = Some (m, ds') \<and> R es' ds'"
    and n: "0 < n"
  shows "R es ds \<Longrightarrow> \<exists>out. feed se es (split_chunks n xs) = Some out \<and>
      (xs \<noteq> [] \<longrightarrow> out \<noteq> []) \<and>
      split_chunks (n + k) (concat out) = out \<and> feed sd ds out = Some (split_chunks n xs)"
  using n
proof (induction n xs arbitrary: es ds rule: split_chunks.induct)
  case (1 n xs)
  show ?case
  proof (cases "xs = []")
    case True
    then show ?thesis by simp
  next
    case False
    let ?m = "take n xs" and ?ys = "drop n xs" and ?fin = "split_chunks n (drop n xs) = []"
    have s: "split_chunks n xs = ?m # split_chunks n ?ys"
      using False 1(3) by (simp add: split_chunks.simps [of n xs])
    obtain c es' ds' where c: "se es ?m ?fin = Some (c, es')" "length c = length ?m + k"
      "sd ds c ?fin = Some (?m, ds')" and R: "R es' ds'"
      using pair [OF 1(2), of ?m ?fin] False 1(3) by auto
    obtain out where out: "feed se es' (split_chunks n ?ys) = Some out" "?ys \<noteq> [] \<longrightarrow> out \<noteq> []"
      "split_chunks (n + k) (concat out) = out" "feed sd ds' out = Some (split_chunks n ?ys)"
      using 1(1) [OF _ R 1(3)] False 1(3) by auto
    have outNil: "out = [] \<longleftrightarrow> ?fin"
      using out(1,2) split_eq_Nil [OF 1(3), of ?ys] by auto
    have "0 < length c" using c(2) False 1(3) by simp
    then have cne: "c \<noteq> []" by simp
    have "split_chunks (n + k) (c @ concat out) = c # out"
    proof (cases "?ys = []")
      case True
      then have "out = []" using outNil by simp
      moreover have "length c \<le> n + k" using c(2) by simp
      ultimately show ?thesis using cne 1(3) by (simp add: split_chunks.simps [of "n + k" c])
    next
      case False
      then have "length c = n + k" using c(2) by simp
      then show ?thesis using cne out(3) 1(3)
        by (simp add: split_chunks.simps [of "n + k" "c @ concat out"])
    qed
    moreover have "feed sd ds (c # out) = Some (split_chunks n xs)"
      unfolding s using c(3) out(4) by (simp add: outNil)
    moreover have "feed se es (split_chunks n xs) = Some (c # out)"
      unfolding s using c(1) out(1) by simp
    ultimately show ?thesis using False by (intro exI [of _ "c # out"]) simp
  qed
qed


text \<open>
  With the same chunk size for both directions a file longer than one chunk does not come
  back when encrypted chunks are longer than their plaintext: the decrypting call cuts the first
  encrypted chunk short, and a session that refuses truncated chunks (as an AEAD does) makes it
  fail and delete the destination, even one that existed before.
\<close>

theorem same_chunk_size_misaligns:
  assumes key: "length keyHex = 64" "stream_init ie (buffer_from_hex keyHex) = Some es"
      "stream_init id' (buffer_from_hex keyHex) = Some ds"
    and long: "effective_chunk_size opt < length fb"
    and first: "se es (take (effective_chunk_size opt) fb) False = Some (c, es')"
      "effective_chunk_size opt < length c"
    and refuses: "\<And>n b. n < length c \<Longrightarrow> sd ds (take n c) b = None"
    and paths: "src \<noteq> []" "mid \<noteq> []" "dst \<noteq> []"
    and src: "ls_get src (files s) = Some fb"
    and enc: "stream_file False ie se writable fetch keyHex src mid opt s = (Inr n, s1)"
    and dec: "stream_file False id' sd writable fetch keyHex mid dst opt s1 = (r2, s2)"
  shows "isl r2 \<and> ls_get dst (files s2) = None"
proof -
  let ?n = "effective_chunk_size opt"
  have e: "native_file ie se writable keyHex src mid ?n s = (Inr n, s1)"
    using enc key(1) paths by (simp add: stream_file_def)
  have d: "native_file id' sd writable keyHex mid dst ?n s1 = (r2, s2)"
    using dec key(1) paths by (simp add: stream_file_def)
  obtain out where out: "feed se es (split_chunks ?n fb) = Some out"
    "files s1 = ls_set mid (concat out) (files s)"
    using native_file_spec [OF effective_chunk_pos, of ie se writable keyHex src mid opt s]
    unfolding e stream_spec_def using src key(2)
    by (auto split: option.split_asm if_split_asm)
  obtain out' where "out = c # out'"
    using out(1) feed_unfold [OF effective_chunk_pos, of 0 fb se es opt] long first(1)
    by (cases "fb = []") (auto simp: eq_commute [of "Some out"])
  then have c: "concat out = c @ concat out'" by simp
  have "c \<noteq> []" using first(2) by auto
  then have "stream_spec id' sd keyHex ?n (ls_get mid (files s1)) = None"
    using feed_unfold [OF effective_chunk_pos, of 0 "c @ concat out'" sd ds opt] first(2) refuses [of ?n]
      key(3)
    by (auto simp: out(2) ls_get_set stream_spec_def c)
  then show ?thesis
    using native_file_spec [OF effective_chunk_pos, of id' sd writable keyHex mid dst opt s1]
    by (simp add: d ls_get_remove)
qed

text \<open>A toy format for the witnesses: one marker byte in front of every chunk.\<close>

definition mark_chunk :: "unit \<Rightarrow> bytes \<Rightarrow> bool \<Rightarrow> (bytes \<times> unit) option" where
  "mark_chunk _ m b = Some ((if b then 1 else 0) # m, ())"

definition unmark_chunk :: "nat \<Rightarrow> unit \<Rightarrow> bytes \<Rightarrow> bool \<Rightarrow> (bytes \<times> unit) option" where
  "unmark_chunk least _ c b = (if length c < least then None else Some (drop 1 c, ()))"

definition demo_files :: "nat \<Rightarrow> stream_state" where
  "demo_files n = \<lparr>files = [(''a'', replicate n 7), (''c'', [1])], opened = 0, freed = 0, progress = []\<rparr>"

definition demo_key :: string where
  "demo_key = concat (replicate 32 ''0f'')"

lemma demo_key_opens:
  "length demo_key = 64 \<and> stream_init (\<lambda>_. Some ()) (buffer_from_hex demo_key) = Some ()"
  by code_simp



theorem same_chunk_size_misaligns_witness:
  "\<exists>s1 r2 s2.
     stream_file False (\<lambda>_. Some ()) mark_chunk (\<lambda>_. True) (\<lambda>_. None) demo_key ''a'' ''b'' (Some 4096)
       (demo_files 5000) = (Inr 5000, s1) \<and>
     stream_file False (\<lambda>_. Some ()) (unmark_chunk 4097) (\<lambda>_. True) (\<lambda>_. None) demo_key ''b'' ''c'' (Some 4096) s1 =
       (r2, s2) \<and> isl r2 \<and> ls_get ''c'' (files s2) = None"
proof -
  obtain r1 s1 where enc: "stream_file False (\<lambda>_. Some ()) mark_chunk (\<lambda>_. True) (\<lambda>_. None) demo_key ''a'' ''b''
      (Some 4096) (demo_files 5000) = (r1, s1)"
    by (cases "stream_file False (\<lambda>_. Some ()) mark_chunk (\<lambda>_. True) (\<lambda>_. None) demo_key ''a'' ''b''
      (Some 4096) (demo_files 5000)")
  obtain r2 s2 where dec: "stream_file False (\<lambda>_. Some ()) (unmark_chunk 4097) (\<lambda>_. True) (\<lambda>_. None) demo_key ''b'' ''c''
      (Some 4096) s1 = (r2, s2)"
    by (cases "stream_file False (\<lambda>_. Some ()) (unmark_chunk 4097) (\<lambda>_. True) (\<lambda>_. None) demo_key ''b'' ''c''
      (Some 4096) s1")
  let ?fb = "replicate 5000 (7 :: byte)"
  have src: "ls_get ''a'' (files (demo_files 5000)) = Some ?fb"
    by (simp add: demo_files_def ls_get_def)
  have "feed mark_chunk () ys \<noteq> None" for ys
    by (induction ys) (auto simp: mark_chunk_def)
  from this [of "split_chunks 4096 ?fb"] have r1: "r1 = Inr 5000"
    using native_file_spec [of 4096 "\<lambda>_. Some ()" mark_chunk "\<lambda>_. True" demo_key "''a''" "''b''" "demo_files 5000"]
      enc demo_key_opens src
    by (auto simp: stream_file_def effective_chunk_id stream_spec_def split: option.split_asm)
  have "isl r2 \<and> ls_get ''c'' (files s2) = None"
    by (rule same_chunk_size_misaligns [where c = "0 # take 4096 ?fb" and es' = "()" and fb = ?fb,
          OF _ _ _ _ _ _ _ _ _ _ src enc [unfolded r1] dec])
      (use demo_key_opens in \<open>simp_all add: mark_chunk_def unmark_chunk_def effective_chunk_id\<close>)
  with enc dec r1 show ?thesis by auto
qed

end
