(* ===== verification/Big_Int.thy ===== *)
theory Big_Int
  imports Hex_Codec
begin

text \<open>
  JavaScript \<open>BigInt\<close> as \<open>int\<close>: texts in base 10 and 16, big-endian bytes, remainder and modular
  exponentiation, as \<open>services/srp/srpClient.ts\<close> and \<open>services/srp/constants.ts\<close> use them. \<open>%\<close>
  takes the sign of the dividend; \<open>>> 1n\<close> is the floor of the half. A modulus of 0, on which the
  code throws, does not occur: the only modulus is the constant \<open>N\<close>.
\<close>

subsection \<open>Texts\<close>

function radix_list :: "nat \<Rightarrow> nat \<Rightarrow> nat list" where
  "radix_list b n = (if n < b \<or> b < 2 then [n] else radix_list b (n div b) @ [n mod b])"
  by pat_completeness auto
termination
  by (relation "measure snd") auto

declare radix_list.simps [simp del]

definition big_to_string :: "nat \<Rightarrow> int \<Rightarrow> string" where
  "big_to_string b n =
     (if n < 0 then CHR ''-'' # map hex_digit (radix_list b (nat (- n)))
      else map hex_digit (radix_list b (nat n)))"

fun radix_value :: "nat \<Rightarrow> nat \<Rightarrow> string \<Rightarrow> nat option" where
  "radix_value b acc [] = Some acc"
| "radix_value b acc (c # cs) =
     (case digit_val c of
        Some d \<Rightarrow> if d < b then radix_value b (b * acc + d) cs else None
      | None \<Rightarrow> None)"

definition some_digits :: "nat \<Rightarrow> string \<Rightarrow> int option" where
  "some_digits b s = (if s = [] then None else map_option int (radix_value b 0 s))"

definition trim_text :: "string \<Rightarrow> string" where
  "trim_text s = rev (dropWhile is_space (rev (dropWhile is_space s)))"

text \<open>\<open>BigInt(text)\<close>; \<open>None\<close> is the \<open>SyntaxError\<close>.\<close>

definition radix_of :: "char \<Rightarrow> nat option" where
  "radix_of c = (if c \<in> {CHR ''x'', CHR ''X''} then Some 16
     else if c \<in> {CHR ''o'', CHR ''O''} then Some 8
     else if c \<in> {CHR ''b'', CHR ''B''} then Some 2 else None)"

fun parse_literal :: "string \<Rightarrow> int option" where
  "parse_literal [] = Some 0"
| "parse_literal [c] = some_digits 10 [c]"
| "parse_literal (c # d # cs) =
     (if c = CHR ''-'' then map_option uminus (some_digits 10 (d # cs))
      else if c = CHR ''+'' then some_digits 10 (d # cs)
      else case (c = CHR ''0'', radix_of d) of
          (True, Some b) \<Rightarrow> some_digits b cs
        | _ \<Rightarrow> some_digits 10 (c # d # cs))"

definition parse_big_int :: "string \<Rightarrow> int option" where
  "parse_big_int s = parse_literal (trim_text s)"

subsection \<open>Bytes\<close>

definition srp_hex_to_bytes :: "string \<Rightarrow> bytes" where
  "srp_hex_to_bytes hex = hex_to_bytes (if odd (length hex) then CHR ''0'' # hex else hex)"

definition big_int_to_bytes :: "int \<Rightarrow> bytes" where
  "big_int_to_bytes n = (if n = 0 then [0] else srp_hex_to_bytes (big_to_string 16 n))"

text \<open>The text is never empty and has hexadecimal digits only, so \<open>BigInt\<close> does not throw here.\<close>

definition bytes_to_big_int :: "bytes \<Rightarrow> int" where
  "bytes_to_big_int bs =
     (if bs = [] then 0
      else case parse_big_int (''0x'' @ bytes_to_hex bs) of Some n \<Rightarrow> n | None \<Rightarrow> 0)"

definition pad_to :: "nat \<Rightarrow> bytes \<Rightarrow> bytes" where
  "pad_to len raw = (if length raw \<ge> len then drop (length raw - len) raw
     else replicate (len - length raw) 0 @ raw)"

subsection \<open>Modular exponentiation\<close>

definition big_rem :: "int \<Rightarrow> int \<Rightarrow> int" where
  "big_rem a b = sgn a * (\<bar>a\<bar> mod \<bar>b\<bar>)"

function mod_pow_loop :: "int \<Rightarrow> int \<Rightarrow> int \<Rightarrow> int \<Rightarrow> int" where
  "mod_pow_loop m result base e =
     (if e > 0
      then mod_pow_loop m (if big_rem e 2 = 1 then big_rem (result * base) m else result)
             (big_rem (base * base) m) (e div 2)
      else result)"
  by pat_completeness auto
termination
  by (relation "measure (\<lambda>(_, _, _, e). nat e)") auto

declare mod_pow_loop.simps [simp del]

definition mod_pow :: "int \<Rightarrow> int \<Rightarrow> int \<Rightarrow> int" where
  "mod_pow base e m =
     (if m = 1 then 0 else mod_pow_loop m 1 (big_rem (big_rem base m + m) m) e)"

subsection \<open>Facts: exponentiation\<close>

lemma big_rem_nonneg: "0 \<le> a \<Longrightarrow> 0 < b \<Longrightarrow> big_rem a b = a mod b"
  by (cases "a = 0") (simp_all add: big_rem_def)

lemma big_rem_mod: "0 < b \<Longrightarrow> big_rem a b mod b = a mod b"
proof (cases "0 \<le> a")
  case False
  assume "0 < b"
  then have "big_rem a b = - (- a mod b)" using False by (simp add: big_rem_def)
  also have "\<dots> mod b = a mod b" by (simp add: mod_minus_eq)
  finally show ?thesis .
qed (simp add: big_rem_nonneg)

lemma big_rem_bounds:
  assumes "0 < b"
  shows "- b < big_rem a b" and "big_rem a b < b"
proof -
  define r where "r = \<bar>a\<bar> mod \<bar>b\<bar>"
  have r: "0 \<le> r" "r < b" using assms by (simp_all add: r_def)
  have "big_rem a b = r \<or> big_rem a b = - r \<or> big_rem a b = 0"
    by (auto simp: big_rem_def r_def sgn_if)
  with r show "- b < big_rem a b" "big_rem a b < b" by auto
qed

lemma normalize_mod: "0 < m \<Longrightarrow> big_rem (big_rem a m + m) m = a mod m"
  using big_rem_bounds [of m a] big_rem_mod [of m a] by (simp add: big_rem_nonneg)

lemma mod_pow_loop_spec:
  "0 < m \<Longrightarrow> 0 \<le> r \<Longrightarrow> r < m \<Longrightarrow> 0 \<le> base \<Longrightarrow> 0 \<le> e \<Longrightarrow>
     mod_pow_loop m r base e = r * base ^ nat e mod m"
proof (induction m r base e rule: mod_pow_loop.induct)
  case (1 m r base e)
  show ?case
  proof (cases "e > 0")
    case False
    then show ?thesis using 1(2-) by (subst mod_pow_loop.simps) simp
  next
    case True
    let ?r = "if big_rem e 2 = 1 then big_rem (r * base) m else r"
    have "int (nat e) = int (2 * nat (e div 2) + nat (e mod 2))"
      using True mult_div_mod_eq [of 2 e] by (simp add: pos_imp_zdiv_nonneg_iff)
    then have e: "nat e = 2 * nat (e div 2) + nat (e mod 2)" by (simp only: of_nat_eq_iff)
    have par: "big_rem e 2 = e mod 2" using True by (simp add: big_rem_nonneg)
    have r: "0 \<le> ?r" "?r < m" using 1(2-) by (auto simp: big_rem_nonneg)
    have "mod_pow_loop m r base e = mod_pow_loop m ?r (big_rem (base * base) m) (e div 2)"
      using True by (subst mod_pow_loop.simps) simp
    also have "\<dots> = ?r * (base * base mod m) ^ nat (e div 2) mod m"
      using 1(1) [OF True 1(2) r] 1(2-) by (simp add: big_rem_nonneg)
    also have "\<dots> = ?r * (base * base) ^ nat (e div 2) mod m"
      by (metis mod_mult_right_eq power_mod)
    also have "\<dots> = r * base ^ nat e mod m"
    proof (cases "e mod 2 = 1")
      case True
      have "?r * (base * base) ^ nat (e div 2) mod m = (r * base) * (base * base) ^ nat (e div 2) mod m"
        using True par 1(2-) by (simp add: big_rem_nonneg mod_mult_left_eq)
      also have "(r * base) * (base * base) ^ nat (e div 2) = r * base ^ nat e"
        unfolding e using True by (simp add: power_add power_mult power2_eq_square)
      finally show ?thesis .
    next
      case False
      then have "e mod 2 = 0" by simp
      then show ?thesis unfolding e using par by (simp add: power_mult power2_eq_square)
    qed
    finally show ?thesis .
  qed
qed

lemma mod_pow_power:
  assumes "0 < m" and "0 \<le> e"
  shows "mod_pow base e m = base ^ nat e mod m"
proof (cases "m = 1")
  case False
  then have "mod_pow base e m = 1 * (base mod m) ^ nat e mod m"
    using assms mod_pow_loop_spec [of m 1 "base mod m" e]
    by (simp add: mod_pow_def normalize_mod)
  then show ?thesis by (simp add: power_mod)
qed (simp add: mod_pow_def)

text \<open>
  C40: The square-and-multiply loop ends for every exponent and computes the power: for a
  positive modulus and a non-negative exponent, \<open>modPow\<close> is the exponent's power of the base
  (of either sign) modulo the modulus.
\<close>

theorem mod_pow_is_power:
  assumes "0 < m" and "0 \<le> e"
  shows "mod_pow base e m = base ^ nat e mod m"
  using assms by (rule mod_pow_power)

theorem mod_pow_is_power_witness: "mod_pow (- 3) 5 7 = (- 3) ^ 5 mod 7 \<and> mod_pow (- 3) 5 7 = 2"
  using mod_pow_is_power [of 7 5 "- 3"] by simp


subsection \<open>Facts: texts and bytes\<close>

lemma radix_list_digits: "2 \<le> b \<Longrightarrow> \<forall>d\<in>set (radix_list b n). d < b"
proof (induction b n rule: radix_list.induct)
  case (1 b n)
  then show ?case by (subst radix_list.simps) auto
qed

lemma radix_list_nonempty [simp]: "radix_list b n \<noteq> []"
  by (subst radix_list.simps) simp

text \<open>The value of a digit list, and of the text of one.\<close>

definition digits_number :: "nat \<Rightarrow> nat list \<Rightarrow> nat" where
  "digits_number b ds = foldl (\<lambda>a d. b * a + d) 0 ds"

lemma digits_number_foldl: "foldl (\<lambda>a d. b * a + d) acc ds = acc * b ^ length ds + digits_number b ds"
proof (induction ds arbitrary: acc)
  case Nil
  then show ?case by (simp add: digits_number_def)
next
  case (Cons d ds)
  have "digits_number b (d # ds) = d * b ^ length ds + digits_number b ds"
    using Cons [of d] by (simp add: digits_number_def)
  with Cons [of "b * acc + d"] show ?case by (simp add: algebra_simps)
qed

lemma digits_number_append:
  "digits_number b (xs @ ys) = digits_number b xs * b ^ length ys + digits_number b ys"
  by (simp only: digits_number_def [of b "xs @ ys"] digits_number_def [of b xs] foldl_append
      digits_number_foldl [of b "foldl _ _ _"])

lemma digits_number_Nil [simp]: "digits_number b [] = 0"
  by (simp add: digits_number_def)

lemma digits_number_Cons: "digits_number b (d # ds) = d * b ^ length ds + digits_number b ds"
  using digits_number_append [of b "[d]" ds] by (simp add: digits_number_def)

lemma digits_number_radix: "2 \<le> b \<Longrightarrow> digits_number b (radix_list b n) = n"
proof (induction b n rule: radix_list.induct)
  case (1 b n)
  show ?case
  proof (cases "n < b")
    case True
    then show ?thesis by (subst radix_list.simps) (simp add: digits_number_Cons)
  next
    case False
    then have "digits_number b (radix_list b n) = (n div b) * b + n mod b"
      using 1 by (subst radix_list.simps) (simp add: digits_number_append digits_number_Cons)
    then show ?thesis by simp
  qed
qed

lemma radix_value_hex:
  "\<forall>d\<in>set ds. d < b \<Longrightarrow> b \<le> 16 \<Longrightarrow>
     radix_value b acc (map hex_digit ds) = Some (foldl (\<lambda>a d. b * a + d) acc ds)"
proof (induction ds arbitrary: acc)
  case (Cons d ds)
  then show ?case using hex_digit_cases [of d] by simp
qed simp

lemma some_digits_hex:
  "\<forall>d\<in>set ds. d < b \<Longrightarrow> b \<le> 16 \<Longrightarrow> ds \<noteq> [] \<Longrightarrow>
     some_digits b (map hex_digit ds) = Some (int (digits_number b ds))"
  by (simp add: some_digits_def radix_value_hex digits_number_def)

lemma trim_hex:
  assumes "\<forall>d\<in>set ds. d < 16" and "ds \<noteq> []" and "p = [] \<or> \<not> is_space (hd p)"
  shows "trim_text (p @ map hex_digit ds) = p @ map hex_digit ds"
proof -
  have ns: "\<not> is_space (hex_digit d)" if "d \<in> set ds" for d
    using that assms(1) hex_digit_cases by blast
  have l: "dropWhile is_space (p @ map hex_digit ds) = p @ map hex_digit ds"
    using assms(2,3) ns by (cases p; cases ds) auto
  obtain e es where "rev ds = e # es" using assms(2) by (cases "rev ds") auto
  moreover from this have "\<not> is_space (hex_digit e)" using ns by (metis list.set_intros(1) set_rev)
  ultimately have "dropWhile is_space (rev (p @ map hex_digit ds)) = rev (p @ map hex_digit ds)"
    by (simp add: rev_map [symmetric])
  then show ?thesis unfolding trim_text_def l by simp
qed

lemma hex_digit_radix: "d < 10 \<Longrightarrow> radix_of (hex_digit d) = None"
proof -
  assume "d < 10"
  then have "d \<in> {0,1,2,3,4,5,6,7,8,9}" unfolding insert_iff empty_iff by arith
  then show ?thesis
    by (elim insertE emptyE) (simp_all add: hex_digit_def radix_of_def)
qed

text \<open>Decimal texts read back.\<close>

lemma parse_decimal:
  assumes "0 \<le> n"
  shows "parse_big_int (big_to_string 10 n) = Some n"
proof -
  let ?ds = "radix_list 10 (nat n)"
  have dig: "\<forall>d\<in>set ?ds. d < 10" by (rule radix_list_digits) simp
  then have "\<forall>d\<in>set ?ds. d < 16" by fastforce
  from trim_hex [OF this, of "[]"]
  have "parse_big_int (big_to_string 10 n) = parse_literal (map hex_digit ?ds)"
    using assms by (simp add: parse_big_int_def big_to_string_def)
  also have "\<dots> = some_digits 10 (map hex_digit ?ds)"
  proof (cases ?ds)
    case (Cons c cs)
    then have c: "c < 10" using dig by simp
    show ?thesis
    proof (cases cs)
      case Nil
      then show ?thesis using Cons by simp
    next
      case (Cons d es)
      then have "d < 10" using dig \<open>?ds = c # cs\<close> by simp
      with c Cons \<open>?ds = c # cs\<close> show ?thesis
        using hex_digit_cases [of c] by (simp add: hex_digit_radix split: bool.split)
    qed
  qed simp
  also have "\<dots> = Some n"
    using some_digits_hex [OF dig] assms by (simp add: digits_number_radix)
  finally show ?thesis .
qed

text \<open>The value of a byte array.\<close>

definition bytes_value :: "bytes \<Rightarrow> nat" where
  "bytes_value bs = digits_number 256 (map unat bs)"

definition nibbles :: "bytes \<Rightarrow> nat list" where
  "nibbles bs = concat (map (\<lambda>b. [unat b div 16, unat b mod 16]) bs)"

lemma nibbles_hex: "bytes_to_hex bs = map hex_digit (nibbles bs)"
  by (induction bs) (simp_all add: bytes_to_hex_def nibbles_def byte_hex_def)

lemma nibbles_less: "\<forall>d\<in>set (nibbles bs). d < 16"
  using byte_less by (fastforce simp: nibbles_def less_mult_imp_div_less)

lemma length_nibbles: "length (nibbles bs) = 2 * length bs"
  by (induction bs) (simp_all add: nibbles_def)

lemma nibbles_value: "digits_number 16 (nibbles bs) = bytes_value bs"
proof (induction bs)
  case Nil
  then show ?case by (simp add: nibbles_def bytes_value_def)
next
  case (Cons b bs)
  have len: "(16 :: nat) ^ length (nibbles bs) = 256 ^ length bs"
    by (simp add: length_nibbles power_mult)
  have "nibbles (b # bs) = [unat b div 16, unat b mod 16] @ nibbles bs"
    by (simp add: nibbles_def)
  then have "digits_number 16 (nibbles (b # bs)) =
      (unat b div 16 * 16 + unat b mod 16) * 256 ^ length bs + bytes_value bs"
    unfolding \<open>nibbles (b # bs) = _\<close> digits_number_append len Cons by (simp add: digits_number_Cons)
  also have "\<dots> = bytes_value (b # bs)"
    by (simp add: bytes_value_def digits_number_Cons)
  finally show ?case .
qed

lemma bytes_to_big_int_value: "bytes_to_big_int bs = int (bytes_value bs)"
proof (cases "bs = []")
  case True
  then show ?thesis by (simp add: bytes_to_big_int_def bytes_value_def)
next
  case False
  then have ne: "nibbles bs \<noteq> []" using length_nibbles [of bs] by auto
  have "trim_text (''0x'' @ bytes_to_hex bs) = ''0x'' @ bytes_to_hex bs"
    unfolding nibbles_hex by (rule trim_hex [OF nibbles_less ne]) (simp add: is_space_def)
  then have "parse_big_int (''0x'' @ bytes_to_hex bs) = some_digits 16 (bytes_to_hex bs)"
    by (simp add: parse_big_int_def radix_of_def)
  also have "\<dots> = Some (int (bytes_value bs))"
    unfolding nibbles_hex using some_digits_hex [OF nibbles_less _ ne] by (simp add: nibbles_value)
  finally show ?thesis using False by (simp add: bytes_to_big_int_def)
qed

lemma hex_pairs_value:
  "\<forall>d\<in>set ds. d < 16 \<Longrightarrow> even (length ds) \<Longrightarrow>
     bytes_value (hex_to_bytes (map hex_digit ds)) = digits_number 16 ds"
proof (induction ds rule: induct_list012)
  case (3 h l ds)
  have b: "to_uint8 (parse_int16 [hex_digit h, hex_digit l]) = (of_nat (16 * h + l) :: byte)"
    using 3(3) parse_int16_pair [of h l] by (simp add: to_uint8_def)
  have u: "unat (of_nat (16 * h + l) :: byte) = 16 * h + l"
    using 3(3) unfolding unat_of_nat by simp
  have len: "length (hex_to_bytes (map hex_digit ds)) = length ds div 2"
    by (simp add: length_hex_to_bytes)
  have pow: "(256 :: nat) ^ (length ds div 2) = 16 ^ length ds"
  proof -
    obtain k where "length ds = 2 * k" using 3(4) by auto
    then show ?thesis by (simp add: power_mult)
  qed
  have "bytes_value (hex_to_bytes (map hex_digit (h # l # ds))) =
      (16 * h + l) * 16 ^ length ds + digits_number 16 ds"
    using 3 b u len pow by (simp add: bytes_value_def digits_number_Cons)
  then show ?case by (simp add: digits_number_Cons algebra_simps)
qed (simp_all add: bytes_value_def)

lemma srp_hex_value:
  assumes "\<forall>d\<in>set ds. d < 16"
  shows "bytes_value (srp_hex_to_bytes (map hex_digit ds)) = digits_number 16 ds"
proof -
  have z: "CHR ''0'' # map hex_digit ds = map hex_digit (0 # ds)" by (simp add: hex_digit_def)
  show ?thesis
  proof (cases "even (length ds)")
    case True
    then show ?thesis using hex_pairs_value [OF assms] by (simp add: srp_hex_to_bytes_def)
  next
    case False
    have "\<forall>d\<in>set (0 # ds). d < 16" using assms by simp
    from hex_pairs_value [OF this] False show ?thesis
      by (simp only: srp_hex_to_bytes_def z length_map if_True length_Cons even_Suc not_not)
        (simp add: digits_number_Cons)
  qed
qed

lemma big_int_to_bytes_value: "0 \<le> n \<Longrightarrow> bytes_value (big_int_to_bytes n) = nat n"
proof (cases "n = 0")
  case True
  then show ?thesis by (simp add: big_int_to_bytes_def bytes_value_def digits_number_Cons)
next
  case False
  assume "0 \<le> n"
  then show ?thesis using False
    by (simp add: big_int_to_bytes_def big_to_string_def srp_hex_value radix_list_digits digits_number_radix)
qed

lemma length_radix_list: "2 \<le> b \<Longrightarrow> 0 < k \<Longrightarrow> n < b ^ k \<Longrightarrow> length (radix_list b n) \<le> k"
proof (induction b n arbitrary: k rule: radix_list.induct)
  case (1 b n)
  show ?case
  proof (cases "n < b")
    case True
    then show ?thesis using 1(3) by (subst radix_list.simps) simp
  next
    case False
    then obtain j where k: "k = Suc j" and "0 < j" using 1(3,4) by (cases k; cases "k = 1") auto
    have "n div b < b ^ j" using 1(2,4) k by (simp add: div_less_iff_less_mult mult.commute)
    then have "length (radix_list b (n div b)) \<le> j" using 1(1) [OF _ 1(2) \<open>0 < j\<close>] False 1(2) by simp
    then show ?thesis using False 1(2) k by (subst radix_list.simps) simp
  qed
qed

lemma length_big_int_to_bytes:
  assumes "0 \<le> n" and "0 < k" and "n < 256 ^ k"
  shows "length (big_int_to_bytes n) \<le> k"
proof (cases "n = 0")
  case True
  then show ?thesis using assms(2) by (simp add: big_int_to_bytes_def)
next
  case False
  have "(256 :: int) ^ k = 16 ^ (2 * k)" by (simp add: power_mult)
  then have "int (nat n) < int (16 ^ (2 * k))" using assms by simp
  then have "nat n < 16 ^ (2 * k)" by (simp only: of_nat_less_iff)
  then have "length (radix_list 16 (nat n)) \<le> 2 * k"
    using length_radix_list [of 16 "2 * k" "nat n"] assms(2) by simp
  then have "(if odd (length (radix_list 16 (nat n))) then Suc (length (radix_list 16 (nat n)))
      else length (radix_list 16 (nat n))) div 2 \<le> k" by presburger
  then show ?thesis using False assms(1)
    by (auto simp: big_int_to_bytes_def big_to_string_def srp_hex_to_bytes_def length_hex_to_bytes)
qed

lemma bytes_value_zeros: "bytes_value (replicate n 0 @ bs) = bytes_value bs"
  by (induction n) (simp_all add: bytes_value_def digits_number_Cons)

lemma length_pad_to [simp]: "length (pad_to n raw) = n"
  by (simp add: pad_to_def)

lemma pad_to_value: "length raw \<le> n \<Longrightarrow> bytes_value (pad_to n raw) = bytes_value raw"
  by (cases "length raw = n") (simp_all add: pad_to_def bytes_value_zeros)

lemma srp_hex_bytes: "srp_hex_to_bytes (bytes_to_hex bs) = bs"
  by (simp add: srp_hex_to_bytes_def length_bytes_to_hex hex_inverse)

text \<open>
  The byte form of a non-negative \<open>BigInt\<close> is read back exactly, at its own length, padded
  to any length that holds it, and as a decimal text.
\<close>

theorem big_int_roundtrip:
  assumes "0 \<le> n"
  shows "bytes_to_big_int (big_int_to_bytes n) = n \<and>
    (0 < len \<and> n < 256 ^ len \<longrightarrow> bytes_to_big_int (pad_to len (big_int_to_bytes n)) = n) \<and>
    parse_big_int (big_to_string 10 n) = Some n"
  using assms big_int_to_bytes_value [OF assms] length_big_int_to_bytes [OF assms, of len]
  by (simp add: bytes_to_big_int_value pad_to_value parse_decimal)

theorem big_int_roundtrip_witness:
  "bytes_to_big_int (big_int_to_bytes 70000) = 70000 \<and>
   bytes_to_big_int (pad_to 4 (big_int_to_bytes 70000)) = 70000"
  using big_int_roundtrip [of 70000 4] by simp

subsection \<open>Reading hexadecimal constants\<close>

lemma trim_plain: "s \<noteq> [] \<Longrightarrow> \<not> is_space (hd s) \<Longrightarrow> \<not> is_space (last s) \<Longrightarrow> trim_text s = s"
proof -
  assume s: "s \<noteq> []" "\<not> is_space (hd s)" "\<not> is_space (last s)"
  then have "dropWhile is_space s = s" by (cases s) simp_all
  moreover have "dropWhile is_space (rev s) = rev s"
    using s by (cases s rule: rev_cases) simp_all
  ultimately show ?thesis by (simp add: trim_text_def)
qed

lemma radix_value_append:
  "radix_value b acc (s @ t) = Option.bind (radix_value b acc s) (\<lambda>a. radix_value b a t)"
  by (induction s arbitrary: acc) (auto split: option.split)

lemma upper_digits:
  "digit_val (CHR ''0'') = Some 0"
  "digit_val (CHR ''1'') = Some 1"
  "digit_val (CHR ''2'') = Some 2"
  "digit_val (CHR ''3'') = Some 3"
  "digit_val (CHR ''4'') = Some 4"
  "digit_val (CHR ''5'') = Some 5"
  "digit_val (CHR ''6'') = Some 6"
  "digit_val (CHR ''7'') = Some 7"
  "digit_val (CHR ''8'') = Some 8"
  "digit_val (CHR ''9'') = Some 9"
  "digit_val (CHR ''A'') = Some 10"
  "digit_val (CHR ''B'') = Some 11"
  "digit_val (CHR ''C'') = Some 12"
  "digit_val (CHR ''D'') = Some 13"
  "digit_val (CHR ''E'') = Some 14"
  "digit_val (CHR ''F'') = Some 15"
  by code_simp+

lemma radix_value_step:
  "digit_val c = Some d \<Longrightarrow> d < b \<Longrightarrow> radix_value b acc (c # cs) = radix_value b (b * acc + d) cs"
  by simp

lemmas read_hex = radix_value.simps(1) upper_digits [THEN radix_value_step]

end
