(* ===== verification/Srp_Client.thy ===== *)
theory Srp_Client
  imports Big_Int Text_Codec Web_Crypto
begin

text \<open>
  \<open>services/srp/constants.ts\<close> and \<open>services/srp/srpClient.ts\<close>: the SRP-6a client of the web
  platform. SHA-256 is WebCrypto's (\<open>wc_sha256\<close>, \<open>None\<close> when the promise rejects), random bytes
  are arguments, the API client is the record \<open>srp_api\<close> (\<open>None\<close>: the request fails). A throwing
  function returns \<open>Inl\<close>.
\<close>

subsection \<open>Constants\<close>

definition N_HEX :: string where
  "N_HEX =
     ''FFFFFFFFFFFFFFFFD0C52B70D29606C1E0DB00F6FFF002BACA73E0E3C36C2F0F'' @
     ''4BCD4A989A3D3B0E99CC6B7C84ED89A23A76FBB6A1DB6F9E7C4C8C5C9B5E7D4'' @
     ''F8C7E3D9B1A5F0E2D4C6B8A9F1D3E5C7B9A1D3F5E7D9C1B3A5F7E9D1C3B5A7'' @
     ''C9E1D3F5E7C9B1A3D5F7E9D1C3B5A7C9E1D3F5E7C9B1A3D5F7E9D1C3B5A7C9'' @
     ''E1D3F5E7C9B1A3D5F7E9D1C3B5A7C9E1D3F5E7C9B1A3FFFFFFFFFFFFFFFF''"

definition G :: int where "G = 2"

definition hex_to_big_int :: "string \<Rightarrow> int option" where
  "hex_to_big_int hex = parse_big_int (''0x'' @ hex)"

definition N :: int where
  "N = (case hex_to_big_int N_HEX of Some n \<Rightarrow> n | None \<Rightarrow> 0)"

definition N_BYTE_LENGTH :: nat where
  "N_BYTE_LENGTH = nat (ceil_div (int (length N_HEX)) 2)"

subsection \<open>Computations\<close>

datatype srp_error =
    HashRejected
  | ZeroA
  | BOutOfRange
  | BZeroModN
  | UZero
  | InitFailed
  | VerifyFailed
  | BNotANumber
  | BadServerProof

definition pad_to_N :: "int \<Rightarrow> bytes" where
  "pad_to_N v = pad_to N_BYTE_LENGTH (big_int_to_bytes v)"

definition sha256_concat :: "webcrypto \<Rightarrow> bytes list \<Rightarrow> srp_error + bytes" where
  "sha256_concat wc parts = or_throw HashRejected (wc_sha256 wc (concat parts))"

definition compute_k :: "webcrypto \<Rightarrow> srp_error + int" where
  "compute_k wc = attempt (sha256_concat wc [pad_to_N N, pad_to_N G]) (\<lambda>h. Inr (bytes_to_big_int h))"

definition compute_u :: "webcrypto \<Rightarrow> int \<Rightarrow> int \<Rightarrow> srp_error + int" where
  "compute_u wc A B = attempt (sha256_concat wc [pad_to_N A, pad_to_N B]) (\<lambda>h. Inr (bytes_to_big_int h))"

definition compute_M1 :: "webcrypto \<Rightarrow> int \<Rightarrow> int \<Rightarrow> bytes \<Rightarrow> srp_error + bytes" where
  "compute_M1 wc A B K = sha256_concat wc [big_int_to_bytes A, big_int_to_bytes B, K]"

definition compute_M2 :: "webcrypto \<Rightarrow> int \<Rightarrow> bytes \<Rightarrow> bytes \<Rightarrow> srp_error + bytes" where
  "compute_M2 wc A M1 K = sha256_concat wc [big_int_to_bytes A, M1, K]"

definition derive_srp_x :: "webcrypto \<Rightarrow> bytes \<Rightarrow> string \<Rightarrow> string \<Rightarrow> srp_error + int" where
  "derive_srp_x wc salt email password =
     attempt (or_throw HashRejected (wc_sha256 wc (utf8_encode (email @ '':'' @ password))))
       (\<lambda>inner. attempt (sha256_concat wc [salt, inner]) (\<lambda>h. Inr (bytes_to_big_int h)))"

subsection \<open>Public operations\<close>

record ephemeral_key_pair =
  private_key :: int
  public_key :: int

record srp_session =
  session_A :: int
  session_key :: bytes
  session_M1 :: bytes

record srp_login_result =
  access_token :: string
  refresh_token :: string
  login_key :: bytes

record srp_registration =
  reg_salt :: string
  reg_verifier :: string

record srp_api =
  srp_init :: "string \<Rightarrow> (string \<times> string \<times> string) option"
  srp_verify :: "string \<Rightarrow> string \<Rightarrow> string \<Rightarrow> (string \<times> string \<times> string) option"

definition generate_ephemeral :: "bytes \<Rightarrow> srp_error + ephemeral_key_pair" where
  "generate_ephemeral aBytes =
     (let a = bytes_to_big_int aBytes; A = mod_pow G a N in
      if A = 0 then Inl ZeroA else Inr \<lparr>private_key = a, public_key = A\<rparr>)"

definition derive_session ::
  "webcrypto \<Rightarrow> string \<Rightarrow> string \<Rightarrow> bytes \<Rightarrow> int \<Rightarrow> int \<Rightarrow> int \<Rightarrow> srp_error + srp_session" where
  "derive_session wc email password salt clientPrivate clientPublic serverPublic =
     (if serverPublic \<le> 0 \<or> serverPublic \<ge> N then Inl BOutOfRange
      else if big_rem serverPublic N = 0 then Inl BZeroModN
      else attempt (compute_k wc) (\<lambda>k.
           attempt (compute_u wc clientPublic serverPublic) (\<lambda>u.
           if u = 0 then Inl UZero
           else attempt (derive_srp_x wc salt email password) (\<lambda>x.
             let gx = mod_pow G x N;
                 kgx = big_rem (k * gx) N;
                 base0 = serverPublic - kgx;
                 base = (if base0 < 0 then big_rem (big_rem base0 N + N) N else big_rem base0 N);
                 S = mod_pow base (clientPrivate + u * x) N
             in attempt (or_throw HashRejected (wc_sha256 wc (big_int_to_bytes S))) (\<lambda>K.
                attempt (compute_M1 wc clientPublic serverPublic K) (\<lambda>M1.
                Inr \<lparr>session_A = clientPublic, session_key = K, session_M1 = M1\<rparr>))))))"

text \<open>The comparison collects the differing bits of all bytes.\<close>

definition same_bytes :: "bytes \<Rightarrow> bytes \<Rightarrow> bool" where
  "same_bytes xs ys =
     (length xs = length ys \<and> fold (\<lambda>(x, y) diff. or diff (xor x y)) (zip xs ys) 0 = 0)"

definition verify_server_proof ::
  "webcrypto \<Rightarrow> int \<Rightarrow> bytes \<Rightarrow> bytes \<Rightarrow> string \<Rightarrow> srp_error + bool" where
  "verify_server_proof wc A M1 K serverM2Hex =
     attempt (compute_M2 wc A M1 K) (\<lambda>e. Inr (same_bytes e (srp_hex_to_bytes serverM2Hex)))"

definition srp_login ::
  "webcrypto \<Rightarrow> bytes \<Rightarrow> string \<Rightarrow> string \<Rightarrow> srp_api \<Rightarrow> srp_error + srp_login_result" where
  "srp_login wc aBytes email password api =
     attempt (or_throw InitFailed (srp_init api email)) (\<lambda>(saltHex, Btext, sid).
     attempt (or_throw BNotANumber (parse_big_int Btext)) (\<lambda>B.
     attempt (generate_ephemeral aBytes) (\<lambda>e.
     attempt (derive_session wc email password (srp_hex_to_bytes saltHex)
                (private_key e) (public_key e) B) (\<lambda>session.
     attempt (or_throw VerifyFailed (srp_verify api sid (big_to_string 10 (public_key e))
                (bytes_to_hex (session_M1 session)))) (\<lambda>(M2, access, refresh).
     attempt (verify_server_proof wc (public_key e) (session_M1 session) (session_key session) M2) (\<lambda>ok.
     if \<not> ok then Inl BadServerProof
     else Inr \<lparr>access_token = access, refresh_token = refresh, login_key = session_key session\<rparr>))))))"

definition srp_register :: "webcrypto \<Rightarrow> bytes \<Rightarrow> string \<Rightarrow> string \<Rightarrow> srp_error + srp_registration" where
  "srp_register wc salt email password =
     attempt (derive_srp_x wc salt email password) (\<lambda>x.
       Inr \<lparr>reg_salt = bytes_to_hex salt,
         reg_verifier = bytes_to_hex (big_int_to_bytes (mod_pow G x N))\<rparr>)"

subsection \<open>The modulus\<close>

declare radix_value.simps(2) [simp del]

lemma N_segments:
  "radix_value 16 0
     ''FFFFFFFFFFFFFFFFD0C52B70D29606C1E0DB00F6FFF002BACA73E0E3C36C2F0F'' =
   Some 0xFFFFFFFFFFFFFFFFD0C52B70D29606C1E0DB00F6FFF002BACA73E0E3C36C2F0F"
  "radix_value 16 0xFFFFFFFFFFFFFFFFD0C52B70D29606C1E0DB00F6FFF002BACA73E0E3C36C2F0F
     ''4BCD4A989A3D3B0E99CC6B7C84ED89A23A76FBB6A1DB6F9E7C4C8C5C9B5E7D4'' =
   Some 0xFFFFFFFFFFFFFFFFD0C52B70D29606C1E0DB00F6FFF002BACA73E0E3C36C2F0F4BCD4A989A3D3B0E99CC6B7C84ED89A23A76FBB6A1DB6F9E7C4C8C5C9B5E7D4"
  "radix_value 16 0xFFFFFFFFFFFFFFFFD0C52B70D29606C1E0DB00F6FFF002BACA73E0E3C36C2F0F4BCD4A989A3D3B0E99CC6B7C84ED89A23A76FBB6A1DB6F9E7C4C8C5C9B5E7D4
     ''F8C7E3D9B1A5F0E2D4C6B8A9F1D3E5C7B9A1D3F5E7D9C1B3A5F7E9D1C3B5A7'' =
   Some 0xFFFFFFFFFFFFFFFFD0C52B70D29606C1E0DB00F6FFF002BACA73E0E3C36C2F0F4BCD4A989A3D3B0E99CC6B7C84ED89A23A76FBB6A1DB6F9E7C4C8C5C9B5E7D4F8C7E3D9B1A5F0E2D4C6B8A9F1D3E5C7B9A1D3F5E7D9C1B3A5F7E9D1C3B5A7"
  "radix_value 16 0xFFFFFFFFFFFFFFFFD0C52B70D29606C1E0DB00F6FFF002BACA73E0E3C36C2F0F4BCD4A989A3D3B0E99CC6B7C84ED89A23A76FBB6A1DB6F9E7C4C8C5C9B5E7D4F8C7E3D9B1A5F0E2D4C6B8A9F1D3E5C7B9A1D3F5E7D9C1B3A5F7E9D1C3B5A7
     ''C9E1D3F5E7C9B1A3D5F7E9D1C3B5A7C9E1D3F5E7C9B1A3D5F7E9D1C3B5A7C9'' =
   Some 0xFFFFFFFFFFFFFFFFD0C52B70D29606C1E0DB00F6FFF002BACA73E0E3C36C2F0F4BCD4A989A3D3B0E99CC6B7C84ED89A23A76FBB6A1DB6F9E7C4C8C5C9B5E7D4F8C7E3D9B1A5F0E2D4C6B8A9F1D3E5C7B9A1D3F5E7D9C1B3A5F7E9D1C3B5A7C9E1D3F5E7C9B1A3D5F7E9D1C3B5A7C9E1D3F5E7C9B1A3D5F7E9D1C3B5A7C9"
  "radix_value 16 0xFFFFFFFFFFFFFFFFD0C52B70D29606C1E0DB00F6FFF002BACA73E0E3C36C2F0F4BCD4A989A3D3B0E99CC6B7C84ED89A23A76FBB6A1DB6F9E7C4C8C5C9B5E7D4F8C7E3D9B1A5F0E2D4C6B8A9F1D3E5C7B9A1D3F5E7D9C1B3A5F7E9D1C3B5A7C9E1D3F5E7C9B1A3D5F7E9D1C3B5A7C9E1D3F5E7C9B1A3D5F7E9D1C3B5A7C9
     ''E1D3F5E7C9B1A3D5F7E9D1C3B5A7C9E1D3F5E7C9B1A3FFFFFFFFFFFFFFFF'' =
   Some 0xFFFFFFFFFFFFFFFFD0C52B70D29606C1E0DB00F6FFF002BACA73E0E3C36C2F0F4BCD4A989A3D3B0E99CC6B7C84ED89A23A76FBB6A1DB6F9E7C4C8C5C9B5E7D4F8C7E3D9B1A5F0E2D4C6B8A9F1D3E5C7B9A1D3F5E7D9C1B3A5F7E9D1C3B5A7C9E1D3F5E7C9B1A3D5F7E9D1C3B5A7C9E1D3F5E7C9B1A3D5F7E9D1C3B5A7C9E1D3F5E7C9B1A3D5F7E9D1C3B5A7C9E1D3F5E7C9B1A3FFFFFFFFFFFFFFFF"
  by (simp_all add: read_hex)

declare radix_value.simps(2) [simp]

lemma N_numeral: "hex_to_big_int N_HEX = Some N" "N = 0xFFFFFFFFFFFFFFFFD0C52B70D29606C1E0DB00F6FFF002BACA73E0E3C36C2F0F4BCD4A989A3D3B0E99CC6B7C84ED89A23A76FBB6A1DB6F9E7C4C8C5C9B5E7D4F8C7E3D9B1A5F0E2D4C6B8A9F1D3E5C7B9A1D3F5E7D9C1B3A5F7E9D1C3B5A7C9E1D3F5E7C9B1A3D5F7E9D1C3B5A7C9E1D3F5E7C9B1A3D5F7E9D1C3B5A7C9E1D3F5E7C9B1A3D5F7E9D1C3B5A7C9E1D3F5E7C9B1A3FFFFFFFFFFFFFFFF"
proof -
  have v: "radix_value 16 0 N_HEX = Some 0xFFFFFFFFFFFFFFFFD0C52B70D29606C1E0DB00F6FFF002BACA73E0E3C36C2F0F4BCD4A989A3D3B0E99CC6B7C84ED89A23A76FBB6A1DB6F9E7C4C8C5C9B5E7D4F8C7E3D9B1A5F0E2D4C6B8A9F1D3E5C7B9A1D3F5E7D9C1B3A5F7E9D1C3B5A7C9E1D3F5E7C9B1A3D5F7E9D1C3B5A7C9E1D3F5E7C9B1A3D5F7E9D1C3B5A7C9E1D3F5E7C9B1A3D5F7E9D1C3B5A7C9E1D3F5E7C9B1A3FFFFFFFFFFFFFFFF"
    unfolding N_HEX_def radix_value_append by (simp only: N_segments bind.simps)
  have "trim_text (''0x'' @ N_HEX) = ''0x'' @ N_HEX"
    by (rule trim_plain) (simp_all add: N_HEX_def is_space_def)
  then have h: "hex_to_big_int N_HEX = some_digits 16 N_HEX"
    by (simp add: hex_to_big_int_def parse_big_int_def radix_of_def)
  have "N_HEX \<noteq> []" by (simp add: N_HEX_def)
  with v h show "hex_to_big_int N_HEX = Some N" "N = 0xFFFFFFFFFFFFFFFFD0C52B70D29606C1E0DB00F6FFF002BACA73E0E3C36C2F0F4BCD4A989A3D3B0E99CC6B7C84ED89A23A76FBB6A1DB6F9E7C4C8C5C9B5E7D4F8C7E3D9B1A5F0E2D4C6B8A9F1D3E5C7B9A1D3F5E7D9C1B3A5F7E9D1C3B5A7C9E1D3F5E7C9B1A3D5F7E9D1C3B5A7C9E1D3F5E7C9B1A3D5F7E9D1C3B5A7C9E1D3F5E7C9B1A3D5F7E9D1C3B5A7C9E1D3F5E7C9B1A3FFFFFFFFFFFFFFFF"
    by (simp_all add: some_digits_def N_def)
qed

lemma N_odd: "odd N" and N_pos: "2 < N" and N_bounds: "2 ^ 1243 < N" "N < 2 ^ 1244"
  by (simp_all add: N_numeral(2))

lemma N_bytes: "N_BYTE_LENGTH = 156"
  by code_simp

lemma same_bytes_iff: "same_bytes xs ys \<longleftrightarrow> xs = ys"
proof -
  have or0: "or d e = 0 \<longleftrightarrow> d = 0 \<and> e = 0" for d e :: byte
    by (auto simp: bit_eq_iff bit_simps)
  have x0: "xor d e = 0 \<longleftrightarrow> d = e" for d e :: byte
    by (auto simp: bit_eq_iff bit_simps)
  have "fold (\<lambda>(x, y) diff. or diff (xor x y)) ps d = 0 \<longleftrightarrow> d = 0 \<and> (\<forall>(x, y)\<in>set ps. x = y)"
    for ps :: "(byte \<times> byte) list" and d
    by (induction ps arbitrary: d) (auto simp: or0 x0)
  then show ?thesis
    by (auto simp: same_bytes_def list_eq_iff_zip_eq)
qed

end
