(* ===== verification/Srp_Group.thy ===== *)
theory Srp_Group
  imports Big_Int
begin

text \<open>
  The arithmetic both SRP clients and the server rest on: powers of 2 modulo an odd number above
  2. Primality is not needed for the two sides to agree. The locale is interpreted on the modulus
  of each client and on the server's.
\<close>

locale srp_group =
  fixes m :: int
  assumes odd_modulus: "odd m"
    and big_modulus: "2 < m"
begin

lemma pos_modulus: "0 < m"
  using big_modulus by simp

lemma power_nonzero: "2 ^ e mod m \<noteq> 0"
proof
  assume "2 ^ e mod m = 0"
  then have d: "m dvd 2 ^ e" by auto
  have "coprime m (2 ^ e)" using odd_modulus by (simp add: coprime_right_2_iff_odd)
  with d have "is_unit m" by (metis coprime_common_divisor dvd_refl)
  with big_modulus show False by simp
qed

lemma power_range: "0 < 2 ^ e mod m" "2 ^ e mod m < m"
  using power_nonzero [of e] pos_mod_sign [OF pos_modulus, of "2 ^ e"] pos_mod_bound [OF pos_modulus, of "2 ^ e"] by linarith+

text \<open>The value both sides arrive at; \<open>x\<close>, \<open>a\<close>, \<open>b\<close> are the secret exponents, \<open>u\<close> the scrambler.\<close>

lemma key_agreement:
  assumes "A = 2 ^ a mod m" and "v = 2 ^ x mod m"
    and "B = (k * v mod m + 2 ^ b mod m) mod m"
  shows "((B - k * v mod m) mod m) ^ (a + u * x) mod m = (A * (v ^ u mod m) mod m) ^ b mod m"
proof -
  have "(B - k * v mod m) mod m = 2 ^ b mod m"
    unfolding assms(3) by (simp add: mod_diff_left_eq)
  then have "((B - k * v mod m) mod m) ^ (a + u * x) mod m = (2 ^ b) ^ (a + u * x) mod m"
    by (simp add: power_mod)
  also have "(2 ^ b) ^ (a + u * x) = ((2 ^ a * (2 ^ x) ^ u) ^ b :: int)"
    by (simp add: power_mult [symmetric] power_add power_mult_distrib mult.commute)
  also have "\<dots> mod m = (A * (v ^ u mod m) mod m) ^ b mod m"
    by (simp add: assms(1,2) power_mod mod_mult_left_eq mod_mult_right_eq)
  finally show ?thesis .
qed

lemma secret_nonzero:
  assumes "v = 2 ^ x mod m" and "B = (k * v mod m + 2 ^ b mod m) mod m"
  shows "((B - k * v mod m) mod m) ^ e mod m \<noteq> 0"
proof -
  have "(B - k * v mod m) mod m = 2 ^ b mod m"
    unfolding assms(2) by (simp add: mod_diff_left_eq)
  then have "((B - k * v mod m) mod m) ^ e mod m = 2 ^ (b * e) mod m"
    by (simp add: power_mod power_mult)
  then show ?thesis using power_nonzero by simp
qed

lemma mod_pow_modulus: "0 \<le> e \<Longrightarrow> mod_pow base e m = base ^ nat e mod m"
  using pos_modulus by (rule mod_pow_power)

end

end
