(* ===== verification/Srp_Server.thy ===== *)
theory Srp_Server
  imports Srp_Client Srp_Group
begin

text \<open>
  The other side of the SRP login: the Go server of this repository,
  \<open>usbvault-server/internal/auth/srp.go\<close> (\<open>HandleSRPInit\<close> and \<open>HandleSRPVerify\<close> up to their
  storage, lockout, timing and token parts). What a server fixes by convention is the record
  \<open>srp_conv\<close>: its modulus, how it writes numbers into the hashes for \<open>k\<close> and \<open>u\<close>, and how into the
  hashes for the key and the proofs. \<open>go_conv\<close> is the code's convention; \<open>documented_conv\<close> is the
  one that the header of \<open>srpClient.ts\<close> says the server has. The hash of the server is the total
  function \<open>sha\<close>.
\<close>

subsection \<open>The server\<close>

record srp_conv =
  modulus :: int
  pad_num :: "int \<Rightarrow> bytes"
  raw_num :: "int \<Rightarrow> bytes"

definition go_bytes :: "int \<Rightarrow> bytes" where
  "go_bytes n = (if n = 0 then [] else big_int_to_bytes n)"

definition pad_big_int :: "int \<Rightarrow> bytes" where
  "pad_big_int x = pad_to 384 (go_bytes x)"

definition srpN :: string where
  "srpN =
     ''FFFFFFFFFFFFFFFFADF85458A2BB4A9AAFDC5620273D3CF1'' @
     ''D8B9C583CE2D3695A9E13641146433FBCC939DCE249B3EF9'' @
     ''7D2FE363630C75D8F681B202AEC4617AD3DF1ED5D5FD6561'' @
     ''2433F51F5F066ED0856365553DED1AF3B557135E7F57C935'' @
     ''984F0C70E0E68B77E2A689DAF3EFE8721DF158A136ADE735'' @
     ''30ACCA4F483A797ABC0AB182B324FB61D108A94BB2C8E3FB'' @
     ''B96ADAB760D7F4681D4F42A3DE394DF4AE56EDE76372BB19'' @
     ''0B07A7C8EE0A6D709E02FCE1CDF7E2ECC03404CD28342F61'' @
     ''9172FE9CE98583FF8E4F1232EEF28183C3FE3B1B4C6FAD73'' @
     ''3BB5FCBC2EC22005C58EF1837D1683B2C6F34A26C1B2EFFA'' @
     ''886B4238611FCFDCDE355B3B6519035BBC34F4DEF99C0238'' @
     ''61B46FC9D6E6C9077AD91D2691F7F7EE598CB0FAC186D91C'' @
     ''AEFE130985139270B4130C93BC437944F4FD4452E2D74DD3'' @
     ''64F2E21E71F54BFF5CAE82AB9C9DF69EE86D2BC522363A0D'' @
     ''ABC521979B0DEADA1DBF9A42D5C4484E0ABCD06BFA53DDEF'' @
     ''3C1B20EE3FD59D7C25E41D2B66C62E37FFFFFFFFFFFFFFFF''"

definition go_conv :: srp_conv where
  "go_conv = \<lparr>modulus = (case radix_value 16 0 srpN of Some n \<Rightarrow> int n | None \<Rightarrow> 0),
     pad_num = pad_big_int, raw_num = pad_big_int\<rparr>"

definition documented_conv :: srp_conv where
  "documented_conv = \<lparr>modulus = N, pad_num = (\<lambda>x. pad_to N_BYTE_LENGTH (go_bytes x)), raw_num = go_bytes\<rparr>"

definition compute_SRP_k :: "srp_conv \<Rightarrow> (bytes \<Rightarrow> bytes) \<Rightarrow> int" where
  "compute_SRP_k c sha = bytes_to_big_int (sha (pad_num c (modulus c) @ pad_num c 2))"

definition compute_SRP_u :: "srp_conv \<Rightarrow> (bytes \<Rightarrow> bytes) \<Rightarrow> int \<Rightarrow> int \<Rightarrow> int" where
  "compute_SRP_u c sha A B = bytes_to_big_int (sha (pad_num c A @ pad_num c B))"

definition server_init :: "srp_conv \<Rightarrow> (bytes \<Rightarrow> bytes) \<Rightarrow> int \<Rightarrow> int \<Rightarrow> int option" where
  "server_init c sha v b =
     (let gb = mod_pow 2 b (modulus c);
          kv = compute_SRP_k c sha * v mod modulus c;
          B = (kv + gb) mod modulus c
      in if B = 0 then None else Some B)"

text \<open>\<open>SetString(s, 10)\<close>.\<close>

definition set_string10 :: "string \<Rightarrow> int option" where
  "set_string10 s = (case s of
     [] \<Rightarrow> None
   | c # cs \<Rightarrow> if c = CHR ''-'' then map_option uminus (some_digits 10 cs)
       else if c = CHR ''+'' then some_digits 10 cs else some_digits 10 s)"

definition server_key :: "srp_conv \<Rightarrow> (bytes \<Rightarrow> bytes) \<Rightarrow> int \<Rightarrow> int \<Rightarrow> int \<Rightarrow> int \<Rightarrow> bytes" where
  "server_key c sha v b B A =
     (let vu = mod_pow v (compute_SRP_u c sha A B) (modulus c);
          S = mod_pow (A * vu mod modulus c) b (modulus c)
      in sha (raw_num c S))"

definition server_verify ::
  "srp_conv \<Rightarrow> (bytes \<Rightarrow> bytes) \<Rightarrow> int \<Rightarrow> int \<Rightarrow> int \<Rightarrow> string \<Rightarrow> string \<Rightarrow> string option" where
  "server_verify c sha v b B Atext M1hex =
     (case set_string10 Atext of
        None \<Rightarrow> None
      | Some A \<Rightarrow>
          if A \<le> 0 \<or> A \<ge> modulus c then None
          else if compute_SRP_u c sha A B = 0 then None
          else let K = server_key c sha v b B A;
                   M1 = sha (raw_num c A @ raw_num c B @ K)
               in if M1hex \<noteq> bytes_to_hex M1 then None
                  else Some (bytes_to_hex (sha (raw_num c A @ M1 @ K))))"

text \<open>The API a client sees: one account, one session, the server's secret exponent \<open>b\<close>.\<close>

definition server_api ::
  "srp_conv \<Rightarrow> (bytes \<Rightarrow> bytes) \<Rightarrow> string \<Rightarrow> int \<Rightarrow> int \<Rightarrow> string \<Rightarrow> string \<times> string \<Rightarrow> srp_api" where
  "server_api c sha salt v b sid tokens =
     \<lparr>srp_init = (\<lambda>email. map_option (\<lambda>B. (salt, big_to_string 10 B, sid)) (server_init c sha v b)),
      srp_verify = (\<lambda>sid' A M1. if sid' \<noteq> sid then None else
        Option.bind (server_init c sha v b) (\<lambda>B.
          map_option (\<lambda>M2. (M2, tokens)) (server_verify c sha v b B A M1)))\<rparr>"

definition same_hash :: "webcrypto \<Rightarrow> (bytes \<Rightarrow> bytes) \<Rightarrow> bool" where
  "same_hash wc sha = (\<forall>x. wc_sha256 wc x = Some (sha x) \<and> length (sha x) = 32)"

subsection \<open>Number facts\<close>

interpretation documented: srp_group N
  by unfold_locales (rule N_odd, rule N_pos)

lemma client_base:
  assumes "0 < m"
  shows "(if d < 0 then big_rem (big_rem d m + m) m else big_rem d m) = d mod m"
  using assms by (simp add: normalize_mod big_rem_nonneg)

lemma set_string_decimal: "0 \<le> n \<Longrightarrow> set_string10 (big_to_string 10 n) = Some n"
proof -
  assume n: "0 \<le> n"
  let ?ds = "radix_list 10 (nat n)"
  have dig: "\<forall>d\<in>set ?ds. d < 10" by (rule radix_list_digits) simp
  obtain c cs where "?ds = c # cs" using radix_list_nonempty by (metis neq_Nil_conv)
  moreover from this dig have "c < 16" by auto
  ultimately have "set_string10 (map hex_digit ?ds) = some_digits 10 (map hex_digit ?ds)"
    using hex_digit_cases [of c] by (simp add: set_string10_def)
  with n show ?thesis
    using some_digits_hex [OF dig] by (simp add: big_to_string_def digits_number_radix)
qed

lemma go_bytes_nonzero [simp]: "n \<noteq> 0 \<Longrightarrow> go_bytes n = big_int_to_bytes n"
  by (simp add: go_bytes_def)

lemma same_hashD [simp]:
  "same_hash wc sha \<Longrightarrow> wc_sha256 wc x = Some (sha x)"
  "same_hash wc sha \<Longrightarrow> length (sha x) = 32"
  by (simp_all add: same_hash_def)

lemma bytes_to_big_int_nonneg [simp]: "0 \<le> bytes_to_big_int bs"
  by (simp add: bytes_to_big_int_value)

subsection \<open>The client against the documented server\<close>

text \<open>What the client computes, with hashing that does not fail.\<close>

definition client_x :: "(bytes \<Rightarrow> bytes) \<Rightarrow> bytes \<Rightarrow> string \<Rightarrow> string \<Rightarrow> int" where
  "client_x sha salt email password =
     bytes_to_big_int (sha (salt @ sha (utf8_encode (email @ '':'' @ password))))"

definition client_secret :: "(bytes \<Rightarrow> bytes) \<Rightarrow> int \<Rightarrow> int \<Rightarrow> int \<Rightarrow> int \<Rightarrow> int" where
  "client_secret sha x a A B =
     mod_pow ((B - bytes_to_big_int (sha (pad_to_N N @ pad_to_N G)) * mod_pow G x N mod N) mod N)
       (a + bytes_to_big_int (sha (pad_to_N A @ pad_to_N B)) * x) N"

lemma derive_x_eq: "same_hash wc sha \<Longrightarrow> derive_srp_x wc salt email pw = Inr (client_x sha salt email pw)"
  by (simp add: derive_srp_x_def sha256_concat_def client_x_def)

lemmas mod_pow_N = documented.mod_pow_modulus

lemma derive_session_eq:
  assumes "same_hash wc sha" and "0 < B" and "B < N"
    and "bytes_to_big_int (sha (pad_to_N A @ pad_to_N B)) \<noteq> 0"
    and "K = sha (big_int_to_bytes (client_secret sha (client_x sha salt email pw) a A B))"
  shows "derive_session wc email pw salt a A B = Inr \<lparr>session_A = A, session_key = K,
    session_M1 = sha (big_int_to_bytes A @ big_int_to_bytes B @ K)\<rparr>"
proof -
  have b: "big_rem B N = B" using assms(2,3) by (simp add: big_rem_nonneg)
  have k: "big_rem (bytes_to_big_int h * mod_pow G e N) N = bytes_to_big_int h * mod_pow G e N mod N"
    if "0 \<le> e" for h e
    using that N_pos by (intro big_rem_nonneg) (simp_all add: mod_pow_N)
  have x: "0 \<le> client_x sha salt email pw" by (simp add: client_x_def)
  show ?thesis
    using assms N_pos b
    by (simp add: derive_session_def compute_k_def compute_u_def compute_M1_def sha256_concat_def Let_def
        derive_x_eq client_base client_secret_def k [OF x])
qed

lemma derive_session_shape:
  assumes "derive_session wc email pw salt a A B = Inr s"
  shows "0 < B \<and> B < N \<and> (\<exists>S. wc_sha256 wc S = Some (session_key s)) \<and>
     wc_sha256 wc (big_int_to_bytes A @ big_int_to_bytes B @ session_key s) = Some (session_M1 s)"
proof -
  have range: "\<not> (B \<le> 0 \<or> B \<ge> N)"
    using assms unfolding derive_session_def by (metis sum.disc(2) sum.disc(1))
  moreover from this have "big_rem B N \<noteq> 0" by (simp add: big_rem_nonneg)
  ultimately show ?thesis
    using assms
    by (auto simp: derive_session_def attempt_Inr Let_def compute_M1_def sha256_concat_def
        simp del: if_splits split: if_split_asm)
qed

lemma modulus_documented [simp]: "modulus documented_conv = N"
  by (simp add: documented_conv_def)

lemma secrets_agree:
  assumes "0 \<le> x" and "0 \<le> a" and "0 \<le> b"
    and "server_init documented_conv sha (mod_pow G x N) b = Some B"
    and "A = mod_pow G a N"
  shows "0 < B" and "B < N" and "0 < A" and "A < N"
    and "big_int_to_bytes (client_secret sha x a A B) =
      go_bytes (mod_pow (A * mod_pow (mod_pow G x N) (compute_SRP_u documented_conv sha A B) N mod N) b N)"
proof -
  let ?k = "compute_SRP_k documented_conv sha" and ?u = "compute_SRP_u documented_conv sha A B"
  have n0: "N \<noteq> 0" "G \<noteq> 0" using N_pos by (auto simp: G_def)
  have p2: "mod_pow G e N = 2 ^ nat e mod N" if "0 \<le> e" for e
    using that by (simp add: mod_pow_N G_def)
  have B: "B = (?k * (2 ^ nat x mod N) mod N + 2 ^ nat b mod N) mod N" and "B \<noteq> 0"
    using assms(4) p2 [OF assms(1)] p2 [OF assms(3)]
    by (auto simp: server_init_def Let_def G_def split: if_splits)
  moreover have "0 \<le> B" "B < N" using B N_pos by simp_all
  ultimately show bb: "0 < B" "B < N" by simp_all
  have A: "A = 2 ^ nat a mod N" using assms(2,5) by (simp add: p2)
  show aa: "0 < A" "A < N" unfolding A by (rule documented.power_range)+
  have k: "?k = bytes_to_big_int (sha (pad_to_N N @ pad_to_N G))"
    using n0 by (simp add: compute_SRP_k_def documented_conv_def pad_to_N_def G_def)
  have u: "?u = bytes_to_big_int (sha (pad_to_N A @ pad_to_N B))"
    using aa bb by (simp add: compute_SRP_u_def documented_conv_def pad_to_N_def)
  have u0: "0 \<le> ?u" by (simp add: compute_SRP_u_def)
  have e: "nat (a + ?u * x) = nat a + nat ?u * nat x"
    using assms(1,2) u0 by (simp add: nat_add_distrib nat_mult_distrib)
  have cs: "client_secret sha x a A B =
      ((B - ?k * (2 ^ nat x mod N) mod N) mod N) ^ (nat a + nat ?u * nat x) mod N"
    using assms(1,2) u0 by (simp add: client_secret_def k [symmetric] u [symmetric] p2 e
        mod_pow_N [of "a + ?u * x"])
  also have "\<dots> = (A * ((2 ^ nat x mod N) ^ nat ?u mod N) mod N) ^ nat b mod N"
    by (rule documented.key_agreement [OF A _ B]) simp
  also have "\<dots> = mod_pow (A * mod_pow (mod_pow G x N) ?u N mod N) b N"
    using assms(1,3) u0 by (simp add: p2 mod_pow_N [of ?u] mod_pow_N [of b])
  finally have eq: "client_secret sha x a A B = \<dots>" .
  have "client_secret sha x a A B \<noteq> 0"
    unfolding cs by (rule documented.secret_nonzero [OF _ B]) simp
  then show "big_int_to_bytes (client_secret sha x a A B) =
      go_bytes (mod_pow (A * mod_pow (mod_pow G x N) ?u N mod N) b N)"
    unfolding eq by simp
qed

lemma radix_value_lower: "radix_value b acc s = Some n \<Longrightarrow> acc * b ^ length s \<le> n"
proof (induction s arbitrary: acc)
  case (Cons c cs)
  then obtain d where "radix_value b (b * acc + d) cs = Some n" by (auto split: option.splits if_splits)
  then have "(b * acc + d) * b ^ length cs \<le> n" by (rule Cons.IH)
  then show ?case by (simp add: algebra_simps)
qed simp

lemma go_modulus_differs: "modulus go_conv \<noteq> N"
proof (cases "radix_value 16 0 srpN")
  case None
  then show ?thesis using N_pos by (simp add: go_conv_def)
next
  case (Some n)
  have s: "srpN = ''FFFFFFFFFFFFFFFF'' @ drop 16 srpN" and "length (drop 16 srpN) = 752"
    by (simp_all add: srpN_def)
  have "radix_value 16 0 ''FFFFFFFFFFFFFFFF'' = Some 0xFFFFFFFFFFFFFFFF"
    by (simp add: read_hex del: radix_value.simps(2))
  then have "radix_value 16 0 srpN = radix_value 16 0xFFFFFFFFFFFFFFFF (drop 16 srpN)"
    by (subst s) (simp only: radix_value_append bind.simps)
  then have "radix_value 16 0xFFFFFFFFFFFFFFFF (drop 16 srpN) = Some n"
    using Some by (simp only:)
  then have "0xFFFFFFFFFFFFFFFF * 16 ^ 752 \<le> n"
    using radix_value_lower \<open>length (drop 16 srpN) = 752\<close> by metis
  moreover have "(2 :: nat) ^ 1244 \<le> 0xFFFFFFFFFFFFFFFF * 16 ^ 752"
  proof -
    have "(2 :: nat) ^ 1244 \<le> 2 ^ 3008" by (rule power_increasing) simp_all
    also have "(2 :: nat) ^ 3008 = (2 ^ 4) ^ 752" by (simp only: power_mult [symmetric]) simp
    also have "(2 :: nat) ^ 4 = 16" by simp
    also have "(16 :: nat) ^ 752 = 1 * 16 ^ 752" by (rule mult_1 [symmetric])
    also have "1 * 16 ^ 752 \<le> 0xFFFFFFFFFFFFFFFF * (16 :: nat) ^ 752" by (rule mult_le_mono1) simp
    finally show ?thesis .
  qed
  ultimately have "(2 :: nat) ^ 1244 \<le> n" by (rule order_trans [rotated])
  then have "int (2 ^ 1244) \<le> int n" by (simp only: of_nat_le_iff)
  then have "(2 :: int) ^ 1244 \<le> int n" by (simp only: of_nat_power of_nat_numeral)
  then show ?thesis using Some N_bounds(2) by (simp add: go_conv_def)
qed

text \<open>
  Against the server its header documents, the client's login succeeds: for an account
  registered with the same password, every pair of ephemeral secrets for which the server's
  \<open>B\<close> and the scrambler are not zero gives the client the server's tokens, and both sides hold the
  same session key; the proofs are accepted in both directions.
\<close>

theorem srp_login_agrees:
  assumes "same_hash wc sha" and "0 \<le> b"
    and "srp_register wc salt email pw = Inr reg"
    and "v = bytes_to_big_int (hex_to_bytes (reg_verifier reg))"
    and "server_init documented_conv sha v b = Some B"
    and "A = mod_pow G (bytes_to_big_int aBytes) N"
    and "compute_SRP_u documented_conv sha A B \<noteq> 0"
  shows "srp_login wc aBytes email pw (server_api documented_conv sha (reg_salt reg) v b sid (jwt, refresh)) =
    Inr \<lparr>access_token = jwt, refresh_token = refresh, login_key = server_key documented_conv sha v b B A\<rparr>"
proof -
  let ?x = "client_x sha salt email pw" and ?a = "bytes_to_big_int aBytes"
  have x: "0 \<le> ?x" by (simp add: client_x_def)
  have reg: "reg_salt reg = bytes_to_hex salt"
      "reg_verifier reg = bytes_to_hex (big_int_to_bytes (mod_pow G ?x N))"
    using assms(3) derive_x_eq [OF assms(1), of salt email pw] by (auto simp: srp_register_def)
  have "0 \<le> mod_pow G ?x N" using mod_pow_N [OF x] N_pos by simp
  then have v: "v = mod_pow G ?x N"
    unfolding assms(4) reg(2) hex_inverse by (simp add: bytes_to_big_int_value big_int_to_bytes_value)
  note agree = secrets_agree [OF x bytes_to_big_int_nonneg assms(2) assms(5) [unfolded v] assms(6)]
  have u: "bytes_to_big_int (sha (pad_to_N A @ pad_to_N B)) \<noteq> 0"
    using assms(7) agree(1,3) by (simp add: compute_SRP_u_def documented_conv_def pad_to_N_def)
  define K where "K = sha (big_int_to_bytes (client_secret sha ?x ?a A B))"
  have K: "server_key documented_conv sha v b B A = K"
    unfolding K_def agree(5) by (simp add: server_key_def Let_def v) (simp add: documented_conv_def)
  have raw: "raw_num documented_conv A = big_int_to_bytes A" "raw_num documented_conv B = big_int_to_bytes B"
    using agree(1,3) by (simp_all add: documented_conv_def)
  let ?M1 = "sha (big_int_to_bytes A @ big_int_to_bytes B @ K)"
  have ver: "server_verify documented_conv sha v b B (big_to_string 10 A) (bytes_to_hex ?M1) =
      Some (bytes_to_hex (sha (big_int_to_bytes A @ ?M1 @ K)))"
    using agree(3,4) assms(7) K by (simp add: server_verify_def set_string_decimal Let_def raw)
  have eph: "generate_ephemeral aBytes = Inr \<lparr>private_key = ?a, public_key = A\<rparr>"
    using agree(3) assms(6) by (simp add: generate_ephemeral_def Let_def)
  have parse: "parse_big_int (big_to_string 10 B) = Some B" using agree(1) by (simp add: parse_decimal)
  show ?thesis
    using derive_session_eq [OF assms(1) agree(1,2) u K_def] assms(1,5)
    by (simp add: srp_login_def server_api_def parse eph reg srp_hex_bytes ver verify_server_proof_def
        compute_M2_def sha256_concat_def same_bytes_iff K)
qed

text \<open>
  Between this client and the repository's Go server a login never succeeds, short of a
  SHA-256 collision: whatever the account, password and secrets, tokens are returned only when
  the client's proof hash and the server's agree on inputs of different length (the client
  hashes \<open>A\<close> and \<open>B\<close> unpadded, at most 156 bytes each, the server padded to 384).
\<close>

theorem go_login_needs_collision:
  assumes "same_hash wc sha"
    and "srp_login wc aBytes email pw (server_api go_conv sha salt v b sid tokens) = Inr r"
  shows "\<exists>p q. length p \<le> 344 \<and> length q = 800 \<and> p \<noteq> q \<and> sha p = sha q"
proof -
  obtain B where B: "server_init go_conv sha v b = Some B"
    using assms(2) by (auto simp: srp_login_def attempt_Inr server_api_def)
  let ?a = "bytes_to_big_int aBytes"
  define A where "A = mod_pow G ?a N"
  have eph: "generate_ephemeral aBytes = Inr e \<Longrightarrow> public_key e = A" for e
    by (auto simp: generate_ephemeral_def Let_def A_def split: if_splits)
  obtain Bc e sess M2 acc ref where
    Bc: "parse_big_int (big_to_string 10 B) = Some Bc" and
    e: "generate_ephemeral aBytes = Inr e" and
    sess: "derive_session wc email pw (srp_hex_to_bytes salt) (private_key e) (public_key e) Bc = Inr sess" and
    ver: "server_verify go_conv sha v b B (big_to_string 10 A) (bytes_to_hex (session_M1 sess)) = Some M2"
    using assms(2) B eph by (auto simp: srp_login_def attempt_Inr server_api_def)
  have Brange: "0 < Bc" "Bc < N" using derive_session_shape [OF sess] by simp_all
  obtain S where S: "wc_sha256 wc S = Some (session_key sess)"
      "wc_sha256 wc (big_int_to_bytes A @ big_int_to_bytes Bc @ session_key sess) = Some (session_M1 sess)"
    using derive_session_shape [OF sess] unfolding eph [OF e] by blast
  then have K: "length (session_key sess) = 32"
      "sha (big_int_to_bytes A @ big_int_to_bytes Bc @ session_key sess) = session_M1 sess"
    using assms(1) unfolding same_hash_def by (metis option.inject)+
  obtain A' where A': "session_M1 sess = sha (pad_big_int A' @ pad_big_int B @ server_key go_conv sha v b B A')"
    using ver by (auto simp: server_verify_def Let_def go_conv_def split: option.splits if_splits)
  have "0 \<le> A" "A < N" using N_pos by (simp_all add: A_def mod_pow_N)
  moreover have "N < 256 ^ 156" using N_bounds(2) by simp
  ultimately have "length (big_int_to_bytes A) \<le> 156" "length (big_int_to_bytes Bc) \<le> 156"
    using Brange by (auto intro!: length_big_int_to_bytes)
  then have "length (big_int_to_bytes A @ big_int_to_bytes Bc @ session_key sess) \<le> 344" using K(1) by simp
  moreover have "length (pad_big_int A' @ pad_big_int B @ server_key go_conv sha v b B A') = 800"
    using assms(1) by (simp add: pad_big_int_def server_key_def Let_def)
  ultimately obtain p q where "length p \<le> 344" "length q = 800" "sha p = session_M1 sess" "sha q = session_M1 sess"
    using K(2) A' [symmetric] by blast
  then show ?thesis by (intro exI [of _ p] exI [of _ q]) auto
qed

text \<open>
  The login returns tokens only after the server has proved that it holds the session key:
  the proof it sent is the hash of the client's \<open>A\<close>, the client's proof and the session key
  returned, and the public value it sent was in range.
\<close>

theorem login_authenticates_server:
  assumes "srp_login wc aBytes email pw api = Inr r"
  shows "\<exists>salt Btext sid B M1 M2. srp_init api email = Some (salt, Btext, sid) \<and>
    parse_big_int Btext = Some B \<and> 0 < B \<and> B < N \<and>
    srp_verify api sid (big_to_string 10 (mod_pow G (bytes_to_big_int aBytes) N)) (bytes_to_hex M1) =
      Some (M2, access_token r, refresh_token r) \<and>
    wc_sha256 wc (big_int_to_bytes (mod_pow G (bytes_to_big_int aBytes) N) @ M1 @ login_key r) =
      Some (srp_hex_to_bytes M2)"
proof -
  have eph: "generate_ephemeral aBytes = Inr e \<Longrightarrow> public_key e = mod_pow G (bytes_to_big_int aBytes) N" for e
    by (auto simp: generate_ephemeral_def Let_def split: if_splits)
  show ?thesis
    using assms eph
    by (auto simp: srp_login_def attempt_Inr verify_server_proof_def compute_M2_def sha256_concat_def
        same_bytes_iff derive_session_def split: if_splits) blast
qed

text \<open>
  The constant the client calls a prime of 3072 bits is a 1244-bit number divisible by 31
  and by 71.
\<close>

theorem modulus_is_composite:
  "hex_to_big_int N_HEX = Some N \<and> 2 ^ 1243 < N \<and> N < 2 ^ 1244 \<and> 31 dvd N \<and> 71 dvd N \<and> modulus go_conv \<noteq> N"
proof -
  have "N = 31 * 0x842108421084210829B0166BC7873D4B4AC39D66B5A52AB2FD2308B79EAB7320AB40AAA157DD89D5FCCC9A92D940CB2A70C18A2CB6A2CE41486992C4713906DEBC201FCBEC94285971C3E47327DE1F3789596B077AA326D3CE30D537DC91CCB4B441BD2789DBFEA4E682A3376882621F9C93DD3747597B9C300E923F380F8AF76A92E4B2B45251DD79ED15EDBCF6524148921E1084210842108421" "N = 71 * 0x39B0AD12073615A2364211002F74BD0407676FFDF8C64FF0675032ADEB2332445931DE54DE4046FFAF474E4E8A1FE5536E86FB6DA9E2205D67BAB7114376A540CCBB18B32D9AD452521F722B116831AFAF5985442ABA9D92901C885CE5B6A518D081A91FAF92886C0E1C31A134D79367F16F6F02808135F879F0BA72234B4B1918E5FEE57664D8068F604E14DF1FD49718797CE6C2B4481CD85689"
    by (simp_all add: N_numeral(2))
  then have "31 dvd N" "71 dvd N" by (metis dvd_triv_left)+
  then show ?thesis by (intro conjI N_numeral(1) N_bounds go_modulus_differs)
qed

text \<open>A constant hash for the witnesses.\<close>

definition one_sha :: "bytes \<Rightarrow> bytes" where
  "one_sha _ = replicate 31 0 @ [1]"

definition one_crypto :: webcrypto where
  "one_crypto = demo_crypto\<lparr>wc_sha256 := \<lambda>x. Some (one_sha x)\<rparr>"

lemma one_hash: "same_hash one_crypto one_sha"
  by (simp add: same_hash_def one_crypto_def one_sha_def)

lemma one_const: "one_sha x = one_sha []"
  by (simp add: one_sha_def)

lemma one_value [simp]: "bytes_to_big_int (one_sha x) = 1"
  by (simp add: bytes_to_big_int_value one_sha_def bytes_value_zeros) (simp add: bytes_value_def digits_number_Cons)

lemma small_mod_pow:
  assumes "4 \<le> m"
  shows "mod_pow 2 1 m = 2" and "mod_pow 2 0 m = 1"
  using assms by (simp_all add: mod_pow_power)

lemma one_init:
  assumes "4 \<le> modulus c"
  shows "server_init c one_sha 2 0 = Some 3"
  using assms by (simp add: server_init_def compute_SRP_k_def small_mod_pow)

lemma N_ge_4: "4 \<le> N"
  by (simp add: N_numeral(2))

definition demo_login :: "srp_conv \<Rightarrow> srp_error + srp_login_result" where
  "demo_login c = srp_login one_crypto [1] ''a'' ''b'' (server_api c one_sha ''07'' 2 0 ''s'' (''t'', ''r''))"

theorem srp_login_agrees_witness:
  "demo_login documented_conv = Inr \<lparr>access_token = ''t'', refresh_token = ''r'', login_key = one_sha []\<rparr>"
proof -
  have x: "client_x one_sha [7] ''a'' ''b'' = 1" by (simp add: client_x_def)
  have g: "mod_pow G 1 N = 2" using small_mod_pow(1) [OF N_ge_4] by (simp add: G_def)
  have reg: "srp_register one_crypto [7] ''a'' ''b'' =
      Inr \<lparr>reg_salt = bytes_to_hex [7], reg_verifier = bytes_to_hex (big_int_to_bytes 2)\<rparr>"
    by (simp add: srp_register_def derive_x_eq [OF one_hash] x g)
  have v: "2 = bytes_to_big_int (hex_to_bytes (reg_verifier
      \<lparr>reg_salt = bytes_to_hex [7], reg_verifier = bytes_to_hex (big_int_to_bytes 2)\<rparr>))"
    by (simp add: hex_inverse bytes_to_big_int_value big_int_to_bytes_value)
  have A: "2 = mod_pow G (bytes_to_big_int [1]) N"
    using g by (simp add: bytes_to_big_int_value bytes_value_def digits_number_Cons)
  have h: "bytes_to_hex [7] = ''07''" by code_simp
  have B: "server_init documented_conv one_sha 2 0 = Some 3"
    by (rule one_init) (simp add: N_ge_4)
  have k: "server_key documented_conv one_sha 2 0 3 2 = one_sha []"
    by (simp add: server_key_def one_sha_def)
  show ?thesis
    using srp_login_agrees [OF one_hash _ reg v B A, of "''s''" "''t''" "''r''"] h k
    by (simp add: demo_login_def compute_SRP_u_def)
qed

lemma demo_client:
  shows "generate_ephemeral [1] = Inr \<lparr>private_key = 1, public_key = 2\<rparr>"
    and "derive_session one_crypto ''a'' ''b'' s 1 2 3 =
      Inr \<lparr>session_A = 2, session_key = one_sha [], session_M1 = one_sha []\<rparr>"
proof -
  have g: "mod_pow G 1 N = 2" using small_mod_pow(1) [OF N_ge_4] by (simp add: G_def)
  have a: "bytes_to_big_int [1] = 1" by (simp add: bytes_to_big_int_value bytes_value_def digits_number_Cons)
  show "generate_ephemeral [1] = Inr \<lparr>private_key = 1, public_key = 2\<rparr>"
    by (simp add: generate_ephemeral_def a g)
  show "derive_session one_crypto ''a'' ''b'' s 1 2 3 =
      Inr \<lparr>session_A = 2, session_key = one_sha [], session_M1 = one_sha []\<rparr>"
    using derive_session_eq [OF one_hash _ _ _ one_const [symmetric], where B = 3 and A = 2 and email = "''a''" and salt = s and pw = "''b''" and a = 1] N_ge_4
    by (simp add: one_const [of "_ @ _"])
qed

lemma one_digest: "wc_sha256 one_crypto x = Some (one_sha [])"
  unfolding one_crypto_def by (simp, rule one_const)

theorem login_authenticates_server_witness:
  "\<exists>M1 M2. wc_sha256 one_crypto (big_int_to_bytes (mod_pow G (bytes_to_big_int [1]) N) @ M1 @ one_sha []) =
     Some (srp_hex_to_bytes M2)"
proof -
  have "srp_login one_crypto [1] ''a'' ''b''
      \<lparr>srp_init = \<lambda>_. Some (''07'', ''3'', ''s''), srp_verify = \<lambda>_ _ _. Some (bytes_to_hex (one_sha []), ''t'', ''r'')\<rparr> =
    Inr \<lparr>access_token = ''t'', refresh_token = ''r'', login_key = one_sha []\<rparr>"
    using parse_decimal [of 3]
    by (simp add: srp_login_def verify_server_proof_def compute_M2_def sha256_concat_def same_bytes_iff
        demo_client one_digest srp_hex_bytes big_to_string_def radix_list.simps [of 10 3] hex_digit_def)
  from login_authenticates_server [OF this] show ?thesis by auto
qed

lemma radix_value_total:
  "list_all (\<lambda>c. case digit_val c of None \<Rightarrow> False | Some d \<Rightarrow> d < b) s \<Longrightarrow> \<exists>n. radix_value b acc s = Some n"
  by (induction s arbitrary: acc) (auto split: option.splits)

lemma go_modulus_ge_4: "4 \<le> modulus go_conv" and go_modulus_ge_255: "255 \<le> modulus go_conv"
proof -
  have "list_all (\<lambda>c. case digit_val c of None \<Rightarrow> False | Some d \<Rightarrow> d < 16) srpN"
    by (simp add: srpN_def upper_digits)
  then obtain n where n: "radix_value 16 0 srpN = Some n" using radix_value_total by blast
  have s: "srpN = ''FF'' @ drop 2 srpN" and l: "length (drop 2 srpN) = 766" by (simp_all add: srpN_def)
  have "radix_value 16 0 ''FF'' = Some 255" by (simp add: read_hex del: radix_value.simps(2))
  then have "radix_value 16 0 srpN = radix_value 16 255 (drop 2 srpN)"
    by (subst s) (simp only: radix_value_append bind.simps)
  then have "255 * 16 ^ 766 \<le> n" using n radix_value_lower l by metis
  moreover have "(255 :: nat) * 1 \<le> 255 * 16 ^ 766" by (rule mult_le_mono2) (rule one_le_power, simp)
  ultimately have "255 \<le> n" by linarith
  then show "4 \<le> modulus go_conv" "255 \<le> modulus go_conv" by (simp_all add: go_conv_def n)
qed

theorem go_login_needs_collision_witness:
  "\<exists>p q. length p \<le> 344 \<and> length q = 800 \<and> p \<noteq> q \<and> one_sha p = one_sha q"
proof -
  have k: "server_key go_conv one_sha 2 0 3 2 = one_sha []"
    unfolding server_key_def Let_def by (rule one_const)
  have v: "server_verify go_conv one_sha 2 0 3 (big_to_string 10 2) (bytes_to_hex (one_sha [])) =
      Some (bytes_to_hex (one_sha []))"
    using go_modulus_ge_4
    by (simp add: server_verify_def set_string_decimal compute_SRP_u_def Let_def one_const [of "_ @ _"] k)
  have "demo_login go_conv = Inr \<lparr>access_token = ''t'', refresh_token = ''r'', login_key = one_sha []\<rparr>"
    using parse_decimal [of 3]
    by (simp add: demo_login_def srp_login_def server_api_def one_init [OF go_modulus_ge_4] demo_client v
        verify_server_proof_def compute_M2_def sha256_concat_def same_bytes_iff srp_hex_bytes one_digest)
  then show ?thesis unfolding demo_login_def by (rule go_login_needs_collision [OF one_hash])
qed

end
