(* ===== verification/Srp_Canonical.thy ===== *)
theory Srp_Canonical
  imports Srp_Server Text_Codec
begin

text \<open>
  \<open>crypto/srpClient.ts\<close>: the SRP-6a client that \<open>services/auth.ts\<close> and \<open>stores/authStore.ts\<close>
  use. Its byte helpers have the text of those in \<open>Big_Int\<close> and share their definitions. SHA-256
  (\<open>digest\<close>) and Argon2id with the code's parameters (\<open>argon\<close>, from a password and a salt to a
  hexadecimal text) are parameters, \<open>None\<close> where the promise rejects; the draws of the random
  generator are a list.
\<close>

subsection \<open>Group and padding\<close>

definition FFDHE_HEX :: string where
  "FFDHE_HEX =
     ''FFFFFFFFFFFFFFFFADF85458A2BB4A9AAFDC5620273D3CF1'' @
     ''D8B9C583CE2D3695A9E13641146433FBCC939DCE249B3EF9'' @
     ''7D2FE363630C75D8F681B202AEC4617AD3DF1ED5D5FD6561'' @
     ''2433F51F5F066ED0856365553DED1AF3B557135E7F57C935'' @
     ''984F0C70E0E68B77E2A689DAF3EFE8721DF158A136ADE735'' @
     ''30ACCA4F483A797ABC0AB182B324FB61D108A94BB2C8E3FB'' @
     ''B96ADAB760D7F4681D4F42A3DE394DF4AE56EDE76372BB19'' @
     ''0B07A7C8EE0A6D709E02FCE1CDF7E2ECC03404CD28342F61'' @
     ''9172FE9CE98583FF8E4F1232EEF28183C3FE3B1B4C6FAD73'' @
     ''3BB5FCBC2EC22005C58EF1837D1683B2C6F34A26C1B2EFFA'' @
     ''886B4238611FCFDCDE355B3B6519035BBC34F4DEF99C0238'' @
     ''61B46FC9D6E6C9077AD91D2691F7F7EE598CB0FAC186D91C'' @
     ''AEFE130985139270B4130C93BC437944F4FD4452E2D74DD3'' @
     ''64F2E21E71F54BFF5CAE82AB9C9DF69EE86D2BC522363A0D'' @
     ''ABC521979B0DEADA1DBF9A42D5C4484E0ABCD06BFA53DDEF'' @
     ''3C1B20EE3FD59D7C25E41D2B66C62E37FFFFFFFFFFFFFFFF''"

definition FFDHE_N :: int where
  "FFDHE_N = (case parse_big_int (''0x'' @ FFDHE_HEX) of Some n \<Rightarrow> n | None \<Rightarrow> 0)"

definition FFDHE_G :: int where "FFDHE_G = 2"

definition PAD_LEN :: nat where "PAD_LEN = 384"

definition pad_int :: "int \<Rightarrow> bytes" where
  "pad_int v =
     (let bs = big_int_to_bytes v in
      if length bs \<le> PAD_LEN then replicate (PAD_LEN - length bs) 0 @ bs
      else drop (length bs - PAD_LEN) bs)"

subsection \<open>Modular exponentiation\<close>

function pow_loop :: "int \<Rightarrow> int \<Rightarrow> int \<Rightarrow> int \<Rightarrow> int" where
  "pow_loop m result b e =
     (if e > 0
      then pow_loop m (if e AND 1 \<noteq> 0 then big_rem (result * b) m else result)
             (big_rem (b * b) m) (drop_bit 1 e)
      else result)"
  by pat_completeness auto
termination
  by (relation "measure (\<lambda>(_, _, _, e). nat e)") (auto simp: drop_bit_eq_div)

declare pow_loop.simps [simp del]

definition pow_mod :: "int \<Rightarrow> int \<Rightarrow> int \<Rightarrow> int" where
  "pow_mod base e m =
     (if m = 1 then 0
      else let b0 = big_rem base m; b = (if b0 < 0 then b0 + m else b0) in pow_loop m 1 b e)"

subsection \<open>Primitives\<close>

record srp_env =
  digest :: "bytes \<Rightarrow> bytes option"
  argon :: "string \<Rightarrow> bytes \<Rightarrow> string option"

datatype canon_error = DigestFailed | ArgonFailed | NotANumber | InvalidB

definition sha256_parts :: "srp_env \<Rightarrow> bytes list \<Rightarrow> canon_error + bytes" where
  "sha256_parts env parts = or_throw DigestFailed (digest env (concat parts))"

definition multiplier_k :: "srp_env \<Rightarrow> canon_error + int" where
  "multiplier_k env =
     attempt (sha256_parts env [pad_int FFDHE_N, pad_int FFDHE_G]) (\<lambda>h. Inr (bytes_to_big_int h))"

definition derive_x :: "srp_env \<Rightarrow> bytes \<Rightarrow> string \<Rightarrow> string \<Rightarrow> canon_error + int" where
  "derive_x env salt username password =
     attempt (sha256_parts env [utf8_encode ''srp-verifier'', salt, utf8_encode username]) (\<lambda>srpSalt.
     attempt (or_throw ArgonFailed (argon env password srpSalt)) (\<lambda>xHex.
     or_throw NotANumber (parse_big_int (''0x'' @ xHex))))"

definition derive_verifier :: "int \<Rightarrow> int" where
  "derive_verifier x = pow_mod FFDHE_G x FFDHE_N"

definition compute_public_A :: "int \<Rightarrow> int" where
  "compute_public_A a = pow_mod FFDHE_G a FFDHE_N"

text \<open>The loop draws until a draw is accepted; \<open>None\<close> is a list of draws without an acceptable one.\<close>

fun draw_ephemeral :: "bytes list \<Rightarrow> (int \<times> int) option" where
  "draw_ephemeral [] = None"
| "draw_ephemeral (aBytes # draws) =
     (let a = bytes_to_big_int aBytes in
      if a \<le> 1 then draw_ephemeral draws
      else let A = compute_public_A a in
        if A = 0 \<or> A = 1 \<or> big_rem A FFDHE_N = 0 then draw_ephemeral draws else Some (a, A))"

record challenge_result =
  shared_S :: int
  session_K :: bytes
  proof_M1 :: bytes

definition process_challenge :: "srp_env \<Rightarrow> int \<Rightarrow> int \<Rightarrow> int \<Rightarrow> canon_error + challenge_result" where
  "process_challenge env a x B =
     (if B = 0 \<or> big_rem B FFDHE_N = 0 then Inl InvalidB
      else let A = compute_public_A a in
        attempt (multiplier_k env) (\<lambda>k.
        attempt (sha256_parts env [pad_int A, pad_int B]) (\<lambda>uHash.
        let u = bytes_to_big_int uHash;
            gx = pow_mod FFDHE_G x FFDHE_N;
            kgx = big_rem (k * gx) FFDHE_N;
            base0 = big_rem (B - kgx) FFDHE_N;
            base = (if base0 < 0 then base0 + FFDHE_N else base0);
            S = pow_mod base (a + u * x) FFDHE_N
        in attempt (sha256_parts env [pad_int S]) (\<lambda>K.
           attempt (sha256_parts env [pad_int A, pad_int B, K]) (\<lambda>M1.
           Inr \<lparr>shared_S = S, session_K = K, proof_M1 = M1\<rparr>)))))"

definition compute_server_M2 :: "srp_env \<Rightarrow> int \<Rightarrow> bytes \<Rightarrow> bytes \<Rightarrow> canon_error + bytes" where
  "compute_server_M2 env A M1 K = sha256_parts env [pad_int A, M1, K]"

text \<open>A byte read out of range is \<open>undefined\<close>, which \<open>^\<close> takes as 0.\<close>

definition verify_server_M2 :: "srp_env \<Rightarrow> int \<Rightarrow> bytes \<Rightarrow> bytes \<Rightarrow> bytes \<Rightarrow> canon_error + bool" where
  "verify_server_M2 env A M1 K serverM2 =
     (if length serverM2 \<noteq> 32 then Inr False
      else attempt (sha256_parts env [pad_int A, M1, K]) (\<lambda>expected.
        Inr (fold (\<lambda>i diff. diff OR ((if i < length expected then expected ! i else 0) XOR serverM2 ! i))
               [0..<32] 0 = 0)))"

subsection \<open>The group\<close>

lemma same_modulus_text: "FFDHE_HEX = srpN"
  by (simp add: FFDHE_HEX_def srpN_def)

lemma radix_value_upper: "radix_value b acc s = Some n \<Longrightarrow> n < (acc + 1) * b ^ length s"
proof (induction s arbitrary: acc)
  case (Cons c cs)
  then obtain d where d: "d < b" "radix_value b (b * acc + d) cs = Some n"
    by (auto split: option.splits if_splits)
  from Cons.IH [OF d(2)] have "n < (b * acc + d + 1) * b ^ length cs" .
  also have "\<dots> \<le> (b * acc + b) * b ^ length cs" using d(1) by (intro mult_le_mono1) simp
  finally show ?case by (simp add: algebra_simps)
qed simp

lemma modulus_digits: "\<exists>n. radix_value 16 0 FFDHE_HEX = Some n \<and> odd n \<and> 4 \<le> n \<and> n < 16 ^ 768"
proof -
  have "list_all (\<lambda>c. case digit_val c of None \<Rightarrow> False | Some d \<Rightarrow> d < 16) FFDHE_HEX"
    by (simp add: FFDHE_HEX_def upper_digits)
  then obtain n where n: "radix_value 16 0 FFDHE_HEX = Some n" using radix_value_total by blast
  have l: "length FFDHE_HEX = 768" and last: "last FFDHE_HEX = CHR ''F''"
    by code_simp+
  then have s: "FFDHE_HEX = butlast FFDHE_HEX @ ''F''"
    using append_butlast_last_id [of FFDHE_HEX] by force
  have "radix_value 16 0 (butlast FFDHE_HEX @ ''F'') = Some n" using n by (simp only: s [symmetric])
  then obtain k where "radix_value 16 k ''F'' = Some n"
    unfolding radix_value_append bind_eq_Some_conv by blast
  then have "n = 16 * k + 15" by (simp add: upper_digits)
  then have "odd n" by simp
  moreover have "n < 16 ^ 768" using radix_value_upper [OF n] by (simp only: l add_0 mult_1)
  moreover have "4 \<le> int n" using go_modulus_ge_4 n by (simp add: go_conv_def same_modulus_text)
  ultimately show ?thesis using n by (intro exI [of _ n] conjI) simp_all
qed

lemma ffdhe_modulus: "FFDHE_N = modulus go_conv" and ffdhe_odd: "odd FFDHE_N"
  and ffdhe_big: "4 \<le> FFDHE_N" and ffdhe_bound: "FFDHE_N < 256 ^ 384"
proof -
  obtain n where n: "radix_value 16 0 FFDHE_HEX = Some n" "odd n" "4 \<le> n" "n < 16 ^ 768"
    using modulus_digits by blast
  have "trim_text (''0x'' @ FFDHE_HEX) = ''0x'' @ FFDHE_HEX" and "FFDHE_HEX \<noteq> []"
    by code_simp+
  then have "parse_big_int (''0x'' @ FFDHE_HEX) = Some (int n)"
    using n(1) by (simp add: parse_big_int_def radix_of_def some_digits_def)
  then have N: "FFDHE_N = int n" by (simp add: FFDHE_N_def)
  show "FFDHE_N = modulus go_conv" using n(1) N by (simp add: go_conv_def same_modulus_text)
  show "odd FFDHE_N" "4 \<le> FFDHE_N" using n(2,3) unfolding N by simp_all
  have "int n < int (16 ^ 768)" using n(4) by (simp only: of_nat_less_iff)
  also have "int (16 ^ 768) = 16 ^ (2 * 384)" by (simp only: of_nat_power of_nat_numeral) simp
  also have "\<dots> = (16 ^ 2) ^ 384" by (rule power_mult)
  also have "(16 :: int) ^ 2 = 256" by simp
  finally show "FFDHE_N < 256 ^ 384" unfolding N .
qed

interpretation ffdhe: srp_group FFDHE_N
  by unfold_locales (rule ffdhe_odd, use ffdhe_big in simp)

lemma pad_int_eq: "pad_int v = pad_to 384 (big_int_to_bytes v)"
  by (simp add: pad_int_def PAD_LEN_def pad_to_def Let_def)

lemma pad_int_go: "pad_int v = pad_big_int v"
proof (cases "v = 0")
  case True
  have "replicate 383 0 @ [0] = replicate 384 (0 :: byte)"
    using replicate_append_same [of 383 "0 :: byte"] by (simp flip: replicate_Suc)
  with True show ?thesis by (simp add: pad_int_eq pad_big_int_def go_bytes_def pad_to_def big_int_to_bytes_def)
qed (simp add: pad_int_eq pad_big_int_def)

lemma length_pad_int [simp]: "length (pad_int v) = 384"
  by (simp add: pad_int_eq length_pad_to)

lemma pow_loop_eq: "pow_loop m r b e = mod_pow_loop m r b e"
proof (induction m r b e rule: pow_loop.induct)
  case (1 m r b e)
  have "e > 0 \<Longrightarrow> e AND 1 \<noteq> 0 \<longleftrightarrow> big_rem e 2 = 1"
    by (simp add: and_one_eq big_rem_nonneg)
  with 1 show ?case
    by (subst pow_loop.simps, subst mod_pow_loop.simps) (simp add: drop_bit_eq_div)
qed

lemma add_when_negative:
  assumes "0 < m"
  shows "(if big_rem a m < 0 then big_rem a m + m else big_rem a m) = a mod m" (is "?r = _")
proof -
  define r where "r = ?r"
  have "- m < big_rem a m" "big_rem a m < m" "big_rem a m mod m = a mod m"
    using assms big_rem_bounds [of m a] big_rem_mod [of m a] by simp_all
  then have "0 \<le> r" "r < m" "r mod m = a mod m"
    unfolding r_def by (auto simp only: mod_add_self2 split: if_split)
  then have "r = a mod m" using mod_pos_pos_trivial [of r m] by simp
  then show ?thesis by (simp only: r_def)
qed

lemma pow_mod_power:
  assumes "0 < m" and "0 \<le> e"
  shows "pow_mod base e m = base ^ nat e mod m"
proof (cases "m = 1")
  case False
  then have "pow_mod base e m = 1 * (base mod m) ^ nat e mod m"
    using assms mod_pow_loop_spec [of m 1 "base mod m" e]
    by (simp add: pow_mod_def Let_def add_when_negative pow_loop_eq)
  then show ?thesis by (simp add: power_mod)
qed (simp add: pow_mod_def)

subsection \<open>The handshake\<close>

definition env_hash :: "srp_env \<Rightarrow> (bytes \<Rightarrow> bytes) \<Rightarrow> bool" where
  "env_hash env sha = (\<forall>x. digest env x = Some (sha x) \<and> length (sha x) = 32)"

lemma env_hashD [simp]:
  "env_hash env sha \<Longrightarrow> digest env x = Some (sha x)"
  "env_hash env sha \<Longrightarrow> length (sha x) = 32"
  by (simp_all add: env_hash_def)

lemma sha256_parts_eq [simp]: "env_hash env sha \<Longrightarrow> sha256_parts env parts = Inr (sha (concat parts))"
  by (simp add: sha256_parts_def)

lemma pow_ffdhe: "0 \<le> e \<Longrightarrow> pow_mod base e FFDHE_N = base ^ nat e mod FFDHE_N"
  using ffdhe.pos_modulus by (rule pow_mod_power)

lemma public_A: "0 \<le> a \<Longrightarrow> compute_public_A a = 2 ^ nat a mod FFDHE_N"
  and verifier_v: "0 \<le> x \<Longrightarrow> derive_verifier x = 2 ^ nat x mod FFDHE_N"
  by (simp_all add: compute_public_A_def derive_verifier_def pow_ffdhe FFDHE_G_def)

lemma public_range: "0 \<le> a \<Longrightarrow> 0 < compute_public_A a \<and> compute_public_A a < FFDHE_N"
  using ffdhe.power_range by (simp add: public_A)

lemma drawn:
  "draw_ephemeral draws = Some (a, A) \<Longrightarrow> 1 < a \<and> A = compute_public_A a \<and> 1 < A \<and> A < FFDHE_N"
proof (induction draws)
  case (Cons d ds)
  from Cons.prems have "draw_ephemeral ds = Some (a, A) \<or>
      (1 < a \<and> A = compute_public_A a \<and> A \<noteq> 0 \<and> A \<noteq> 1)"
    by (auto simp: Let_def split: if_splits)
  then show ?case
  proof
    assume "1 < a \<and> A = compute_public_A a \<and> A \<noteq> 0 \<and> A \<noteq> 1"
    then show ?thesis using public_range [of a] by simp
  qed (rule Cons.IH)
qed simp

text \<open>The session a challenge leads to.\<close>

lemma process_challenge_shape:
  assumes "env_hash env sha" and "process_challenge env a x B = Inr ch"
  shows "proof_M1 ch = sha (pad_int (compute_public_A a) @ pad_int B @ session_K ch) \<and>
    length (session_K ch) = 32 \<and> B \<noteq> 0"
  using assms by (auto simp: process_challenge_def multiplier_k_def attempt_Inr Let_def split: if_split_asm)

lemma process_challenge_eq:
  assumes "env_hash env sha" and "0 \<le> x" and "0 < B" and "B < FFDHE_N"
    and "k = bytes_to_big_int (sha (pad_int FFDHE_N @ pad_int FFDHE_G))"
    and "u = bytes_to_big_int (sha (pad_int (compute_public_A a) @ pad_int B))"
    and "0 \<le> a"
  shows "\<exists>ch. process_challenge env a x B = Inr ch \<and>
    session_K ch = sha (pad_int (((B - k * (2 ^ nat x mod FFDHE_N) mod FFDHE_N) mod FFDHE_N) ^ nat (a + u * x) mod FFDHE_N))"
proof -
  have u0: "0 \<le> u" "0 \<le> k" by (simp_all add: assms(5,6))
  have b: "big_rem B FFDHE_N \<noteq> 0" using assms(3,4) by (simp add: big_rem_nonneg)
  have kgx: "big_rem (k * pow_mod FFDHE_G x FFDHE_N) FFDHE_N = k * (2 ^ nat x mod FFDHE_N) mod FFDHE_N"
    using u0 assms(2) ffdhe.pos_modulus by (simp add: big_rem_nonneg pow_ffdhe FFDHE_G_def)
  note norm = add_when_negative [OF ffdhe.pos_modulus]
  have e: "0 \<le> a + u * x" using u0 assms(2,7) by simp
  show ?thesis
    using assms(1,3) b kgx
    by (simp add: process_challenge_def multiplier_k_def Let_def norm pow_ffdhe [OF e]
        assms(5,6) [symmetric])
qed

lemma go_pads: "pad_num go_conv = pad_big_int" "raw_num go_conv = pad_big_int"
  by (simp_all add: go_conv_def)

text \<open>Both sides hash the same secret.\<close>

lemma keys_agree:
  assumes "env_hash env sha" and "0 \<le> x" and "0 \<le> a" and "0 \<le> b"
    and "server_init go_conv sha (derive_verifier x) b = Some B"
  obtains ch where "process_challenge env a x B = Inr ch"
    and "session_K ch = server_key go_conv sha (derive_verifier x) b B (compute_public_A a)"
    and "0 < B" and "B < FFDHE_N"
proof -
  let ?v = "2 ^ nat x mod FFDHE_N" and ?A = "compute_public_A a"
  define k where "k = bytes_to_big_int (sha (pad_int FFDHE_N @ pad_int FFDHE_G))"
  define u where "u = bytes_to_big_int (sha (pad_int ?A @ pad_int B))"
  have ku: "0 \<le> u" "compute_SRP_k go_conv sha = k" "compute_SRP_u go_conv sha ?A B = u"
    by (simp_all add: k_def u_def compute_SRP_k_def compute_SRP_u_def go_pads pad_int_go
        ffdhe_modulus FFDHE_G_def)
  have p: "mod_pow base e FFDHE_N = base ^ nat e mod FFDHE_N" if "0 \<le> e" for base e
    using that by (rule ffdhe.mod_pow_modulus)
  have B: "B = (k * ?v mod FFDHE_N + 2 ^ nat b mod FFDHE_N) mod FFDHE_N" "B \<noteq> 0"
    using assms(5) p [OF assms(4)]
    by (auto simp: server_init_def Let_def ku verifier_v [OF assms(2)] ffdhe_modulus [symmetric] split: if_splits)
  then have range: "0 < B" "B < FFDHE_N"
    using ffdhe.pos_modulus pos_mod_sign [OF ffdhe.pos_modulus] pos_mod_bound [OF ffdhe.pos_modulus]
    by (metis order_le_less)+
  have e: "nat (a + u * x) = nat a + nat u * nat x"
    using assms(2,3) ku(1) by (simp add: nat_add_distrib nat_mult_distrib)
  obtain ch where ch: "process_challenge env a x B = Inr ch"
      "session_K ch = sha (pad_int (((B - k * ?v mod FFDHE_N) mod FFDHE_N) ^ (nat a + nat u * nat x) mod FFDHE_N))"
    using process_challenge_eq [OF assms(1,2) range k_def u_def assms(3)] unfolding e by blast
  moreover have "((B - k * ?v mod FFDHE_N) mod FFDHE_N) ^ (nat a + nat u * nat x) mod FFDHE_N =
      (?A * (?v ^ nat u mod FFDHE_N) mod FFDHE_N) ^ nat b mod FFDHE_N"
    by (rule ffdhe.key_agreement [OF public_A [OF assms(3)] HOL.refl B(1)])
  ultimately have "session_K ch = server_key go_conv sha (derive_verifier x) b B ?A"
    using p [OF assms(4)] p [OF ku(1)]
    by (simp add: server_key_def Let_def ku go_pads pad_int_go ffdhe_modulus [symmetric] verifier_v [OF assms(2)])
  with ch(1) range that show ?thesis by blast
qed

lemma or_xor_fold:
  "fold (\<lambda>i diff. diff OR (f i XOR g i)) is d = (0 :: byte) \<longleftrightarrow> d = 0 \<and> (\<forall>i\<in>set is. f i = g i)"
proof (induction "is" arbitrary: d)
  case (Cons i "is")
  have "x OR y = 0 \<longleftrightarrow> x = 0 \<and> y = 0" "x XOR y = 0 \<longleftrightarrow> x = y" for x y :: byte
    by (auto simp: bit_eq_iff bit_simps)
  then show ?case by (auto simp: Cons.IH)
qed simp

lemma verify_server_M2_eq:
  assumes "env_hash env sha"
  shows "verify_server_M2 env A M1 K M2 = Inr (M2 = sha (pad_int A @ M1 @ K))"
proof (cases "length M2 = 32")
  case True
  then have "(\<forall>i\<in>set [0..<32]. (if i < 32 then sha (pad_int A @ M1 @ K) ! i else 0) = M2 ! i) \<longleftrightarrow>
      M2 = sha (pad_int A @ M1 @ K)"
    using assms by (auto simp: list_eq_iff_nth_eq)
  with True assms show ?thesis by (simp add: verify_server_M2_def or_xor_fold)
next
  case False
  with assms have "M2 \<noteq> sha (pad_int A @ M1 @ K)" by auto
  with False show ?thesis by (simp add: verify_server_M2_def)
qed

text \<open>What an accepted proof consists of.\<close>

lemma server_verify_accepts:
  assumes "server_verify go_conv sha v b B Atext M1hex = Some M2"
  obtains A where "set_string10 Atext = Some A" and "0 < A" and "A < FFDHE_N"
    and "M1hex = bytes_to_hex (sha (pad_int A @ pad_int B @ server_key go_conv sha v b B A))"
    and "M2 = bytes_to_hex (sha (pad_int A @ sha (pad_int A @ pad_int B @ server_key go_conv sha v b B A) @
      server_key go_conv sha v b B A))"
  using assms
  by (auto simp: server_verify_def Let_def go_pads pad_int_go ffdhe_modulus split: option.splits if_splits)

lemma pad_int_inject:
  assumes "pad_int m = pad_int n" and "0 \<le> m" and "m < FFDHE_N" and "0 \<le> n" and "n < FFDHE_N"
  shows "m = n"
proof -
  have "bytes_value (pad_int i) = nat i" if "0 \<le> i" "i < FFDHE_N" for i
  proof -
    have "i < 256 ^ 384" using that(2) ffdhe_bound by linarith
    then have "length (big_int_to_bytes i) \<le> 384" using that(1) by (intro length_big_int_to_bytes) simp_all
    then show ?thesis using that(1) by (simp add: pad_int_eq pad_to_value big_int_to_bytes_value)
  qed
  then have "nat m = nat n" using assms by metis
  then show ?thesis using assms(2,4) by simp
qed

lemma handshake_agrees:
  assumes "env_hash env sha" and "0 \<le> x" and "0 \<le> b"
    and "draw_ephemeral draws = Some (a, A)"
    and "server_init go_conv sha (derive_verifier x) b = Some B"
    and "compute_SRP_u go_conv sha A B \<noteq> 0"
  shows "\<exists>ch M2. process_challenge env a x B = Inr ch \<and>
    session_K ch = server_key go_conv sha (derive_verifier x) b B A \<and>
    server_verify go_conv sha (derive_verifier x) b B (big_to_string 10 A) (bytes_to_hex (proof_M1 ch)) = Some M2 \<and>
    verify_server_M2 env A (proof_M1 ch) (session_K ch) (hex_to_bytes M2) = Inr True"
proof -
  have a: "0 \<le> a" "A = compute_public_A a" "0 < A" "A < FFDHE_N" using drawn [OF assms(4)] by simp_all
  obtain ch where ch: "process_challenge env a x B = Inr ch"
      "session_K ch = server_key go_conv sha (derive_verifier x) b B A" "0 < B" "B < FFDHE_N"
    using keys_agree [OF assms(1,2) a(1) assms(3,5)] a(2) by metis
  have M1: "proof_M1 ch = sha (pad_int A @ pad_int B @ session_K ch)"
    using process_challenge_shape [OF assms(1) ch(1)] a(2) by simp
  have "server_verify go_conv sha (derive_verifier x) b B (big_to_string 10 A) (bytes_to_hex (proof_M1 ch)) =
      Some (bytes_to_hex (sha (pad_int A @ proof_M1 ch @ session_K ch)))"
    using a(3,4) assms(6) ch(2) M1
    by (simp add: server_verify_def set_string_decimal Let_def go_pads pad_int_go ffdhe_modulus [symmetric])
  then show ?thesis using ch(1,2) by (simp add: verify_server_M2_eq [OF assms(1)] hex_inverse)
qed

text \<open>
  C2: The client in use and the repository's Go server agree: for an account whose verifier
  belongs to \<open>x\<close> and any accepted draw, the client's challenge gives the server's session key, the
  server accepts the client's proof when it reads the \<open>A\<close> the client computed, and the client
  accepts the server's proof.
\<close>

theorem canonical_handshake:
  assumes "env_hash env sha" and "0 \<le> x" and "0 \<le> b"
    and "draw_ephemeral draws = Some (a, A)"
    and "server_init go_conv sha (derive_verifier x) b = Some B"
    and "compute_SRP_u go_conv sha A B \<noteq> 0"
  shows "\<exists>ch M2. process_challenge env a x B = Inr ch \<and>
    session_K ch = server_key go_conv sha (derive_verifier x) b B A \<and>
    server_verify go_conv sha (derive_verifier x) b B (big_to_string 10 A) (bytes_to_hex (proof_M1 ch)) = Some M2 \<and>
    verify_server_M2 env A (proof_M1 ch) (session_K ch) (hex_to_bytes M2) = Inr True"
  using assms by (rule handshake_agrees)

lemma accepted_needs_key:
  assumes "env_hash env sha" and "0 \<le> a"
    and "process_challenge env a x B' = Inr ch"
    and "server_verify go_conv sha v b B Atext (bytes_to_hex (proof_M1 ch)) = Some M2"
  shows "set_string10 Atext = Some (compute_public_A a) \<and> pad_int B' = pad_int B \<and>
      session_K ch = server_key go_conv sha v b B (compute_public_A a) \<or>
    (\<exists>p q. length p = 800 \<and> length q = 800 \<and> p \<noteq> q \<and> sha p = sha q)"
proof -
  let ?A = "compute_public_A a"
  obtain A where A: "set_string10 Atext = Some A" "0 < A" "A < FFDHE_N"
      "bytes_to_hex (proof_M1 ch) = bytes_to_hex (sha (pad_int A @ pad_int B @ server_key go_conv sha v b B A))"
    by (rule server_verify_accepts [OF assms(4)])
  have ch: "proof_M1 ch = sha (pad_int ?A @ pad_int B' @ session_K ch)" "length (session_K ch) = 32"
    using process_challenge_shape [OF assms(1,3)] by simp_all
  let ?p = "pad_int ?A @ pad_int B' @ session_K ch" and ?q = "pad_int A @ pad_int B @ server_key go_conv sha v b B A"
  have l: "length ?p = 800" "length ?q = 800" using ch(2) assms(1) by (simp_all add: server_key_def Let_def)
  have h: "sha ?p = sha ?q" using A(4) ch(1) by (simp add: bytes_to_hex_inject)
  show ?thesis
  proof (cases "?p = ?q")
    case True
    then have "pad_int ?A = pad_int A" "pad_int B' = pad_int B" "session_K ch = server_key go_conv sha v b B A"
      by simp_all
    moreover from this(1) have "?A = A"
      using public_range [OF assms(2)] A(2,3) by (intro pad_int_inject) simp_all
    ultimately show ?thesis using A(1) by simp
  next
    case False
    with l h show ?thesis by (intro disjI2 exI [of _ ?p] exI [of _ ?q]) simp
  qed
qed


subsection \<open>Instances\<close>

definition one_env :: srp_env where
  "one_env = \<lparr>digest = \<lambda>x. Some (one_sha x), argon = \<lambda>_ _. Some ''01''\<rparr>"

lemma one_env: "env_hash one_env one_sha"
  by (simp add: env_hash_def one_env_def one_sha_def)

lemma small_draw: "draw_ephemeral [[0], [2]] = Some (2, 4)"
  and small_verifier: "derive_verifier 1 = 2" and small_init: "server_init go_conv one_sha 2 0 = Some 3"
proof -
  have N: "5 \<le> FFDHE_N" using ffdhe_big ffdhe_odd by presburger
  have bytes: "bytes_to_big_int [0] = 0" "bytes_to_big_int [2] = 2"
    by (simp_all add: bytes_to_big_int_value bytes_value_def digits_number_Cons)
  have A: "compute_public_A 2 = 4" using N by (simp add: public_A)
  show "draw_ephemeral [[0], [2]] = Some (2, 4)" using N by (simp add: bytes A big_rem_nonneg)
  show "derive_verifier 1 = 2" using N by (simp add: verifier_v)
  show "server_init go_conv one_sha 2 0 = Some 3" by (rule one_init) (rule go_modulus_ge_4)
qed

theorem canonical_handshake_witness:
  "\<exists>ch M2. process_challenge one_env 2 1 3 = Inr ch \<and> session_K ch = one_sha [] \<and>
     server_verify go_conv one_sha 2 0 3 (big_to_string 10 4) (bytes_to_hex (proof_M1 ch)) = Some M2"
proof -
  have k: "server_key go_conv one_sha 2 0 3 4 = one_sha []"
    unfolding server_key_def Let_def by (rule one_const)
  show ?thesis
    using canonical_handshake [OF one_env _ _ small_draw, of 1 0 3] small_verifier small_init
    by (simp add: compute_SRP_u_def k) blast
qed


end
