(* ===== verification/Auth_Service.thy ===== *)
theory Auth_Service
  imports Srp_Canonical Result_State Web_Storage Event_System
begin

text \<open>
  \<open>services/auth.ts\<close> with the token functions and SRP requests of \<open>services/api.ts\<close> it calls.
  The master key lives in the module; tokens and secrets live in the secure store, which is
  \<open>expo-secure-store\<close> on native and, for \<open>api.ts\<close>, a map in memory on the web (\<open>auth.ts\<close> itself has
  none there). A JSON object is the list of its text fields; a missing field is \<open>None\<close> and a stored
  \<open>undefined\<close> is \<open>Some None\<close>. Parameters (\<open>auth_env\<close>): the HTTP client with its interceptors, the
  native key derivation and key generation, which operations of the native stores fail, the
  biometric hardware. \<open>relabel\<close> is the \<open>catch\<close> of each function.
\<close>

subsection \<open>Environment and state\<close>

type_synonym json = "(string \<times> string) list"

datatype http = Reply json | Status nat json | NoReply

datatype biometric = Face | Fingerprint | Iris

record register_body =
  body_email :: string
  body_salt :: string
  body_verifier :: string
  body_x25519 :: string
  body_ed25519 :: string

record auth_env =
  on_web :: bool
  hashes :: srp_env
  api_post :: "string \<Rightarrow> json \<Rightarrow> string option local_storage \<Rightarrow> http \<times> string option local_storage"
  derive_key :: "string \<Rightarrow> bytes \<Rightarrow> bytes option"
  share_keypair :: "(bytes \<times> bytes) option"
  signing_keypair :: "(bytes \<times> bytes) option"
  post_register :: "register_body \<Rightarrow> bool option"
  secure_write :: "string \<Rightarrow> string option \<Rightarrow> bool"
  secure_read :: "string \<Rightarrow> bool"
  secure_delete :: "string \<Rightarrow> bool"
  async_works :: bool
  has_hardware :: "bool option"
  supported_types :: "biometric list option"
  biometric_prompt :: "bool option"

record auth_state =
  master_key :: "bytes option"
  secure :: "string option local_storage"
  async_store :: "string local_storage"

datatype auth_error =
    ReRegistrationRequired
  | LoginFailed
  | RegisterFailed
  | LogoutFailed
  | EnableFailed
  | DisableFailed
  | BiometricOnWeb
  | RequestFailed
  | MissingField
  | SrpFailed canon_error
  | NoEphemeral
  | ServerNotAuthentic
  | StoreFailed
  | KeyDerivationFailed
  | KeyGenerationFailed
  | BiometricsUnavailable

type_synonym 'a auth_call = "(auth_state, auth_error, 'a) call"

definition TOKEN_KEY :: string where "TOKEN_KEY = ''usbvault_access_token''"

definition REFRESH_TOKEN_KEY :: string where "REFRESH_TOKEN_KEY = ''usbvault_refresh_token''"

definition BIOMETRIC_KEY :: string where "BIOMETRIC_KEY = ''usbvault_biometric_unlock''"

subsection \<open>Stores\<close>

definition set_item :: "auth_env \<Rightarrow> string \<Rightarrow> string option \<Rightarrow> unit auth_call" where
  "set_item env k v s =
     (if on_web env \<or> secure_write env k v then (Inr (), s\<lparr>secure := ls_set k v (secure s)\<rparr>)
      else (Inl StoreFailed, s))"

definition get_item :: "auth_env \<Rightarrow> string \<Rightarrow> string option option auth_call" where
  "get_item env k s =
     (if on_web env \<or> secure_read env k then (Inr (ls_get k (secure s)), s) else (Inl StoreFailed, s))"

definition delete_item :: "auth_env \<Rightarrow> string \<Rightarrow> unit auth_call" where
  "delete_item env k s =
     (if on_web env \<or> secure_delete env k then (Inr (), s\<lparr>secure := ls_remove k (secure s)\<rparr>)
      else (Inl StoreFailed, s))"

text \<open>\<open>api.ts\<close>: tokens.\<close>

definition get_access_token :: "auth_env \<Rightarrow> string option option auth_call" where
  "get_access_token env s =
     (case get_item env TOKEN_KEY s of (Inr v, t) \<Rightarrow> (Inr v, t) | (Inl _, t) \<Rightarrow> (Inr None, t))"

definition store_tokens :: "auth_env \<Rightarrow> string option \<Rightarrow> string option \<Rightarrow> unit auth_call" where
  "store_tokens env access refresh =
     and_then (set_item env TOKEN_KEY access) (\<lambda>_.
       if on_web env then ret () else set_item env REFRESH_TOKEN_KEY refresh)"

definition clear_tokens :: "auth_env \<Rightarrow> unit auth_call" where
  "clear_tokens env =
     swallow (and_then (delete_item env TOKEN_KEY) (\<lambda>_. delete_item env REFRESH_TOKEN_KEY))"

text \<open>\<open>api.ts\<close>: the two SRP requests.\<close>

definition SRP_REREGISTRATION_REQUIRED :: string where
  "SRP_REREGISTRATION_REQUIRED = ''SRP_REREGISTRATION_REQUIRED''"

definition post :: "auth_env \<Rightarrow> string \<Rightarrow> json \<Rightarrow> http auth_call" where
  "post env path body s =
     (let (r, store) = api_post env path body (secure s) in (Inr r, s\<lparr>secure := store\<rparr>))"

definition srp_init_request :: "auth_env \<Rightarrow> string \<Rightarrow> json auth_call" where
  "srp_init_request env email =
     and_then (post env ''/auth/srp/init'' [(''email'', email)]) (\<lambda>r.
       case r of
         Reply d \<Rightarrow> ret d
       | Status n d \<Rightarrow> throw (if n = 409 \<and> map_of d ''code'' = Some SRP_REREGISTRATION_REQUIRED
                              then ReRegistrationRequired else RequestFailed)
       | NoReply \<Rightarrow> throw RequestFailed)"

definition srp_verify_request :: "auth_env \<Rightarrow> json \<Rightarrow> json auth_call" where
  "srp_verify_request env req =
     and_then (post env ''/auth/srp/verify'' req) (\<lambda>r.
       case r of Reply d \<Rightarrow> ret d | _ \<Rightarrow> throw RequestFailed)"

subsection \<open>SRP helpers\<close>

text \<open>\<open>Buffer.from(text, 'hex')\<close>: pairs of digits up to the first that is none.\<close>

fun buffer_from_hex :: "string \<Rightarrow> bytes" where
  "buffer_from_hex (c # d # cs) =
     (case (digit_val c, digit_val d) of
        (Some h, Some l) \<Rightarrow> of_nat (16 * h + l) # buffer_from_hex cs
      | _ \<Rightarrow> [])"
| "buffer_from_hex _ = []"

lemma buffer_hex: "buffer_from_hex (bytes_to_hex bs) = bs"
proof (induction bs)
  case (Cons b bs)
  have "unat b div 16 < 16" "unat b mod 16 < 16" using byte_less [of b] by simp_all
  then have "buffer_from_hex (byte_hex b @ rest) = b # buffer_from_hex rest" for rest
    using hex_digit_cases [of "unat b div 16"] hex_digit_cases [of "unat b mod 16"]
    by (simp add: byte_hex_def)
  with Cons show ?case by (simp add: bytes_to_hex_def)
qed (simp add: bytes_to_hex_def)

definition hex_field :: "json \<Rightarrow> string \<Rightarrow> bytes auth_call" where
  "hex_field d k = of_result (or_throw MissingField (map_option buffer_from_hex (map_of d k)))"

definition srp_result :: "canon_error + 'a \<Rightarrow> auth_error + 'a" where
  "srp_result r = (case r of Inl e \<Rightarrow> Inl (SrpFailed e) | Inr a \<Rightarrow> Inr a)"

record srp_proof =
  proof_A :: bytes
  proof_M :: bytes
  proof_key :: bytes
  proof_pub :: int

definition compute_srp_proof ::
  "auth_env \<Rightarrow> bytes list \<Rightarrow> string \<Rightarrow> string \<Rightarrow> bytes \<Rightarrow> bytes \<Rightarrow> auth_error + srp_proof" where
  "compute_srp_proof env draws email password salt B =
     attempt (or_throw NoEphemeral (draw_ephemeral draws)) (\<lambda>(a, A).
     attempt (srp_result (derive_x (hashes env) salt email password)) (\<lambda>x.
     attempt (srp_result (process_challenge (hashes env) a x (bytes_to_big_int B))) (\<lambda>ch.
     Inr \<lparr>proof_A = big_int_to_bytes A, proof_M = proof_M1 ch, proof_key = session_K ch, proof_pub = A\<rparr>)))"

definition compute_expected_M2 :: "auth_env \<Rightarrow> int \<Rightarrow> bytes \<Rightarrow> bytes \<Rightarrow> auth_error + bytes" where
  "compute_expected_M2 env APub M1 key = srp_result (compute_server_M2 (hashes env) APub M1 key)"

definition compute_srp_verifier_hex :: "srp_env \<Rightarrow> string \<Rightarrow> string \<Rightarrow> bytes \<Rightarrow> canon_error + string" where
  "compute_srp_verifier_hex h email password salt =
     attempt (derive_x h salt email password) (\<lambda>x.
       Inr (bytes_to_hex (big_int_to_bytes (derive_verifier x))))"

subsection \<open>Login, registration, logout\<close>

text \<open>The request's \<open>sessionId\<close> is left out of the JSON text when the reply had none.\<close>

definition verify_body :: "string option \<Rightarrow> srp_proof \<Rightarrow> json" where
  "verify_body sid p =
     (case sid of None \<Rightarrow> [] | Some i \<Rightarrow> [(''sessionId'', i)]) @
     [(''A'', bytes_to_hex (proof_A p)), (''M1'', bytes_to_hex (proof_M p))]"

definition login_steps :: "auth_env \<Rightarrow> bytes list \<Rightarrow> string \<Rightarrow> string \<Rightarrow> unit auth_call" where
  "login_steps env draws email password =
     and_then (srp_init_request env email) (\<lambda>resp.
     and_then (hex_field resp ''salt'') (\<lambda>salt.
     and_then (hex_field resp ''B'') (\<lambda>B.
     and_then (of_result (compute_srp_proof env draws email password salt B)) (\<lambda>p.
     and_then (srp_verify_request env (verify_body (map_of resp ''sessionId'') p)) (\<lambda>ver.
     and_then (of_result (compute_expected_M2 env (proof_pub p) (proof_M p) (proof_key p))) (\<lambda>expected.
     and_then (hex_field ver ''M2'') (\<lambda>serverM2.
     if expected \<noteq> serverM2 then throw ServerNotAuthentic
     else and_then (store_tokens env (map_of ver ''accessToken'') (map_of ver ''refreshToken'')) (\<lambda>_.
     case derive_key env password salt of
       None \<Rightarrow> throw KeyDerivationFailed
     | Some k \<Rightarrow> modify (\<lambda>s. s\<lparr>master_key := Some k\<rparr>)))))))))"

definition login_label :: "auth_error \<Rightarrow> auth_error" where
  "login_label e = (if e = ReRegistrationRequired \<or> e = NoEphemeral then e else LoginFailed)"

definition login :: "auth_env \<Rightarrow> bytes list \<Rightarrow> string \<Rightarrow> string \<Rightarrow> unit auth_call" where
  "login env draws email password = relabel login_label (login_steps env draws email password)"

definition register_steps ::
  "auth_env \<Rightarrow> bytes option \<Rightarrow> bytes list \<Rightarrow> string \<Rightarrow> string \<Rightarrow> unit auth_call" where
  "register_steps env random draws email password =
     and_then (of_result (or_throw KeyGenerationFailed random)) (\<lambda>salt.
     and_then (of_result (srp_result (compute_srp_verifier_hex (hashes env) email password salt))) (\<lambda>verifier.
     and_then (of_result (or_throw KeyGenerationFailed (share_keypair env))) (\<lambda>(sharePub, shareSecret).
     and_then (of_result (or_throw KeyGenerationFailed (signing_keypair env))) (\<lambda>(signPub, signSecret).
     and_then (case post_register env \<lparr>body_email = email, body_salt = bytes_to_hex salt,
         body_verifier = verifier, body_x25519 = btoa sharePub, body_ed25519 = btoa signPub\<rparr> of
       Some True \<Rightarrow> ret () | _ \<Rightarrow> throw RequestFailed) (\<lambda>_.
     and_then (if on_web env then ret ()
       else and_then (set_item env ''usbvault_share_secret_key'' (Some (bytes_to_hex shareSecret))) (\<lambda>_.
            set_item env ''usbvault_signing_secret_key'' (Some (bytes_to_hex signSecret)))) (\<lambda>_.
     login env draws email password))))))"

definition register ::
  "auth_env \<Rightarrow> bytes option \<Rightarrow> bytes list \<Rightarrow> string \<Rightarrow> string \<Rightarrow> unit auth_call" where
  "register env random draws email password =
     relabel (\<lambda>e. if e = NoEphemeral then e else RegisterFailed)
       (register_steps env random draws email password)"

definition clear_master_key :: "auth_state \<Rightarrow> auth_state" where
  "clear_master_key s = s\<lparr>master_key := None\<rparr>"

subsection \<open>Biometrics, migration, logout\<close>

definition check_biometric_availability :: "auth_env \<Rightarrow> bool \<times> biometric list" where
  "check_biometric_availability env =
     (if on_web env then (False, [])
      else if has_hardware env \<noteq> Some True then (False, [])
      else case supported_types env of
        None \<Rightarrow> (False, [])
      | Some ts \<Rightarrow> let types = filter (\<lambda>t. t \<in> set ts) [Face, Fingerprint, Iris] in (types \<noteq> [], types))"

definition authenticate_with_biometrics :: "auth_env \<Rightarrow> bool" where
  "authenticate_with_biometrics env =
     (if \<not> fst (check_biometric_availability env) then False else biometric_prompt env = Some True)"

definition enable_biometric_unlock :: "auth_env \<Rightarrow> string \<Rightarrow> unit auth_call" where
  "enable_biometric_unlock env masterKeyRef =
     (if on_web env then throw BiometricOnWeb
      else relabel (\<lambda>_. EnableFailed)
        (if \<not> fst (check_biometric_availability env) then throw BiometricsUnavailable
         else set_item env BIOMETRIC_KEY (Some masterKeyRef)))"

definition disable_biometric_unlock :: "auth_env \<Rightarrow> unit auth_call" where
  "disable_biometric_unlock env =
     (if on_web env then ret () else relabel (\<lambda>_. DisableFailed) (delete_item env BIOMETRIC_KEY))"

definition is_biometric_unlock_enabled :: "auth_env \<Rightarrow> auth_state \<Rightarrow> bool" where
  "is_biometric_unlock_enabled env s =
     (\<not> on_web env \<and> (case fst (get_item env BIOMETRIC_KEY s) of Inr v \<Rightarrow> v \<noteq> None | Inl _ \<Rightarrow> False))"

definition async_item :: "auth_env \<Rightarrow> string \<Rightarrow> string option auth_call" where
  "async_item env k s =
     (if async_works env then (Inr (ls_get k (async_store s)), s)
      else if on_web env then (Inr None, s) else (Inl StoreFailed, s))"

text \<open>An empty text counts as no token.\<close>

definition migrate_item :: "auth_env \<Rightarrow> string \<Rightarrow> string option \<Rightarrow> string \<Rightarrow> unit auth_call" where
  "migrate_item env k v oldKey =
     (case v of
        None \<Rightarrow> ret ()
      | Some w \<Rightarrow> if w = [] then ret ()
          else if on_web env then throw StoreFailed
          else and_then (set_item env k (Some w)) (\<lambda>_ s.
            if async_works env then (Inr (), s\<lparr>async_store := ls_remove oldKey (async_store s)\<rparr>)
            else (Inl StoreFailed, s)))"

definition migrate_to_secure_storage :: "auth_env \<Rightarrow> unit auth_call" where
  "migrate_to_secure_storage env =
     swallow
       (and_then (async_item env ''usbvault_access_token_async'') (\<lambda>access.
        and_then (async_item env ''usbvault_refresh_token_async'') (\<lambda>refresh.
        and_then (migrate_item env TOKEN_KEY access ''usbvault_access_token_async'') (\<lambda>_.
        migrate_item env REFRESH_TOKEN_KEY refresh ''usbvault_refresh_token_async''))))"

definition logout :: "auth_env \<Rightarrow> unit auth_call" where
  "logout env =
     relabel (\<lambda>_. LogoutFailed)
       (and_then (clear_tokens env) (\<lambda>_.
        and_then (swallow (disable_biometric_unlock env)) (\<lambda>_.
        modify (\<lambda>s. s\<lparr>master_key := None\<rparr>))))"

definition is_authenticated :: "auth_env \<Rightarrow> auth_state \<Rightarrow> bool" where
  "is_authenticated env s =
     (case (if on_web env then fst (get_access_token env s) else fst (get_item env TOKEN_KEY s)) of
        Inr token \<Rightarrow> token \<noteq> None \<and> master_key s \<noteq> None
      | Inl _ \<Rightarrow> False)"

subsection \<open>Sessions\<close>

datatype auth_event =
    Login "bytes list" string string
  | Register "bytes option" "bytes list" string string
  | Logout
  | Lock
  | EnableBiometrics string
  | DisableBiometrics
  | Migrate

fun auth_step :: "auth_env \<Rightarrow> auth_event \<Rightarrow> auth_state \<Rightarrow> auth_state option" where
  "auth_step env (Login draws email pw) s = Some (snd (login env draws email pw s))"
| "auth_step env (Register random draws email pw) s = Some (snd (register env random draws email pw s))"
| "auth_step env Logout s = Some (snd (logout env s))"
| "auth_step env Lock s = Some (clear_master_key s)"
| "auth_step env (EnableBiometrics r) s = Some (snd (enable_biometric_unlock env r s))"
| "auth_step env DisableBiometrics s = Some (snd (disable_biometric_unlock env s))"
| "auth_step env Migrate s = Some (snd (migrate_to_secure_storage env s))"

definition no_login :: "auth_event \<Rightarrow> bool" where
  "no_login e = (case e of Login _ _ _ \<Rightarrow> False | Register _ _ _ _ \<Rightarrow> False | _ \<Rightarrow> True)"

text \<open>Everything but a finished login leaves the master key as it is.\<close>

abbreviation key_is :: "bytes option \<Rightarrow> auth_state \<Rightarrow> bool" where
  "key_is k s \<equiv> master_key s = k"

lemma keeps_key_items [keeps_intros]:
  "keeps (key_is k) (set_item env i v)" "keeps (key_is k) (get_item env i)" "keeps (key_is k) (delete_item env i)"
  "keeps (key_is k) (async_item env i)" "keeps (key_is k) (post env path body)"
  by (simp_all add: keeps_def set_item_def get_item_def delete_item_def async_item_def post_def split: prod.split)

lemma keeps_key_tokens [keeps_intros]: "keeps (key_is k) (store_tokens env x y)" "keeps (key_is k) (clear_tokens env)"
  unfolding store_tokens_def clear_tokens_def by (intro keeps_intros)+

lemma keeps_key_requests [keeps_intros]:
  "keeps (key_is k) (srp_init_request env email)" "keeps (key_is k) (srp_verify_request env b)"
  "keeps (key_is k) (hex_field d f)"
  unfolding srp_init_request_def srp_verify_request_def hex_field_def
  by (intro keeps_intros; auto intro: keeps_intros split: http.split)+

lemma keeps_key_biometric [keeps_intros]:
  "keeps (key_is k) (enable_biometric_unlock env r)" "keeps (key_is k) (disable_biometric_unlock env)"
  unfolding enable_biometric_unlock_def disable_biometric_unlock_def by (intro keeps_intros)+

lemma keeps_key_migrate [keeps_intros]: "keeps (key_is k) (migrate_to_secure_storage env)"
proof -
  have "keeps (key_is k) (migrate_item env i v j)" for i v j
    unfolding migrate_item_def by (intro keeps_intros) (simp add: keeps_def)
  then show ?thesis unfolding migrate_to_secure_storage_def by (intro keeps_intros)
qed

lemma logout_result: "fst (logout env s) = Inr () \<and> master_key (snd (logout env s)) = None"
  by (simp add: logout_def relabel_def and_then_def swallow_def clear_tokens_def modify_def split: prod.split sum.split)

interpretation locked: event_system "auth_step env" no_login "key_is None" for env
proof
  show "key_is None t" if "key_is None s" "no_login e" "auth_step env e s = Some t" for s e t
    using that logout_result [of env s] keepsD [of "key_is None", OF _ that(1)]
    by (cases e) (auto simp: no_login_def clear_master_key_def intro: keeps_intros)
qed

lemma locked_not_authenticated: "master_key s = None \<Longrightarrow> \<not> is_authenticated env s"
  by (simp add: is_authenticated_def split: sum.split)

text \<open>
  C30: Logging out never fails and leaves no master key, whatever the stores do, and from then on
  no sequence of operations without a login or a registration makes the user authenticated again;
  the same holds after locking.
\<close>

theorem logout_locks:
  assumes "s' \<in> {snd (logout env s), clear_master_key s}"
    and "list_all no_login es" and "run (auth_step env) es s' = Some t"
  shows "fst (logout env s) = Inr () \<and> master_key t = None \<and> \<not> is_authenticated env' t"
proof -
  have "master_key s' = None" using assms(1) logout_result by (auto simp: clear_master_key_def)
  then have "master_key t = None" using locked.run_inv assms(2,3) by blast
  then show ?thesis using logout_result locked_not_authenticated by simp
qed

lemma relabel_Inr [simp]: "relabel f m s = (Inr a, t) \<longleftrightarrow> m s = (Inr a, t)"
  by (auto simp: relabel_def split: prod.split sum.split)

lemma of_result_Inr [simp]: "of_result r s = (Inr a, t) \<longleftrightarrow> r = Inr a \<and> t = s"
  by (auto simp: of_result_def)

lemma hex_field_Inr [simp]:
  "hex_field d k s = (Inr bs, t) \<longleftrightarrow> (\<exists>x. map_of d k = Some x \<and> bs = buffer_from_hex x) \<and> t = s"
  by (auto simp: hex_field_def)

lemma srp_result_Inr [simp]: "srp_result r = Inr a \<longleftrightarrow> r = Inr a"
  by (simp add: srp_result_def split: sum.split)

lemma expected_M2_Inr [simp]:
  "compute_expected_M2 env A M K = Inr h \<longleftrightarrow> digest (hashes env) (pad_int A @ M @ K) = Some h"
  by (simp add: compute_expected_M2_def compute_server_M2_def sha256_parts_def)

text \<open>A failing login has not touched the key: the assignment is its last step.\<close>

lemma failed_login_key:
  assumes "login env draws email pw s = (Inl e, t)"
  shows "master_key t = master_key s"
proof -
  have "keeps_failing (key_is (master_key s)) (login env draws email pw)"
    unfolding login_def login_steps_def by (intro failing_intros keeps_intros)
  then show ?thesis using assms unfolding keeps_failing_def by blast
qed

lemma login_outcome:
  assumes "login env draws email pw s = (r, t)"
  shows "case r of
    Inl e \<Rightarrow> master_key t = master_key s \<and> e \<in> {LoginFailed, ReRegistrationRequired, NoEphemeral}
  | Inr _ \<Rightarrow> \<exists>resp ver saltHex Bhex M2hex p k s1 s2.
      api_post env ''/auth/srp/init'' [(''email'', email)] (secure s) = (Reply resp, s1) \<and>
      map_of resp ''salt'' = Some saltHex \<and> map_of resp ''B'' = Some Bhex \<and>
      compute_srp_proof env draws email pw (buffer_from_hex saltHex) (buffer_from_hex Bhex) = Inr p \<and>
      api_post env ''/auth/srp/verify'' (verify_body (map_of resp ''sessionId'') p) s1 = (Reply ver, s2) \<and>
      map_of ver ''M2'' = Some M2hex \<and>
      digest (hashes env) (pad_int (proof_pub p) @ proof_M p @ proof_key p) = Some (buffer_from_hex M2hex) \<and>
      derive_key env pw (buffer_from_hex saltHex) = Some k \<and> master_key t = Some k"
proof (cases r)
  case (Inl e)
  then have "e \<in> {LoginFailed, ReRegistrationRequired, NoEphemeral}"
    using assms by (auto simp: login_def relabel_def login_label_def split: prod.splits sum.splits if_splits)
  with Inl show ?thesis using failed_login_key assms by simp
next
  case (Inr u)
  have req: "srp_init_request env email s = (Inr d, s') \<longleftrightarrow>
      (\<exists>st. api_post env ''/auth/srp/init'' [(''email'', email)] (secure s) = (Reply d, st) \<and> s' = s\<lparr>secure := st\<rparr>)" for d s'
    by (auto simp: srp_init_request_def and_then_Inr post_def ret_def throw_def split: prod.splits http.splits)
  have ver: "srp_verify_request env b w = (Inr d, s') \<longleftrightarrow>
      (\<exists>st. api_post env ''/auth/srp/verify'' b (secure w) = (Reply d, st) \<and> s' = w\<lparr>secure := st\<rparr>)" for b w d s'
    by (auto simp: srp_verify_request_def and_then_Inr post_def ret_def throw_def split: prod.splits http.splits)
  have "login_steps env draws email pw s = (Inr (), t)" using assms Inr by (simp add: login_def)
  then show ?thesis using Inr
    by (auto simp: login_steps_def and_then_Inr req ver throw_def modify_def split: if_splits option.splits)
qed


text \<open>A login that gets the replies it expects.\<close>

lemma login_run:
  assumes "api_post env ''/auth/srp/init'' [(''email'', email)] (secure s) = (Reply resp, secure s)"
    and "map_of resp ''salt'' = Some saltHex" and "map_of resp ''B'' = Some Bhex"
    and "compute_srp_proof env draws email pw (buffer_from_hex saltHex) (buffer_from_hex Bhex) = Inr p"
    and "api_post env ''/auth/srp/verify'' (verify_body (map_of resp ''sessionId'') p) (secure s) = (Reply ver, secure s)"
    and "map_of ver ''M2'' = Some M2hex"
    and "digest (hashes env) (pad_int (proof_pub p) @ proof_M p @ proof_key p) = Some (buffer_from_hex M2hex)"
    and "derive_key env pw (buffer_from_hex saltHex) = Some k"
    and "\<forall>i x. on_web env \<or> (secure_write env i x \<and> secure_read env i)"
  obtains t where "login env draws email pw s = (Inr (), t)" and "master_key t = Some k"
    and "ls_get TOKEN_KEY (secure t) = Some (map_of ver ''accessToken'')" and "is_authenticated env t"
proof -
  define st where "st = (if on_web env then ls_set TOKEN_KEY (map_of ver ''accessToken'') (secure s)
      else ls_set REFRESH_TOKEN_KEY (map_of ver ''refreshToken'') (ls_set TOKEN_KEY (map_of ver ''accessToken'') (secure s)))"
  define t where "t = s\<lparr>secure := st, master_key := Some k\<rparr>"
  have req: "srp_init_request env email s = (Inr resp, s)"
    "srp_verify_request env (verify_body (map_of resp ''sessionId'') p) s = (Inr ver, s)"
    by (simp_all add: srp_init_request_def srp_verify_request_def and_then_def post_def assms(1,5) ret_def)
  have "store_tokens env (map_of ver ''accessToken'') (map_of ver ''refreshToken'') s = (Inr (), s\<lparr>secure := st\<rparr>)"
    using assms(9) by (auto simp: store_tokens_def set_item_def and_then_def ret_def st_def)
  then have "login_steps env draws email pw s = (Inr (), t)"
    using assms(2-4,6-8)
    by (simp add: login_steps_def and_then_def req hex_field_def of_result_def compute_expected_M2_def
        compute_server_M2_def sha256_parts_def srp_result_def modify_def t_def)
  then have "login env draws email pw s = (Inr (), t)" by (simp add: login_def)
  moreover have tok: "ls_get TOKEN_KEY (secure t) = Some (map_of ver ''accessToken'')"
    by (simp add: t_def st_def TOKEN_KEY_def REFRESH_TOKEN_KEY_def ls_get_set)
  moreover have k: "master_key t = Some k" by (simp add: t_def)
  moreover have "is_authenticated env t"
    using assms(9) tok k by (auto simp: is_authenticated_def get_access_token_def get_item_def)
  ultimately show ?thesis using that by blast
qed

end
