(* ===== verification/Auth_Wire.thy ===== *)
theory Auth_Wire
  imports Auth_Service
begin

text \<open>
  \<open>services/auth.ts\<close> and the repository's Go server over HTTP. \<open>go_http\<close> is the pair of handlers
  of \<open>usbvault-server/internal/auth/srp.go\<close> for one account and one open session; what the JSON
  looks like is the record \<open>wire\<close>. \<open>go_wire\<close> has the field names of the server's struct tags and its
  decimal numbers (\<open>B.String()\<close>, \<open>SetString(req.A, 10)\<close>); \<open>api_wire\<close> is the form that the interfaces
  of \<open>services/api.ts\<close> describe (camel case, numbers in hexadecimal); \<open>decimal_wire\<close> has the names of
  the latter and the numbers of the former.
\<close>

record wire =
  w_session :: string
  w_access :: string
  w_refresh :: string
  w_number :: "int \<Rightarrow> string"
  w_decimal :: "string \<Rightarrow> string"

definition hex_to_decimal :: "string \<Rightarrow> string" where
  "hex_to_decimal t = (case some_digits 16 t of Some n \<Rightarrow> big_to_string 10 n | None \<Rightarrow> [])"

definition go_wire :: wire where
  "go_wire = \<lparr>w_session = ''session_id'', w_access = ''access_token'', w_refresh = ''refresh_token'',
     w_number = big_to_string 10, w_decimal = id\<rparr>"

definition api_wire :: wire where
  "api_wire = \<lparr>w_session = ''sessionId'', w_access = ''accessToken'', w_refresh = ''refreshToken'',
     w_number = (\<lambda>n. bytes_to_hex (go_bytes n)), w_decimal = hex_to_decimal\<rparr>"

definition decimal_wire :: wire where
  "decimal_wire = api_wire\<lparr>w_number := big_to_string 10, w_decimal := id\<rparr>"

text \<open>Go's decoder compares names without regard to case; a missing field is the empty text.\<close>

definition fold_case :: "char \<Rightarrow> char" where
  "fold_case c = (let n = of_char c :: nat in if 65 \<le> n \<and> n \<le> 90 then char_of (n + 32) else c)"

definition go_field :: "string \<Rightarrow> json \<Rightarrow> string" where
  "go_field tag body =
     (case List.find (\<lambda>(k, _). map fold_case k = map fold_case tag) body of Some (_, v) \<Rightarrow> v | None \<Rightarrow> [])"

definition go_http ::
  "wire \<Rightarrow> (bytes \<Rightarrow> bytes) \<Rightarrow> bytes \<Rightarrow> int \<Rightarrow> int \<Rightarrow> string \<Rightarrow> string \<Rightarrow> string option \<Rightarrow>
     string \<Rightarrow> json \<Rightarrow> 's \<Rightarrow> http \<times> 's" where
  "go_http w sha salt v b sid jwt refresh path body store =
     ((if path = ''/auth/srp/init'' then
         (case server_init go_conv sha v b of
            None \<Rightarrow> Status 500 []
          | Some B \<Rightarrow> Reply [(''salt'', bytes_to_hex salt), (''B'', w_number w B), (w_session w, sid)])
       else if path = ''/auth/srp/verify'' then
         (if go_field (w_session w) body \<noteq> sid then Status 401 []
          else case Option.bind (server_init go_conv sha v b) (\<lambda>B.
              server_verify go_conv sha v b B (w_decimal w (go_field ''A'' body)) (go_field ''M1'' body)) of
            None \<Rightarrow> Status 401 []
          | Some M2 \<Rightarrow> Reply ([(''M2'', M2), (w_access w, jwt)] @
              (case refresh of None \<Rightarrow> [] | Some r \<Rightarrow> [(w_refresh w, r)])))
       else Status 404 []), store)"

subsection \<open>What the client sends and reads\<close>

lemma find_same: "List.find P (x # xs) = (if P x then Some x else List.find P xs)"
  by simp

lemma sent_fields:
  "go_field ''session_id'' (verify_body None p) = []"
  "go_field ''sessionId'' (verify_body (Some i) p) = i"
  "go_field ''A'' (verify_body (Some i) p) = bytes_to_hex (proof_A p)"
  "go_field ''M1'' (verify_body (Some i) p) = bytes_to_hex (proof_M p)"
  by (simp_all add: go_field_def verify_body_def fold_case_def)

text \<open>
  C28: No login with the repository's server succeeds: the server calls the session \<open>session_id\<close>, the
  client reads and sends \<open>sessionId\<close>, so the proof arrives without a session and is refused whatever
  the account and the password; the master key stays as it was.
\<close>

theorem go_login_never_succeeds:
  assumes "sid \<noteq> []" and "api_post env = go_http go_wire sha salt v b sid jwt refresh"
    and "login env draws email pw s = (r, t)"
  shows "(\<exists>e. r = Inl e) \<and> master_key t = master_key s"
proof (cases r)
  case (Inl e)
  then show ?thesis using login_outcome [OF assms(3)] by auto
next
  case (Inr u)
  then show ?thesis using login_outcome [OF assms(3)] assms(1,2)
    by (auto simp: go_http_def go_wire_def sent_fields split: option.splits)
qed

subsection \<open>Numbers on the wire\<close>

lemma hex_decimal: "0 < n \<Longrightarrow> hex_to_decimal (bytes_to_hex (big_int_to_bytes n)) = big_to_string 10 n"
proof -
  assume n: "0 < n"
  have ne: "nibbles (big_int_to_bytes n) \<noteq> []"
    using n length_nibbles [of "big_int_to_bytes n"] big_int_to_bytes_value [of n]
    by (cases "big_int_to_bytes n = []") (auto simp: bytes_value_def)
  have "some_digits 16 (bytes_to_hex (big_int_to_bytes n)) = Some n"
    unfolding nibbles_hex using some_digits_hex [OF nibbles_less _ ne] n
    by (simp add: nibbles_value big_int_to_bytes_value)
  then show ?thesis by (simp add: hex_to_decimal_def)
qed

text \<open>A hexadecimal text that reads the same in decimal is a single digit.\<close>

lemma digits_both:
  "\<forall>d\<in>set ds. d < 10 \<Longrightarrow>
     digits_number 10 ds \<le> digits_number 16 ds \<and>
     (digits_number 10 ds = digits_number 16 ds \<longrightarrow> digits_number 10 ds < 10)"
proof (induction ds rule: rev_induct)
  case (snoc d ds)
  have "digits_number b (ds @ [d]) = digits_number b ds * b + d" for b
    by (simp add: digits_number_append digits_number_Cons)
  with snoc show ?case by auto
qed simp

lemma radix_value_digits:
  "\<forall>d\<in>set ds. d < 16 \<Longrightarrow> radix_value 10 acc (map hex_digit ds) = Some n \<Longrightarrow>
     (\<forall>d\<in>set ds. d < 10) \<and> n = foldl (\<lambda>a d. 10 * a + d) acc ds"
proof (induction ds arbitrary: acc)
  case (Cons d ds)
  then show ?case using hex_digit_cases [of d] by (auto split: if_splits)
qed simp

lemma hex_read_as_decimal:
  assumes "set_string10 (bytes_to_hex (big_int_to_bytes n)) = Some n" and "0 \<le> n"
  shows "n < 10"
proof -
  let ?ds = "nibbles (big_int_to_bytes n)"
  have "hex_digit d \<notin> {CHR ''-'', CHR ''+''}" if "d \<in> set ?ds" for d
    using hex_digit_cases [of d] nibbles_less that by blast
  then have "some_digits 10 (map hex_digit ?ds) = Some n"
    using assms(1) unfolding nibbles_hex by (cases ?ds) (auto simp: set_string10_def)
  then have "(\<forall>d\<in>set ?ds. d < 10) \<and> nat n = digits_number 10 ?ds"
    using radix_value_digits [OF nibbles_less] by (auto simp: some_digits_def digits_number_def split: if_splits)
  moreover have "digits_number 16 ?ds = nat n"
    using assms(2) by (simp add: nibbles_value big_int_to_bytes_value)
  ultimately have "nat n < 10" using digits_both [of ?ds] by simp
  then show ?thesis using assms(2) by linarith
qed

text \<open>
  Agreeing on the names would not be enough: with the server's decimal numbers and the client's
  hexadecimal ones a login succeeds only when the client's public value \<open>A\<close> is a single digit, or
  when the proofs of the two sides are a collision of the hash.
\<close>

theorem decimal_login_needs_tiny_A:
  assumes "env_hash (hashes env) sha" and "api_post env = go_http decimal_wire sha salt v b sid jwt refresh"
    and "draw_ephemeral draws = Some (a, A)"
    and "login env draws email pw s = (Inr (), t)"
  shows "A < 10 \<or> (\<exists>p q. length p = 800 \<and> length q = 800 \<and> p \<noteq> q \<and> sha p = sha q)"
proof -
  have a: "0 \<le> a" "A = compute_public_A a" "0 \<le> A" using drawn [OF assms(3)] by simp_all
  obtain resp Bhex saltHex p ver s1 where
      init: "go_http decimal_wire sha salt v b sid jwt refresh ''/auth/srp/init'' [(''email'', email)] (secure s) = (Reply resp, s1)"
    and p: "compute_srp_proof env draws email pw (buffer_from_hex saltHex) (buffer_from_hex Bhex) = Inr p"
    and ver: "go_http decimal_wire sha salt v b sid jwt refresh ''/auth/srp/verify''
        (verify_body (map_of resp ''sessionId'') p) s1 = (Reply ver, s1)"
    using login_outcome [OF assms(4)] unfolding assms(2)
    by (auto simp: go_http_def)
  have sid: "map_of resp ''sessionId'' = Some sid"
    using init by (auto simp: go_http_def decimal_wire_def api_wire_def split: option.splits)
  obtain x ch where ch: "process_challenge (hashes env) a x (bytes_to_big_int (buffer_from_hex Bhex)) = Inr ch"
      "proof_A p = big_int_to_bytes A" "proof_M p = proof_M1 ch"
    using p assms(3) by (auto simp: compute_srp_proof_def attempt_Inr)
  obtain B M2 where "server_verify go_conv sha v b B (bytes_to_hex (big_int_to_bytes A)) (bytes_to_hex (proof_M1 ch)) = Some M2"
    using ver ch(2,3) unfolding sid
    by (auto simp: go_http_def sent_fields decimal_wire_def api_wire_def bind_eq_Some_conv split: option.splits if_splits)
  from accepted_needs_key [OF assms(1) a(1) ch(1) this]
  show ?thesis using hex_read_as_decimal [of A] a(2,3) by auto
qed

lemma hex_literal_nonneg: "parse_big_int (''0x'' @ h) = Some n \<Longrightarrow> 0 \<le> n"
proof -
  have "dropWhile is_space (''0x'' @ h) = ''0x'' @ h" by (simp add: is_space_def)
  moreover have "\<exists>g. dropWhile is_space (rev h @ ''x0'') = g @ ''x0''"
    by (induction "rev h" arbitrary: h) (auto simp: is_space_def dropWhile_append intro: exI [of _ "[]"])
  ultimately obtain g where "trim_text (''0x'' @ h) = ''0x'' @ g"
    unfolding trim_text_def by (auto simp: rev_append) (metis append_Cons append_Nil rev.simps(2) rev_append rev_rev_ident)
  moreover assume "parse_big_int (''0x'' @ h) = Some n"
  ultimately show ?thesis by (auto simp: parse_big_int_def radix_of_def some_digits_def split: if_splits)
qed

lemma derive_x_nonneg: "derive_x h salt email pw = Inr x \<Longrightarrow> 0 \<le> x"
  using hex_literal_nonneg by (auto simp: derive_x_def attempt_Inr)

lemma verifier_of:
  assumes "compute_srp_verifier_hex h email pw salt = Inr vhex"
  obtains x where "derive_x h salt email pw = Inr x" and "0 \<le> x"
    and "bytes_to_big_int (hex_to_bytes vhex) = derive_verifier x"
proof -
  obtain x where x: "derive_x h salt email pw = Inr x" "vhex = bytes_to_hex (big_int_to_bytes (derive_verifier x))"
    using assms by (auto simp: compute_srp_verifier_hex_def attempt_Inr)
  moreover have "0 \<le> derive_verifier x"
    using derive_x_nonneg [OF x(1)] ffdhe.pos_modulus by (simp add: verifier_v)
  ultimately show ?thesis using derive_x_nonneg that
    by (simp add: hex_inverse bytes_to_big_int_value big_int_to_bytes_value)
qed

lemma agreed_login:
  assumes "env_hash (hashes env) sha" and "api_post env = go_http api_wire sha salt v b sid jwt refresh"
    and "compute_srp_verifier_hex (hashes env) email pw salt = Inr vhex"
    and "v = bytes_to_big_int (hex_to_bytes vhex)" and "0 \<le> b"
    and "draw_ephemeral draws = Some (a, A)"
    and "server_init go_conv sha v b = Some B" and "compute_SRP_u go_conv sha A B \<noteq> 0"
    and "derive_key env pw salt = Some k"
    and "\<forall>i x. on_web env \<or> (secure_write env i x \<and> secure_read env i)"
  shows "\<exists>t. login env draws email pw s = (Inr (), t) \<and> master_key t = Some k \<and>
    ls_get TOKEN_KEY (secure t) = Some (Some jwt) \<and> is_authenticated env t"
proof -
  obtain x where x: "derive_x (hashes env) salt email pw = Inr x" "0 \<le> x" and v: "v = derive_verifier x"
    using verifier_of [OF assms(3)] assms(4) by metis
  obtain ch M2 where ch: "process_challenge (hashes env) a x B = Inr ch"
    and M2: "server_verify go_conv sha v b B (big_to_string 10 A) (bytes_to_hex (proof_M1 ch)) = Some M2"
    and ok: "verify_server_M2 (hashes env) A (proof_M1 ch) (session_K ch) (hex_to_bytes M2) = Inr True"
    using handshake_agrees [OF assms(1) x(2) assms(5,6) assms(7) [unfolded v] assms(8)] unfolding v by blast
  have "0 < B" using keys_agree [OF assms(1) x(2) _ assms(5) assms(7) [unfolded v], of a] drawn [OF assms(6)]
    by (metis order_less_imp_le zero_less_one order_less_trans)
  then have B: "bytes_to_big_int (buffer_from_hex (bytes_to_hex (go_bytes B))) = B"
    by (simp add: buffer_hex bytes_to_big_int_value big_int_to_bytes_value)
  have A: "hex_to_decimal (bytes_to_hex (big_int_to_bytes A)) = big_to_string 10 A"
    using drawn [OF assms(6)] by (intro hex_decimal) simp
  define p where "p = \<lparr>proof_A = big_int_to_bytes A, proof_M = proof_M1 ch, proof_key = session_K ch, proof_pub = A\<rparr>"
  have computed: "compute_srp_proof env draws email pw salt (go_bytes B) = Inr p"
    using B by (simp add: compute_srp_proof_def assms(6) x(1) ch srp_result_def p_def buffer_hex)
  have M2hex: "buffer_from_hex M2 = sha (pad_int A @ proof_M1 ch @ session_K ch)"
  proof -
    obtain h where h: "M2 = bytes_to_hex h" using server_verify_accepts [OF M2] by blast
    have "hex_to_bytes M2 = sha (pad_int A @ proof_M1 ch @ session_K ch)"
      using ok unfolding verify_server_M2_eq [OF assms(1)] by simp
    then show ?thesis unfolding h by (simp add: buffer_hex hex_inverse)
  qed
  let ?ver = "[(''M2'', M2), (''accessToken'', jwt)] @ (case refresh of None \<Rightarrow> [] | Some r \<Rightarrow> [(''refreshToken'', r)])"
  let ?resp = "[(''salt'', bytes_to_hex salt), (''B'', bytes_to_hex (go_bytes B)), (''sessionId'', sid)]"
  have wire: "api_post env ''/auth/srp/init'' body st = (Reply ?resp, st)"
    "api_post env ''/auth/srp/verify'' (verify_body (map_of ?resp ''sessionId'') p) st = (Reply ?ver, st)" for body st
    using M2 by (simp_all add: assms(2,7) go_http_def api_wire_def sent_fields p_def A split: option.split)
  obtain t where "login env draws email pw s = (Inr (), t)" "master_key t = Some k"
      "ls_get TOKEN_KEY (secure t) = Some (map_of ?ver ''accessToken'')" "is_authenticated env t"
    by (rule login_run [where p = p and s = s and draws = draws and pw = pw and k = k, OF wire(1) _ _ _ wire(2)])
      (use assms(1,9,10) computed M2hex in \<open>auto simp: buffer_hex p_def\<close>)
  then show ?thesis by auto
qed


subsection \<open>Instances\<close>

definition wire_env :: "wire \<Rightarrow> int \<Rightarrow> auth_env" where
  "wire_env w b = \<lparr>on_web = True, hashes = one_env,
     api_post = go_http w one_sha [7] 2 b ''s'' ''jwt'' None,
     derive_key = \<lambda>_ _. Some [1], share_keypair = None, signing_keypair = None, post_register = \<lambda>_. None,
     secure_write = \<lambda>_ _. True, secure_read = \<lambda>_. True, secure_delete = \<lambda>_. True, async_works = True,
     has_hardware = None, supported_types = None, biometric_prompt = None\<rparr>"

definition fresh_page :: auth_state where
  "fresh_page = \<lparr>master_key = None, secure = [], async_store = []\<rparr>"

lemma wire_env_simps [simp]:
  "on_web (wire_env w b)" "hashes (wire_env w b) = one_env" "derive_key (wire_env w b) p s = Some [1]"
  "api_post (wire_env w b) = go_http w one_sha [7] 2 b ''s'' ''jwt'' None"
  by (simp_all add: wire_env_def)

lemma one_x: "derive_x one_env salt email pw = Inr 1"
proof -
  have "parse_big_int (''0x'' @ ''01'') = Some 1" by code_simp
  moreover have "argon one_env pw h = Some ''01''" for h by (simp add: one_env_def)
  ultimately show ?thesis by (simp add: derive_x_def sha256_parts_eq [OF one_env])
qed

lemma agreed_run:
  obtains t where "login (wire_env api_wire 0) [[0], [2]] ''a'' ''b'' fresh_page = (Inr (), t)"
    and "master_key t = Some [1]" and "is_authenticated (wire_env api_wire 0) t"
proof -
  have v: "compute_srp_verifier_hex (hashes (wire_env api_wire 0)) ''a'' ''b'' [7] = Inr (bytes_to_hex (big_int_to_bytes 2))"
    by (simp add: compute_srp_verifier_hex_def one_x small_verifier)
  have n: "2 = bytes_to_big_int (hex_to_bytes (bytes_to_hex (big_int_to_bytes 2)))"
    by (simp add: hex_inverse bytes_to_big_int_value big_int_to_bytes_value)
  show ?thesis
    using agreed_login [OF _ _ v n order.refl small_draw small_init, of "''s''" "''jwt''" None "[1]" fresh_page] one_env that
    by (auto simp: compute_SRP_u_def)
qed


theorem go_login_never_succeeds_witness:
  "\<exists>e. fst (login (wire_env go_wire 0) [[0], [2]] ''a'' ''b'' fresh_page) = Inl e"
  using go_login_never_succeeds [of "''s''" "wire_env go_wire 0" one_sha "[7]" 2 0 "''jwt''" None
      "[[0], [2]]" "''a''" "''b''" fresh_page "fst (login (wire_env go_wire 0) [[0], [2]] ''a'' ''b'' fresh_page)"]
  by (metis list.distinct(1) prod.collapse wire_env_simps(4))

text \<open>A run over the mixed wire that ends well: with a constant hash every proof is a collision.\<close>

lemma decimal_run:
  obtains t where "login (wire_env decimal_wire 3) [[0], [2]] ''a'' ''b'' fresh_page = (Inr (), t)"
proof -
  have N: "255 \<le> FFDHE_N" using go_modulus_ge_255 by (simp add: ffdhe_modulus)
  have init: "server_init go_conv one_sha 2 3 = Some 10"
    using N by (simp add: server_init_def compute_SRP_k_def mod_pow_power ffdhe_modulus [symmetric])
  have B: "buffer_from_hex (big_to_string 10 10) = [0x10]" "buffer_from_hex (bytes_to_hex [7]) = [7]"
    and A: "bytes_to_hex (big_int_to_bytes 4) = ''04''" "set_string10 ''04'' = Some 4"
    by code_simp+
  have b16: "bytes_to_big_int [0x10] = 16"
    by (simp add: bytes_to_big_int_value bytes_value_def digits_number_Cons)
  obtain ch where ch: "process_challenge one_env 2 1 16 = Inr ch"
    using process_challenge_eq [OF one_env, of 1 16 _ _ 2] N by fastforce
  have M1: "proof_M1 ch = one_sha []"
    using process_challenge_shape [OF one_env ch] one_const by metis
  define p where "p = \<lparr>proof_A = big_int_to_bytes 4, proof_M = one_sha [], proof_key = session_K ch, proof_pub = 4\<rparr>"
  have computed: "compute_srp_proof (wire_env decimal_wire 3) [[0], [2]] ''a'' ''b'' [7] [0x10] = Inr p"
    by (simp add: compute_srp_proof_def one_x srp_result_def b16 ch M1 p_def small_draw del: draw_ephemeral.simps)
  have one: "one_sha (u @ w) = one_sha []" for u w by (rule one_const)
  have ver: "server_verify go_conv one_sha 2 3 10 ''04'' (bytes_to_hex (one_sha [])) = Some (bytes_to_hex (one_sha []))"
    using N by (simp add: server_verify_def A compute_SRP_u_def Let_def one ffdhe_modulus [symmetric])
  let ?resp = "[(''salt'', bytes_to_hex [7]), (''B'', big_to_string 10 10), (''sessionId'', ''s'')]"
    and ?ver = "[(''M2'', bytes_to_hex (one_sha [])), (''accessToken'', ''jwt'')]"
  have wire: "api_post (wire_env decimal_wire 3) ''/auth/srp/init'' body st = (Reply ?resp, st)"
    "api_post (wire_env decimal_wire 3) ''/auth/srp/verify'' (verify_body (map_of ?resp ''sessionId'') p) st = (Reply ?ver, st)"
    for body st
    using ver by (simp_all add: init go_http_def decimal_wire_def api_wire_def sent_fields p_def A)
  have dig: "digest one_env x = Some (one_sha [])" for x
    unfolding one_env_def by (simp add: one_const [of x])
  have proofs: "compute_srp_proof (wire_env decimal_wire 3) [[0], [2]] ''a'' ''b''
      (buffer_from_hex (bytes_to_hex [7])) (buffer_from_hex (big_to_string 10 10)) = Inr p"
    using computed by (simp only: B)
  obtain t where "login (wire_env decimal_wire 3) [[0], [2]] ''a'' ''b'' fresh_page = (Inr (), t)"
    by (rule login_run [where s = fresh_page, OF wire(1) _ _ proofs wire(2)])
      (simp_all add: dig, rule buffer_hex [symmetric])
  then show ?thesis by (rule that)
qed

theorem decimal_login_needs_tiny_A_witness:
  "\<exists>t. login (wire_env decimal_wire 3) [[0], [2]] ''a'' ''b'' fresh_page = (Inr (), t) \<and>
     ((4 :: int) < 10 \<or> (\<exists>p q. length p = 800 \<and> length q = 800 \<and> p \<noteq> q \<and> one_sha p = one_sha q))"
proof -
  obtain t where t: "login (wire_env decimal_wire 3) [[0], [2]] ''a'' ''b'' fresh_page = (Inr (), t)"
    by (rule decimal_run)
  from decimal_login_needs_tiny_A [OF _ _ small_draw t] one_env t show ?thesis by auto
qed


theorem logout_locks_witness:
  "\<exists>s t. is_authenticated (wire_env api_wire 0) s \<and>
     run (auth_step (wire_env api_wire 0)) [Migrate, DisableBiometrics] (snd (logout (wire_env api_wire 0) s)) = Some t \<and>
     \<not> is_authenticated (wire_env api_wire 0) t"
proof -
  obtain s where s: "is_authenticated (wire_env api_wire 0) s" by (rule agreed_run)
  obtain t where t: "run (auth_step (wire_env api_wire 0)) [Migrate, DisableBiometrics] (snd (logout (wire_env api_wire 0) s)) = Some t"
    by simp
  have "list_all no_login [Migrate, DisableBiometrics]" by (simp add: no_login_def)
  with logout_locks [OF _ this t] s t show ?thesis by blast
qed

end
