(* ===== verification/Auth_Store.thy ===== *)
theory Auth_Store
  imports Auth_Service
begin

text \<open>
  \<open>stores/authStore.ts\<close>: the store the screens use. On the web the account is local: a document in
  \<open>localStorage\<close> with an SRP verifier, and a session document in \<open>sessionStorage\<close>; on native the
  store calls \<open>services/auth.ts\<close> (\<open>Auth_Service\<close>). A storage slot is absent, a text that does not
  parse, or a document; \<open>storage_works\<close> is false where the browser's storage throws. The FIDO2
  service and the profile request are arguments of the actions: \<open>None\<close> where they throw.
  Audit entries and the stopping of polling and timers are left out.
\<close>

subsection \<open>State\<close>

record stored_auth =
  sa_email :: string
  sa_salt :: string
  sa_verifier :: string
  sa_user :: string
  sa_tier :: string
  sa_created :: time

record session =
  se_email :: string
  se_user :: string
  se_tier :: string

record user_info =
  ui_id :: string
  ui_email :: string
  ui_tier :: string

datatype store_error =
    NoAccount
  | InvalidCredentials
  | Fido2Required
  | Fido2Failed
  | VerifierFailed canon_error
  | AccountExists
  | SecurityKeyWebOnly
  | NoAccountHere
  | KeysUnsupported
  | NoKeyRegistered
  | KeyNotCompleted
  | KeyThrew
  | ServiceFailed auth_error
  | ProfileFailed

record auth_page =
  account_slot :: "stored_auth stored option"
  session_slot :: "session stored option"
  audit_user :: "string option"
  is_auth :: bool
  is_loading :: bool
  user_id :: "string option"
  user_email :: "string option"
  user_tier :: "string option"
  store_error :: "store_error option"
  fido2_available :: bool
  fido2_enabled :: bool
  fido2_count :: nat
  fido2_verified :: bool
  fido_devices :: nat
  service :: auth_state

record store_env =
  web :: bool
  storage_works :: bool
  webauthn :: bool
  auth_service :: auth_env

type_synonym store_call = "(auth_page, store_error, unit) call"

subsection \<open>Helpers\<close>

definition compute_web_verifier :: "srp_env \<Rightarrow> string \<Rightarrow> string \<Rightarrow> bytes \<Rightarrow> store_error + string" where
  "compute_web_verifier h email password salt =
     (case derive_x h salt email password of
        Inl e \<Rightarrow> Inl (VerifierFailed e)
      | Inr x \<Rightarrow> Inr (bytes_to_hex (big_int_to_bytes (derive_verifier x))))"

definition verifier_matches :: "string \<Rightarrow> string \<Rightarrow> bool" where
  "verifier_matches a b =
     (if length a \<noteq> length b then False
      else fold (\<lambda>(x, y) diff. diff OR (of_char x XOR of_char y)) (zip a b) (0 :: nat) = 0)"

definition get_stored_auth :: "store_env \<Rightarrow> auth_page \<Rightarrow> stored_auth option" where
  "get_stored_auth env s =
     (if \<not> web env \<or> \<not> storage_works env then None
      else case account_slot s of Some (Json a) \<Rightarrow> Some a | _ \<Rightarrow> None)"

definition save_stored_auth :: "store_env \<Rightarrow> stored_auth \<Rightarrow> auth_page \<Rightarrow> auth_page" where
  "save_stored_auth env a s =
     (if \<not> web env \<or> \<not> storage_works env then s else s\<lparr>account_slot := Some (Json a)\<rparr>)"

definition get_session :: "store_env \<Rightarrow> auth_page \<Rightarrow> session option" where
  "get_session env s =
     (if \<not> web env \<or> \<not> storage_works env then None
      else case session_slot s of Some (Json a) \<Rightarrow> Some a | _ \<Rightarrow> None)"

definition save_session :: "store_env \<Rightarrow> string \<Rightarrow> string \<Rightarrow> string \<Rightarrow> auth_page \<Rightarrow> auth_page" where
  "save_session env email uid tier s =
     (if \<not> web env \<or> \<not> storage_works env then s
      else s\<lparr>session_slot := Some (Json \<lparr>se_email = email, se_user = uid, se_tier = tier\<rparr>),
             audit_user := Some uid\<rparr>)"

definition clear_session :: "store_env \<Rightarrow> auth_page \<Rightarrow> auth_page" where
  "clear_session env s =
     (if \<not> web env \<or> \<not> storage_works env then s else s\<lparr>session_slot := None, audit_user := None\<rparr>)"

definition signed_out :: "auth_page \<Rightarrow> auth_page" where
  "signed_out s = s\<lparr>is_auth := False, user_id := None, user_email := None, user_tier := None\<rparr>"

definition signed_in :: "string \<Rightarrow> string \<Rightarrow> string \<Rightarrow> auth_page \<Rightarrow> auth_page" where
  "signed_in uid email tier s =
     s\<lparr>is_auth := True, user_id := Some uid, user_email := Some email, user_tier := Some tier\<rparr>"

text \<open>The \<open>catch\<close> that records the error and throws it on.\<close>

definition fail_auth :: "store_error \<Rightarrow> auth_page \<Rightarrow> (store_error + unit) \<times> auth_page" where
  "fail_auth e s = (Inl e, s\<lparr>is_auth := False, store_error := Some e, is_loading := False\<rparr>)"

definition begin_action :: "auth_page \<Rightarrow> auth_page" where
  "begin_action s = s\<lparr>is_loading := True, store_error := None\<rparr>"

subsection \<open>Actions\<close>

text \<open>\<open>fido\<close> is the outcome of the security key: thrown, refused (\<open>Some False\<close>) or a device.\<close>

definition web_login :: "store_env \<Rightarrow> bool option \<Rightarrow> string \<Rightarrow> string \<Rightarrow> store_call" where
  "web_login env fido email password s0 =
     (let s = begin_action s0 in
      case get_stored_auth env s of
        None \<Rightarrow> fail_auth NoAccount s
      | Some stored \<Rightarrow>
          (case compute_web_verifier (hashes (auth_service env)) email password (buffer_from_hex (sa_salt stored)) of
             Inl e \<Rightarrow> fail_auth e s
           | Inr verifier \<Rightarrow>
               if sa_email stored \<noteq> email \<or> \<not> verifier_matches (sa_verifier stored) verifier
               then fail_auth InvalidCredentials s
               else let required = (fido_devices s > 0 \<and> webauthn env) in
                 if required \<and> fido = None then fail_auth Fido2Failed s
                 else if required \<and> fido = Some False then fail_auth Fido2Required s
                 else (Inr (), signed_in (sa_user stored) (sa_email stored) (sa_tier stored)
                   (save_session env email (sa_user stored) (sa_tier stored)
                     s\<lparr>is_loading := False, fido2_verified := required\<rparr>))))"

definition with_profile :: "user_info option \<Rightarrow> auth_page \<Rightarrow> (store_error + unit) \<times> auth_page" where
  "with_profile profile s =
     (case profile of
        None \<Rightarrow> fail_auth ProfileFailed s
      | Some u \<Rightarrow> (Inr (), signed_in (ui_id u) (ui_email u) (ui_tier u) s\<lparr>is_loading := False\<rparr>))"

definition native_login ::
  "store_env \<Rightarrow> bytes list \<Rightarrow> user_info option \<Rightarrow> string \<Rightarrow> string \<Rightarrow> store_call" where
  "native_login env draws profile email password s0 =
     (let s = begin_action s0; (r, t) = login (auth_service env) draws email password (service s);
          s1 = s\<lparr>service := t\<rparr> in
      case r of Inl e \<Rightarrow> fail_auth (ServiceFailed e) s1 | Inr _ \<Rightarrow> with_profile profile s1)"

definition store_login ::
  "store_env \<Rightarrow> bool option \<Rightarrow> bytes list \<Rightarrow> user_info option \<Rightarrow> string \<Rightarrow> string \<Rightarrow> store_call" where
  "store_login env fido draws profile email password =
     (if web env then web_login env fido email password
      else native_login env draws profile email password)"

definition login_with_fido2 :: "store_env \<Rightarrow> bool option \<Rightarrow> store_call" where
  "login_with_fido2 env fido s0 =
     (if \<not> web env then (Inl SecurityKeyWebOnly, s0)
      else let s = begin_action s0 in
        case get_stored_auth env s of
          None \<Rightarrow> fail_auth NoAccountHere s
        | Some stored \<Rightarrow>
            if \<not> webauthn env then fail_auth KeysUnsupported s
            else if fido_devices s = 0 then fail_auth NoKeyRegistered s
            else case fido of
                None \<Rightarrow> fail_auth KeyThrew s
              | Some False \<Rightarrow> fail_auth KeyNotCompleted s
              | Some True \<Rightarrow> (Inr (), signed_in (sa_user stored) (sa_email stored) (sa_tier stored)
                  (save_session env (sa_email stored) (sa_user stored) (sa_tier stored)
                    s\<lparr>is_loading := False, fido2_verified := True\<rparr>)))"

definition web_register ::
  "store_env \<Rightarrow> bytes \<Rightarrow> string \<Rightarrow> time \<Rightarrow> string \<Rightarrow> string \<Rightarrow> store_call" where
  "web_register env salt uid now email password s0 =
     (let s = begin_action s0 in
      if (case get_stored_auth env s of Some e \<Rightarrow> sa_email e = email | None \<Rightarrow> False)
      then fail_auth AccountExists s
      else case compute_web_verifier (hashes (auth_service env)) email password salt of
          Inl e \<Rightarrow> fail_auth e s
        | Inr verifier \<Rightarrow>
            (Inr (), signed_in uid email ''enterprise''
               (save_session env email uid ''enterprise''
                 (save_stored_auth env \<lparr>sa_email = email, sa_salt = bytes_to_hex salt, sa_verifier = verifier,
                    sa_user = uid, sa_tier = ''enterprise'', sa_created = now\<rparr> s\<lparr>is_loading := False\<rparr>))))"

definition native_register ::
  "store_env \<Rightarrow> bytes option \<Rightarrow> bytes list \<Rightarrow> user_info option \<Rightarrow> string \<Rightarrow> string \<Rightarrow> store_call" where
  "native_register env random draws profile email password s0 =
     (let s = begin_action s0; (r, t) = register (auth_service env) random draws email password (service s);
          s1 = s\<lparr>service := t\<rparr> in
      case r of Inl e \<Rightarrow> fail_auth (ServiceFailed e) s1 | Inr _ \<Rightarrow> with_profile profile s1)"

definition store_logout :: "store_env \<Rightarrow> store_call" where
  "store_logout env s =
     (if web env then (Inr (), signed_out (clear_session env s)\<lparr>is_loading := False\<rparr>)
      else let (r, t) = logout (auth_service env) (service s); s1 = s\<lparr>is_loading := True, service := t\<rparr> in
        case r of
          Inl e \<Rightarrow> (Inl (ServiceFailed e), s1\<lparr>store_error := Some (ServiceFailed e), is_loading := False\<rparr>)
        | Inr _ \<Rightarrow> (Inr (), signed_out s1\<lparr>is_loading := False\<rparr>))"

definition check_auth :: "store_env \<Rightarrow> user_info option \<Rightarrow> auth_page \<Rightarrow> auth_page" where
  "check_auth env profile s =
     (if web env then
        (case get_session env s of
           Some d \<Rightarrow> signed_in (se_user d) (se_email d) (se_tier d) s
         | None \<Rightarrow> signed_out s)
      else if is_authenticated (auth_service env) (service s) then
        (case profile of
           Some u \<Rightarrow> signed_in (ui_id u) (ui_email u) (ui_tier u) s\<lparr>is_loading := False\<rparr>
         | None \<Rightarrow> signed_out s\<lparr>is_loading := False\<rparr>)
      else signed_out s\<lparr>is_loading := False\<rparr>)"

definition clear_error :: "auth_page \<Rightarrow> auth_page" where
  "clear_error s = s\<lparr>store_error := None\<rparr>"

definition lock_vault :: "store_env \<Rightarrow> auth_page \<Rightarrow> auth_page" where
  "lock_vault env s =
     (let s1 = (if web env then clear_session env s else s\<lparr>service := clear_master_key (service s)\<rparr>) in
      (signed_out s1)\<lparr>fido2_verified := False\<rparr>)"

text \<open>The device actions; \<open>Some n\<close> is the service's device count after a successful call.\<close>

definition register_fido2_device :: "nat option \<Rightarrow> store_call" where
  "register_fido2_device outcome s0 =
     (let s = begin_action s0 in
      case outcome of
        None \<Rightarrow> (Inl Fido2Failed, s\<lparr>store_error := Some Fido2Failed, is_loading := False\<rparr>)
      | Some n \<Rightarrow> (Inr (), s\<lparr>fido_devices := n, fido2_enabled := True, fido2_count := n, is_loading := False\<rparr>))"

definition verify_fido2 :: "bool option \<Rightarrow> auth_page \<Rightarrow> (store_error + bool) \<times> auth_page" where
  "verify_fido2 outcome s0 =
     (let s = begin_action s0 in
      case outcome of
        None \<Rightarrow> (Inl Fido2Failed, s\<lparr>store_error := Some Fido2Failed, fido2_verified := False, is_loading := False\<rparr>)
      | Some ok \<Rightarrow> (Inr ok, s\<lparr>fido2_verified := ok, is_loading := False\<rparr>))"

definition remove_fido2_device :: "nat option \<Rightarrow> store_call" where
  "remove_fido2_device outcome s0 =
     (let s = begin_action s0 in
      case outcome of
        None \<Rightarrow> (Inl Fido2Failed, s\<lparr>store_error := Some Fido2Failed, is_loading := False\<rparr>)
      | Some n \<Rightarrow> (Inr (), s\<lparr>fido_devices := n, fido2_enabled := (n > 0), fido2_count := n, is_loading := False\<rparr>))"

definition refresh_fido2_status :: "store_env \<Rightarrow> auth_page \<Rightarrow> auth_page" where
  "refresh_fido2_status env s =
     s\<lparr>fido2_available := (web env \<and> webauthn env), fido2_enabled := (fido_devices s > 0),
       fido2_count := fido_devices s\<rparr>"

subsection \<open>The page over time\<close>

datatype page_event =
    PLogin "bool option" "bytes list" "user_info option" string string
  | PSecurityKey "bool option"
  | PRegister bytes string time "bytes option" "bytes list" "user_info option" string string
  | PLogout
  | PCheck "user_info option"
  | PLock
  | PClearError
  | PAddKey "nat option"
  | PVerifyKey "bool option"
  | PRemoveKey "nat option"
  | PRefresh

fun page_step :: "store_env \<Rightarrow> page_event \<Rightarrow> auth_page \<Rightarrow> auth_page option" where
  "page_step env (PLogin fido draws profile email pw) s = Some (snd (store_login env fido draws profile email pw s))"
| "page_step env (PSecurityKey fido) s = Some (snd (login_with_fido2 env fido s))"
| "page_step env (PRegister salt uid now random draws profile email pw) s =
     Some (snd (if web env then web_register env salt uid now email pw s
                else native_register env random draws profile email pw s))"
| "page_step env PLogout s = Some (snd (store_logout env s))"
| "page_step env (PCheck profile) s = Some (check_auth env profile s)"
| "page_step env PLock s = Some (lock_vault env s)"
| "page_step env PClearError s = Some (clear_error s)"
| "page_step env (PAddKey r) s = Some (snd (register_fido2_device r s))"
| "page_step env (PVerifyKey r) s = Some (snd (verify_fido2 r s))"
| "page_step env (PRemoveKey r) s = Some (snd (remove_fido2_device r s))"
| "page_step env PRefresh s = Some (refresh_fido2_status env s)"

definition page_ok :: "auth_page \<Rightarrow> bool" where
  "page_ok s = ((is_auth s \<longrightarrow> user_id s \<noteq> None \<and> user_email s \<noteq> None \<and> user_tier s \<noteq> None) \<and>
     fido2_count s = fido_devices s \<and> (fido_devices s > 0 \<longrightarrow> fido2_enabled s) \<and> \<not> is_loading s)"

definition signs_in :: "page_event \<Rightarrow> bool" where
  "signs_in e = (case e of PLogin _ _ _ _ _ \<Rightarrow> True | PSecurityKey _ \<Rightarrow> True
     | PRegister _ _ _ _ _ _ _ _ \<Rightarrow> True | _ \<Rightarrow> False)"

definition ended :: "store_env \<Rightarrow> auth_page \<Rightarrow> bool" where
  "ended env s = (\<not> is_auth s \<and> (if web env then get_session env s = None else master_key (service s) = None))"

lemmas page_defs = begin_action_def fail_auth_def signed_in_def signed_out_def save_session_def clear_session_def
  save_stored_auth_def with_profile_def Let_def

lemma page_ok_login: "page_ok s \<Longrightarrow> page_ok (snd (store_login env fido draws profile email pw s))"
  by (auto simp: store_login_def web_login_def native_login_def page_ok_def page_defs
      split: option.split sum.split prod.split)

lemma page_ok_key: "page_ok s \<Longrightarrow> page_ok (snd (login_with_fido2 env fido s))"
  by (auto simp: login_with_fido2_def page_ok_def page_defs split: option.split bool.split)

lemma page_ok_register:
  "page_ok s \<Longrightarrow> page_ok (snd (web_register env salt uid now email pw s))"
  "page_ok s \<Longrightarrow> page_ok (snd (native_register env random draws profile email pw s))"
  by (auto simp: web_register_def native_register_def page_ok_def page_defs
      split: option.split sum.split prod.split)

lemma page_ok_logout: "page_ok s \<Longrightarrow> page_ok (snd (store_logout env s))"
  by (auto simp: store_logout_def page_ok_def page_defs split: sum.split prod.split)

lemma page_ok_check: "page_ok s \<Longrightarrow> page_ok (check_auth env profile s)"
  by (auto simp: check_auth_def page_ok_def page_defs split: option.split)

lemma page_ok_lock: "page_ok s \<Longrightarrow> page_ok (lock_vault env s)"
  by (cases "web env"; cases "storage_works env") (auto simp: lock_vault_def page_ok_def page_defs)

lemma page_ok_keys:
  "page_ok s \<Longrightarrow> page_ok (snd (register_fido2_device r s))"
  "page_ok s \<Longrightarrow> page_ok (snd (verify_fido2 q s))"
  "page_ok s \<Longrightarrow> page_ok (snd (remove_fido2_device r s))"
  by (auto simp: register_fido2_device_def verify_fido2_def remove_fido2_device_def page_ok_def page_defs
      split: option.split)

lemma page_ok_small: "page_ok s \<Longrightarrow> page_ok (clear_error s)" "page_ok s \<Longrightarrow> page_ok (refresh_fido2_status env s)"
  by (auto simp: clear_error_def refresh_fido2_status_def page_ok_def)

interpretation page: event_system "page_step env" "\<lambda>_. True" page_ok for env
proof
  show "page_ok t" if "page_ok s" and "page_step env e s = Some t" for s e t
    using that by (cases e) (auto simp: page_ok_lock page_ok_login page_ok_key page_ok_register page_ok_logout
        page_ok_check page_ok_keys page_ok_small)
qed

lemma ended_check: "ended env s \<Longrightarrow> ended env (check_auth env profile s)"
  using locked_not_authenticated [of "service s" "auth_service env"]
  by (auto simp: check_auth_def ended_def page_defs get_session_def split: option.splits)

lemma ended_leave: "ended env (snd (store_logout env s))" "ended env (lock_vault env s)"
  using logout_result [of "auth_service env" "service s"]
  by (auto simp: store_logout_def lock_vault_def ended_def page_defs get_session_def clear_master_key_def
      split: prod.split sum.split)

lemma ended_same:
  assumes "is_auth t = is_auth s" and "session_slot t = session_slot s" and "service t = service s"
  shows "ended env t = ended env s"
  using assms by (simp add: ended_def get_session_def)

lemma ended_other:
  "ended env (clear_error s) = ended env s" "ended env (snd (register_fido2_device r s)) = ended env s"
  "ended env (snd (verify_fido2 q s)) = ended env s" "ended env (snd (remove_fido2_device r s)) = ended env s"
  "ended env (refresh_fido2_status env' s) = ended env s"
  by (rule ended_same; simp add: clear_error_def register_fido2_device_def verify_fido2_def
      remove_fido2_device_def refresh_fido2_status_def begin_action_def Let_def split: option.split)+

interpretation ended: event_system "page_step env" "\<lambda>e. \<not> signs_in e" "ended env" for env
proof
  show "ended env t" if "ended env s" "\<not> signs_in e" "page_step env e s = Some t" for s e t
    using that by (cases e) (auto simp: signs_in_def ended_other ended_leave ended_check)
qed

subsection \<open>Properties\<close>

definition new_page :: "auth_state \<Rightarrow> auth_page" where
  "new_page sv = \<lparr>account_slot = None, session_slot = None, audit_user = None, is_auth = False,
     is_loading = False, user_id = None, user_email = None, user_tier = None, store_error = None,
     fido2_available = False, fido2_enabled = False, fido2_count = 0, fido2_verified = False,
     fido_devices = 0, service = sv\<rparr>"

lemma page_ok_new: "page_ok (new_page sv)"
  by (simp add: page_ok_def new_page_def)

lemma hex_xor_zero: "(of_char x :: nat) XOR of_char y = 0 \<longleftrightarrow> x = y"
proof
  assume "(of_char x :: nat) XOR of_char y = 0"
  then have "(of_char x :: nat) = of_char y"
    by (simp add: bit_eq_iff bit_simps)
  then show "x = y" by simp
qed simp

lemma verifier_matches_iff: "verifier_matches a b \<longleftrightarrow> a = b"
proof -
  have or0: "d OR e = 0 \<longleftrightarrow> d = 0 \<and> e = 0" for d e :: nat
    by (auto simp: bit_eq_iff bit_simps)
  have "fold (\<lambda>(x, y) diff. diff OR (of_char x XOR of_char y)) ps d = 0 \<longleftrightarrow> d = 0 \<and> (\<forall>(x, y)\<in>set ps. x = y)"
    for ps :: "(char \<times> char) list" and d :: nat
    by (induction ps arbitrary: d) (auto simp: or0 hex_xor_zero)
  then show ?thesis by (auto simp: verifier_matches_def list_eq_iff_zip_eq)
qed

definition credentials_match :: "store_env \<Rightarrow> stored_auth \<Rightarrow> string \<Rightarrow> string \<Rightarrow> bool" where
  "credentials_match env a email pw =
     (sa_email a = email \<and>
      compute_web_verifier (hashes (auth_service env)) email pw (buffer_from_hex (sa_salt a)) = Inr (sa_verifier a))"

lemma web_login_outcome:
  assumes "web_login env fido email pw s = (r, t)"
  shows "(r = Inr () \<longleftrightarrow>
      (\<exists>a. get_stored_auth env s = Some a \<and> credentials_match env a email pw \<and>
         (0 < fido_devices s \<and> webauthn env \<longrightarrow> fido = Some True))) \<and>
    is_auth t = (r = Inr ()) \<and>
    account_slot t = account_slot s \<and> fido_devices t = fido_devices s \<and>
    (r \<noteq> Inr () \<longrightarrow> session_slot t = session_slot s) \<and>
    (r = Inr () \<longrightarrow> (\<exists>a. get_stored_auth env s = Some a \<and> user_id t = Some (sa_user a) \<and>
       get_session env t = Some \<lparr>se_email = email, se_user = sa_user a, se_tier = sa_tier a\<rparr>))"
proof -
  have same: "get_stored_auth env (begin_action s) = get_stored_auth env s"
    by (simp add: get_stored_auth_def begin_action_def)
  show ?thesis
  proof (cases "get_stored_auth env s")
    case None
    then show ?thesis using assms same by (auto simp: web_login_def fail_auth_def begin_action_def Let_def)
  next
    case (Some a)
    then have st: "web env" "storage_works env" by (auto simp: get_stored_auth_def split: if_splits)
    show ?thesis
    proof (cases "compute_web_verifier (hashes (auth_service env)) email pw (buffer_from_hex (sa_salt a))")
      case (Inl e)
      with Some assms same show ?thesis
        by (auto simp: web_login_def fail_auth_def begin_action_def Let_def credentials_match_def)
    next
      case (Inr v)
      with Some assms same st show ?thesis
        by (auto simp: web_login_def page_defs credentials_match_def verifier_matches_iff get_session_def
            split: if_split_asm)
    qed
  qed
qed


text \<open>
  C6: A web login succeeds exactly when the stored account has this e-mail, the verifier derived from
  the password and the stored salt is the stored one, and, with a registered key in a browser that
  supports keys, the key was accepted; it then opens a session for the stored user. A refused login
  signs the page out but leaves an open session in the storage.
\<close>

theorem web_login_exact:
  assumes "web_login env fido email pw s = (r, t)"
  shows "(r = Inr () \<longleftrightarrow>
      (\<exists>a. get_stored_auth env s = Some a \<and> credentials_match env a email pw \<and>
         (0 < fido_devices s \<and> webauthn env \<longrightarrow> fido = Some True))) \<and>
    is_auth t = (r = Inr ()) \<and>
    (r \<noteq> Inr () \<longrightarrow> session_slot t = session_slot s) \<and>
    (r = Inr () \<longrightarrow> (\<exists>a. get_stored_auth env s = Some a \<and> user_id t = Some (sa_user a) \<and>
       get_session env t = Some \<lparr>se_email = email, se_user = sa_user a, se_tier = sa_tier a\<rparr>))"
  using web_login_outcome [OF assms] by blast

text \<open>
  Leaving sticks: after a logout or a lock, no sequence of actions other than a login, a security
  key sign-in or a registration signs the page in again, on the web and on native; restoring the
  session finds none.
\<close>

theorem leaving_sticks:
  assumes "s' \<in> {snd (store_logout env s), lock_vault env s}"
    and "list_all (\<lambda>e. \<not> signs_in e) es" and "run (page_step env) es s' = Some t"
  shows "\<not> is_auth t \<and> \<not> is_auth (check_auth env profile t)"
proof -
  have "ended env s'" using assms(1) ended_leave by auto
  then have "ended env t" using ended.run_inv assms(2,3) by blast
  then show ?thesis using ended_check [of env t profile] by (simp add: ended_def)
qed

lemma registered_account:
  assumes "web env" and "storage_works env"
    and "web_register env salt uid now email pw s = (Inr (), t)"
  shows "\<exists>v. compute_web_verifier (hashes (auth_service env)) email pw salt = Inr v \<and>
    get_stored_auth env t = Some \<lparr>sa_email = email, sa_salt = bytes_to_hex salt, sa_verifier = v, sa_user = uid,
      sa_tier = ''enterprise'', sa_created = now\<rparr> \<and> fido_devices t = fido_devices s"
  using assms by (auto simp: web_register_def page_defs get_stored_auth_def split: option.splits sum.splits if_splits)


text \<open>
  The web keeps one account: registering a second e-mail succeeds whenever its verifier can be
  computed, replaces the stored account, and from then on the first e-mail is refused whatever the
  password.
\<close>

theorem second_account_replaces_first:
  assumes "web env" and "storage_works env" and "email \<noteq> email'"
    and "web_register env salt uid now email pw s = (Inr (), s1)"
    and "web_register env salt' uid' now' email' pw' s1 = (r, s2)"
  shows "(r = Inr () \<longleftrightarrow> (\<exists>v. compute_web_verifier (hashes (auth_service env)) email' pw' salt' = Inr v)) \<and>
    (r = Inr () \<longrightarrow> (\<forall>fido pw''. \<exists>e. fst (web_login env fido email pw'' s2) = Inl e))"
proof -
  obtain a where a: "get_stored_auth env s1 = Some a" "sa_email a = email"
    using registered_account [OF assms(1,2,4)] by auto
  have same: "get_stored_auth env (begin_action s1) = get_stored_auth env s1"
    by (simp add: get_stored_auth_def begin_action_def)
  have "r = Inr () \<longleftrightarrow> (\<exists>v. compute_web_verifier (hashes (auth_service env)) email' pw' salt' = Inr v)"
    using assms(3,5) a same by (auto simp: web_register_def fail_auth_def Let_def split: sum.splits)
  moreover have "\<exists>e. fst (web_login env fido email pw'' s2) = Inl e" if ok: "r = Inr ()" for fido pw''
  proof -
    obtain b where b: "get_stored_auth env s2 = Some b" "sa_email b = email'"
      using registered_account [OF assms(1,2) assms(5) [unfolded ok]] by auto
    obtain q t where q: "web_login env fido email pw'' s2 = (q, t)" by fastforce
    have "q \<noteq> Inr ()" using web_login_outcome [OF q] b assms(3) by (auto simp: credentials_match_def)
    then show ?thesis using q by (cases q) auto
  qed
  ultimately show ?thesis by blast
qed

subsection \<open>Instances\<close>

definition page_env :: store_env where
  "page_env = \<lparr>web = True, storage_works = True, webauthn = True,
     auth_service = \<lparr>on_web = True, hashes = one_env, api_post = \<lambda>_ _ s. (NoReply, s),
       derive_key = \<lambda>_ _. None, share_keypair = None, signing_keypair = None, post_register = \<lambda>_. None,
       secure_write = \<lambda>_ _. True, secure_read = \<lambda>_. True, secure_delete = \<lambda>_. True, async_works = True,
       has_hardware = None, supported_types = None, biometric_prompt = None\<rparr>\<rparr>"

definition demo_page :: auth_page where
  "demo_page = new_page \<lparr>master_key = None, secure = [], async_store = []\<rparr>"

lemma page_env_simps [simp]: "web page_env" "storage_works page_env" "hashes (auth_service page_env) = one_env"
  by (simp_all add: page_env_def)

lemma one_page_x: "derive_x one_env salt email pw = Inr 1"
proof -
  have "parse_big_int (''0x'' @ ''01'') = Some 1" by code_simp
  moreover have "argon one_env pw h = Some ''01''" for h by (simp add: one_env_def)
  ultimately show ?thesis by (simp add: derive_x_def sha256_parts_eq [OF one_env])
qed

lemma demo_verifier: "compute_web_verifier one_env email pw salt = Inr (bytes_to_hex (big_int_to_bytes 2))"
  by (simp add: compute_web_verifier_def one_page_x small_verifier)

lemma demo_register:
  obtains t where "web_register page_env [7] ''u'' 0 ''a@b'' ''pw'' demo_page = (Inr (), t)"
    and "fido_devices t = 0"
proof -
  have "get_stored_auth page_env (begin_action demo_page) = None"
    by (simp add: get_stored_auth_def begin_action_def demo_page_def new_page_def)
  then show ?thesis using that
    by (fastforce simp: web_register_def demo_verifier page_defs demo_page_def new_page_def)
qed



theorem web_login_exact_witness:
  "\<exists>s t. fst (web_login page_env None ''other'' ''pw'' s) \<noteq> Inr () \<and> web_login page_env None ''a@b'' ''pw'' s = (Inr (), t)"
proof -
  obtain s where s: "web_register page_env [7] ''u'' 0 ''a@b'' ''pw'' demo_page = (Inr (), s)" "fido_devices s = 0"
    by (rule demo_register)
  have a: "\<exists>a. get_stored_auth page_env s = Some a \<and> credentials_match page_env a ''a@b'' ''pw'' \<and> sa_email a = ''a@b''"
    using registered_account [OF _ _ s(1)] by (auto simp: credentials_match_def buffer_hex)
  obtain r t where t: "web_login page_env None ''a@b'' ''pw'' s = (r, t)" by fastforce
  obtain r' t' where t': "web_login page_env None ''other'' ''pw'' s = (r', t')" by fastforce
  show ?thesis
    using web_login_exact [OF t, THEN conjunct1] web_login_exact [OF t', THEN conjunct1] t t' a s(2)
    by (intro exI [of _ s] exI [of _ t]) (auto simp: credentials_match_def)
qed

theorem leaving_sticks_witness:
  "\<exists>s t. is_auth s \<and> run (page_step page_env) [PCheck None, PClearError] (snd (store_logout page_env s)) = Some t \<and> \<not> is_auth t"
proof -
  obtain s where s: "web_register page_env [7] ''u'' 0 ''a@b'' ''pw'' demo_page = (Inr (), s)"
    by (rule demo_register)
  then have "is_auth s" by (auto simp: web_register_def page_defs split: option.splits sum.splits if_splits)
  moreover obtain t where t: "run (page_step page_env) [PCheck None, PClearError] (snd (store_logout page_env s)) = Some t"
    by simp
  moreover have "list_all (\<lambda>e. \<not> signs_in e) [PCheck None, PClearError]" by (simp add: signs_in_def)
  ultimately show ?thesis using leaving_sticks [of "snd (store_logout page_env s)" page_env s] by blast
qed

theorem second_account_replaces_first_witness:
  "\<exists>s1 s2. web_register page_env [7] ''u'' 0 ''a@b'' ''pw'' demo_page = (Inr (), s1) \<and>
     web_register page_env [8] ''v'' 1 ''c@d'' ''pw'' s1 = (Inr (), s2) \<and>
     (\<exists>e. fst (web_login page_env None ''a@b'' ''pw'' s2) = Inl e)"
proof -
  obtain s where s: "web_register page_env [7] ''u'' 0 ''a@b'' ''pw'' demo_page = (Inr (), s)"
    by (rule demo_register)
  obtain r t where t: "web_register page_env [8] ''v'' 1 ''c@d'' ''pw'' s = (r, t)" by fastforce
  have "''a@b'' \<noteq> ''c@d''" by simp
  from second_account_replaces_first [OF _ _ this s t] show ?thesis using s t demo_verifier by auto
qed

end
