(* ===== verification/Password_Policy.thy ===== *)
theory Password_Policy
  imports Big_Int Text_Codec
begin

text \<open>
  \<open>utils/passwordPolicy.ts\<close>: validation, scoring, crack-time estimate and breach check of
  passwords. A HOL character is a code unit below 256. Entropy is the exact real number. The
  messages are constructors of \<open>feedback\<close> with the values their templates show. SHA-1 and the
  breach service are parameters (\<open>None\<close>: rejected, or not reachable).
\<close>

subsection \<open>Constants and types\<close>

definition PASSWORD_MIN_LENGTH :: nat where "PASSWORD_MIN_LENGTH = 15"
definition PASSWORD_MAX_LENGTH :: nat where "PASSWORD_MAX_LENGTH = 128"
definition NAME_MIN_LENGTH :: nat where "NAME_MIN_LENGTH = 1"
definition NAME_MAX_LENGTH :: nat where "NAME_MAX_LENGTH = 64"

datatype strength_level = Weak | Fair | Good | Strong | VeryStrong

record char_classes =
  has_lowercase :: bool
  has_uppercase :: bool
  has_digits :: bool
  has_special :: bool
  class_count :: nat

record password_checks =
  min_length_ok :: bool
  max_length_ok :: bool
  not_common :: bool
  not_contextual :: bool
  not_keyboard_pattern :: bool
  not_user_context :: bool

datatype feedback =
    TooShort nat
  | TooLong
  | CommonPassword
  | CommonSubstituted
  | KeyboardPattern
  | RepeatedCharacters
  | SequentialCharacters
  | AvoidTerm string
  | PersonalInformation string
  | MoreClasses nat
  | Excellent
  | GoodLonger

record password_result =
  pw_valid :: bool
  pw_score :: int
  pw_level :: strength_level
  crack_time :: string
  pw_feedback :: "feedback list"
  pw_checks :: password_checks
  pw_classes :: char_classes

record password_context =
  vault_name :: "string option"
  username :: "string option"
  ctx_email :: "string option"
  first_name :: "string option"
  last_name :: "string option"

subsection \<open>Input validation\<close>

datatype js_value = Text string | NotText

datatype field_error = MustBeText | AtLeast nat | AtMost nat | OnlyLetters

record input_result =
  input_valid :: bool
  input_errors :: "field_error list"

definition is_special :: "char \<Rightarrow> bool" where
  "is_special c = (\<not> is_lower c \<and> \<not> is_upper c \<and> \<not> is_digit c)"

definition validate_type :: "js_value \<Rightarrow> input_result" where
  "validate_type v = (case v of
     Text _ \<Rightarrow> \<lparr>input_valid = True, input_errors = []\<rparr>
   | NotText \<Rightarrow> \<lparr>input_valid = False, input_errors = [MustBeText]\<rparr>)"

definition validate_length :: "string \<Rightarrow> nat \<Rightarrow> nat \<Rightarrow> input_result" where
  "validate_length s least most =
     (let errs = (if length s < least then [AtLeast least] else []) @
                 (if length s > most then [AtMost most] else [])
      in \<lparr>input_valid = (errs = []), input_errors = errs\<rparr>)"

definition name_char :: "char \<Rightarrow> bool" where
  "name_char c = (is_lower c \<or> is_upper c \<or> 192 \<le> code c \<or> is_space c \<or> c = CHR 0x27 \<or> c = CHR ''-'')"

definition validate_name_pattern :: "string \<Rightarrow> input_result" where
  "validate_name_pattern s =
     (if s \<noteq> [] \<and> list_all name_char s then \<lparr>input_valid = True, input_errors = []\<rparr>
      else \<lparr>input_valid = False, input_errors = [OnlyLetters]\<rparr>)"

definition validate_input_field ::
  "js_value \<Rightarrow> nat option \<Rightarrow> nat option \<Rightarrow> bool \<Rightarrow> input_result" where
  "validate_input_field v least most pattern =
     (case v of
        NotText \<Rightarrow> validate_type v
      | Text s \<Rightarrow>
          (let errs = input_errors (validate_length s (case_option NAME_MIN_LENGTH id least)
                        (case_option NAME_MAX_LENGTH id most)) @
                      (if pattern \<and> length s > 0 then input_errors (validate_name_pattern s) else [])
           in \<lparr>input_valid = (errs = []), input_errors = errs\<rparr>))"

subsection \<open>Character classes and lists\<close>

definition analyze_character_classes :: "string \<Rightarrow> char_classes" where
  "analyze_character_classes p =
     (let l = list_ex is_lower p; u = list_ex is_upper p; d = list_ex is_digit p; s = list_ex is_special p
      in \<lparr>has_lowercase = l, has_uppercase = u, has_digits = d, has_special = s,
          class_count = of_bool l + of_bool u + of_bool d + of_bool s\<rparr>)"

definition common_passwords_0 :: "string list" where
  "common_passwords_0 =
     [''password'', ''123456'', ''12345678'', ''qwerty'', ''abc123'', ''monkey'', ''master'',
      ''dragon'', ''111111'', ''baseball'', ''iloveyou'', ''trustno1'', ''sunshine'',
      ''letmein'', ''football'', ''shadow'', ''michael'', ''login'', ''starwars'', ''passw0rd'',
      ''welcome'', ''batman'', ''solo'', ''admin'', ''princess'', ''access'', ''flower'',
      ''qwerty123'', ''password1'', ''password123'', ''1234567890'', ''123456789'', ''12345'',
      ''1234567'', ''123123'', ''654321'', ''000000'', ''1234'', ''charlie'', ''donald'',
      ''zaq1zaq1'', ''mustang'', ''freedom'', ''whatever'', ''qazwsx'', ''trustno1'', ''jordan'',
      ''harley'', ''robert'', ''matthew'', ''daniel'', ''andrew'', ''andrea'', ''joshua'',
      ''nicole'', ''jessica'', ''ashley'', ''jennifer'', ''amanda'', ''stephanie'']"

definition common_passwords_1 :: "string list" where
  "common_passwords_1 =
     [''rachel'', ''hannah'', ''samantha'', ''thunder'', ''tigger'', ''dallas'', ''austin'',
      ''rangers'', ''pepper'', ''maggie'', ''hunter'', ''cheese'', ''corvette'', ''merlin'',
      ''diamond'', ''yellow'', ''bigdog'', ''secret'', ''summer'', ''ginger'', ''sparky'',
      ''yankees'', ''camaro'', ''matrix'', ''falcon'', ''guitar'', ''internet'', ''silver'',
      ''runner'', ''killer'', ''phoenix'', ''george'', ''morgan'', ''soccer'', ''hockey'',
      ''chicken'', ''startrek'', ''redskins'', ''butthead'', ''blowfish'', ''test'', ''test123'',
      ''fuckyou'', ''asshole'', ''pussy'', ''buster'', ''cookie'', ''computer'', ''midnight'',
      ''nascar'', ''peanut'', ''cowboys'', ''steelers'', ''jasmine'', ''winter'', ''oliver'',
      ''thomas'', ''william'', ''joseph'', ''jackson'']"

definition common_passwords_2 :: "string list" where
  "common_passwords_2 =
     [''gabriel'', ''anthony'', ''alexander'', ''benjamin'', ''nicholas'', ''victoria'',
      ''superman'', ''spiderman'', ''nothing'', ''lakers'', ''jordan23'', ''iwantu'',
      ''looking'', ''helpme'', ''angel'', ''please'', ''changeme'', ''changeit'', ''default'',
      ''temp'', ''temporary'', ''guest'', ''newuser'', ''user'', ''administrator'', ''root'',
      ''sysadmin'', ''backup'', ''letmeinplease'', ''iloveyouforever'', ''passwordpassword'',
      ''qwertyuiopasdfg'', ''abcdefghijklmno'', ''aaaaaaaaaaaaaaa'', ''bbbbbbbbbbbbbbb'',
      ''111111111111111'', ''123456789012345'', ''000000000000000'', ''passwordpassword1'',
      ''password12345678'', ''qwertyuiop'', ''asdfghjkl'', ''zxcvbnm'', ''qazwsxedc'',
      ''qweasdzxc'', ''1qaz2wsx3edc'', ''zaq12wsx'', ''p0o9i8u7'', ''0987654321'',
      ''poiuytrewq'', ''lkjhgfdsa'', ''mnbvcxz'']"

definition COMMON_PASSWORDS :: "string list" where
  "COMMON_PASSWORDS = common_passwords_0 @ common_passwords_1 @ common_passwords_2"

definition KEYBOARD_PATTERNS :: "string list" where
  "KEYBOARD_PATTERNS =
     [''qwerty'', ''qwertz'', ''azerty'', ''asdf'', ''zxcv'', ''qweasd'', ''qazwsx'', ''1234'',
      ''2345'', ''3456'', ''4567'', ''5678'', ''6789'', ''7890'', ''abcd'', ''bcde'', ''cdef'',
      ''defg'', ''efgh'', ''fghi'', ''ghij'', ''hijk'', ''ijkl'', ''jklm'', ''klmn'', ''lmno'',
      ''mnop'', ''nopq'', ''opqr'', ''pqrs'', ''qrst'', ''rstu'', ''stuv'', ''tuvw'', ''uvwx'',
      ''vwxy'', ''wxyz'']"

definition CONTEXT_BLOCKLIST :: "string list" where
  "CONTEXT_BLOCKLIST =
     [''usbvault'', ''vault'', ''encrypt'', ''decrypt'', ''password'', ''passphrase'',
      ''secret'', ''master'', ''key'', ''crypto'']"

subsection \<open>Checks\<close>

definition desubstitute_char :: "char \<Rightarrow> char" where
  "desubstitute_char c =
     (if c = CHR ''0'' then CHR ''o'' else if c = CHR ''1'' then CHR ''l''
      else if c = CHR ''3'' then CHR ''e'' else if c = CHR ''4'' then CHR ''a''
      else if c = CHR ''@'' then CHR ''a'' else if c = CHR ''$'' then CHR ''s''
      else if c = CHR ''!'' then CHR ''i'' else c)"

fun has_repeat :: "string \<Rightarrow> bool" where
  "has_repeat [] = False"
| "has_repeat (c # cs) =
     (c \<notin> {CHR 0x0A, CHR 0x0D} \<and> take 4 cs = replicate 4 c \<or> has_repeat cs)"

fun sequential_loop :: "nat \<Rightarrow> nat \<Rightarrow> nat \<Rightarrow> string \<Rightarrow> bool" where
  "sequential_loop least up down (b # c # cs) =
     (let diff = int (code c) - int (code b) in
      if diff = 1 then (up + 1 \<ge> least \<or> sequential_loop least (up + 1) 1 (c # cs))
      else if diff = -1 then (down + 1 \<ge> least \<or> sequential_loop least 1 (down + 1) (c # cs))
      else sequential_loop least 1 1 (c # cs))"
| "sequential_loop least up down _ = False"

definition has_long_sequential_chars :: "string \<Rightarrow> nat \<Rightarrow> bool" where
  "has_long_sequential_chars p least = sequential_loop least 1 1 p"

text \<open>A pattern counts when it makes up at least 0.4 of the password.\<close>

definition pattern_hit :: "string \<Rightarrow> string \<Rightarrow> bool" where
  "pattern_hit lower pat = (has_infix pat lower \<and> length pat \<ge> 4 \<and> 5 * length pat \<ge> 2 * length lower)"

definition long_enough :: "string option \<Rightarrow> string list" where
  "long_enough x = (case x of None \<Rightarrow> [] | Some s \<Rightarrow> if length s \<ge> 3 then [to_lower s] else [])"

definition user_terms :: "password_context \<Rightarrow> string list" where
  "user_terms ctx = long_enough (first_name ctx) @ long_enough (last_name ctx) @ long_enough (username ctx) @
     long_enough (map_option (takeWhile (\<lambda>c. c \<noteq> CHR ''@'')) (ctx_email ctx)) @ long_enough (vault_name ctx)"

subsection \<open>Entropy, crack time and score\<close>

definition charset_size :: "string \<Rightarrow> nat" where
  "charset_size p =
     (let n = (if list_ex is_lower p then 26 else 0) + (if list_ex is_upper p then 26 else 0) +
              (if list_ex is_digit p then 10 else 0) + (if list_ex is_special p then 33 else 0)
      in if n = 0 then 26 else n)"

definition calculate_entropy :: "string \<Rightarrow> real" where
  "calculate_entropy p = real (length p) * log 2 (real (charset_size p))"

definition round_text :: "real \<Rightarrow> string" where
  "round_text x = big_to_string 10 \<lfloor>x + 1 / 2\<rfloor>"

definition estimate_crack_time :: "real \<Rightarrow> string" where
  "estimate_crack_time bits =
     (let secs = 2 powr bits / (2 * 10000000000) in
      if secs < 1 / 1000 then ''Instant''
      else if secs < 1 then ''Less than 1 second''
      else if secs < 60 then round_text secs @ '' seconds''
      else if secs < 3600 then round_text (secs / 60) @ '' minutes''
      else if secs < 86400 then round_text (secs / 3600) @ '' hours''
      else if secs < 86400 * 365 then round_text (secs / 86400) @ '' days''
      else if secs < 86400 * 365 * 100 then round_text (secs / (86400 * 365)) @ '' years''
      else if secs < 86400 * 365 * 1000000 then round_text (secs / (86400 * 365 * 1000)) @ ''K+ years''
      else if secs < 86400 * 365 * 1000000000 then round_text (secs / (86400 * 365 * 1000000)) @ ''M+ years''
      else ''Billions of years'')"

definition calculate_score :: "string \<Rightarrow> real \<Rightarrow> password_checks \<Rightarrow> char_classes \<Rightarrow> int" where
  "calculate_score p entropy checks classes =
     (let s1 = (if entropy \<ge> 80 then 3 else if entropy \<ge> 60 then 2 else if entropy \<ge> 40 then 1 else 0);
          s2 = s1 + (if length p \<ge> 20 then 1 else 0);
          s3 = s2 + (if length p \<ge> 30 then 1 else 0);
          s4 = s3 + (if class_count classes = 4 then 1 else 0);
          s5 = (if \<not> not_common checks then max 0 (s4 - 2) else s4);
          s6 = (if \<not> not_contextual checks then max 0 (s5 - 1) else s5);
          s7 = (if \<not> not_user_context checks then max 0 (s6 - 1) else s6);
          s8 = (if \<not> not_keyboard_pattern checks then max 0 (s7 - 1) else s7);
          s9 = (if \<not> min_length_ok checks then 0 else s8)
      in min 5 s9)"

definition score_to_level :: "int \<Rightarrow> strength_level" where
  "score_to_level s = (if s \<le> 0 then Weak else if s = 1 then Fair else if s = 2 then Good
     else if s \<le> 4 then Strong else VeryStrong)"

subsection \<open>\<open>validatePassword\<close>\<close>

definition is_common :: "string \<Rightarrow> bool" where
  "is_common p = (to_lower p \<in> set COMMON_PASSWORDS \<or> p \<in> set COMMON_PASSWORDS)"

definition is_common_substituted :: "string \<Rightarrow> bool" where
  "is_common_substituted p =
     (let lower = to_lower p; d = map desubstitute_char lower in d \<noteq> lower \<and> d \<in> set COMMON_PASSWORDS)"

definition is_valid_checks :: "password_checks \<Rightarrow> bool" where
  "is_valid_checks c = (min_length_ok c \<and> max_length_ok c \<and> not_common c \<and> not_contextual c \<and> not_user_context c)"

definition validate_password :: "string \<Rightarrow> password_context option \<Rightarrow> password_result" where
  "validate_password p ctx =
     (let lower = to_lower p;
          minOk = (length p \<ge> PASSWORD_MIN_LENGTH);
          maxOk = (length p \<le> PASSWORD_MAX_LENGTH);
          f1 = (if \<not> minOk then [TooShort (length p)] else []) @ (if \<not> maxOk then [TooLong] else []);
          f2 = f1 @ (if is_common p then [CommonPassword] else []) @
                    (if is_common_substituted p then [CommonSubstituted] else []);
          keyboard = list_ex (pattern_hit lower) KEYBOARD_PATTERNS;
          f3 = f2 @ (if keyboard then [KeyboardPattern] else []);
          repeated = has_repeat p;
          f4 = f3 @ (if repeated \<and> KeyboardPattern \<notin> set f3 then [RepeatedCharacters] else []);
          sequential = has_long_sequential_chars p 5;
          f5 = f4 @ (if sequential \<and> KeyboardPattern \<notin> set f4 \<and> RepeatedCharacters \<notin> set f4
                     then [SequentialCharacters] else []);
          term = List.find (\<lambda>t. length t \<ge> 3 \<and> has_infix t lower) CONTEXT_BLOCKLIST;
          f6 = f5 @ (case term of None \<Rightarrow> [] | Some t \<Rightarrow> [AvoidTerm t]);
          personal = (case ctx of None \<Rightarrow> None | Some c \<Rightarrow> List.find (\<lambda>t. has_infix t lower) (user_terms c));
          f7 = f6 @ (case personal of None \<Rightarrow> [] | Some t \<Rightarrow> [PersonalInformation t]);
          checks = \<lparr>min_length_ok = minOk, max_length_ok = maxOk,
             not_common = (\<not> is_common p \<and> \<not> is_common_substituted p), not_contextual = (term = None),
             not_keyboard_pattern = (\<not> keyboard \<and> \<not> repeated \<and> \<not> sequential),
             not_user_context = (personal = None)\<rparr>;
          classes = analyze_character_classes p;
          f8 = f7 @ (if minOk \<and> class_count classes < 3 then [MoreClasses (class_count classes)] else []);
          entropy = calculate_entropy p;
          score = calculate_score p entropy checks classes;
          valid = is_valid_checks checks;
          f9 = (if valid \<and> f8 = [] then if score \<ge> 4 then [Excellent] else if score \<ge> 3 then [GoodLonger] else f8
                else f8)
      in \<lparr>pw_valid = valid, pw_score = score, pw_level = score_to_level score,
          crack_time = estimate_crack_time entropy, pw_feedback = f9, pw_checks = checks, pw_classes = classes\<rparr>)"

subsection \<open>The breach check\<close>

datatype breach_source = Hibp | OfflineFallback

record hibp_result =
  is_breached :: bool
  breach_source :: breach_source
  match_count :: "int option option"

fun split_on :: "char \<Rightarrow> string \<Rightarrow> string list" where
  "split_on d [] = [[]]"
| "split_on d (c # cs) =
     (if c = d then [] # split_on d cs
      else case split_on d cs of [] \<Rightarrow> [[c]] | l # ls \<Rightarrow> (c # l) # ls)"

definition upper_hex :: "string \<Rightarrow> string" where
  "upper_hex s = map (\<lambda>c. if is_lower c then char_of (code c - 32) else c) s"

fun decimal_prefix :: "int option \<Rightarrow> string \<Rightarrow> int option" where
  "decimal_prefix acc (c # cs) =
     (if is_digit c then decimal_prefix (Some (10 * (case acc of None \<Rightarrow> 0 | Some n \<Rightarrow> n) + int (code c) - 48)) cs
      else acc)"
| "decimal_prefix acc [] = acc"

text \<open>\<open>parseInt(text, 10)\<close>; \<open>None\<close> is \<open>NaN\<close>, also for a missing second part.\<close>

definition parse_int10 :: "string option \<Rightarrow> int option" where
  "parse_int10 x = (case x of None \<Rightarrow> None
     | Some s0 \<Rightarrow> (case dropWhile is_space s0 of
           [] \<Rightarrow> None
         | c # cs \<Rightarrow> if c = CHR ''-'' then map_option uminus (decimal_prefix None cs)
             else if c = CHR ''+'' then decimal_prefix None cs
             else decimal_prefix None (c # cs)))"

definition line_parts :: "string \<Rightarrow> string \<times> string option" where
  "line_parts line = (case split_on (CHR '':'') (trim_text line) of
     [] \<Rightarrow> ([], None) | [a] \<Rightarrow> (a, None) | a # b # _ \<Rightarrow> (a, Some b))"

definition check_password_breach ::
  "(bytes \<Rightarrow> bytes option) \<Rightarrow> (string \<Rightarrow> string option) \<Rightarrow> string \<Rightarrow> hibp_result" where
  "check_password_breach sha1 ask p =
     (let fallback = \<lparr>is_breached = (to_lower p \<in> set COMMON_PASSWORDS), breach_source = OfflineFallback,
                      match_count = None\<rparr> in
      case sha1 (utf8_encode p) of
        None \<Rightarrow> fallback
      | Some h \<Rightarrow>
          (let hashHex = upper_hex (bytes_to_hex h); suffix = drop 5 hashHex in
           case ask (take 5 hashHex) of
             None \<Rightarrow> fallback
           | Some txt \<Rightarrow>
               (case List.find (\<lambda>line. fst (line_parts line) = suffix) (split_on (CHR 0x0A) txt) of
                  Some line \<Rightarrow> \<lparr>is_breached = True, breach_source = Hibp,
                    match_count = Some (parse_int10 (snd (line_parts line)))\<rparr>
                | None \<Rightarrow> \<lparr>is_breached = False, breach_source = Hibp, match_count = None\<rparr>)))"

subsection \<open>Labels\<close>

definition level_to_color :: "strength_level \<Rightarrow> string" where
  "level_to_color l = (case l of Weak \<Rightarrow> ''#EF4444'' | Fair \<Rightarrow> ''#F59E0B'' | Good \<Rightarrow> ''#3B82F6''
     | Strong \<Rightarrow> ''#10B981'' | VeryStrong \<Rightarrow> ''#06D6A0'')"

definition level_to_label :: "strength_level \<Rightarrow> string" where
  "level_to_label l = (case l of Weak \<Rightarrow> ''Weak'' | Fair \<Rightarrow> ''Fair'' | Good \<Rightarrow> ''Good''
     | Strong \<Rightarrow> ''Strong'' | VeryStrong \<Rightarrow> ''Very Strong'')"

subsection \<open>Facts\<close>

lemma blocklist_long: "list_all (\<lambda>t. length t \<ge> 3) CONTEXT_BLOCKLIST"
  by (simp add: CONTEXT_BLOCKLIST_def)

lemma find_blocklist:
  "List.find (\<lambda>t. length t \<ge> 3 \<and> has_infix t l) CONTEXT_BLOCKLIST = None \<longleftrightarrow>
     (\<forall>t\<in>set CONTEXT_BLOCKLIST. \<not> has_infix t l)"
  using blocklist_long by (auto simp: find_None_iff list_all_iff)

definition context_terms :: "password_context option \<Rightarrow> string list" where
  "context_terms ctx = (case ctx of None \<Rightarrow> [] | Some c \<Rightarrow> user_terms c)"

lemma find_personal:
  "(case ctx of None \<Rightarrow> None | Some c \<Rightarrow> List.find P (user_terms c)) = List.find P (context_terms ctx)"
  by (simp add: context_terms_def split: option.split)

lemma checks_of:
  "pw_checks (validate_password p ctx) =
     \<lparr>min_length_ok = (length p \<ge> PASSWORD_MIN_LENGTH), max_length_ok = (length p \<le> PASSWORD_MAX_LENGTH),
      not_common = (\<not> is_common p \<and> \<not> is_common_substituted p),
      not_contextual = (\<forall>t\<in>set CONTEXT_BLOCKLIST. \<not> has_infix t (to_lower p)),
      not_keyboard_pattern = (\<not> list_ex (pattern_hit (to_lower p)) KEYBOARD_PATTERNS \<and> \<not> has_repeat p \<and>
        \<not> has_long_sequential_chars p 5),
      not_user_context = (\<forall>t\<in>set (context_terms ctx). \<not> has_infix t (to_lower p))\<rparr>"
  unfolding validate_password_def Let_def password_result.select_convs find_blocklist find_personal find_None_iff2
  by (simp add: find_None_iff Ball_def)

lemma result_of:
  "pw_valid (validate_password p ctx) = is_valid_checks (pw_checks (validate_password p ctx))"
  "pw_classes (validate_password p ctx) = analyze_character_classes p"
  "pw_score (validate_password p ctx) = calculate_score p (calculate_entropy p)
     (pw_checks (validate_password p ctx)) (analyze_character_classes p)"
  "pw_level (validate_password p ctx) = score_to_level (pw_score (validate_password p ctx))"
  unfolding validate_password_def Let_def by simp_all

subsection \<open>Sequential runs\<close>

text \<open>The reference: somewhere \<open>n\<close> characters in a row whose codes step by \<open>d\<close>.\<close>

definition has_run :: "int \<Rightarrow> nat \<Rightarrow> string \<Rightarrow> bool" where
  "has_run d n p = (\<exists>i. i + n \<le> length p \<and>
     (\<forall>j. j + 1 < n \<longrightarrow> int (code (p ! (i + j + 1))) = int (code (p ! (i + j))) + d))"

fun lead :: "int \<Rightarrow> string \<Rightarrow> nat" where
  "lead d [] = 0"
| "lead d [c] = 1"
| "lead d (b # c # cs) = (if int (code c) = int (code b) + d then 1 + lead d (c # cs) else 1)"

fun runs :: "int \<Rightarrow> nat \<Rightarrow> string \<Rightarrow> bool" where
  "runs d n [] = False"
| "runs d n (c # cs) = (n \<le> lead d (c # cs) \<or> runs d n cs)"

lemma lead_pos: "0 < lead d (c # cs)"
  by (cases cs) simp_all

lemma lead_iff:
  "n \<le> lead d s \<longleftrightarrow> n \<le> length s \<and> (\<forall>j. j + 1 < n \<longrightarrow> int (code (s ! (j + 1))) = int (code (s ! j)) + d)"
proof (induction d s arbitrary: n rule: lead.induct)
  case (3 d b c cs)
  show ?case
  proof (cases n)
    case (Suc m)
    show ?thesis
    proof (cases m)
      case 0
      then show ?thesis using Suc by simp
    next
      case (Suc k)
      have "(\<forall>j. j + 1 < Suc m \<longrightarrow> int (code ((b # c # cs) ! (j + 1))) = int (code ((b # c # cs) ! j)) + d) \<longleftrightarrow>
        int (code c) = int (code b) + d \<and>
        (\<forall>j. j + 1 < m \<longrightarrow> int (code ((c # cs) ! (j + 1))) = int (code ((c # cs) ! j)) + d)"
        unfolding Suc by (simp add: All_less_Suc2)
      then show ?thesis using 3 \<open>n = Suc m\<close> Suc by auto
    qed
  qed simp
qed (auto simp: le_Suc_eq)

lemma runs_iff: "0 < n \<Longrightarrow> runs d n s \<longleftrightarrow> has_run d n s"
proof -
  assume n: "0 < n"
  have "runs d n s \<longleftrightarrow> (\<exists>i. n \<le> lead d (drop i s))"
  proof (induction s)
    case Nil
    then show ?case using n by simp
  next
    case (Cons c cs)
    have "(\<exists>i. n \<le> lead d (drop i (c # cs))) \<longleftrightarrow> n \<le> lead d (c # cs) \<or> (\<exists>i. n \<le> lead d (drop i cs))"
      by (metis drop0 drop_Suc_Cons not0_implies_Suc)
    with Cons show ?case by simp
  qed
  also have "\<dots> \<longleftrightarrow> has_run d n s"
    unfolding lead_iff has_run_def
    using n by (intro ex_cong1) (auto simp: add.assoc)
  finally show ?thesis .
qed

lemma sequential_loop_iff:
  "0 < up \<Longrightarrow> up < n \<Longrightarrow> 0 < down \<Longrightarrow> down < n \<Longrightarrow>
     sequential_loop n up down s \<longleftrightarrow>
       s \<noteq> [] \<and> (n + 1 \<le> up + lead 1 s \<or> n + 1 \<le> down + lead (-1) s \<or> runs 1 n s \<or> runs (-1) n s)"
proof (induction n up down s rule: sequential_loop.induct)
  case (1 n up down b c cs)
  let ?d = "int (code c) - int (code b)"
  have pos: "0 < lead 1 (c # cs)" "0 < lead (-1) (c # cs)" by (rule lead_pos)+
  consider "?d = 1" | "?d = -1" | "?d \<noteq> 1 \<and> ?d \<noteq> -1" by blast
  then show ?case
  proof cases
    case 1
    then have l: "lead 1 (b # c # cs) = 1 + lead 1 (c # cs)" "lead (-1) (b # c # cs) = 1" by auto
    show ?thesis
    proof (cases "up + 1 \<ge> n")
      case True
      then show ?thesis using 1 l pos by simp
    next
      case False
      then show ?thesis using "1.IH"(1) [OF HOL.refl 1] "1.prems" 1 l pos by auto
    qed
  next
    case 2
    then have l: "lead (-1) (b # c # cs) = 1 + lead (-1) (c # cs)" "lead 1 (b # c # cs) = 1" by auto
    show ?thesis
    proof (cases "down + 1 \<ge> n")
      case True
      then show ?thesis using 2 l pos by simp
    next
      case False
      then show ?thesis using "1.IH"(2) [OF HOL.refl _ 2] "1.prems" 2 l pos by auto
    qed
  next
    case 3
    then have l: "lead (-1) (b # c # cs) = 1" "lead 1 (b # c # cs) = 1" by auto
    show ?thesis using "1.IH"(3) [OF HOL.refl] "1.prems" 3 l pos by auto
  qed
qed auto

lemma sequential_iff:
  assumes "2 \<le> n"
  shows "has_long_sequential_chars p n \<longleftrightarrow> has_run 1 n p \<or> has_run (-1) n p"
proof (cases p)
  case Nil
  then show ?thesis using assms by (simp add: has_long_sequential_chars_def has_run_def)
next
  case (Cons c cs)
  have "has_long_sequential_chars p n \<longleftrightarrow>
      n + 1 \<le> 1 + lead 1 p \<or> n + 1 \<le> 1 + lead (-1) p \<or> runs 1 n p \<or> runs (-1) n p"
    using assms sequential_loop_iff [of 1 n 1 p] Cons by (simp add: has_long_sequential_chars_def)
  also have "\<dots> \<longleftrightarrow> runs 1 n p \<or> runs (-1) n p" unfolding Cons by auto
  finally show ?thesis using assms by (simp add: runs_iff)
qed

lemma repeat_iff:
  "has_repeat p \<longleftrightarrow> (\<exists>i. i + 5 \<le> length p \<and> p ! i \<notin> {CHR 0x0A, CHR 0x0D} \<and> (\<forall>j<5. p ! (i + j) = p ! i))"
proof -
  have r: "take 4 cs = replicate 4 c \<longleftrightarrow> 4 \<le> length cs \<and> (\<forall>j<4. cs ! j = c)" for c :: char and cs
    by (auto simp: list_eq_iff_nth_eq)
  have "has_repeat p \<longleftrightarrow> (\<exists>i. i + 5 \<le> length p \<and> p ! i \<notin> {CHR 0x0A, CHR 0x0D} \<and>
      take 4 (drop (Suc i) p) = replicate 4 (p ! i))"
  proof (induction p)
    case Nil
    then show ?case by simp
  next
    case (Cons c cs)
    have "(\<exists>i. i + 5 \<le> length (c # cs) \<and> (c # cs) ! i \<notin> {CHR 0x0A, CHR 0x0D} \<and>
        take 4 (drop (Suc i) (c # cs)) = replicate 4 ((c # cs) ! i)) \<longleftrightarrow>
      (4 \<le> length cs \<and> c \<notin> {CHR 0x0A, CHR 0x0D} \<and> take 4 cs = replicate 4 c) \<or>
      (\<exists>i. i + 5 \<le> length cs \<and> cs ! i \<notin> {CHR 0x0A, CHR 0x0D} \<and>
        take 4 (drop (Suc i) cs) = replicate 4 (cs ! i))" (is "(\<exists>i. ?P i) \<longleftrightarrow> ?A \<or> (\<exists>i. ?Q i)")
    proof -
      have "?P 0 \<longleftrightarrow> ?A" by simp
      moreover have "?P (Suc i) \<longleftrightarrow> ?Q i" for i by (simp add: add.commute)
      ultimately show ?thesis by (metis not0_implies_Suc)
    qed
    with Cons r show ?case by auto
  qed
  also have "\<dots> \<longleftrightarrow> (\<exists>i. i + 5 \<le> length p \<and> p ! i \<notin> {CHR 0x0A, CHR 0x0D} \<and> (\<forall>j<5. p ! (i + j) = p ! i))"
  proof (intro ex_cong1)
    fix i
    have five: "(5 :: nat) = Suc 4" by simp
    have "(\<forall>j<5. p ! (i + j) = p ! i) \<longleftrightarrow> (\<forall>j<4. p ! (i + Suc j) = p ! i)"
      unfolding five All_less_Suc2 by simp
    moreover have "i + 5 \<le> length p \<Longrightarrow>
        take 4 (drop (Suc i) p) = replicate 4 (p ! i) \<longleftrightarrow> (\<forall>j<4. p ! (i + Suc j) = p ! i)"
      unfolding r by auto
    ultimately show "(i + 5 \<le> length p \<and> p ! i \<notin> {CHR 0x0A, CHR 0x0D} \<and>
        take 4 (drop (Suc i) p) = replicate 4 (p ! i)) \<longleftrightarrow>
      (i + 5 \<le> length p \<and> p ! i \<notin> {CHR 0x0A, CHR 0x0D} \<and> (\<forall>j<5. p ! (i + j) = p ! i))" by blast
  qed
  finally show ?thesis .
qed

subsection \<open>Entropy and score\<close>

lemma charset_pos: "0 < charset_size p"
  by (simp add: charset_size_def Let_def)

lemma entropy_ge_iff:
  "real k \<le> calculate_entropy p \<longleftrightarrow> 2 ^ k \<le> charset_size p ^ length p"
proof -
  have "calculate_entropy p = log 2 (real (charset_size p ^ length p))"
    using charset_pos [of p] by (simp add: calculate_entropy_def log_nat_power)
  then have "real k \<le> calculate_entropy p \<longleftrightarrow> 2 powr real k \<le> real (charset_size p ^ length p)"
    using charset_pos [of p] by (simp add: le_log_iff)
  also have "\<dots> \<longleftrightarrow> 2 ^ k \<le> charset_size p ^ length p"
    by (simp add: powr_realpow) (metis of_nat_le_iff of_nat_numeral of_nat_power)
  finally show ?thesis .
qed

lemma charset_ge_10: "10 \<le> charset_size p"
  by (simp add: charset_size_def Let_def)

lemma entropy_40: "15 \<le> length p \<Longrightarrow> 40 \<le> calculate_entropy p"
proof -
  assume l: "15 \<le> length p"
  have "(2 :: nat) ^ 40 \<le> 10 ^ 15" by simp
  also have "\<dots> \<le> charset_size p ^ 15" using charset_ge_10 by (rule power_mono) simp
  also have "\<dots> \<le> charset_size p ^ length p" using l charset_pos [of p] by (intro power_increasing) simp_all
  finally show ?thesis using entropy_ge_iff [of 40 p] by simp
qed

lemma entropy_80: "15 \<le> length p \<Longrightarrow> class_count (analyze_character_classes p) = 4 \<Longrightarrow> 80 \<le> calculate_entropy p"
proof -
  assume l: "15 \<le> length p" and "class_count (analyze_character_classes p) = 4"
  then have c: "charset_size p = 95"
    by (simp add: analyze_character_classes_def charset_size_def Let_def of_bool_def split: if_split_asm)
  have "(2 :: nat) ^ 80 \<le> 95 ^ 15" by simp
  also have "\<dots> \<le> charset_size p ^ length p" unfolding c using l by (intro power_increasing) simp_all
  finally show ?thesis using entropy_ge_iff [of 80 p] by simp
qed

lemma if_nonneg: "0 \<le> a \<Longrightarrow> 0 \<le> b \<Longrightarrow> 0 \<le> (if c then a else (b :: int))"
  by simp

lemma score_bounds: "0 \<le> calculate_score p e c k" "calculate_score p e c k \<le> 5"
  unfolding calculate_score_def Let_def
  by (intro min.boundedI if_nonneg add_nonneg_nonneg max.cobounded1; simp) (rule min.cobounded1)

subsection \<open>Properties\<close>

text \<open>
  What \<open>validatePassword\<close> accepts: exactly the passwords of 15 to 128 characters that are not
  a common password (in any case, or after undoing substitutions) and contain no blocked term
  and none of the user's own terms; every password it rejects gets a reason.
\<close>

theorem validity_characterised:
  "pw_valid (validate_password p ctx) \<longleftrightarrow>
     15 \<le> length p \<and> length p \<le> 128 \<and> \<not> is_common p \<and> \<not> is_common_substituted p \<and>
     (\<forall>t \<in> set CONTEXT_BLOCKLIST \<union> set (context_terms ctx). \<not> has_infix t (to_lower p))"
  unfolding result_of(1) checks_of
  by (auto simp: is_valid_checks_def PASSWORD_MIN_LENGTH_def PASSWORD_MAX_LENGTH_def)

text \<open>
  The score is between 0 and 5 and decides the level; a password that is too short is weak.
  A valid password without keyboard, repeated or sequential patterns is at least fair, and
  strong or better when it uses all four character classes.
\<close>

theorem score_guarantees:
  assumes "r = validate_password p ctx"
  shows "0 \<le> pw_score r \<and> pw_score r \<le> 5 \<and> pw_level r = score_to_level (pw_score r) \<and>
    (length p < 15 \<longrightarrow> pw_level r = Weak) \<and>
    (pw_valid r \<and> not_keyboard_pattern (pw_checks r) \<longrightarrow>
       1 \<le> pw_score r \<and> (class_count (pw_classes r) = 4 \<longrightarrow> pw_level r \<in> {Strong, VeryStrong}))"
proof -
  let ?c = "pw_checks r"
  have sc: "pw_score r = calculate_score p (calculate_entropy p) ?c (analyze_character_classes p)"
    by (simp add: assms result_of)
  have b: "0 \<le> pw_score r" "pw_score r \<le> 5"
    unfolding sc by (rule score_bounds)+
  have short: "length p < 15 \<Longrightarrow> pw_score r = 0"
    unfolding sc calculate_score_def Let_def by (simp add: assms checks_of PASSWORD_MIN_LENGTH_def)
  have clean: "1 \<le> pw_score r \<and> (class_count (pw_classes r) = 4 \<longrightarrow> 4 \<le> pw_score r)"
    if v: "pw_valid r" and k: "not_keyboard_pattern ?c"
  proof -
    have ok: "min_length_ok ?c" "not_common ?c" "not_contextual ?c" "not_user_context ?c"
      using v by (simp_all add: assms result_of(1) is_valid_checks_def)
    then have l: "15 \<le> length p" by (simp add: assms checks_of PASSWORD_MIN_LENGTH_def)
    have "class_count (pw_classes r) = 4 \<Longrightarrow> 80 \<le> calculate_entropy p"
      using entropy_80 [OF l] by (simp add: assms result_of)
    moreover have "pw_score r = min 5
        ((if calculate_entropy p \<ge> 80 then 3 else if calculate_entropy p \<ge> 60 then 2
          else if calculate_entropy p \<ge> 40 then 1 else 0) + (if length p \<ge> 20 then 1 else 0) +
         (if length p \<ge> 30 then 1 else 0) + (if class_count (pw_classes r) = 4 then 1 else 0))"
      unfolding sc calculate_score_def Let_def using ok k by (simp only: simp_thms if_False) (simp add: assms result_of(2))
    ultimately show ?thesis using entropy_40 [OF l] by (simp split: if_split)
  qed
  show ?thesis
    using b short clean by (auto simp: assms result_of(4) score_to_level_def)
qed

text \<open>
  The scan for sequential characters, a loop with two counters, is right: it reports a
  password exactly when five characters in a row step up by one or down by one; and the
  pattern for repetitions exactly when five equal characters (no line break) follow each other.
\<close>

theorem scans_are_exact:
  "(has_long_sequential_chars p 5 \<longleftrightarrow> has_run 1 5 p \<or> has_run (-1) 5 p) \<and>
   (has_repeat p \<longleftrightarrow> (\<exists>i. i + 5 \<le> length p \<and> p ! i \<notin> {CHR 0x0A, CHR 0x0D} \<and> (\<forall>j<5. p ! (i + j) = p ! i)))"
  using sequential_iff repeat_iff by simp

theorem validity_characterised_witness:
  "pw_valid (validate_password ''correct-Horse-7battery'' None) \<and>
   \<not> pw_valid (validate_password ''qwertyuiopasdfg'' None)"
proof -
  have "\<not> is_common ''correct-Horse-7battery''" "\<not> is_common_substituted ''correct-Horse-7battery''"
    "list_all (\<lambda>t. \<not> has_infix t (to_lower ''correct-Horse-7battery'')) CONTEXT_BLOCKLIST"
    "is_common ''qwertyuiopasdfg''"
    by code_simp+
  then show ?thesis
    using validity_characterised [of "''correct-Horse-7battery''" None]
      validity_characterised [of "''qwertyuiopasdfg''" None]
    by (simp add: context_terms_def list_all_iff)
qed

theorem scans_are_exact_witness:
  "(has_run 1 5 ''ab12345'' \<or> has_run (- 1) 5 ''ab12345'') \<and> \<not> has_long_sequential_chars ''1234 678'' 5 \<and>
   (\<exists>i. i + 5 \<le> length ''xaaaaa'' \<and> (\<forall>j<5. ''xaaaaa'' ! (i + j) = ''xaaaaa'' ! i))"
proof -
  have "has_long_sequential_chars ''ab12345'' 5" "\<not> has_long_sequential_chars ''1234 678'' 5" "has_repeat ''xaaaaa''"
    by code_simp+
  then show ?thesis
    using scans_are_exact [of "''ab12345''"] scans_are_exact [of "''xaaaaa''"] by blast
qed

theorem score_guarantees_witness:
  "pw_valid (validate_password ''correct-Horse-7battery'' None) \<and>
   pw_level (validate_password ''correct-Horse-7battery'' None) \<in> {Strong, VeryStrong}"
proof -
  let ?r = "validate_password ''correct-Horse-7battery'' None"
  have c: "\<not> is_common ''correct-Horse-7battery''" "\<not> is_common_substituted ''correct-Horse-7battery''"
    "list_all (\<lambda>t. \<not> has_infix t (to_lower ''correct-Horse-7battery'')) CONTEXT_BLOCKLIST"
    "\<not> list_ex (pattern_hit (to_lower ''correct-Horse-7battery'')) KEYBOARD_PATTERNS"
    "\<not> has_repeat ''correct-Horse-7battery''" "\<not> has_long_sequential_chars ''correct-Horse-7battery'' 5"
    "class_count (analyze_character_classes ''correct-Horse-7battery'') = 4"
    by code_simp+
  have v: "pw_valid ?r"
    using c(1-3) by (simp add: result_of(1) checks_of is_valid_checks_def context_terms_def list_all_iff
        PASSWORD_MIN_LENGTH_def PASSWORD_MAX_LENGTH_def)
  have k: "not_keyboard_pattern (pw_checks ?r)" using c(4-6) by (simp add: checks_of)
  show ?thesis using score_guarantees [OF HOL.refl, of "''correct-Horse-7battery''" None] v k c(7)
    unfolding result_of(2) by blast
qed

text \<open>
  The breach check asks the service only about the first five digits of the SHA-1 hash, and
  reports a breach exactly when some line of the answer carries the remaining digits; without a
  hash or an answer it falls back to the built-in list.
\<close>

theorem breach_check_spec:
  "(case Option.bind (sha1 (utf8_encode p)) (\<lambda>h. ask (take 5 (upper_hex (bytes_to_hex h)))) of
      None \<Rightarrow> is_breached (check_password_breach sha1 ask p) = (to_lower p \<in> set COMMON_PASSWORDS) \<and>
        breach_source (check_password_breach sha1 ask p) = OfflineFallback
    | Some txt \<Rightarrow> is_breached (check_password_breach sha1 ask p) =
        (\<exists>line \<in> set (split_on (CHR 0x0A) txt).
           fst (line_parts line) = drop 5 (upper_hex (bytes_to_hex (the (sha1 (utf8_encode p)))))) \<and>
        breach_source (check_password_breach sha1 ask p) = Hibp) \<and>
   check_password_breach sha1 ask p =
     check_password_breach sha1 (\<lambda>q. if Some q = map_option (\<lambda>h. take 5 (upper_hex (bytes_to_hex h)))
        (sha1 (utf8_encode p)) then ask q else None) p"
proof (cases "sha1 (utf8_encode p)")
  case None
  then show ?thesis by (simp add: check_password_breach_def Let_def)
next
  case (Some h)
  note hash = Some
  show ?thesis
  proof (cases "ask (take 5 (upper_hex (bytes_to_hex h)))")
    case None
    with hash show ?thesis by (simp add: check_password_breach_def Let_def)
  next
    case (Some body)
    with hash show ?thesis
      by (auto simp: check_password_breach_def Let_def find_None_iff find_Some_iff split: option.split)
  qed
qed

theorem breach_check_spec_witness:
  "is_breached (check_password_breach (\<lambda>_. Some [0xAB, 0xCD, 0xEF]) (\<lambda>q. if q = ''ABCDE'' then Some (''1:2'' @ CHR 0x0A # ''F:3'') else None) ''x'') \<and>
   \<not> is_breached (check_password_breach (\<lambda>_. None) (\<lambda>_. None) ''x'')"
proof -
  let ?sha = "\<lambda>_. Some [0xAB, 0xCD, 0xEF] :: bytes option"
    and ?ask = "\<lambda>q. if q = ''ABCDE'' then Some (''1:2'' @ CHR 0x0A # ''F:3'') else None"
  have h: "upper_hex (bytes_to_hex [0xAB, 0xCD, 0xEF]) = ''ABCDEF''"
    and l: "list_ex (\<lambda>line. fst (line_parts line) = ''F'') (split_on (CHR 0x0A) (''1:2'' @ CHR 0x0A # ''F:3''))"
    and n: "\<not> list_ex (\<lambda>w. w = to_lower ''x'') COMMON_PASSWORDS"
    by code_simp+
  from n have "to_lower ''x'' \<notin> set COMMON_PASSWORDS" by (auto simp: list_ex_iff)
  then show ?thesis
    using breach_check_spec [of ?sha ?ask "''x''", THEN conjunct1] breach_check_spec [of "\<lambda>_. None" "\<lambda>_. None" "''x''", THEN conjunct1] l
    by (simp add: h list_ex_iff)
qed

text \<open>Of the list's 172 entries only eight can decide about a password that passes the other checks.\<close>

lemma common_entries_that_matter:
  "filter (\<lambda>w. 15 \<le> length w \<and> list_all (\<lambda>t. \<not> has_infix t w) CONTEXT_BLOCKLIST) COMMON_PASSWORDS =
     [''iloveyouforever'',
      ''qwertyuiopasdfg'',
      ''abcdefghijklmno'',
      ''aaaaaaaaaaaaaaa'',
      ''bbbbbbbbbbbbbbb'',
      ''111111111111111'',
      ''123456789012345'',
      ''000000000000000'']"
  by code_simp

end
