(* ===== verification/Password_Import.thy ===== *)
theory Password_Import
  imports Big_Int Text_Codec
begin

text \<open>
  \<open>services/vault/import.ts\<close>: import of password lists. The CSV parser is the code's loop over
  characters with its lookahead; the format parsers read cells by header name (an index of -1 or
  past the row gives \<open>undefined\<close>). \<open>JSON.parse\<close> of a KeePass export is the parameter
  \<open>parse_json\<close> (\<open>None\<close>: it throws). The clock and the generated identifiers are arguments; the
  progress reports are returned as a list.
\<close>

subsection \<open>Types\<close>

datatype import_format = Bitwarden | OnePassword | LastPass | Chrome | KeePass | Auto

datatype strength = StrongPw | MediumPw | WeakPw

record raw_entry =
  title :: string
  url :: string
  username :: string
  password :: string
  category :: string
  created_at :: string
  last_modified :: string

record password_entry = raw_entry +
  entry_id :: string
  strength :: strength

datatype import_error = EmptyFile | ImportFailed

record import_result =
  imported :: nat
  skipped :: nat
  duplicates :: nat
  import_errors :: "import_error list"
  entries :: "password_entry list"

subsection \<open>CSV\<close>

abbreviation quote_char :: char where "quote_char \<equiv> CHR 0x22"
abbreviation newline_char :: char where "newline_char \<equiv> CHR 0x0A"
abbreviation return_char :: char where "return_char \<equiv> CHR 0x0D"
abbreviation comma_char :: char where "comma_char \<equiv> CHR 0x2C"

definition next_is :: "char \<Rightarrow> string \<Rightarrow> bool" where
  "next_is c cs = (case cs of [] \<Rightarrow> False | d # _ \<Rightarrow> d = c)"

definition push_row :: "string list \<Rightarrow> string list list \<Rightarrow> string list list" where
  "push_row row rows = (if list_ex (\<lambda>cell. length cell > 0) row then rows @ [row] else rows)"

function csv_loop ::
  "bool \<Rightarrow> string \<Rightarrow> string list \<Rightarrow> string list list \<Rightarrow> string \<Rightarrow> string list list" where
  "csv_loop inQuotes current row rows [] =
     (if length current > 0 \<or> length row > 0 then push_row (row @ [trim_text current]) rows else rows)"
| "csv_loop inQuotes current row rows (c # cs) =
     (if inQuotes then
        (if c = quote_char \<and> next_is quote_char cs then csv_loop inQuotes (current @ [quote_char]) row rows (tl cs)
         else if c = quote_char then csv_loop False current row rows cs
         else csv_loop inQuotes (current @ [c]) row rows cs)
      else if c = quote_char then csv_loop True current row rows cs
      else if c = comma_char then csv_loop inQuotes [] (row @ [trim_text current]) rows cs
      else if c = newline_char \<or> (c = return_char \<and> next_is newline_char cs) then
        csv_loop inQuotes [] [] (push_row (row @ [trim_text current]) rows) (if c = return_char then tl cs else cs)
      else csv_loop inQuotes (current @ [c]) row rows cs)"
  by pat_completeness auto
termination
  by (relation "measure (\<lambda>(_, _, _, _, t). length t)") auto

definition parse_csv :: "string \<Rightarrow> string list list" where
  "parse_csv text = csv_loop False [] [] [] text"

subsection \<open>KeePass documents\<close>

record kp_entry =
  kp_title :: "string option"
  kp_url :: "string option"
  kp_user :: "string option"
  kp_password :: "string option"
  kp_group_name :: "string option"

text \<open>A group with its entries and sub-groups; one object and an array of one read the same.\<close>

datatype kp_group = KpGroup (kp_name: "string option") (kp_entries: "kp_entry list") (kp_groups: "kp_group list")

datatype kp_root = OneGroup kp_group | GroupArray "kp_group list"

record kp_doc =
  has_root :: bool
  has_file :: bool
  root_group :: "kp_root option"
  file_group :: "kp_root option"
  as_group :: kp_root

definition or_text :: "string option \<Rightarrow> string \<Rightarrow> string" where
  "or_text x d = (case x of None \<Rightarrow> d | Some s \<Rightarrow> if s = [] then d else s)"

fun flatten_groups :: "string \<Rightarrow> kp_group \<Rightarrow> kp_entry list" where
  "flatten_groups parent (KpGroup name es subs) =
     (let groupName = (if parent \<noteq> [] then parent @ ''/'' @ or_text name [] else or_text name []) in
      map (\<lambda>e. e\<lparr>kp_group_name := Some groupName\<rparr>) es @ concat (map (flatten_groups groupName) subs))"

definition parse_keepass :: "(string \<Rightarrow> kp_doc option) \<Rightarrow> string \<Rightarrow> string \<Rightarrow> raw_entry list option" where
  "parse_keepass parse_json now text =
     map_option (\<lambda>doc.
       let root = (case root_group doc of Some g \<Rightarrow> g
                   | None \<Rightarrow> (case file_group doc of Some g \<Rightarrow> g | None \<Rightarrow> as_group doc));
           flat = flatten_groups [] (case root of OneGroup g \<Rightarrow> g | GroupArray gs \<Rightarrow> KpGroup (Some ''Root'') [] gs)
       in map (\<lambda>e. \<lparr>title = or_text (kp_title e) ''Untitled'', url = or_text (kp_url e) [],
                username = or_text (kp_user e) [], password = or_text (kp_password e) [],
                category = or_text (kp_group_name e) ''Imported'', created_at = now, last_modified = now\<rparr>)
            (filter (\<lambda>e. or_text (kp_password e) [] \<noteq> []) flat)) (parse_json text)"

subsection \<open>Formats\<close>

definition detect_format :: "(string \<Rightarrow> kp_doc option) \<Rightarrow> string \<Rightarrow> import_format" where
  "detect_format parse_json header =
     (let lower = to_lower header in
      if has_infix ''login_uri'' lower \<and> has_infix ''login_username'' lower then Bitwarden
      else if has_infix ''grouping'' lower \<and> has_infix ''fav'' lower \<and> has_infix ''extra'' lower then LastPass
      else if has_infix ''title'' lower \<and> has_infix ''type'' lower \<and> has_infix ''url'' lower then OnePassword
      else if starts_with ''name,url,username,password'' lower then Chrome
      else case parse_json header of
          Some doc \<Rightarrow> if has_root doc \<or> has_file doc then KeePass else Chrome
        | None \<Rightarrow> Chrome)"

definition header_index :: "string list \<Rightarrow> string \<Rightarrow> nat option" where
  "header_index header name = find_index (\<lambda>h. to_lower h = to_lower name) header"

definition cell :: "string list \<Rightarrow> nat option \<Rightarrow> string option" where
  "cell row i = (case i of None \<Rightarrow> None | Some k \<Rightarrow> if k < length row then Some (row ! k) else None)"

definition keep_passwords :: "raw_entry list \<Rightarrow> raw_entry list" where
  "keep_passwords es = filter (\<lambda>e. length (password e) > 0) es"

definition parse_bitwarden :: "string \<Rightarrow> string list list \<Rightarrow> string list \<Rightarrow> raw_entry list" where
  "parse_bitwarden now rows header =
     keep_passwords (map (\<lambda>row. let c = (\<lambda>name. cell row (header_index header name)) in
       \<lparr>title = or_text (c ''name'') ''Untitled'', url = or_text (c ''login_uri'') [],
        username = or_text (c ''login_username'') [], password = or_text (c ''login_password'') [],
        category = or_text (c ''folder'') ''Imported'', created_at = now, last_modified = now\<rparr>) rows)"

definition parse_lastpass :: "string \<Rightarrow> string list list \<Rightarrow> string list \<Rightarrow> raw_entry list" where
  "parse_lastpass now rows header =
     keep_passwords (map (\<lambda>row. let c = (\<lambda>name. cell row (header_index header name)) in
       \<lparr>title = or_text (c ''name'') (or_text (c ''url'') ''Untitled''), url = or_text (c ''url'') [],
        username = or_text (c ''username'') [], password = or_text (c ''password'') [],
        category = or_text (c ''grouping'') ''Imported'', created_at = now, last_modified = now\<rparr>) rows)"

definition parse_1password :: "string \<Rightarrow> string list list \<Rightarrow> string list \<Rightarrow> raw_entry list" where
  "parse_1password now rows header =
     keep_passwords (map (\<lambda>row. let c = (\<lambda>name. cell row (header_index header name)) in
       \<lparr>title = or_text (c ''title'') ''Untitled'', url = or_text (c ''url'') [],
        username = or_text (c ''username'') [], password = or_text (c ''password'') [],
        category = ''Imported'', created_at = now, last_modified = now\<rparr>) rows)"

definition parse_chrome :: "string \<Rightarrow> string list list \<Rightarrow> string list \<Rightarrow> raw_entry list" where
  "parse_chrome now rows header =
     keep_passwords (map (\<lambda>row. let c = (\<lambda>name. cell row (header_index header name)) in
       \<lparr>title = or_text (c ''name'') (or_text (c ''url'') ''Untitled''), url = or_text (c ''url'') [],
        username = or_text (c ''username'') [], password = or_text (c ''password'') [],
        category = ''Imported'', created_at = now, last_modified = now\<rparr>) rows)"

subsection \<open>The import\<close>

definition same_login :: "'a raw_entry_scheme \<Rightarrow> 'b raw_entry_scheme \<Rightarrow> bool" where
  "same_login e f = (url f = url e \<and> username f = username e \<and> title f = title e)"

definition is_duplicate :: "'a raw_entry_scheme \<Rightarrow> 'b raw_entry_scheme list \<Rightarrow> bool" where
  "is_duplicate e existing = list_ex (same_login e) existing"

definition assess_strength :: "string \<Rightarrow> strength" where
  "assess_strength p =
     (let s0 = (if length p \<ge> 16 then 2 else if length p \<ge> 12 then 1 else 0);
          s1 = s0 + (if list_ex is_lower p \<and> list_ex is_upper p then 1 else 0);
          s2 = s1 + (if list_ex is_digit p then 1 else 0);
          s3 = s2 + (if list_ex (\<lambda>c. \<not> (is_lower c \<or> is_upper c \<or> is_digit c)) p then 1 else 0) :: nat
      in if s3 \<ge> 4 then StrongPw else if s3 \<ge> 2 then MediumPw else WeakPw)"

definition full_entry :: "string \<Rightarrow> raw_entry \<Rightarrow> password_entry" where
  "full_entry i e = \<lparr>title = title e, url = url e, username = username e, password = password e,
     category = category e, created_at = created_at e, last_modified = last_modified e,
     entry_id = i, strength = assess_strength (password e)\<rparr>"

definition import_entry ::
  "password_entry list \<Rightarrow> raw_entry \<times> string \<Rightarrow> import_result \<Rightarrow> import_result" where
  "import_entry existing = (\<lambda>(e, i) r.
     (if is_duplicate e existing then r\<lparr>duplicates := duplicates r + 1, skipped := skipped r + 1\<rparr>
      else if is_duplicate e (entries r) then r\<lparr>duplicates := duplicates r + 1, skipped := skipped r + 1\<rparr>
      else if title e = [] \<and> url e = [] \<and> username e = [] then r\<lparr>skipped := skipped r + 1\<rparr>
      else r\<lparr>entries := entries r @ [full_entry i e], imported := imported r + 1\<rparr>))"

definition empty_result :: import_result where
  "empty_result = \<lparr>imported = 0, skipped = 0, duplicates = 0, import_errors = [], entries = []\<rparr>"

record import_progress =
  p_current :: nat
  p_total :: nat
  p_percentage :: int

text \<open>\<open>ids i\<close> is the identifier generated for the entry at position \<open>i\<close>.\<close>

definition import_parsed ::
  "(nat \<Rightarrow> string) \<Rightarrow> password_entry list \<Rightarrow> raw_entry list \<Rightarrow> import_result \<times> import_progress list" where
  "import_parsed ids existing parsed =
     (fold (import_entry existing) (map (\<lambda>i. (parsed ! i, ids i)) [0..<length parsed]) empty_result,
      map (\<lambda>i. \<lparr>p_current = i + 1, p_total = length parsed, p_percentage = percent_of (i + 1) (length parsed)\<rparr>)
        [0..<length parsed])"

definition import_passwords ::
  "(string \<Rightarrow> kp_doc option) \<Rightarrow> string \<Rightarrow> (nat \<Rightarrow> string) \<Rightarrow> string \<Rightarrow> import_format \<Rightarrow> password_entry list \<Rightarrow>
     import_result \<times> import_progress list" where
  "import_passwords parse_json now ids content format existing =
     (let detected = (if format = Auto then detect_format parse_json (take 500 content) else format) in
      if detected = KeePass then
        (case parse_keepass parse_json now content of
           None \<Rightarrow> (empty_result\<lparr>import_errors := [ImportFailed]\<rparr>, [])
         | Some parsed \<Rightarrow> import_parsed ids existing parsed)
      else case parse_csv content of
          header # r # rs \<Rightarrow>
            let dataRows = r # rs in
            import_parsed ids existing
              (case detected of
                 Bitwarden \<Rightarrow> parse_bitwarden now dataRows header
               | LastPass \<Rightarrow> parse_lastpass now dataRows header
               | OnePassword \<Rightarrow> parse_1password now dataRows header
               | _ \<Rightarrow> parse_chrome now dataRows header)
        | _ \<Rightarrow> (empty_result\<lparr>import_errors := [EmptyFile]\<rparr>, []))"

record import_validation =
  v_valid :: bool
  v_format :: "import_format option"
  v_count :: int

definition join_with :: "char \<Rightarrow> string list \<Rightarrow> string" where
  "join_with sep xs = (case xs of [] \<Rightarrow> [] | y # ys \<Rightarrow> y @ concat (map (\<lambda>z. sep # z) ys))"

definition validate_import_file :: "(string \<Rightarrow> kp_doc option) \<Rightarrow> string \<Rightarrow> import_validation" where
  "validate_import_file parse_json content =
     (let invalid = \<lparr>v_valid = False, v_format = None, v_count = 0\<rparr> in
      if length (trim_text content) = 0 then invalid
      else if (case parse_json content of Some doc \<Rightarrow> has_root doc \<or> has_file doc | None \<Rightarrow> False)
      then \<lparr>v_valid = True, v_format = Some KeePass, v_count = - 1\<rparr>
      else let rows = parse_csv content in
        if length rows < 2 then invalid
        else \<lparr>v_valid = True, v_format = Some (detect_format parse_json (join_with comma_char (rows ! 0))),
               v_count = int (length rows) - 1\<rparr>)"

definition format_label :: "import_format \<Rightarrow> string" where
  "format_label f = (case f of Bitwarden \<Rightarrow> ''Bitwarden'' | OnePassword \<Rightarrow> ''1Password'' | LastPass \<Rightarrow> ''LastPass''
     | Chrome \<Rightarrow> ''Chrome'' | KeePass \<Rightarrow> ''KeePass'' | Auto \<Rightarrow> ''Auto-detect'')"

subsection \<open>CSV printing and reading\<close>

text \<open>Every cell in quotes, quotes doubled: a list of rows as RFC 4180 writes it.\<close>

definition csv_quote :: "string \<Rightarrow> string" where
  "csv_quote s = [quote_char] @ concat (map (\<lambda>c. if c = quote_char then [c, c] else [c]) s) @ [quote_char]"

definition csv_row :: "string list \<Rightarrow> string" where
  "csv_row cells = join_with comma_char (map csv_quote cells)"

definition csv_print :: "string \<Rightarrow> string list list \<Rightarrow> string" where
  "csv_print eol rows = concat (map (\<lambda>r. csv_row r @ eol) rows)"

lemma quoted_loop:
  "\<not> next_is quote_char rest \<Longrightarrow>
   csv_loop True cur row rows (concat (map (\<lambda>c. if c = quote_char then [c, c] else [c]) s) @ quote_char # rest) =
     csv_loop False (cur @ s) row rows rest"
proof (induction s arbitrary: cur)
  case Nil
  then show ?case by simp
next
  case (Cons c s)
  then show ?case by (cases "c = quote_char") (simp_all add: next_is_def)
qed

lemma quoted_cell:
  "\<not> next_is quote_char rest \<Longrightarrow>
   csv_loop False [] row rows (csv_quote s @ rest) = csv_loop False s row rows rest"
  using quoted_loop [of rest "[]" row rows s] by (simp add: csv_quote_def)

definition line_end :: "string \<Rightarrow> bool" where
  "line_end eol = (eol \<in> {[newline_char], [return_char, newline_char]})"

lemma row_end:
  "line_end eol \<Longrightarrow> csv_loop False cur row rows (eol @ rest) =
     csv_loop False [] [] (push_row (row @ [trim_text cur]) rows) rest"
  by (auto simp: line_end_def next_is_def)

lemma quoted_row:
  assumes "line_end eol" and "cells \<noteq> []"
  shows "csv_loop False [] row rows (csv_row cells @ eol @ rest) =
     csv_loop False [] [] (push_row (row @ map trim_text cells) rows) rest"
  using assms(2)
proof (induction cells arbitrary: row rule: list_nonempty_induct)
  case (single x)
  have "\<not> next_is quote_char (eol @ rest)" using assms(1) by (auto simp: line_end_def next_is_def)
  then show ?case using assms(1) by (simp add: csv_row_def join_with_def quoted_cell row_end)
next
  case (cons x xs)
  then obtain y ys where xs: "xs = y # ys" by (cases xs) auto
  have "csv_row (x # xs) = csv_quote x @ comma_char # csv_row xs"
    by (simp add: csv_row_def join_with_def xs)
  moreover have "\<not> next_is quote_char (comma_char # u)" for u by (simp add: next_is_def)
  ultimately have "csv_loop False [] row rows (csv_row (x # xs) @ eol @ rest) =
      csv_loop False [] (row @ [trim_text x]) rows (csv_row xs @ eol @ rest)"
    by (simp add: quoted_cell)
  then show ?case using cons.IH by simp
qed

lemma trim_empty: "trim_text [] = []"
  by (simp add: trim_text_def)

lemma printed_rows:
  assumes "line_end eol"
  shows "csv_loop False [] [] acc (csv_print eol rows) =
     acc @ filter (list_ex (\<lambda>cell. length cell > 0)) (map (map trim_text) rows)"
proof (induction rows arbitrary: acc)
  case Nil
  then show ?case by (simp add: csv_print_def)
next
  case (Cons r rows)
  have split: "csv_print eol (r # rows) = csv_row r @ eol @ csv_print eol rows"
    by (simp add: csv_print_def)
  show ?case
  proof (cases "r = []")
    case True
    have "csv_loop False [] [] acc (csv_print eol (r # rows)) = csv_loop False [] [] acc (csv_print eol rows)"
      using row_end [OF assms, of "[]" "[]" acc "csv_print eol rows"]
      unfolding split by (simp add: True csv_row_def join_with_def push_row_def trim_empty)
    then show ?thesis using Cons True by simp
  next
    case False
    have "csv_loop False [] [] acc (csv_print eol (r # rows)) =
        csv_loop False [] [] (push_row (map trim_text r) acc) (csv_print eol rows)"
      using quoted_row [OF assms False, of "[]" acc "csv_print eol rows"] unfolding split by simp
    then show ?thesis using Cons by (simp add: push_row_def)
  qed
qed

subsection \<open>Counting\<close>

definition login_key :: "'a raw_entry_scheme \<Rightarrow> string \<times> string \<times> string" where
  "login_key e = (url e, username e, title e)"

lemma same_login_key: "same_login e f \<longleftrightarrow> login_key f = login_key e"
  by (auto simp: same_login_def login_key_def)

lemma duplicate_key: "is_duplicate e es \<longleftrightarrow> login_key e \<in> login_key ` set es"
  by (force simp: is_duplicate_def same_login_key list_ex_iff)

lemma full_entry_key [simp]: "login_key (full_entry i e) = login_key e" "title (full_entry i e) = title e"
  "password (full_entry i e) = password e"
  by (simp_all add: full_entry_def login_key_def)

definition tallied :: "password_entry list \<Rightarrow> (raw_entry \<times> string) list \<Rightarrow> import_result \<Rightarrow> bool" where
  "tallied existing ps r =
     (skipped r = duplicates r \<and> imported r = length (entries r) \<and> imported r + skipped r = length ps \<and>
      import_errors r = [] \<and> distinct (map login_key (entries r)) \<and>
      login_key ` set (entries r) \<inter> login_key ` set existing = {} \<and>
      login_key ` fst ` set ps \<subseteq> login_key ` set existing \<union> login_key ` set (entries r) \<and>
      set (entries r) \<subseteq> (\<lambda>(e, i). full_entry i e) ` set ps)"

lemma tallied_skip:
  assumes "tallied existing ps r" and "login_key e \<in> login_key ` set existing \<union> login_key ` set (entries r)"
  shows "tallied existing (ps @ [(e, i)]) (r\<lparr>duplicates := duplicates r + 1, skipped := skipped r + 1\<rparr>)"
  using assms unfolding tallied_def by simp blast

lemma tallied_keep:
  assumes "tallied existing ps r" and "login_key e \<notin> login_key ` set existing \<union> login_key ` set (entries r)"
  shows "tallied existing (ps @ [(e, i)]) (r\<lparr>entries := entries r @ [full_entry i e], imported := imported r + 1\<rparr>)"
  using assms unfolding tallied_def by simp blast

lemma tallied_step:
  assumes "tallied existing ps r" and "title e \<noteq> []"
  shows "tallied existing (ps @ [(e, i)]) (import_entry existing (e, i) r)"
  using assms(2) tallied_skip [OF assms(1), of e i] tallied_keep [OF assms(1), of e i]
  by (simp add: import_entry_def duplicate_key del: Un_iff) blast

lemma tallied_fold:
  assumes "\<forall>(e, i)\<in>set ps. title e \<noteq> []"
  shows "tallied existing ps (fold (import_entry existing) ps empty_result)"
  using assms
proof (induction ps rule: rev_induct)
  case Nil
  then show ?case by (simp add: tallied_def empty_result_def)
next
  case (snoc p ps)
  then show ?case using tallied_step [of existing ps _ "fst p" "snd p"] by (cases p) auto
qed

lemma or_text_nonempty: "d \<noteq> [] \<Longrightarrow> or_text x d \<noteq> []"
  by (simp add: or_text_def split: option.split)

lemma parsed_fields:
  "e \<in> set (parse_bitwarden now rows header) \<or> e \<in> set (parse_lastpass now rows header) \<or>
   e \<in> set (parse_1password now rows header) \<or> e \<in> set (parse_chrome now rows header) \<Longrightarrow>
     title e \<noteq> [] \<and> password e \<noteq> []"
  by (auto simp: parse_bitwarden_def parse_lastpass_def parse_1password_def parse_chrome_def keep_passwords_def
      Let_def or_text_nonempty)

lemma csv_fields:
  "e \<in> set (case f of Bitwarden \<Rightarrow> parse_bitwarden now rows header | LastPass \<Rightarrow> parse_lastpass now rows header
         | OnePassword \<Rightarrow> parse_1password now rows header | _ \<Rightarrow> parse_chrome now rows header) \<Longrightarrow>
     title e \<noteq> [] \<and> password e \<noteq> []"
  using parsed_fields by (cases f) (simp; blast)+

lemma keepass_fields:
  "parse_keepass parse_json now text = Some es \<Longrightarrow> e \<in> set es \<Longrightarrow> title e \<noteq> [] \<and> password e \<noteq> []"
  by (auto simp: parse_keepass_def Let_def or_text_nonempty)

text \<open>An import without error is the tally of the parsed entries; they all have a title and a password.\<close>

definition parsed_logins :: "(string \<Rightarrow> kp_doc option) \<Rightarrow> string \<Rightarrow> string \<Rightarrow> import_format \<Rightarrow> raw_entry list option" where
  "parsed_logins parse_json now content f =
     (if f = KeePass then parse_keepass parse_json now content
      else case parse_csv content of
          header # r # rs \<Rightarrow> Some (case f of
              Bitwarden \<Rightarrow> parse_bitwarden now (r # rs) header | LastPass \<Rightarrow> parse_lastpass now (r # rs) header
            | OnePassword \<Rightarrow> parse_1password now (r # rs) header | _ \<Rightarrow> parse_chrome now (r # rs) header)
        | _ \<Rightarrow> None)"

definition chosen_format :: "(string \<Rightarrow> kp_doc option) \<Rightarrow> string \<Rightarrow> import_format \<Rightarrow> import_format" where
  "chosen_format parse_json content format =
     (if format = Auto then detect_format parse_json (take 500 content) else format)"

lemma import_unfold:
  "import_passwords parse_json now ids content format existing =
     (case parsed_logins parse_json now content (chosen_format parse_json content format) of
        None \<Rightarrow> (empty_result\<lparr>import_errors :=
          [if chosen_format parse_json content format = KeePass then ImportFailed else EmptyFile]\<rparr>, [])
      | Some parsed \<Rightarrow> import_parsed ids existing parsed)"
  by (simp add: import_passwords_def parsed_logins_def Let_def chosen_format_def [symmetric] split: option.split list.split)

lemma parsed_logins_fields:
  "parsed_logins parse_json now content f = Some es \<Longrightarrow> e \<in> set es \<Longrightarrow> title e \<noteq> [] \<and> password e \<noteq> []"
  using csv_fields keepass_fields by (fastforce simp: parsed_logins_def split: if_splits list.splits)

lemma keep_keys:
  assumes "\<And>x. password (g x) = password (f x) \<and> login_key (g x) = login_key (f x)"
  shows "map login_key (keep_passwords (map g xs)) = map login_key (keep_passwords (map f xs))"
  using assms by (induction xs) (simp_all add: keep_passwords_def)

lemma parsed_logins_keys:
  "map_option (map login_key) (parsed_logins parse_json now content f) =
   map_option (map login_key) (parsed_logins parse_json now' content f)"
proof -
  have "map login_key (parse_bitwarden now rows h) = map login_key (parse_bitwarden now' rows h)"
    "map login_key (parse_lastpass now rows h) = map login_key (parse_lastpass now' rows h)"
    "map login_key (parse_1password now rows h) = map login_key (parse_1password now' rows h)"
    "map login_key (parse_chrome now rows h) = map login_key (parse_chrome now' rows h)" for rows h
    unfolding parse_bitwarden_def parse_lastpass_def parse_1password_def parse_chrome_def Let_def
    by (rule keep_keys, simp add: login_key_def)+
  then show ?thesis
    by (auto simp: parsed_logins_def parse_keepass_def option.map_comp o_def Let_def login_key_def
        split: list.split import_format.split)
qed

lemma import_outcome:
  assumes "import_passwords parse_json now ids content format existing = (r, progress)"
  shows "(r = empty_result\<lparr>import_errors := import_errors r\<rparr> \<and> import_errors r \<noteq> [] \<and> progress = []) \<or>
    (\<exists>parsed. (r, progress) = import_parsed ids existing parsed \<and> (\<forall>e\<in>set parsed. title e \<noteq> [] \<and> password e \<noteq> []))"
proof (cases "parsed_logins parse_json now content (chosen_format parse_json content format)")
  case None
  then show ?thesis using assms unfolding import_unfold by (auto simp: empty_result_def)
next
  case (Some parsed)
  then have "(r, progress) = import_parsed ids existing parsed" using assms unfolding import_unfold by simp
  then show ?thesis using parsed_logins_fields [OF Some] by blast
qed

subsection \<open>Properties\<close>

text \<open>
  C32: the CSV reader inverts the RFC 4180 printing up to the spaces around a cell: rows printed with
  every cell quoted and every quote doubled, with either line end, are read back as the same rows
  with each cell trimmed (inside the quotes too), less the rows with no characters left.
\<close>

theorem csv_roundtrip:
  assumes "line_end eol"
  shows "parse_csv (csv_print eol rows) = filter (list_ex (\<lambda>cell. length cell > 0)) (map (map trim_text) rows)"
  using printed_rows [OF assms, of "[]" rows] by (simp add: parse_csv_def)

theorem csv_roundtrip_witness:
  "parse_csv (csv_print [newline_char] [[''a'', [quote_char, comma_char]], ['' b ''], ['' '']]) =
     [[''a'', [quote_char, comma_char]], [''b'']]"
  using csv_roundtrip [of "[newline_char]" "[[''a'', [quote_char, comma_char]], ['' b ''], ['' '']]"]
  by (simp add: line_end_def trim_text_def is_space_def)

lemma parsed_tally:
  assumes "(r, progress) = import_parsed ids existing parsed" and "\<forall>e\<in>set parsed. title e \<noteq> []"
  shows "tallied existing (map (\<lambda>i. (parsed ! i, ids i)) [0..<length parsed]) r"
  using assms tallied_fold [of "map (\<lambda>i. (parsed ! i, ids i)) [0..<length parsed]" existing]
  by (simp add: import_parsed_def)

lemma parsed_progress:
  assumes "(r, progress) = import_parsed ids existing parsed"
  shows "length progress = length parsed" and
    "\<forall>p\<in>set progress. p_current p \<le> p_total p \<and> p_percentage p \<in> {0..100}"
proof -
  have p: "progress = map (\<lambda>i. \<lparr>p_current = i + 1, p_total = length parsed,
      p_percentage = percent_of (i + 1) (length parsed)\<rparr>) [0..<length parsed]"
    using assms by (simp add: import_parsed_def)
  show "length progress = length parsed" by (simp add: p)
  show "\<forall>p\<in>set progress. p_current p \<le> p_total p \<and> p_percentage p \<in> {0..100}"
    using percent_of_bounds by (auto simp: p)
qed

lemma parsed_accounts:
  assumes "(r, progress) = import_parsed ids existing parsed"
    and "\<forall>e\<in>set parsed. title e \<noteq> [] \<and> password e \<noteq> []"
  shows "imported r + skipped r = length progress \<and> imported r = length (entries r) \<and> skipped r = duplicates r \<and>
    import_errors r = [] \<and> distinct (map login_key (entries r)) \<and>
    (\<forall>e\<in>set (entries r). login_key e \<notin> login_key ` set existing \<and> title e \<noteq> [] \<and> password e \<noteq> [] \<and>
       strength e = assess_strength (password e))"
proof -
  have t: "tallied existing (map (\<lambda>i. (parsed ! i, ids i)) [0..<length parsed]) r"
    using assms by (intro parsed_tally) auto
  have "title e \<noteq> [] \<and> password e \<noteq> [] \<and> strength e = assess_strength (password e)" if "e \<in> set (entries r)" for e
  proof -
    from t that obtain i where "i < length parsed" "e = full_entry (ids i) (parsed ! i)"
      unfolding tallied_def by auto
    then show ?thesis using assms(2) by (simp add: full_entry_def)
  qed
  then show ?thesis using t parsed_progress(1) [OF assms(1)] unfolding tallied_def by auto
qed

text \<open>
  an import either reports an error and changes nothing, or accounts for every parsed login: each
  one is imported or skipped as a duplicate, one progress report each with a percentage in 0..100;
  the imported entries have a title, a password and the strength of that password, no two of them
  share URL, user name and title, and none shares them with an existing entry.
\<close>

theorem import_accounts:
  assumes "import_passwords parse_json now ids content format existing = (r, progress)"
  shows "if import_errors r \<noteq> [] then entries r = [] \<and> imported r = 0 \<and> progress = [] else
    imported r + skipped r = length progress \<and> imported r = length (entries r) \<and> skipped r = duplicates r \<and>
    distinct (map (\<lambda>e. (url e, username e, title e)) (entries r)) \<and>
    (\<forall>e\<in>set (entries r). \<not> is_duplicate e existing \<and> title e \<noteq> [] \<and> password e \<noteq> [] \<and>
       strength e = assess_strength (password e)) \<and>
    (\<forall>p\<in>set progress. p_current p \<le> p_total p \<and> p_percentage p \<in> {0..100})"
proof -
  have key: "(\<lambda>e. (url e, username e, title e)) = login_key" by (simp add: login_key_def fun_eq_iff)
  from import_outcome [OF assms] show ?thesis
  proof (elim disjE exE conjE)
    assume "r = empty_result\<lparr>import_errors := import_errors r\<rparr>" "import_errors r \<noteq> []" "progress = []"
    then have "entries r = entries (empty_result\<lparr>import_errors := import_errors r\<rparr>)"
      "imported r = imported (empty_result\<lparr>import_errors := import_errors r\<rparr>)" by simp_all
    with \<open>import_errors r \<noteq> []\<close> \<open>progress = []\<close> show ?thesis by (simp add: empty_result_def)
  next
    fix parsed
    assume p: "(r, progress) = import_parsed ids existing parsed" "\<forall>e\<in>set parsed. title e \<noteq> [] \<and> password e \<noteq> []"
    show ?thesis using parsed_accounts [OF p] parsed_progress(2) [OF p(1)] unfolding key by (simp add: duplicate_key)
  qed
qed

subsubsection \<open>Chrome exports\<close>

definition chrome_print :: "string \<Rightarrow> 'a raw_entry_scheme list \<Rightarrow> string" where
  "chrome_print eol es = csv_print eol ([''name'', ''url'', ''username'', ''password''] #
     map (\<lambda>e. [title e, url e, username e, password e]) es)"

definition trimmed_login :: "'a raw_entry_scheme \<Rightarrow> string \<times> string \<times> string \<times> string" where
  "trimmed_login e = (trim_text (title e), trim_text (url e), trim_text (username e), trim_text (password e))"

lemma chrome_rows:
  assumes "line_end eol" and "\<forall>e\<in>set es. trim_text (password e) \<noteq> []"
  shows "parse_csv (chrome_print eol es) = [''name'', ''url'', ''username'', ''password''] #
    map (\<lambda>e. map trim_text [title e, url e, username e, password e]) es"
proof -
  have h: "map trim_text [''name'', ''url'', ''username'', ''password''] = [''name'', ''url'', ''username'', ''password'']"
    by (simp add: trim_text_def is_space_def)
  have "filter (list_ex (\<lambda>cell. length cell > 0)) (map (map trim_text) (map (\<lambda>e. [title e, url e, username e, password e]) es))
      = map (map trim_text) (map (\<lambda>e. [title e, url e, username e, password e]) es)"
    using assms(2) by (auto simp: filter_id_conv list_ex_iff)
  then show ?thesis
    unfolding chrome_print_def parse_csv_def printed_rows [OF assms(1)] using h by simp
qed

lemma chrome_parsed:
  assumes "\<forall>e\<in>set es. trim_text (password e) \<noteq> [] \<and> trim_text (title e) \<noteq> []"
  shows "parse_chrome now (map (\<lambda>e. map trim_text [title e, url e, username e, password e]) es)
      [''name'', ''url'', ''username'', ''password''] =
    map (\<lambda>e. \<lparr>title = trim_text (title e), url = trim_text (url e), username = trim_text (username e),
      password = trim_text (password e), category = ''Imported'', created_at = now, last_modified = now\<rparr>) es"
proof -
  let ?h = "[''name'', ''url'', ''username'', ''password'']"
  have i: "header_index ?h ''name'' = Some 0" "header_index ?h ''url'' = Some 1"
    "header_index ?h ''username'' = Some 2" "header_index ?h ''password'' = Some 3"
    by (code_simp)+
  have o1: "or_text (Some s) [] = s" for s by (simp add: or_text_def)
  have o2: "s \<noteq> [] \<Longrightarrow> or_text (Some s) d = s" for s d by (simp add: or_text_def)
  show ?thesis
    using assms by (auto simp: parse_chrome_def keep_passwords_def i cell_def Let_def o1 o2 filter_id_conv)
qed

lemma import_new:
  assumes "distinct (map (login_key \<circ> fst) ps)"
    and "\<forall>(e, i)\<in>set ps. title e \<noteq> [] \<and> login_key e \<notin> login_key ` set existing \<union> login_key ` set (entries r)"
  shows "fold (import_entry existing) ps r =
    r\<lparr>entries := entries r @ map (\<lambda>(e, i). full_entry i e) ps, imported := imported r + length ps\<rparr>"
  using assms
proof (induction ps arbitrary: r)
  case Nil
  then show ?case by simp
next
  case (Cons p ps)
  obtain e i where p: "p = (e, i)" by (cases p)
  have step: "import_entry existing p r = r\<lparr>entries := entries r @ [full_entry i e], imported := imported r + 1\<rparr>"
    using Cons.prems(2) by (simp add: p import_entry_def duplicate_key)
  have "login_key f \<noteq> login_key e" if "(f, j) \<in> set ps" for f j
    using Cons.prems(1) that by (force simp: p)
  then have "\<forall>(f, j)\<in>set ps. title f \<noteq> [] \<and>
      login_key f \<notin> login_key ` set existing \<union> login_key ` set (entries (import_entry existing p r))"
    using Cons.prems(2) by (auto simp: step)
  moreover have "distinct (map (login_key \<circ> fst) ps)" using Cons.prems(1) by (simp add: o_def)
  ultimately have "fold (import_entry existing) ps (import_entry existing p r) =
      (import_entry existing p r)\<lparr>entries := entries (import_entry existing p r) @ map (\<lambda>(e, i). full_entry i e) ps,
        imported := imported (import_entry existing p r) + length ps\<rparr>" by (rule Cons.IH [rotated])
  then show ?case by (simp add: step [unfolded p] p)
qed


lemma chrome_import:
  assumes "line_end eol" and "es \<noteq> []"
    and "\<forall>e\<in>set es. trim_text (password e) \<noteq> [] \<and> trim_text (title e) \<noteq> []"
    and "distinct (map (\<lambda>e. (trim_text (url e), trim_text (username e), trim_text (title e))) es)"
    and "format = Chrome \<or> format = Auto \<and> detect_format parse_json (take 500 (chrome_print eol es)) = Chrome"
  shows "map trimmed_login es = map (\<lambda>e. (title e, url e, username e, password e))
      (entries (fst (import_passwords parse_json now ids (chrome_print eol es) format [])))"
proof -
  let ?mk = "\<lambda>e. \<lparr>title = trim_text (title e), url = trim_text (url e), username = trim_text (username e),
      password = trim_text (password e), category = ''Imported'', created_at = now, last_modified = now\<rparr>"
  let ?p = "map ?mk es"
  obtain e0 es' where es: "es = e0 # es'" using assms(2) by (cases es) auto
  have csv: "parse_csv (chrome_print eol es) = [''name'', ''url'', ''username'', ''password''] #
      map (\<lambda>e. map trim_text [title e, url e, username e, password e]) es"
    using assms(1,3) by (intro chrome_rows) auto
  have f: "(if format = Auto then detect_format parse_json (take 500 (chrome_print eol es)) else format) = Chrome"
    using assms(5) by auto
  have run: "import_passwords parse_json now ids (chrome_print eol es) format [] = import_parsed ids [] ?p"
    using chrome_parsed [OF assms(3), of now] unfolding import_passwords_def Let_def f csv
    by (simp add: es)
  let ?q = "map (\<lambda>i. (?p ! i, ids i)) [0..<length ?p]"
  have fst_q: "map fst ?q = ?p" using map_nth [of ?p] by (simp add: o_def)
  have "map (login_key \<circ> fst) ?q = map login_key (map fst ?q)" by simp
  also have "\<dots> = map (\<lambda>e. (trim_text (url e), trim_text (username e), trim_text (title e))) es"
    unfolding fst_q by (simp add: login_key_def o_def)
  finally have d: "distinct (map (login_key \<circ> fst) ?q)" using assms(4) by simp
  have n: "\<forall>(e, i)\<in>set ?q. title e \<noteq> [] \<and> login_key e \<notin> login_key ` set [] \<union> login_key ` set (entries empty_result)"
    using assms(3) by (auto simp: empty_result_def)
  have "entries (fst (import_parsed ids [] ?p)) = map (\<lambda>(e, i). full_entry i e) ?q"
    using import_new [OF d n] by (simp add: import_parsed_def empty_result_def)
  then have "map (\<lambda>e. (title e, url e, username e, password e)) (entries (fst (import_parsed ids [] ?p))) =
      map (\<lambda>e. (title e, url e, username e, password e)) (map fst ?q)"
    by (simp add: full_entry_def split_beta o_def)
  then show ?thesis unfolding run fst_q by (simp add: trimmed_login_def o_def)
qed

text \<open>
  a Chrome export of logins with a title and a password, no two of them alike, is imported whole
  and in order into an empty vault: every title, URL, user name and password is the exported one less
  the spaces at its ends. The format is the chosen one, or the detected one where detection says
  Chrome.
\<close>

theorem chrome_roundtrip:
  assumes "line_end eol" and "es \<noteq> []"
    and "\<forall>e\<in>set es. trim_text (password e) \<noteq> [] \<and> trim_text (title e) \<noteq> []"
    and "distinct (map (\<lambda>e. (trim_text (url e), trim_text (username e), trim_text (title e))) es)"
    and "format = Chrome \<or> format = Auto \<and> detect_format parse_json (take 500 (chrome_print eol es)) = Chrome"
  shows "map (\<lambda>e. (title e, url e, username e, password e))
      (entries (fst (import_passwords parse_json now ids (chrome_print eol es) format []))) =
    map trimmed_login es"
  using chrome_import [OF assms] by simp

definition sample_login :: "string \<Rightarrow> string \<Rightarrow> raw_entry" where
  "sample_login t u = \<lparr>title = t, url = u, username = ''bob'', password = '' pw'', category = [],
     created_at = [], last_modified = []\<rparr>"

theorem chrome_roundtrip_witness:
  "map (\<lambda>e. (title e, url e, username e, password e))
     (entries (fst (import_passwords (\<lambda>_. None) [] (\<lambda>_. ''id'')
       (chrome_print [newline_char] [sample_login ''Mail'' ''m.org'', sample_login ''Bank'' ''b.org'']) Chrome []))) =
   [(''Mail'', ''m.org'', ''bob'', ''pw''), (''Bank'', ''b.org'', ''bob'', ''pw'')]"
  using chrome_roundtrip [of "[newline_char]" "[sample_login ''Mail'' ''m.org'', sample_login ''Bank'' ''b.org'']"
      Chrome "\<lambda>_. None" "[]" "\<lambda>_. ''id''"]
  by (simp add: line_end_def sample_login_def trimmed_login_def trim_text_def is_space_def)

theorem import_accounts_witness:
  "case import_passwords (\<lambda>_. None) [] (\<lambda>_. ''id'')
     (chrome_print [newline_char] [sample_login ''Mail'' ''m.org'', sample_login ''Mail'' ''m.org'']) Chrome [] of
   (r, progress) \<Rightarrow> imported r = 1 \<and> duplicates r = 1 \<and> imported r + skipped r = length progress"
proof -
  let ?x = "import_passwords (\<lambda>_. None) [] (\<lambda>_. ''id'')
     (chrome_print [newline_char] [sample_login ''Mail'' ''m.org'', sample_login ''Mail'' ''m.org'']) Chrome []"
  have v: "import_errors (fst ?x) = [] \<and> imported (fst ?x) = 1 \<and> duplicates (fst ?x) = 1" by code_simp
  then show ?thesis using import_accounts [of "\<lambda>_. None" "[]" "\<lambda>_. ''id''"
      "chrome_print [newline_char] [sample_login ''Mail'' ''m.org'', sample_login ''Mail'' ''m.org'']"
      Chrome "[]" "fst ?x" "snd ?x"]
    by (simp add: split_beta)
qed

text \<open>
  format detection reads the first 500 characters, entries included, where the validation of the
  same file reads its header only. A Chrome export whose URLs hold the words \<open>title\<close> and \<open>type\<close> is
  reported as Chrome and imported as 1Password: every entry loses its name.
\<close>

theorem chrome_misdetected:
  "let file = chrome_print [newline_char] [sample_login ''Bank'' ''https://title.org/type''] in
   v_format (validate_import_file (\<lambda>_. None) file) = Some Chrome \<and>
   map title (entries (fst (import_passwords (\<lambda>_. None) [] (\<lambda>_. ''id'') file Auto []))) = [''Untitled'']"
  by code_simp


subsubsection \<open>Importing again\<close>

lemma known_logins_skipped:
  assumes "\<forall>e\<in>set parsed. login_key e \<in> login_key ` set existing"
  shows "entries (fst (import_parsed ids existing parsed)) = []"
proof -
  have "entries (fold (import_entry existing) ps r) = entries r"
    if "\<forall>(e, i)\<in>set ps. login_key e \<in> login_key ` set existing" for ps r
    using that by (induction ps arbitrary: r) (auto simp: import_entry_def duplicate_key)
  then show ?thesis using assms by (simp add: import_parsed_def empty_result_def)
qed

lemma reimport_empty:
  assumes "login_key ` set existing \<union> login_key ` set (entries (fst (import_passwords parse_json now ids content format existing)))
      \<subseteq> login_key ` set existing'"
  shows "entries (fst (import_passwords parse_json now' ids' content format existing')) = []"
proof (cases "parsed_logins parse_json now' content (chosen_format parse_json content format)")
  case None
  then show ?thesis by (simp add: import_unfold empty_result_def)
next
  case (Some parsed')
  have "map_option (map login_key) (parsed_logins parse_json now content (chosen_format parse_json content format)) =
      Some (map login_key parsed')"
    using parsed_logins_keys [of parse_json now content _ now'] Some by simp
  then obtain parsed where p: "parsed_logins parse_json now content (chosen_format parse_json content format) = Some parsed"
    "map login_key parsed = map login_key parsed'" by (auto simp: map_option_eq_Some)
  define r where "r = fst (import_parsed ids existing parsed)"
  have "\<forall>e\<in>set parsed. title e \<noteq> []" using parsed_logins_fields [OF p(1)] by blast
  then have t: "tallied existing (map (\<lambda>i. (parsed ! i, ids i)) [0..<length parsed]) r"
    by (intro parsed_tally [of r "snd (import_parsed ids existing parsed)"]) (simp_all add: r_def)
  have "map fst (map (\<lambda>i. (parsed ! i, ids i)) [0..<length parsed]) = parsed"
    using map_nth [of parsed] by (simp add: o_def)
  then have "fst ` set (map (\<lambda>i. (parsed ! i, ids i)) [0..<length parsed]) = set parsed"
    unfolding image_set by (rule arg_cong)
  then have "login_key ` set parsed \<subseteq> login_key ` set existing \<union> login_key ` set (entries r)"
    using t unfolding tallied_def by metis
  moreover have "r = fst (import_passwords parse_json now ids content format existing)"
    unfolding import_unfold p(1) r_def option.case by (rule HOL.refl)
  ultimately have "login_key ` set parsed \<subseteq> login_key ` set existing'" using assms by (simp only:)
  moreover have "login_key ` set parsed' = login_key ` set parsed" using p(2) by (metis image_set)
  ultimately have "login_key ` set parsed' \<subseteq> login_key ` set existing'" by (simp only:)
  then have "\<forall>e\<in>set parsed'. login_key e \<in> login_key ` set existing'" by blast
  then show ?thesis unfolding import_unfold Some option.case by (rule known_logins_skipped)
qed

end
