(* ===== verification/Json_Text.thy ===== *)
theory Json_Text
  imports Big_Int Text_Codec Web_Storage
begin

text \<open>
  \<open>JSON.stringify\<close> and \<open>JSON.parse\<close> on the documents the services store as text, for characters
  below 256. A number is kept as its literal. \<open>jvalue\<close> and \<open>jitems\<close>, \<open>jmembers\<close> are the grammar as
  recursive descent; their fuel is \<open>2 * n + 2\<close> for a text of length \<open>n\<close>, which is enough because a
  value costs at most two calls for each character it reads (\<open>jparse_fuel\<close>: more fuel never changes
  the result). Of equal keys in an object the last value stays, at the place of the first.
\<close>

datatype json_value =
    JNull
  | JBool bool
  | JNumber string
  | JString string
  | JArray "json_value list"
  | JObject "(string \<times> json_value) list"

abbreviation dquote :: char where "dquote \<equiv> CHR 0x22"
abbreviation backslash :: char where "backslash \<equiv> CHR 0x5C"

subsection \<open>Printing\<close>

definition json_escape :: "char \<Rightarrow> string" where
  "json_escape c =
     (if c = dquote \<or> c = backslash then [backslash, c]
      else if c = CHR 0x08 then [backslash, CHR ''b'']
      else if c = CHR 0x0C then [backslash, CHR ''f'']
      else if c = CHR 0x0A then [backslash, CHR ''n'']
      else if c = CHR 0x0D then [backslash, CHR ''r'']
      else if c = CHR 0x09 then [backslash, CHR ''t'']
      else if code c < 32 then [backslash, CHR ''u'', CHR ''0'', CHR ''0''] @ byte_hex (of_nat (code c))
      else [c])"

definition json_quote :: "string \<Rightarrow> string" where
  "json_quote s = dquote # concat (map json_escape s) @ [dquote]"

definition comma_join :: "string list \<Rightarrow> string" where
  "comma_join xs = (case xs of [] \<Rightarrow> [] | y # ys \<Rightarrow> y @ concat (map (\<lambda>z. CHR '','' # z) ys))"

fun json_print :: "json_value \<Rightarrow> string" where
  "json_print JNull = ''null''"
| "json_print (JBool b) = (if b then ''true'' else ''false'')"
| "json_print (JNumber n) = n"
| "json_print (JString s) = json_quote s"
| "json_print (JArray vs) = ''['' @ comma_join (map json_print vs) @ '']''"
| "json_print (JObject ms) = ''{'' @ comma_join (map (\<lambda>(k, v). json_quote k @ '':'' @ json_print v) ms) @ ''}''"

subsection \<open>Parsing\<close>

definition json_space :: "char \<Rightarrow> bool" where
  "json_space c = (code c \<in> {9, 10, 13, 32})"

definition skip_space :: "string \<Rightarrow> string" where
  "skip_space s = dropWhile json_space s"

definition unescape :: "char \<Rightarrow> char option" where
  "unescape c =
     (if c = dquote \<or> c = backslash \<or> c = CHR ''/'' then Some c
      else if c = CHR ''b'' then Some (CHR 0x08) else if c = CHR ''f'' then Some (CHR 0x0C)
      else if c = CHR ''n'' then Some (CHR 0x0A) else if c = CHR ''r'' then Some (CHR 0x0D)
      else if c = CHR ''t'' then Some (CHR 0x09) else None)"

text \<open>\<open>\u\<close> with four digits; a code unit above 255 is outside the model (\<open>None\<close>).\<close>

definition hex_unit :: "string \<Rightarrow> char option" where
  "hex_unit ds = (case those (map digit_val ds) of
       Some [a, b, c, d] \<Rightarrow> if a = 0 \<and> b = 0 then Some (char_of (16 * c + d)) else None
     | _ \<Rightarrow> None)"

text \<open>The rest of a string after its opening quote.\<close>

fun jstring :: "string \<Rightarrow> (string \<times> string) option" where
  "jstring [] = None"
| "jstring (c # cs) =
     (if c = dquote then Some ([], cs)
      else if c = backslash then
        (case cs of
           [] \<Rightarrow> None
         | e # ds \<Rightarrow>
             if e = CHR ''u'' then
               (case ds of
                  p # q # r # t # es \<Rightarrow>
                    (case hex_unit [p, q, r, t] of None \<Rightarrow> None
                     | Some u \<Rightarrow> map_option (\<lambda>(s, rest). (u # s, rest)) (jstring es))
                | _ \<Rightarrow> None)
             else (case unescape e of None \<Rightarrow> None
              | Some u \<Rightarrow> map_option (\<lambda>(s, rest). (u # s, rest)) (jstring ds)))
      else if code c < 32 then None
      else map_option (\<lambda>(s, rest). (c # s, rest)) (jstring cs))"

text \<open>A number: minus, integer part without leading zeros, fraction, exponent.\<close>

definition digits_of :: "string \<Rightarrow> string \<times> string" where
  "digits_of s = (takeWhile is_digit s, dropWhile is_digit s)"

definition int_part :: "string \<Rightarrow> (string \<times> string) option" where
  "int_part s = (let (d, r) = digits_of s in
     if d = [] then None
     else if hd d = CHR ''0'' then Some ([hd d], tl d @ r) else Some (d, r))"

definition frac_part :: "string \<Rightarrow> (string \<times> string) option" where
  "frac_part s = (case s of [] \<Rightarrow> Some ([], s) | c # cs \<Rightarrow>
     if c \<noteq> CHR ''.'' then Some ([], s)
     else let (d, r) = digits_of cs in if d = [] then None else Some (c # d, r))"

definition exp_part :: "string \<Rightarrow> (string \<times> string) option" where
  "exp_part s = (case s of [] \<Rightarrow> Some ([], s) | c # cs \<Rightarrow>
     if c \<noteq> CHR ''e'' \<and> c \<noteq> CHR ''E'' then Some ([], s)
     else let sign = (case cs of [] \<Rightarrow> [] | g # _ \<Rightarrow> if g = CHR ''+'' \<or> g = CHR ''-'' then [g] else []);
              (d, r) = digits_of (drop (length sign) cs)
          in if d = [] then None else Some (c # sign @ d, r))"

definition jnumber :: "string \<Rightarrow> (json_value \<times> string) option" where
  "jnumber s =
     (let m = (if s \<noteq> [] \<and> hd s = CHR ''-'' then ''-'' else []) in
      Option.bind (int_part (drop (length m) s)) (\<lambda>(i, s1).
      Option.bind (frac_part s1) (\<lambda>(f, s2).
      Option.bind (exp_part s2) (\<lambda>(e, s3). Some (JNumber (m @ i @ f @ e), s3)))))"

definition jword :: "string \<Rightarrow> (json_value \<times> string) option" where
  "jword s =
     (if starts_with ''null'' s then Some (JNull, drop 4 s)
      else if starts_with ''true'' s then Some (JBool True, drop 4 s)
      else if starts_with ''false'' s then Some (JBool False, drop 5 s)
      else jnumber s)"

text \<open>\<open>expect c s\<close>: the rest after \<open>c\<close>, white space before it dropped.\<close>

definition expect :: "char \<Rightarrow> string \<Rightarrow> string option" where
  "expect c s = (case skip_space s of [] \<Rightarrow> None | d # ds \<Rightarrow> if d = c then Some ds else None)"

definition jkey :: "string \<Rightarrow> (string \<times> string) option" where
  "jkey s = Option.bind (expect dquote s) (\<lambda>s1. Option.bind (jstring s1) (\<lambda>(k, s2).
     map_option (\<lambda>s3. (k, s3)) (expect (CHR '':'') s2)))"

definition jclose :: "char \<Rightarrow> (string \<Rightarrow> ('a list \<times> string) option) \<Rightarrow> 'a \<Rightarrow> string \<Rightarrow> ('a list \<times> string) option" where
  "jclose c again x s = (case expect c s of Some r \<Rightarrow> Some ([x], r)
     | None \<Rightarrow> Option.bind (expect (CHR '','') s) (\<lambda>r. map_option (\<lambda>(xs, t). (x # xs, t)) (again r)))"

fun jvalue :: "nat \<Rightarrow> string \<Rightarrow> (json_value \<times> string) option"
  and jitems :: "nat \<Rightarrow> string \<Rightarrow> (json_value list \<times> string) option"
  and jmembers :: "nat \<Rightarrow> string \<Rightarrow> ((string \<times> json_value) list \<times> string) option" where
  "jvalue 0 s = None"
| "jvalue (Suc n) s =
     (case skip_space s of
        [] \<Rightarrow> None
      | c # cs \<Rightarrow>
          if c = dquote then map_option (\<lambda>(t, r). (JString t, r)) (jstring cs)
          else if c = CHR ''['' then
            (case expect (CHR '']'') cs of Some r \<Rightarrow> Some (JArray [], r)
             | None \<Rightarrow> map_option (\<lambda>(vs, r). (JArray vs, r)) (jitems n cs))
          else if c = CHR ''{'' then
            (case expect (CHR ''}'') cs of Some r \<Rightarrow> Some (JObject [], r)
             | None \<Rightarrow> map_option (\<lambda>(ms, r). (JObject (fold (\<lambda>(k, v). ls_set k v) ms []), r)) (jmembers n cs))
          else jword (c # cs))"
| "jitems 0 s = None"
| "jitems (Suc n) s = Option.bind (jvalue n s) (\<lambda>(v, r). jclose (CHR '']'') (jitems n) v r)"
| "jmembers 0 s = None"
| "jmembers (Suc n) s = Option.bind (jkey s) (\<lambda>(k, r). Option.bind (jvalue n r) (\<lambda>(v, t).
     jclose (CHR ''}'') (jmembers n) (k, v) t))"

definition json_parse :: "string \<Rightarrow> json_value option" where
  "json_parse s = (case jvalue (2 * length s + 2) s of
       Some (v, r) \<Rightarrow> if skip_space r = [] then Some v else None
     | None \<Rightarrow> None)"


subsection \<open>Parsing undoes printing\<close>

lemma byte_hex_split: "byte_hex b = [hex_digit (unat b div 16), hex_digit (unat b mod 16)]"
  by (simp add: byte_hex_def)

lemma digit_val_hex: "d < 16 \<Longrightarrow> digit_val (hex_digit d) = Some d"
  using hex_digit_cases by blast

lemma hex_unit_control:
  assumes "code c < 32"
  shows "hex_unit (CHR ''0'' # CHR ''0'' # byte_hex (of_nat (code c))) = Some c"
proof -
  have "unat (of_nat (code c) :: byte) = code c" using assms by (simp add: unat_of_nat)
  moreover have "char_of (16 * (code c div 16) + code c mod 16) = c" by (simp add: code_def)
  moreover have "digit_val (CHR ''0'') = Some 0" by (simp add: digit_val_def)
  ultimately show ?thesis using assms by (simp add: hex_unit_def byte_hex_split digit_val_hex)
qed

lemma jstring_plain: "c \<noteq> dquote \<Longrightarrow> c \<noteq> backslash \<Longrightarrow> \<not> code c < 32 \<Longrightarrow>
    jstring (c # t) = map_option (\<lambda>(s, r). (c # s, r)) (jstring t)"
  by (subst jstring.simps) simp

lemma jstring_short: "e \<noteq> CHR ''u'' \<Longrightarrow> unescape e = Some u \<Longrightarrow>
    jstring (backslash # e # t) = map_option (\<lambda>(s, r). (u # s, r)) (jstring t)"
  by (subst jstring.simps) simp

lemma jstring_unit: "hex_unit [p, q, r, x] = Some u \<Longrightarrow>
    jstring (backslash # CHR ''u'' # p # q # r # x # t) = map_option (\<lambda>(s, r). (u # s, r)) (jstring t)"
  by (subst jstring.simps) simp

lemma jstring_escape: "jstring (json_escape c @ t) = map_option (\<lambda>(s, r). (c # s, r)) (jstring t)"
proof -
  consider "c \<in> {dquote, backslash}" | "c \<in> {CHR 0x08, CHR 0x0C, CHR 0x0A, CHR 0x0D, CHR 0x09}"
    | "c \<notin> {dquote, backslash, CHR 0x08, CHR 0x0C, CHR 0x0A, CHR 0x0D, CHR 0x09}" by blast
  then show ?thesis
  proof cases
    case 1
    then have "json_escape c = [backslash, c]" "c \<noteq> CHR ''u''" "unescape c = Some c"
      by (auto simp: json_escape_def unescape_def)
    then show ?thesis by (simp add: jstring_short del: jstring.simps)
  next
    case 2
    then obtain e where "json_escape c = [backslash, e]" "e \<noteq> CHR ''u''" "unescape e = Some c"
      by (auto simp: json_escape_def unescape_def)
    then show ?thesis by (simp add: jstring_short del: jstring.simps)
  next
    case 3
    show ?thesis
    proof (cases "code c < 32")
      case True
      let ?b = "of_nat (code c) :: byte"
      have "json_escape c = [backslash, CHR ''u'', CHR ''0'', CHR ''0'', hex_digit (unat ?b div 16), hex_digit (unat ?b mod 16)]"
        using 3 True by (simp add: json_escape_def byte_hex_split)
      then show ?thesis
        using jstring_unit [OF hex_unit_control [OF True, unfolded byte_hex_split], of t] by simp
    next
      case False
      then have "json_escape c = [c]" using 3 by (simp add: json_escape_def)
      then show ?thesis using 3 False by (simp add: jstring_plain del: jstring.simps)
    qed
  qed
qed

lemma jstring_escapes: "jstring (concat (map json_escape s) @ dquote # rest) = Some (s, rest)"
  by (induction s) (simp_all add: jstring_escape)

lemma skip_space_start [simp]: "\<not> json_space c \<Longrightarrow> skip_space (c # s) = c # s"
  by (simp add: skip_space_def)

lemma visible [simp]: "\<not> json_space dquote" "\<not> json_space (CHR ''['')" "\<not> json_space (CHR '']'')"
  "\<not> json_space (CHR ''{'')" "\<not> json_space (CHR ''}'')" "\<not> json_space (CHR '','')" "\<not> json_space (CHR '':'')"
  "\<not> json_space (CHR ''n'')" "\<not> json_space (CHR ''t'')" "\<not> json_space (CHR ''f'')"
  by (simp_all add: json_space_def code_def)

lemma jkey_quote: "jkey (json_quote k @ CHR '':'' # t) = Some (k, t)"
  by (simp add: jkey_def json_quote_def expect_def jstring_escapes)

text \<open>The number literals that \<open>JSON.stringify\<close> writes for a natural number.\<close>

definition number_literal :: "string \<Rightarrow> bool" where
  "number_literal s = (s \<noteq> [] \<and> list_all is_digit s \<and> (s = ''0'' \<or> hd s \<noteq> CHR ''0''))"

text \<open>What may follow a number without becoming part of it.\<close>

definition ends_number :: "string \<Rightarrow> bool" where
  "ends_number r = (case r of [] \<Rightarrow> True
     | c # _ \<Rightarrow> \<not> is_digit c \<and> c \<noteq> CHR ''.'' \<and> c \<noteq> CHR ''e'' \<and> c \<noteq> CHR ''E'')"

lemma ends_number_simps [simp]: "ends_number []" "ends_number (CHR '','' # r)" "ends_number (CHR '']'' # r)"
  "ends_number (CHR ''}'' # r)"
  by (simp_all add: ends_number_def is_digit_def code_def)

lemma digits_of_literal:
  assumes "list_all is_digit s" and "ends_number r"
  shows "digits_of (s @ r) = (s, r)"
proof -
  have "takeWhile is_digit r = []" "dropWhile is_digit r = r"
    using assms(2) by (auto simp: ends_number_def split: list.splits)
  then show ?thesis using assms(1) by (simp add: digits_of_def list_all_iff)
qed

lemma frac_exp_ends: "ends_number r \<Longrightarrow> frac_part r = Some ([], r) \<and> exp_part r = Some ([], r)"
  by (auto simp: frac_part_def exp_part_def ends_number_def split: list.split)

lemma jnumber_literal:
  assumes "number_literal s" and "ends_number r"
  shows "jnumber (s @ r) = Some (JNumber s, r)"
proof -
  obtain c cs where s: "s = c # cs" "is_digit c" using assms(1) by (cases s) (auto simp: number_literal_def)
  then have "c \<noteq> CHR ''-''" by (auto simp: is_digit_def code_def)
  moreover have "int_part (s @ r) = Some (s, r)"
    using assms digits_of_literal [of s r] by (auto simp: int_part_def number_literal_def s(1))
  ultimately show ?thesis using frac_exp_ends [OF assms(2)] by (simp add: jnumber_def s(1))
qed

lemma jword_literal:
  assumes "number_literal s" and "ends_number r"
  shows "jword (s @ r) = Some (JNumber s, r)"
proof -
  obtain c cs where s: "s = c # cs" "is_digit c" using assms(1) by (cases s) (auto simp: number_literal_def)
  then have "c \<noteq> CHR ''n''" "c \<noteq> CHR ''t''" "c \<noteq> CHR ''f''" by (auto simp: is_digit_def code_def)
  then show ?thesis using jnumber_literal [OF assms] by (simp add: jword_def starts_with_def s(1))
qed

lemma digit_visible:
  assumes "is_digit c"
  shows "\<not> json_space c" "c \<noteq> dquote" "c \<noteq> CHR ''[''" "c \<noteq> CHR '']''" "c \<noteq> CHR ''{''"
  using assms by (auto simp: is_digit_def json_space_def code_def)

text \<open>Documents with distinct keys whose numbers are natural.\<close>

fun plain_json :: "json_value \<Rightarrow> bool" where
  "plain_json (JNumber n) = number_literal n"
| "plain_json (JArray vs) = list_all plain_json vs"
| "plain_json (JObject ms) = (distinct (map fst ms) \<and> list_all (\<lambda>(k, v). plain_json v) ms)"
| "plain_json v = True"

lemma json_print_nonempty: "plain_json v \<Longrightarrow> json_print v \<noteq> []"
  by (cases v) (auto simp: json_quote_def number_literal_def)

lemma comma_join_Cons: "comma_join (x # xs) = x @ (if xs = [] then [] else CHR '','' # comma_join xs)"
  by (cases xs) (simp_all add: comma_join_def)

lemma jclose_end: "jclose c again x (c # r) = Some ([x], r)" if "\<not> json_space c"
  using that by (simp add: jclose_def expect_def)

lemma jclose_more: "jclose c again x (CHR '','' # r) = map_option (\<lambda>(xs, t). (x # xs, t)) (again r)"
  if "c \<noteq> CHR '',''"
  using that by (simp add: jclose_def expect_def)

lemma jitems_print:
  assumes "\<And>v n r. v \<in> set vs \<Longrightarrow> 2 * length (json_print v) + 1 \<le> n \<Longrightarrow> ends_number r \<Longrightarrow>
      jvalue n (json_print v @ r) = Some (v, r)"
    and "vs \<noteq> []" and "2 * length (comma_join (map json_print vs)) + 2 \<le> n"
  shows "jitems n (comma_join (map json_print vs) @ CHR '']'' # rest) = Some (vs, rest)"
  using assms(2) assms(1,3)
proof (induction vs arbitrary: n rule: list_nonempty_induct)
  case (single v)
  then obtain m where "n = Suc m" by (cases n) auto
  then show ?case using single by (simp add: comma_join_def jclose_end)
next
  case (cons v vs)
  then obtain m where n: "n = Suc m" by (cases n) auto
  from cons.prems(2) cons.hyps have l: "2 * length (json_print v) + 1 \<le> m"
    "2 * length (comma_join (map json_print vs)) + 2 \<le> m" by (simp_all add: n comma_join_Cons)
  have "jitems m (comma_join (map json_print vs) @ CHR '']'' # rest) = Some (vs, rest)"
    by (rule cons.IH) (use cons.prems l in auto)
  then show ?case using cons.prems(1) [of v m] cons.hyps l(1)
    by (simp add: n comma_join_Cons jclose_more)
qed

lemma jmembers_print:
  assumes "\<And>k v n r. (k, v) \<in> set ms \<Longrightarrow> 2 * length (json_print v) + 1 \<le> n \<Longrightarrow> ends_number r \<Longrightarrow>
      jvalue n (json_print v @ r) = Some (v, r)"
    and "ms \<noteq> []"
    and "2 * length (comma_join (map (\<lambda>(k, v). json_quote k @ '':'' @ json_print v) ms)) + 2 \<le> n"
  shows "jmembers n (comma_join (map (\<lambda>(k, v). json_quote k @ '':'' @ json_print v) ms) @ CHR ''}'' # rest) =
    Some (ms, rest)"
  using assms(2) assms(1,3)
proof (induction ms arbitrary: n rule: list_nonempty_induct)
  case (single m)
  obtain k v where m: "m = (k, v)" by (cases m)
  from single obtain n' where n: "n = Suc n'" by (cases n) auto
  have "jvalue n' (json_print v @ CHR ''}'' # rest) = Some (v, CHR ''}'' # rest)"
    by (rule single.prems(1)) (use single.prems(2) in \<open>auto simp: m n comma_join_def\<close>)
  then show ?case by (simp add: m n comma_join_def jkey_quote jclose_end)
next
  case (cons m ms)
  obtain k v where m: "m = (k, v)" by (cases m)
  from cons obtain n' where n: "n = Suc n'" by (cases n) auto
  let ?t = "comma_join (map (\<lambda>(k, v). json_quote k @ '':'' @ json_print v) ms)"
  from cons.prems(2) cons.hyps have l: "2 * length (json_print v) + 1 \<le> n'" "2 * length ?t + 2 \<le> n'"
    by (simp_all add: m n comma_join_Cons)
  have "jmembers n' (?t @ CHR ''}'' # rest) = Some (ms, rest)"
    by (rule cons.IH) (use cons.prems l in auto)
  moreover have "jvalue n' (json_print v @ CHR '','' # r) = Some (v, CHR '','' # r)" for r
    using cons.prems(1) [of k v n' "CHR '','' # r"] l(1) by (simp add: m)
  ultimately show ?case using cons.hyps by (simp add: m n comma_join_Cons jkey_quote jclose_more)
qed


lemma print_start:
  assumes "plain_json v"
  obtains c cs where "json_print v = c # cs" and "\<not> json_space c" and "c \<noteq> CHR '']''"
proof (cases v)
  case (JBool b)
  then show ?thesis using that by (cases b) simp_all
next
  case (JNumber n)
  then show ?thesis using assms that digit_visible by (cases n) (auto simp: number_literal_def)
qed (use assms that in \<open>simp_all add: json_quote_def\<close>)

lemma expect_miss: "\<not> json_space c \<Longrightarrow> c \<noteq> d \<Longrightarrow> expect d (c # s) = None"
  by (simp add: expect_def)

lemma ls_set_append: "k \<notin> fst ` set acc \<Longrightarrow> ls_set k v acc = acc @ [(k, v)]"
  by (induction acc) auto

lemma fold_ls_set:
  "distinct (map fst ms) \<Longrightarrow> fst ` set ms \<inter> fst ` set acc = {} \<Longrightarrow> fold (\<lambda>(k, v). ls_set k v) ms acc = acc @ ms"
proof (induction ms arbitrary: acc)
  case (Cons m ms)
  obtain k v where m: "m = (k, v)" by (cases m)
  have "fold (\<lambda>(k, v). ls_set k v) ms (acc @ [(k, v)]) = (acc @ [(k, v)]) @ ms"
    by (rule Cons.IH) (use Cons.prems in \<open>auto simp: m\<close>)
  then show ?case using Cons.prems by (simp add: m ls_set_append)
qed simp

lemma jword_print: "jword (''null'' @ r) = Some (JNull, r)" "jword (''true'' @ r) = Some (JBool True, r)"
    "jword (''false'' @ r) = Some (JBool False, r)"
  by (simp_all add: jword_def starts_with_def)

lemma jvalue_print:
  "plain_json v \<Longrightarrow> 2 * length (json_print v) + 1 \<le> n \<Longrightarrow> ends_number r \<Longrightarrow>
   jvalue n (json_print v @ r) = Some (v, r)"
proof (induction v arbitrary: n r)
  case JNull
  then show ?case using jword_print(1) [of r] by (cases n) simp_all
next
  case (JBool b)
  then show ?case using jword_print(2,3) [of r] by (cases n; cases b) simp_all
next
  case (JNumber t)
  then obtain c cs where t: "t = c # cs" "is_digit c" by (cases t) (auto simp: number_literal_def)
  then show ?case using JNumber jword_literal [of t r] digit_visible [OF t(2)] by (cases n) simp_all
next
  case (JString s)
  then show ?case by (cases n) (simp_all add: json_quote_def jstring_escapes)
next
  case (JArray vs)
  then obtain m where n: "n = Suc m" by (cases n) auto
  show ?case
  proof (cases "vs = []")
    case True
    then show ?thesis by (simp add: n comma_join_def expect_def)
  next
    case False
    then obtain w ws where vs: "vs = w # ws" by (cases vs) auto
    then obtain c cs where c: "json_print w = c # cs" "\<not> json_space c" "c \<noteq> CHR '']''"
      using JArray.prems(1) print_start [of w] by auto
    have "expect (CHR '']'') (comma_join (map json_print vs) @ CHR '']'' # r) = None"
      using c by (simp add: vs comma_join_def expect_miss)
    moreover have "jitems m (comma_join (map json_print vs) @ CHR '']'' # r) = Some (vs, r)"
      by (rule jitems_print) (use JArray False in \<open>auto simp: n list_all_iff\<close>)
    ultimately show ?thesis by (simp add: n)
  qed
next
  case (JObject ms)
  then obtain m where n: "n = Suc m" by (cases n) auto
  let ?t = "comma_join (map (\<lambda>(k, v). json_quote k @ '':'' @ json_print v) ms)"
  show ?case
  proof (cases "ms = []")
    case True
    then show ?thesis by (simp add: n comma_join_def expect_def)
  next
    case False
    then have "expect (CHR ''}'') (?t @ CHR ''}'' # r) = None"
      by (cases ms) (auto simp: comma_join_def json_quote_def expect_miss)
    moreover have "jmembers m (?t @ CHR ''}'' # r) = Some (ms, r)"
      by (rule jmembers_print) (use JObject False in \<open>fastforce simp: n list_all_iff\<close>)+
    moreover have "fold (\<lambda>(k, v). ls_set k v) ms [] = ms"
      using JObject.prems(1) by (simp add: fold_ls_set)
    ultimately show ?thesis by (simp add: n)
  qed
qed

theorem json_roundtrip: "plain_json v \<Longrightarrow> json_parse (json_print v) = Some v"
  using jvalue_print [of v "2 * length (json_print v) + 2" "[]"] by (simp add: json_parse_def skip_space_def)

subsection \<open>The fuel\<close>

lemma skip_space_length: "length (skip_space s) \<le> length s"
  by (simp add: skip_space_def length_dropWhile_le)

lemma jstring_length: "jstring s = Some (t, r) \<Longrightarrow> length r < length s"
  by (induction s arbitrary: t r rule: jstring.induct)
    (fastforce split: if_splits list.splits option.splits)+

lemma expect_length: "expect c s = Some r \<Longrightarrow> length r < length s"
  using skip_space_length [of s] by (auto simp: expect_def split: list.splits if_splits)

lemma jkey_length: "jkey s = Some (k, r) \<Longrightarrow> length r < length s"
  by (auto simp: jkey_def bind_eq_Some_conv dest!: expect_length jstring_length)


lemma digits_length: "digits_of s = (d, r) \<Longrightarrow> length s = length d + length r"
proof -
  assume "digits_of s = (d, r)"
  then have "s = d @ r" by (auto simp: digits_of_def)
  then show ?thesis by simp
qed

lemma int_part_length: "int_part s = Some (d, r) \<Longrightarrow> length r < length s"
  using digits_length [of s] by (cases "fst (digits_of s)") (auto simp: int_part_def split: prod.splits if_splits)

lemma frac_part_length: "frac_part s = Some (d, r) \<Longrightarrow> length r \<le> length s"
  by (auto simp: frac_part_def split: list.splits prod.splits if_splits dest: digits_length)

lemma exp_part_length: "exp_part s = Some (d, r) \<Longrightarrow> length r \<le> length s"
  by (auto simp: exp_part_def Let_def split: list.splits prod.splits if_splits dest!: digits_length)

lemma jnumber_length:
  assumes "jnumber s = Some (v, r)"
  shows "length r < length s"
proof -
  let ?m = "if s \<noteq> [] \<and> hd s = CHR ''-'' then ''-'' else []"
  obtain i s1 f s2 e where "int_part (drop (length ?m) s) = Some (i, s1)" "frac_part s1 = Some (f, s2)"
    "exp_part s2 = Some (e, r)"
    using assms unfolding jnumber_def Let_def by (auto simp: bind_eq_Some_conv)
  then have "length s1 < length (drop (length ?m) s)" "length s2 \<le> length s1" "length r \<le> length s2"
    by (auto dest: int_part_length frac_part_length exp_part_length)
  then show ?thesis unfolding length_drop by linarith
qed

lemma jword_length: "jword s = Some (v, r) \<Longrightarrow> length r < length s"
  by (cases s) (auto simp: jword_def starts_with_def split: if_splits dest: jnumber_length)

lemma jclose_length:
  assumes "jclose c again x s = Some (xs, r)" and "\<And>ys t u. again t = Some (ys, u) \<Longrightarrow> length u < length t"
  shows "length r < length s"
  using assms by (fastforce simp: jclose_def bind_eq_Some_conv split: option.splits dest: expect_length)

lemma jvalue_length:
  "jvalue n s = Some (v, r) \<Longrightarrow> length r < length s"
  "jitems n s = Some (vs, r) \<Longrightarrow> length r < length s"
  "jmembers n s = Some (ms, r) \<Longrightarrow> length r < length s"
proof (induction n arbitrary: s v vs ms r)
  case (Suc n)
  {
    case 1
    obtain c cs where c: "skip_space s = c # cs" using 1 by (cases "skip_space s") auto
    note res = 1 [unfolded jvalue.simps c list.case]
    consider (str) "c = dquote" | (arr) "c = CHR ''[''" | (obj) "c = CHR ''{''"
      | (other) "jword (c # cs) = Some (v, r)" using res by (auto split: if_splits)
    then have "length r < length (c # cs)"
    proof cases
      case str
      then show ?thesis using res jstring_length [of cs _ r] by auto
    next
      case arr
      then show ?thesis using res expect_length [of "CHR '']''" cs] Suc.IH(2) [of cs _ r]
        by (auto split: option.splits)
    next
      case obj
      then show ?thesis using res expect_length [of "CHR ''}''" cs] Suc.IH(3) [of cs _ r]
        by (auto split: option.splits)
    next
      case other
      then show ?thesis by (rule jword_length)
    qed
    then show ?case using skip_space_length [of s] by (simp add: c)
  next
    case 2
    then obtain w t where "jvalue n s = Some (w, t)" "jclose (CHR '']'') (jitems n) w t = Some (vs, r)"
      by (auto simp: bind_eq_Some_conv)
    then show ?case using Suc.IH(1) jclose_length [OF _ Suc.IH(2)] by fastforce
  next
    case 3
    then obtain k t w u where "jkey s = Some (k, t)" "jvalue n t = Some (w, u)"
      "jclose (CHR ''}'') (jmembers n) (k, w) u = Some (ms, r)"
      by (auto simp: bind_eq_Some_conv)
    then show ?case using jkey_length Suc.IH(1) jclose_length [OF _ Suc.IH(3)] by fastforce
  }
qed simp_all

lemma jclose_cong:
  assumes "\<And>t. length t < length s \<Longrightarrow> again' t = again t"
  shows "jclose c again' x s = jclose c again x s"
  using assms expect_length [of "CHR '',''" s]
  by (cases "expect (CHR '','') s") (simp_all add: jclose_def split: option.split)

lemma jvalue_step:
  "2 * length s + 1 \<le> n \<Longrightarrow> jvalue (Suc n) s = jvalue n s"
  "2 * length s + 2 \<le> n \<Longrightarrow> jitems (Suc n) s = jitems n s"
  "2 * length s + 2 \<le> n \<Longrightarrow> jmembers (Suc n) s = jmembers n s"
proof (induction n arbitrary: s)
  case (Suc n)
  {
    case 1
    show ?case
    proof (cases "skip_space s")
      case Nil
      then show ?thesis by simp
    next
      case (Cons c cs)
      then have "2 * length cs + 2 \<le> n" using 1 skip_space_length [of s] by simp
      then have "jitems (Suc n) cs = jitems n cs" "jmembers (Suc n) cs = jmembers n cs"
        by (rule Suc.IH)+
      then show ?thesis by (simp add: Cons del: jitems.simps jmembers.simps split: option.split)
    qed
  next
    case 2
    have v: "jvalue (Suc n) s = jvalue n s" by (rule Suc.IH) (use 2 in simp)
    have "jclose c (jitems (Suc n)) w t = jclose c (jitems n) w t" if "jvalue n s = Some (w, t)" for w t c
      by (rule jclose_cong, rule Suc.IH) (use 2 jvalue_length(1) [OF that] in simp)
    then show ?case unfolding jitems.simps(2) [of "Suc n"] jitems.simps(2) [of n] v
      by (cases "jvalue n s") (auto simp del: jitems.simps)
  next
    case 3
    show ?case
    proof (cases "jkey s")
      case (Some p)
      obtain k t where p: "p = (k, t)" by (cases p)
      from jkey_length [OF Some [unfolded p]] have l: "length t < length s" .
      have v: "jvalue (Suc n) t = jvalue n t" by (rule Suc.IH) (use 3 l in simp)
      have "jclose c (jmembers (Suc n)) m u = jclose c (jmembers n) m u" if "jvalue n t = Some (w, u)" for w u c m
        by (rule jclose_cong, rule Suc.IH) (use 3 l jvalue_length(1) [OF that] in simp)
      then show ?thesis unfolding jmembers.simps(2) [of "Suc n"] jmembers.simps(2) [of n] Some p
        by (cases "jvalue n t") (auto simp: v simp del: jmembers.simps jvalue.simps)
    qed simp
  }
qed simp_all

theorem jparse_fuel: "2 * length s + 2 \<le> n \<Longrightarrow> jvalue n s = jvalue (2 * length s + 2) s"
  by (induction n rule: dec_induct) (simp_all add: jvalue_step(1) del: jvalue.simps)

subsection \<open>Numbers\<close>

definition number_text :: "nat \<Rightarrow> string" where
  "number_text n = big_to_string 10 (int n)"

definition read_number :: "string \<Rightarrow> nat option" where
  "read_number s = map_option nat (some_digits 10 s)"

lemma radix_list_start: "2 \<le> b \<Longrightarrow> radix_list b n = [0] \<or> hd (radix_list b n) \<noteq> 0"
proof (induction b n rule: radix_list.induct)
  case (1 b n)
  show ?case
  proof (cases "n < b")
    case True
    then show ?thesis by (subst (1 2) radix_list.simps) auto
  next
    case False
    then have r: "radix_list b n = radix_list b (n div b) @ [n mod b]" using 1(2) by (subst radix_list.simps) simp
    have "radix_list b (n div b) \<noteq> [0]"
      using digits_number_radix [of b "n div b"] False 1(2) by (auto simp: digits_number_def div_eq_0_iff)
    then show ?thesis using 1 False r by simp
  qed
qed

lemma number_text_digits: "number_text n = map hex_digit (radix_list 10 n)"
  by (simp add: number_text_def big_to_string_def)

lemma hex_digit_decimal: "d < 10 \<Longrightarrow> is_digit (hex_digit d) \<and> (hex_digit d = CHR ''0'' \<longleftrightarrow> d = 0)"
  by (auto simp: less_Suc_eq numeral_eq_Suc hex_digit_def is_digit_def code_def)

lemma number_text_literal [simp]: "number_literal (number_text n)"
proof -
  have d: "\<forall>d\<in>set (radix_list 10 n). d < 10" by (rule radix_list_digits) simp
  then have "list_all is_digit (number_text n)"
    by (auto simp: number_text_digits list_all_iff hex_digit_decimal)
  moreover have "radix_list 10 n = [0] \<or> hd (radix_list 10 n) \<noteq> 0" by (rule radix_list_start) simp
  moreover have "hd (radix_list 10 n) < 10" using d by simp
  ultimately show ?thesis
    by (auto simp: number_literal_def number_text_digits hd_map hex_digit_decimal)
qed

lemma read_number_text [simp]: "read_number (number_text n) = Some n"
  using some_digits_hex [OF radix_list_digits, of 10 n]
  by (simp add: read_number_def number_text_digits digits_number_radix)

end
