(* ===== verification/Password_Service.thy ===== *)
theory Password_Service
  imports Password_Import Json_Text Web_Crypto Event_System "HOL-Library.Multiset"
begin

text \<open>
  \<open>services/passwordService.ts\<close> and the import of \<open>hooks/usePasswords.ts\<close>: the password list, kept in one
  \<open>localStorage\<close> slot as encrypted JSON, and the password generator. The state of the service is the
  slot's text. WebCrypto is the parameter \<open>crypto_of\<close> (\<open>None\<close>: not available, as on a page without
  https); IVs, identifiers and the clock's text are arguments. What \<open>JSON.parse\<close> returns is not
  checked by the code, so the operations work on JSON values and throw the \<open>TypeError\<close> of a value
  that is no array or holds \<open>null\<close>. \<open>WideText\<close> is not an error of the code: it marks a decrypted
  text with characters outside the model.
\<close>

subsection \<open>Encryption\<close>

record pw_env =
  pw_web :: bool
  pw_storage :: bool
  crypto_of :: "webcrypto option"

datatype pw_error = NotAList | WideText

definition get_derived_key :: "pw_env \<Rightarrow> (webcrypto \<times> bytes) option" where
  "get_derived_key env =
     (if \<not> pw_web env then None
      else case crypto_of env of
        None \<Rightarrow> None
      | Some w \<Rightarrow> map_option (\<lambda>k. (w, k))
          (wc_pbkdf2 w (utf8_encode ''usbvault-password-manager-key-v1'') (utf8_encode ''usbvault-pw-salt'') 100000 256))"

text \<open>\<open>None\<close>: encryption rejects.\<close>

definition encrypt_data :: "pw_env \<Rightarrow> bytes \<Rightarrow> string \<Rightarrow> string option" where
  "encrypt_data env iv data =
     (case get_derived_key env of
        None \<Rightarrow> Some (btoa (map (\<lambda>c. of_nat (code c)) data))
      | Some (w, k) \<Rightarrow> map_option (\<lambda>ct. bytes_to_hex (iv @ ct)) (wc_seal w k iv (utf8_encode data)))"

text \<open>The matches of \<open>/.{2}/g\<close>: the dot matches no line end.\<close>

definition line_break :: "char \<Rightarrow> bool" where
  "line_break c = (c = CHR 0x0A \<or> c = CHR 0x0D)"

fun dot_pairs :: "string \<Rightarrow> string list" where
  "dot_pairs (c # d # cs) =
     (if line_break c then dot_pairs (d # cs)
      else if line_break d then dot_pairs cs
      else [c, d] # dot_pairs cs)"
| "dot_pairs cs = []"

definition legacy_text :: "string \<Rightarrow> string" where
  "legacy_text hex = (case atob hex of Some bs \<Rightarrow> map (\<lambda>b. char_of (unat b)) bs | None \<Rightarrow> hex)"

definition decrypt_data :: "pw_env \<Rightarrow> string \<Rightarrow> pw_error + string" where
  "decrypt_data env hex =
     (case get_derived_key env of
        None \<Rightarrow> Inr (legacy_text hex)
      | Some (w, k) \<Rightarrow>
          let bs = map (\<lambda>b. to_uint8 (parse_int16 b)) (dot_pairs hex) in
          if bs = [] then Inr (legacy_text hex)
          else case wc_open w k (take 12 bs) (drop 12 bs) of
            None \<Rightarrow> Inr (legacy_text hex)
          | Some plain \<Rightarrow> or_throw WideText (utf8_decode plain))"

subsection \<open>The list\<close>

definition load_entries :: "pw_env \<Rightarrow> string option \<Rightarrow> pw_error + json_value" where
  "load_entries env slot =
     (if \<not> pw_web env \<or> \<not> pw_storage env then Inr (JArray [])
      else case slot of
        None \<Rightarrow> Inr (JArray [])
      | Some raw \<Rightarrow>
          if raw = [] then Inr (JArray [])
          else attempt (decrypt_data env raw) (\<lambda>text.
            Inr (case json_parse text of None \<Rightarrow> JArray [] | Some v \<Rightarrow> v)))"

definition save_entries :: "pw_env \<Rightarrow> bytes \<Rightarrow> json_value \<Rightarrow> string option \<Rightarrow> string option" where
  "save_entries env iv v slot =
     (if \<not> pw_web env then slot
      else case encrypt_data env iv (json_print v) of
        None \<Rightarrow> slot
      | Some t \<Rightarrow> if pw_storage env then Some t else slot)"

definition strength_text :: "strength \<Rightarrow> string" where
  "strength_text s = (case s of StrongPw \<Rightarrow> ''Strong'' | MediumPw \<Rightarrow> ''Medium'' | WeakPw \<Rightarrow> ''Weak'')"

definition entry_pairs :: "password_entry \<Rightarrow> (string \<times> json_value) list" where
  "entry_pairs e =
     [(''title'', JString (title e)), (''username'', JString (username e)), (''password'', JString (password e)),
      (''url'', JString (url e)), (''category'', JString (category e)),
      (''strength'', JString (strength_text (strength e))), (''id'', JString (entry_id e)),
      (''createdAt'', JString (created_at e)), (''lastModified'', JString (last_modified e))]"

definition entry_json :: "password_entry \<Rightarrow> json_value" where
  "entry_json e = JObject (entry_pairs e)"

text \<open>The fields of a new entry, and of an update: those that are present overwrite.\<close>

record draft =
  d_title :: string
  d_username :: string
  d_password :: string
  d_url :: string
  d_category :: string
  d_strength :: strength

definition new_entry :: "string \<Rightarrow> string \<Rightarrow> draft \<Rightarrow> password_entry" where
  "new_entry i now d = \<lparr>title = d_title d, url = d_url d, username = d_username d, password = d_password d,
     category = d_category d, created_at = now, last_modified = now, entry_id = i, strength = d_strength d\<rparr>"

record updates =
  u_title :: "string option"
  u_username :: "string option"
  u_password :: "string option"
  u_url :: "string option"
  u_category :: "string option"
  u_strength :: "strength option"

definition update_pairs :: "updates \<Rightarrow> (string \<times> string) list" where
  "update_pairs u = concat (map (\<lambda>(k, v). case v of None \<Rightarrow> [] | Some t \<Rightarrow> [(k, t)])
     [(''title'', u_title u), (''username'', u_username u), (''password'', u_password u), (''url'', u_url u),
      (''category'', u_category u), (''strength'', map_option strength_text (u_strength u))])"

text \<open>\<open>e.id === id\<close>; the member of \<open>null\<close> throws, other values without one have \<open>undefined\<close>.\<close>

definition has_id :: "string \<Rightarrow> json_value \<Rightarrow> pw_error + bool" where
  "has_id i v = (case v of JNull \<Rightarrow> Inl NotAList
     | JObject ms \<Rightarrow> Inr (ls_get ''id'' ms = Some (JString i)) | _ \<Rightarrow> Inr False)"

fun index_of_id :: "string \<Rightarrow> json_value list \<Rightarrow> pw_error + nat option" where
  "index_of_id i [] = Inr None"
| "index_of_id i (v # vs) = attempt (has_id i v) (\<lambda>b.
     if b then Inr (Some 0) else attempt (index_of_id i vs) (\<lambda>n. Inr (map_option Suc n)))"

fun without_id :: "string \<Rightarrow> json_value list \<Rightarrow> pw_error + json_value list" where
  "without_id i [] = Inr []"
| "without_id i (v # vs) = attempt (has_id i v) (\<lambda>b.
     attempt (without_id i vs) (\<lambda>ws. Inr (if b then ws else v # ws)))"

definition merged :: "updates \<Rightarrow> string \<Rightarrow> json_value \<Rightarrow> json_value" where
  "merged u now v = (case v of
       JObject ms \<Rightarrow> JObject (ls_set ''lastModified'' (JString now)
         (fold (\<lambda>(k, t). ls_set k (JString t)) (update_pairs u) ms))
     | _ \<Rightarrow> v)"

datatype pw_reply = Added password_entry | Updated "json_value option" | Deleted bool

datatype pw_op =
    AddOp string string draft
  | UpdateOp string string updates
  | DeleteOp string

text \<open>
  The three operations between their load and their save: the reply and, when the list is saved, the
  new list.
\<close>

fun pw_change :: "pw_op \<Rightarrow> json_value list \<Rightarrow> pw_error + (pw_reply \<times> json_value list option)" where
  "pw_change (AddOp i now d) vs =
     (let e = new_entry i now d in Inr (Added e, Some (entry_json e # vs)))"
| "pw_change (UpdateOp i now u) vs =
     attempt (index_of_id i vs) (\<lambda>n. case n of
         None \<Rightarrow> Inr (Updated None, None)
       | Some k \<Rightarrow> let v = merged u now (vs ! k) in Inr (Updated (Some v), Some (vs[k := v])))"
| "pw_change (DeleteOp i) vs =
     attempt (without_id i vs) (\<lambda>ws.
       if length ws = length vs then Inr (Deleted False, None) else Inr (Deleted True, Some ws))"

definition pw_work :: "pw_env \<Rightarrow> pw_op \<Rightarrow> string option \<Rightarrow> pw_error + (pw_reply \<times> json_value list option)" where
  "pw_work env p slot =
     attempt (load_entries env slot) (\<lambda>v. case v of JArray vs \<Rightarrow> pw_change p vs | _ \<Rightarrow> Inl NotAList)"

definition pw_run :: "pw_env \<Rightarrow> bytes \<Rightarrow> pw_op \<Rightarrow> string option \<Rightarrow> (pw_error + pw_reply) \<times> string option" where
  "pw_run env iv p slot =
     (case pw_work env p slot of
        Inl e \<Rightarrow> (Inl e, slot)
      | Inr (r, None) \<Rightarrow> (Inr r, slot)
      | Inr (r, Some vs) \<Rightarrow> (Inr r, save_entries env iv (JArray vs) slot))"

definition add_entry :: "pw_env \<Rightarrow> bytes \<Rightarrow> string \<Rightarrow> string \<Rightarrow> draft \<Rightarrow> string option \<Rightarrow> (pw_error + pw_reply) \<times> string option" where
  "add_entry env iv i now d = pw_run env iv (AddOp i now d)"

definition update_entry :: "pw_env \<Rightarrow> bytes \<Rightarrow> string \<Rightarrow> string \<Rightarrow> updates \<Rightarrow> string option \<Rightarrow> (pw_error + pw_reply) \<times> string option" where
  "update_entry env iv i now u = pw_run env iv (UpdateOp i now u)"

definition delete_entry :: "pw_env \<Rightarrow> bytes \<Rightarrow> string \<Rightarrow> string option \<Rightarrow> (pw_error + pw_reply) \<times> string option" where
  "delete_entry env iv i = pw_run env iv (DeleteOp i)"

text \<open>\<open>entries.length\<close>; \<open>Inr None\<close> where the value is neither an array nor a text.\<close>

definition get_count :: "pw_env \<Rightarrow> string option \<Rightarrow> pw_error + nat option" where
  "get_count env slot = attempt (load_entries env slot) (\<lambda>v. case v of
       JNull \<Rightarrow> Inl NotAList | JArray vs \<Rightarrow> Inr (Some (length vs)) | JString s \<Rightarrow> Inr (Some (length s)) | _ \<Rightarrow> Inr None)"

subsection \<open>Overlapping calls\<close>

text \<open>
  Every call reads the slot when it starts and writes it when its encryption is done; other calls may
  run in between.
\<close>

record pw_page =
  pw_slot :: "string option"
  pw_calls :: "(pw_error + (pw_reply \<times> json_value list option)) list"
  pw_replies :: "(pw_error + pw_reply) list"

datatype pw_event = Begin pw_op | Finish nat bytes

fun pw_step :: "pw_env \<Rightarrow> pw_event \<Rightarrow> pw_page \<Rightarrow> pw_page option" where
  "pw_step env (Begin p) s = Some (s\<lparr>pw_calls := pw_calls s @ [pw_work env p (pw_slot s)]\<rparr>)"
| "pw_step env (Finish k iv) s =
     (if k < length (pw_calls s) then
        (let s1 = s\<lparr>pw_calls := splice1 k (pw_calls s)\<rparr> in
         Some (case pw_calls s ! k of
             Inl e \<Rightarrow> s1\<lparr>pw_replies := pw_replies s @ [Inl e]\<rparr>
           | Inr (r, None) \<Rightarrow> s1\<lparr>pw_replies := pw_replies s @ [Inr r]\<rparr>
           | Inr (r, Some vs) \<Rightarrow> s1\<lparr>pw_replies := pw_replies s @ [Inr r],
               pw_slot := save_entries env iv (JArray vs) (pw_slot s)\<rparr>))
      else None)"

subsection \<open>The generator\<close>

definition CHARSET_LOWER :: string where "CHARSET_LOWER = ''abcdefghijklmnopqrstuvwxyz''"
definition CHARSET_UPPER :: string where "CHARSET_UPPER = ''ABCDEFGHIJKLMNOPQRSTUVWXYZ''"
definition CHARSET_DIGITS :: string where "CHARSET_DIGITS = ''0123456789''"
definition CHARSET_SYMBOLS :: string where "CHARSET_SYMBOLS = ''!@#$%^&*()-_=+[]{}|;:,.<>?''"

record generator_options =
  g_length :: nat
  g_uppercase :: bool
  g_lowercase :: bool
  g_digits :: bool
  g_symbols :: bool

definition required_sets :: "generator_options \<Rightarrow> string list" where
  "required_sets opts =
     (if g_lowercase opts then [CHARSET_LOWER] else []) @ (if g_uppercase opts then [CHARSET_UPPER] else []) @
     (if g_digits opts then [CHARSET_DIGITS] else []) @ (if g_symbols opts then [CHARSET_SYMBOLS] else [])"

definition full_charset :: "generator_options \<Rightarrow> string" where
  "full_charset opts =
     (let charset = concat (required_sets opts)
      in if charset = [] then CHARSET_LOWER @ CHARSET_UPPER @ CHARSET_DIGITS else charset)"

definition password_length :: "generator_options \<Rightarrow> nat" where
  "password_length opts = max (max (g_length opts) (length (required_sets opts))) 8"

text \<open>\<open>set[randomValues[i] % set.length]\<close>.\<close>

definition pick :: "string \<Rightarrow> 32 word \<Rightarrow> char" where
  "pick cs r = cs ! (unat r mod length cs)"

definition swap_at :: "nat \<Rightarrow> nat \<Rightarrow> 'a list \<Rightarrow> 'a list" where
  "swap_at i j xs = xs[i := xs ! j, j := xs ! i]"

text \<open>The loop from \<open>i\<close> down to 1.\<close>

fun shuffle_down :: "32 word list \<Rightarrow> nat \<Rightarrow> string \<Rightarrow> string" where
  "shuffle_down rs 0 xs = xs"
| "shuffle_down rs (Suc i) xs = shuffle_down rs i (swap_at (Suc i) (unat (rs ! Suc i) mod (Suc i + 1)) xs)"

text \<open>\<open>rs\<close>: the \<open>password_length opts\<close> random words.\<close>

definition generate_password :: "generator_options \<Rightarrow> 32 word list \<Rightarrow> string" where
  "generate_password opts rs =
     (let req = required_sets opts; n = password_length opts;
          chosen = map (\<lambda>i. if i < length req then pick (req ! i) (rs ! i) else pick (full_charset opts) (rs ! i)) [0..<n]
      in shuffle_down rs (n - 1) chosen)"

subsection \<open>What the generator guarantees\<close>

lemma mset_swap_at: "i < length xs \<Longrightarrow> j < length xs \<Longrightarrow> mset (swap_at i j xs) = mset xs"
  by (simp add: swap_at_def mset_swap)

lemma shuffle_mset: "i < length xs \<Longrightarrow> mset (shuffle_down rs i xs) = mset xs"
proof (induction i arbitrary: xs)
  case (Suc i)
  have "unat (rs ! Suc i) mod (Suc i + 1) < Suc i + 1" by (rule mod_less_divisor) simp
  then have j: "unat (rs ! Suc i) mod (Suc i + 1) < length xs" using Suc.prems by linarith
  have "i < length (swap_at (Suc i) (unat (rs ! Suc i) mod (Suc i + 1)) xs)"
    using Suc.prems by (simp add: swap_at_def)
  then show ?case using Suc.IH mset_swap_at [OF Suc.prems j] by simp
qed simp

lemma pick_in: "cs \<noteq> [] \<Longrightarrow> pick cs r \<in> set cs"
  by (simp add: pick_def)

lemma charsets_nonempty: "cs \<in> set (required_sets opts) \<Longrightarrow> cs \<noteq> []" "full_charset opts \<noteq> []"
  by (auto simp: required_sets_def full_charset_def Let_def CHARSET_LOWER_def CHARSET_UPPER_def
      CHARSET_DIGITS_def CHARSET_SYMBOLS_def split: if_splits)

lemma required_in_charset: "cs \<in> set (required_sets opts) \<Longrightarrow> set cs \<subseteq> set (full_charset opts)"
  using charsets_nonempty(1) [of cs opts] by (auto simp: full_charset_def Let_def)

lemma generated_mset:
  "mset (generate_password opts rs) =
     mset (map (\<lambda>i. if i < length (required_sets opts) then pick (required_sets opts ! i) (rs ! i)
       else pick (full_charset opts) (rs ! i)) [0..<password_length opts])"
  unfolding generate_password_def Let_def by (rule shuffle_mset) (simp add: password_length_def)

text \<open>
  C34: whatever the random words, a generated password has the requested length (at least 8 and at
  least one character per chosen class), only characters of the chosen classes, and at least one of
  each chosen class: the shuffle loses and adds nothing.
\<close>

theorem generated_password_spec:
  "length (generate_password opts rs) = max (g_length opts) 8 \<and>
   set (generate_password opts rs) \<subseteq> set (full_charset opts) \<and>
   list_all (\<lambda>cs. list_ex (\<lambda>c. c \<in> set cs) (generate_password opts rs)) (required_sets opts)"
proof -
  let ?req = "required_sets opts"
  let ?f = "\<lambda>i. if i < length ?req then pick (?req ! i) (rs ! i) else pick (full_charset opts) (rs ! i)"
  let ?chosen = "map ?f [0..<password_length opts]"
  have four: "length ?req \<le> 4" by (simp add: required_sets_def)
  have "length (generate_password opts rs) = length ?chosen"
    using generated_mset [of opts rs] by (metis size_mset)
  then have l: "length (generate_password opts rs) = max (g_length opts) 8"
    using four by (simp add: password_length_def max_def)
  have set: "set (generate_password opts rs) = set ?chosen"
    using generated_mset [of opts rs] by (metis set_mset_mset)
  have "?f i \<in> set (full_charset opts)" for i
    using charsets_nonempty required_in_charset pick_in by (metis nth_mem subsetD)
  then have s: "set (generate_password opts rs) \<subseteq> set (full_charset opts)" unfolding set set_map by blast
  have "\<exists>c\<in>set (generate_password opts rs). c \<in> set cs" if mem: "cs \<in> set ?req" for cs
  proof -
    obtain i where i: "i < length ?req" "?req ! i = cs" using mem by (auto simp: in_set_conv_nth)
    then have "?f i \<in> set ?chosen" using four by (auto simp: password_length_def)
    moreover have "?f i \<in> set cs" using i charsets_nonempty(1) [OF mem] pick_in by simp
    ultimately show ?thesis unfolding set by blast
  qed
  then show ?thesis using l s by (simp add: list_all_iff list_ex_iff)
qed


subsection \<open>What is saved is loaded\<close>

definition pw_ok :: "pw_env \<Rightarrow> bool" where
  "pw_ok env = (pw_web env \<and> pw_storage env \<and>
     (case crypto_of env of None \<Rightarrow> True | Some w \<Rightarrow> pbkdf2_documented w \<and> gcm_documented w))"

lemma line_break_hex: "d < 16 \<Longrightarrow> \<not> line_break (hex_digit d)"
  using hex_digit_cases [of d] by (auto simp: line_break_def is_space_def)

lemma dot_pairs_hex: "dot_pairs (bytes_to_hex bs) = map byte_hex bs"
proof (induction bs)
  case (Cons b bs)
  have "unat b div 16 < 16" using byte_less [of b] by linarith
  then show ?case using Cons
    by (simp add: bytes_to_hex_def byte_hex_def line_break_hex)
qed (simp add: bytes_to_hex_def)

lemma legacy_btoa: "legacy_text (btoa (map (\<lambda>c. of_nat (code c)) s)) = s"
proof -
  have "char_of (unat (of_nat (code c) :: byte)) = c" for c
  proof -
    have "code c < 256" by (simp add: code_def)
    then show ?thesis by (simp add: unat_of_nat code_def)
  qed
  then show ?thesis by (simp add: legacy_text_def o_def)
qed

lemma derived_key_length:
  assumes "pw_ok env" and "get_derived_key env = Some (w, k)"
  shows "length k = 32" and "gcm_documented w"
proof -
  have w: "crypto_of env = Some w" "wc_pbkdf2 w (utf8_encode ''usbvault-password-manager-key-v1'')
      (utf8_encode ''usbvault-pw-salt'') 100000 256 = Some k"
    using assms by (auto simp: get_derived_key_def pw_ok_def split: option.splits if_splits)
  then have "pbkdf2_documented w" using assms(1) by (simp add: pw_ok_def)
  then obtain d where "wc_pbkdf2 w (utf8_encode ''usbvault-password-manager-key-v1'')
      (utf8_encode ''usbvault-pw-salt'') 100000 256 = Some d" "length d = 256 div 8" by (rule pbkdf2_documentedE)
  then show "length k = 32" using w(2) by simp
  show "gcm_documented w" using assms(1) w(1) by (simp add: pw_ok_def)
qed

lemma decrypt_encrypt:
  assumes "pw_ok env" and "length iv = 12" and "s \<noteq> []"
  obtains t where "encrypt_data env iv s = Some t" and "t \<noteq> []" and "decrypt_data env t = Inr s"
proof (cases "get_derived_key env")
  case None
  have "btoa (map (\<lambda>c. of_nat (code c)) s) \<noteq> []"
    using legacy_btoa [of s] assms(3) by (auto simp: legacy_text_def atob_def strip_padding_def)
  then show ?thesis using that None by (simp add: encrypt_data_def decrypt_data_def legacy_btoa)
next
  case (Some p)
  obtain w k where p: "get_derived_key env = Some (w, k)" using Some by (cases p) auto
  note k = derived_key_length [OF assms(1) p]
  obtain c where c: "wc_seal w k iv (utf8_encode s) = Some c" "wc_open w k iv c = Some (utf8_encode s)"
    using gcm_documentedE [OF k(2,1) assms(2)] by metis
  have "map (\<lambda>b. to_uint8 (parse_int16 b)) (dot_pairs (bytes_to_hex (iv @ c))) = iv @ c"
    by (simp add: dot_pairs_hex o_def)
  moreover have "iv \<noteq> []" using assms(2) by auto
  ultimately have "decrypt_data env (bytes_to_hex (iv @ c)) = Inr s"
    using assms(2) by (simp add: decrypt_data_def p c Let_def)
  moreover have "iv @ c \<noteq> []" using assms(2) by auto
  ultimately show ?thesis using that [of "bytes_to_hex (iv @ c)"]
    by (simp add: encrypt_data_def p c bytes_to_hex_Nil_iff del: append_is_Nil_conv)
qed

lemma load_save:
  assumes "pw_ok env" and "length iv = 12" and "plain_json v"
  shows "load_entries env (save_entries env iv v slot) = Inr v"
proof -
  have "json_print v \<noteq> []" by (rule json_print_nonempty [OF assms(3)])
  then obtain t where "encrypt_data env iv (json_print v) = Some t" "t \<noteq> []" "decrypt_data env t = Inr (json_print v)"
    using decrypt_encrypt [OF assms(1,2)] by metis
  then show ?thesis using assms(1) json_roundtrip [OF assms(3)]
    by (simp add: load_entries_def save_entries_def pw_ok_def)
qed

definition holds :: "pw_env \<Rightarrow> string option \<Rightarrow> password_entry list \<Rightarrow> bool" where
  "holds env slot es = (load_entries env slot = Inr (JArray (map entry_json es)))"

lemma plain_entries [simp]: "plain_json (JArray (map entry_json es))"
  by (simp add: list_all_iff entry_json_def entry_pairs_def)

lemma holds_saved:
  assumes "pw_ok env" and "length iv = 12"
  shows "holds env (save_entries env iv (JArray (map entry_json es)) slot) es"
  using load_save [OF assms plain_entries] by (simp add: holds_def)

subsection \<open>The operations on a list of entries\<close>

definition or_else :: "'a option \<Rightarrow> 'a \<Rightarrow> 'a" where
  "or_else x d = (case x of None \<Rightarrow> d | Some a \<Rightarrow> a)"

definition apply_updates :: "updates \<Rightarrow> string \<Rightarrow> password_entry \<Rightarrow> password_entry" where
  "apply_updates u now e = e\<lparr>title := or_else (u_title u) (title e), username := or_else (u_username u) (username e),
     password := or_else (u_password u) (password e), url := or_else (u_url u) (url e),
     category := or_else (u_category u) (category e), strength := or_else (u_strength u) (strength e),
     last_modified := now\<rparr>"

fun list_op :: "pw_op \<Rightarrow> password_entry list \<Rightarrow> pw_reply \<times> password_entry list" where
  "list_op (AddOp i now d) es = (Added (new_entry i now d), new_entry i now d # es)"
| "list_op (UpdateOp i now u) es =
     (case find_index (\<lambda>e. entry_id e = i) es of
        None \<Rightarrow> (Updated None, es)
      | Some k \<Rightarrow> (Updated (Some (entry_json (apply_updates u now (es ! k)))), es[k := apply_updates u now (es ! k)]))"
| "list_op (DeleteOp i) es =
     (Deleted (list_ex (\<lambda>e. entry_id e = i) es), filter (\<lambda>e. entry_id e \<noteq> i) es)"

lemma has_id_entry [simp]: "has_id i (entry_json e) = Inr (entry_id e = i)"
  by (simp add: has_id_def entry_json_def entry_pairs_def ls_get_def)

lemma index_of_entries: "index_of_id i (map entry_json es) = Inr (find_index (\<lambda>e. entry_id e = i) es)"
  by (induction es) simp_all

lemma without_entries: "without_id i (map entry_json es) = Inr (map entry_json (filter (\<lambda>e. entry_id e \<noteq> i) es))"
  by (induction es) simp_all

definition put_field :: "string \<Rightarrow> string option \<Rightarrow> (string \<times> json_value) list \<Rightarrow> (string \<times> json_value) list" where
  "put_field k v ms = (case v of None \<Rightarrow> ms | Some t \<Rightarrow> ls_set k (JString t) ms)"

lemma fold_update_pairs:
  "fold (\<lambda>(k, t). ls_set k (JString t)) (update_pairs u) ms =
     put_field ''strength'' (map_option strength_text (u_strength u)) (put_field ''category'' (u_category u)
       (put_field ''url'' (u_url u) (put_field ''password'' (u_password u)
       (put_field ''username'' (u_username u) (put_field ''title'' (u_title u) ms)))))"
proof -
  have step: "fold (\<lambda>(k, t). ls_set k (JString t)) (case v of None \<Rightarrow> [] | Some t \<Rightarrow> [(k, t)]) ms = put_field k v ms"
    for k v ms by (simp add: put_field_def split: option.split)
  show ?thesis
    by (cases "u_strength u") (simp_all add: update_pairs_def step put_field_def [of "''strength''"])
qed

lemma put_entry_field:
  "put_field ''title'' t (entry_pairs e) = entry_pairs (e\<lparr>title := or_else t (title e)\<rparr>)"
  "put_field ''username'' t (entry_pairs e) = entry_pairs (e\<lparr>username := or_else t (username e)\<rparr>)"
  "put_field ''password'' t (entry_pairs e) = entry_pairs (e\<lparr>password := or_else t (password e)\<rparr>)"
  "put_field ''url'' t (entry_pairs e) = entry_pairs (e\<lparr>url := or_else t (url e)\<rparr>)"
  "put_field ''category'' t (entry_pairs e) = entry_pairs (e\<lparr>category := or_else t (category e)\<rparr>)"
  "put_field ''strength'' (map_option strength_text g) (entry_pairs e) = entry_pairs (e\<lparr>strength := or_else g (strength e)\<rparr>)"
  by (auto simp: put_field_def or_else_def entry_pairs_def split: option.split)

lemma merged_entry: "merged u now (entry_json e) = entry_json (apply_updates u now e)"
proof -
  have "ls_set ''lastModified'' (JString now) (entry_pairs f) = entry_pairs (f\<lparr>last_modified := now\<rparr>)" for f
    by (simp add: entry_pairs_def)
  then show ?thesis
    by (simp add: merged_def entry_json_def fold_update_pairs put_entry_field apply_updates_def)
qed

lemma change_entries:
  "pw_change p (map entry_json es) = Inr (fst (list_op p es),
     if snd (list_op p es) = es \<and> (\<forall>i now d. p \<noteq> AddOp i now d) \<and> fst (list_op p es) \<in> {Updated None, Deleted False}
     then None else Some (map entry_json (snd (list_op p es))))"
proof (cases p)
  case (AddOp i now d)
  then show ?thesis by (simp add: Let_def)
next
  case (UpdateOp i now u)
  then show ?thesis
    by (auto simp: index_of_entries merged_entry map_update Let_def dest: find_index_Some split: option.split)
next
  case (DeleteOp i)
  show ?thesis
  proof (cases "list_ex (\<lambda>e. entry_id e = i) es")
    case True
    then obtain e where "e \<in> set es" "\<not> entry_id e \<noteq> i" by (auto simp: list_ex_iff)
    then have "length (filter (\<lambda>e. entry_id e \<noteq> i) es) < length es" by (rule length_filter_less)
    then show ?thesis using DeleteOp True by (simp add: without_entries)
  next
    case False
    then have "filter (\<lambda>e. entry_id e \<noteq> i) es = es" by (simp add: list_ex_iff filter_id_conv)
    then show ?thesis using DeleteOp False by (simp add: without_entries)
  qed
qed


subsection \<open>Properties\<close>

fun pw_runs :: "pw_env \<Rightarrow> (bytes \<times> pw_op) list \<Rightarrow> string option \<Rightarrow> (pw_error + pw_reply) list \<times> string option" where
  "pw_runs env [] slot = ([], slot)"
| "pw_runs env ((iv, p) # ps) slot =
     (let (r, slot1) = pw_run env iv p slot; (rs, slot2) = pw_runs env ps slot1 in (r # rs, slot2))"

fun list_ops :: "pw_op list \<Rightarrow> password_entry list \<Rightarrow> pw_reply list \<times> password_entry list" where
  "list_ops [] es = ([], es)"
| "list_ops (p # ps) es =
     (let (r, es1) = list_op p es; (rs, es2) = list_ops ps es1 in (r # rs, es2))"

lemma work_entries: "holds env slot es \<Longrightarrow> pw_work env p slot = pw_change p (map entry_json es)"
  by (simp add: pw_work_def holds_def)

lemma run_entries:
  assumes "pw_ok env" and "length iv = 12" and "holds env slot es"
  shows "fst (pw_run env iv p slot) = Inr (fst (list_op p es)) \<and> holds env (snd (pw_run env iv p slot)) (snd (list_op p es))"
  using assms(3) holds_saved [OF assms(1,2), of "snd (list_op p es)" slot]
  by (auto simp: pw_run_def work_entries [OF assms(3)] change_entries)

lemma runs_entries:
  assumes "pw_ok env" and "\<forall>(iv, p)\<in>set ps. length iv = 12" and "holds env slot es"
  shows "fst (pw_runs env ps slot) = map Inr (fst (list_ops (map snd ps) es)) \<and>
    holds env (snd (pw_runs env ps slot)) (snd (list_ops (map snd ps) es))"
  using assms(2,3)
proof (induction ps arbitrary: slot es)
  case (Cons q ps)
  obtain iv p where q: "q = (iv, p)" by (cases q)
  have "fst (pw_run env iv p slot) = Inr (fst (list_op p es)) \<and> holds env (snd (pw_run env iv p slot)) (snd (list_op p es))"
    by (rule run_entries) (use assms(1) Cons.prems q in auto)
  with Cons.IH [of "snd (pw_run env iv p slot)" "snd (list_op p es)"] Cons.prems(1)
  show ?case by (simp add: q split_beta Let_def)
qed simp

text \<open>
  C11: the encrypted slot refines a list: from a slot that holds the entries \<open>es\<close>, any sequence of
  adds, updates and deletes, one after the other, replies what the list operations reply and leaves
  a slot that holds the list they leave. Encryption, hexadecimal or base64, UTF-8 and JSON lose
  nothing on the way.
\<close>

theorem password_list_refines:
  assumes "pw_ok env" and "\<forall>(iv, p)\<in>set ps. length iv = 12" and "holds env slot es"
  shows "fst (pw_runs env ps slot) = map Inr (fst (list_ops (map snd ps) es)) \<and>
    holds env (snd (pw_runs env ps slot)) (snd (list_ops (map snd ps) es))"
  by (rule runs_entries [OF assms])

definition demo_env :: pw_env where
  "demo_env = \<lparr>pw_web = True, pw_storage = True, crypto_of = Some demo_crypto\<rparr>"

lemma demo_ok: "pw_ok demo_env"
  by (simp add: pw_ok_def demo_env_def demo_pbkdf2 demo_gcm)

definition demo_draft :: "string \<Rightarrow> draft" where
  "demo_draft t = \<lparr>d_title = t, d_username = ''bob'', d_password = ''pw'', d_url = ''m.org'', d_category = [],
     d_strength = WeakPw\<rparr>"

lemma holds_none: "pw_ok env \<Longrightarrow> holds env None []"
  by (simp add: holds_def load_entries_def)

theorem password_list_refines_witness:
  "fst (pw_runs demo_env [(replicate 12 1, AddOp ''a'' ''t'' (demo_draft ''Mail'')),
      (replicate 12 2, AddOp ''b'' ''t'' (demo_draft ''Bank'')), (replicate 12 3, DeleteOp ''a'')] None) =
     [Inr (Added (new_entry ''a'' ''t'' (demo_draft ''Mail''))), Inr (Added (new_entry ''b'' ''t'' (demo_draft ''Bank''))),
      Inr (Deleted True)] \<and>
   holds demo_env (snd (pw_runs demo_env [(replicate 12 1, AddOp ''a'' ''t'' (demo_draft ''Mail'')),
      (replicate 12 2, AddOp ''b'' ''t'' (demo_draft ''Bank'')), (replicate 12 3, DeleteOp ''a'')] None))
     [new_entry ''b'' ''t'' (demo_draft ''Bank'')]"
  using password_list_refines [OF demo_ok _ holds_none [OF demo_ok], of
      "[(replicate 12 1, AddOp ''a'' ''t'' (demo_draft ''Mail'')),
        (replicate 12 2, AddOp ''b'' ''t'' (demo_draft ''Bank'')), (replicate 12 3, DeleteOp ''a'')]"]
  by (simp add: Let_def new_entry_def del: pw_runs.simps)

text \<open>
  calls that overlap lose updates: of two entries added by calls that both start before either
  has finished, both are reported as added and only the one whose call finishes last is stored.
\<close>

theorem overlapping_adds_lose:
  assumes "pw_ok env" and "length iv = 12" and "length iv' = 12" and "pw_calls s = []" and "holds env (pw_slot s) es"
  shows "\<exists>t. run (pw_step env) [Begin (AddOp i now d), Begin (AddOp j now' d'), Finish 0 iv, Finish 0 iv'] s = Some t \<and>
    pw_replies t = pw_replies s @ [Inr (Added (new_entry i now d)), Inr (Added (new_entry j now' d'))] \<and>
    holds env (pw_slot t) (new_entry j now' d' # es)"
proof -
  have w: "pw_work env (AddOp k n f) (pw_slot s) =
      Inr (Added (new_entry k n f), Some (map entry_json (new_entry k n f # es)))" for k n f
    by (simp add: work_entries [OF assms(5)] change_entries)
  show ?thesis
    using holds_saved [OF assms(1,3), of "new_entry j now' d' # es"]
    by (simp add: w assms(4) splice1_def Let_def)
qed

theorem overlapping_adds_lose_witness:
  "\<exists>t. run (pw_step demo_env) [Begin (AddOp ''a'' [] (demo_draft ''Mail'')), Begin (AddOp ''b'' [] (demo_draft ''Bank'')),
      Finish 0 (replicate 12 1), Finish 0 (replicate 12 2)] \<lparr>pw_slot = None, pw_calls = [], pw_replies = []\<rparr> = Some t \<and>
    length (pw_replies t) = 2 \<and> holds demo_env (pw_slot t) [new_entry ''b'' [] (demo_draft ''Bank'')]"
proof -
  let ?s = "\<lparr>pw_slot = None, pw_calls = [], pw_replies = []\<rparr>"
  have h: "holds demo_env (pw_slot ?s) []" using holds_none [OF demo_ok] by simp
  obtain t where "run (pw_step demo_env) [Begin (AddOp ''a'' [] (demo_draft ''Mail'')), Begin (AddOp ''b'' [] (demo_draft ''Bank'')),
      Finish 0 (replicate 12 1), Finish 0 (replicate 12 2)] ?s = Some t"
    "pw_replies t = pw_replies ?s @ [Inr (Added (new_entry ''a'' [] (demo_draft ''Mail''))), Inr (Added (new_entry ''b'' [] (demo_draft ''Bank'')))]"
    "holds demo_env (pw_slot t) [new_entry ''b'' [] (demo_draft ''Bank'')]"
    using overlapping_adds_lose [OF demo_ok _ _ _ h, of "replicate 12 1" "replicate 12 2" "''a''" "[]" "demo_draft ''Mail''"
        "''b''" "[]" "demo_draft ''Bank''"] by auto
  then show ?thesis by auto
qed


subsubsection \<open>Interleavings never corrupt the list\<close>

definition iv_ok :: "pw_event \<Rightarrow> bool" where
  "iv_ok e = (case e of Begin p \<Rightarrow> True | Finish k iv \<Rightarrow> length iv = 12)"

definition call_ok :: "pw_error + (pw_reply \<times> json_value list option) \<Rightarrow> bool" where
  "call_ok c = (case c of Inl e \<Rightarrow> False
     | Inr (r, vs) \<Rightarrow> (case vs of None \<Rightarrow> True | Some ws \<Rightarrow> ws \<in> range (map entry_json)))"

definition page_readable :: "pw_env \<Rightarrow> pw_page \<Rightarrow> bool" where
  "page_readable env s = (pw_ok env \<and> (\<exists>es. holds env (pw_slot s) es) \<and> list_all call_ok (pw_calls s) \<and>
     list_all (\<lambda>r. \<not> isl r) (pw_replies s))"

lemma splice_all: "list_all P xs \<Longrightarrow> list_all P (splice1 k xs)"
  by (auto simp: list_all_iff splice1_def dest: in_set_takeD in_set_dropD)

lemma begin_readable:
  assumes "page_readable env s" and "pw_step env (Begin p) s = Some t"
  shows "page_readable env t"
proof -
  obtain es where "holds env (pw_slot s) es" using assms(1) by (auto simp: page_readable_def)
  then have "call_ok (pw_work env p (pw_slot s))"
    by (simp add: work_entries change_entries call_ok_def)
  then show ?thesis using assms by (auto simp: page_readable_def)
qed

lemma finish_readable:
  assumes "page_readable env s" and "length iv = 12" and "pw_step env (Finish k iv) s = Some t"
  shows "page_readable env t"
proof -
  have k: "k < length (pw_calls s)" using assms(3) by (auto split: if_splits)
  have ok: "pw_ok env" using assms(1) by (simp add: page_readable_def)
  have "call_ok (pw_calls s ! k)" using assms(1) k by (simp add: page_readable_def list_all_length)
  then obtain r vs where c: "pw_calls s ! k = Inr (r, vs)"
    "vs = None \<or> (\<exists>es. vs = Some (map entry_json es))"
    by (auto simp: call_ok_def split: sum.splits prod.splits option.splits)
  show ?thesis
  proof (cases vs)
    case None
    then have "t = s\<lparr>pw_calls := splice1 k (pw_calls s), pw_replies := pw_replies s @ [Inr r]\<rparr>"
      using assms(3) k c(1) by (simp add: Let_def)
    then show ?thesis using assms(1) by (simp add: page_readable_def splice_all)
  next
    case (Some ws)
    then obtain es where es: "ws = map entry_json es" using c(2) by auto
    have "t = s\<lparr>pw_calls := splice1 k (pw_calls s), pw_replies := pw_replies s @ [Inr r],
        pw_slot := save_entries env iv (JArray (map entry_json es)) (pw_slot s)\<rparr>"
      using assms(3) k c(1) by (simp add: Let_def Some es)
    then show ?thesis using assms(1) holds_saved [OF ok assms(2), of es "pw_slot s"]
      by (auto simp: page_readable_def splice_all)
  qed
qed

interpretation pw: event_system "pw_step env" iv_ok "page_readable env" for env
proof
  fix s e t
  assume s: "page_readable env s" and e: "iv_ok e" and t: "pw_step env e s = Some t"
  show "page_readable env t"
  proof (cases e)
    case (Begin p)
    show ?thesis by (rule begin_readable [OF s t [unfolded Begin]])
  next
    case (Finish k iv)
    then have "length iv = 12" using e by (simp add: iv_ok_def)
    then show ?thesis by (rule finish_readable [OF s _ t [unfolded Finish]])
  qed
qed

text \<open>
  C12: however the calls of the page overlap, the stored text never becomes unreadable and no call
  throws: from a slot that holds a list of entries, every interleaving of starts and ends of adds,
  updates and deletes leaves a slot that holds a list of entries.
\<close>

theorem list_stays_readable:
  assumes "pw_ok env" and "holds env slot es" and "list_all iv_ok events"
    and "run (pw_step env) events \<lparr>pw_slot = slot, pw_calls = [], pw_replies = []\<rparr> = Some t"
  shows "(\<exists>fs. load_entries env (pw_slot t) = Inr (JArray (map entry_json fs))) \<and> list_all (\<lambda>r. \<not> isl r) (pw_replies t)"
proof -
  have "page_readable env \<lparr>pw_slot = slot, pw_calls = [], pw_replies = []\<rparr>"
    using assms(1,2) by (auto simp: page_readable_def)
  from pw.run_inv [OF this assms(3,4)] show ?thesis by (simp add: page_readable_def holds_def)
qed

theorem list_stays_readable_witness:
  "\<exists>t fs. run (pw_step demo_env) [Begin (AddOp ''a'' [] (demo_draft ''Mail'')), Finish 0 (replicate 12 1)]
      \<lparr>pw_slot = None, pw_calls = [], pw_replies = []\<rparr> = Some t \<and>
    load_entries demo_env (pw_slot t) = Inr (JArray (map entry_json fs))"
proof -
  let ?es = "[Begin (AddOp ''a'' [] (demo_draft ''Mail'')), Finish 0 (replicate 12 1)]"
  obtain t where t: "run (pw_step demo_env) ?es \<lparr>pw_slot = None, pw_calls = [], pw_replies = []\<rparr> = Some t"
    by (simp add: Let_def)
  show ?thesis using list_stays_readable [OF demo_ok holds_none [OF demo_ok] _ t] t by (auto simp: iv_ok_def)
qed

subsubsection \<open>An unreadable slot\<close>

text \<open>
  a list that cannot be read is discarded: when the slot's text does not decrypt to a JSON text
  (another key, or a page without WebCrypto), the next added entry is reported as added and the new
  slot is the one an empty list would have got; nothing of the old text is left.
\<close>

theorem unreadable_list_is_replaced:
  assumes "pw_ok env" and "length iv = 12" and "raw \<noteq> []"
    and "decrypt_data env raw = Inr t" and "json_parse t = None"
  shows "fst (add_entry env iv i now d (Some raw)) = Inr (Added (new_entry i now d)) \<and>
    snd (add_entry env iv i now d (Some raw)) = snd (add_entry env iv i now d None) \<and>
    holds env (snd (add_entry env iv i now d (Some raw))) [new_entry i now d]"
proof -
  have l: "load_entries env (Some raw) = Inr (JArray [])" "load_entries env None = Inr (JArray [])"
    using assms by (simp_all add: load_entries_def)
  obtain u where "encrypt_data env iv (json_print (JArray [entry_json (new_entry i now d)])) = Some u"
    using decrypt_encrypt [OF assms(1,2), of "json_print (JArray [entry_json (new_entry i now d)])"] by auto
  then have "save_entries env iv (JArray [entry_json (new_entry i now d)]) slot = Some u" for slot
    using assms(1) by (simp add: save_entries_def pw_ok_def)
  then show ?thesis using holds_saved [OF assms(1,2), of "[new_entry i now d]" "Some raw"]
    by (simp add: add_entry_def pw_run_def pw_work_def l Let_def)
qed

theorem unreadable_list_is_replaced_witness:
  "holds \<lparr>pw_web = True, pw_storage = True, crypto_of = None\<rparr>
     (snd (add_entry \<lparr>pw_web = True, pw_storage = True, crypto_of = None\<rparr> (replicate 12 0) ''a'' [] (demo_draft ''Mail'')
        (Some ''0f3a5''))) [new_entry ''a'' [] (demo_draft ''Mail'')]"
proof -
  let ?env = "\<lparr>pw_web = True, pw_storage = True, crypto_of = None\<rparr>"
  have "decrypt_data ?env ''0f3a5'' = Inr ''0f3a5''" "json_parse ''0f3a5'' = None" by code_simp+
  moreover have "pw_ok ?env" by (simp add: pw_ok_def)
  ultimately show ?thesis
    using unreadable_list_is_replaced [of ?env "replicate 12 0" "''0f3a5''" "''0f3a5''" "''a''" "[]" "demo_draft ''Mail''"]
    unfolding length_replicate by blast
qed


subsection \<open>Importing into the list\<close>

text \<open>
  \<open>performImport\<close> of the hook: the existing entries are loaded, the file is parsed against them, and each
  imported entry is added by its own call. The \<open>k\<close>-th call has the IV \<open>ivs k\<close>, the identifier \<open>ids k\<close>
  and the time \<open>clock k\<close>. A stored document that is not a list of entries is outside the model
  (\<open>NotAList\<close>). The progress state, the audit line and the reload of the screen are left out.
\<close>

definition read_strength :: "string \<Rightarrow> strength option" where
  "read_strength s = (if s = ''Strong'' then Some StrongPw else if s = ''Medium'' then Some MediumPw
     else if s = ''Weak'' then Some WeakPw else None)"

definition text_member :: "string \<Rightarrow> (string \<times> json_value) list \<Rightarrow> string option" where
  "text_member k ms = (case ls_get k ms of Some (JString s) \<Rightarrow> Some s | _ \<Rightarrow> None)"

definition read_entry :: "json_value \<Rightarrow> password_entry option" where
  "read_entry v = (case v of
       JObject ms \<Rightarrow> (case (map (\<lambda>k. text_member k ms)
           [''title'', ''url'', ''username'', ''password'', ''category'', ''createdAt'', ''lastModified'', ''id''],
           Option.bind (text_member ''strength'' ms) read_strength) of
         ([Some t, Some u, Some n, Some p, Some c, Some a, Some l, Some i], Some g) \<Rightarrow>
           Some \<lparr>title = t, url = u, username = n, password = p, category = c, created_at = a, last_modified = l,
             entry_id = i, strength = g\<rparr>
       | _ \<Rightarrow> None)
     | _ \<Rightarrow> None)"

definition draft_of :: "password_entry \<Rightarrow> draft" where
  "draft_of e = \<lparr>d_title = title e, d_username = username e, d_password = password e, d_url = url e,
     d_category = category e, d_strength = strength e\<rparr>"

fun add_imported ::
  "pw_env \<Rightarrow> (nat \<Rightarrow> bytes) \<Rightarrow> (nat \<Rightarrow> string) \<Rightarrow> (nat \<Rightarrow> string) \<Rightarrow> nat \<Rightarrow> password_entry list \<Rightarrow> string option \<Rightarrow>
     (pw_error + unit) \<times> string option" where
  "add_imported env ivs ids clock k [] slot = (Inr (), slot)"
| "add_imported env ivs ids clock k (e # es) slot =
     (case add_entry env (ivs k) (ids k) (clock k) (draft_of e) slot of
        (Inl x, slot1) \<Rightarrow> (Inl x, slot1)
      | (Inr r, slot1) \<Rightarrow> add_imported env ivs ids clock (Suc k) es slot1)"

definition perform_import ::
  "pw_env \<Rightarrow> (string \<Rightarrow> kp_doc option) \<Rightarrow> string \<Rightarrow> (nat \<Rightarrow> string) \<Rightarrow> (nat \<Rightarrow> bytes) \<Rightarrow> (nat \<Rightarrow> string) \<Rightarrow> (nat \<Rightarrow> string) \<Rightarrow>
     string \<Rightarrow> import_format \<Rightarrow> string option \<Rightarrow> (pw_error + import_result) \<times> string option" where
  "perform_import env parse_doc now gen ivs ids clock content format slot =
     (case attempt (load_entries env slot) (\<lambda>v. case v of
          JArray vs \<Rightarrow> or_throw NotAList (those (map read_entry vs)) | _ \<Rightarrow> Inl NotAList) of
        Inl e \<Rightarrow> (Inl e, slot)
      | Inr existing \<Rightarrow>
          let result = fst (import_passwords parse_doc now gen content format existing) in
          (case add_imported env ivs ids clock 0 (entries result) slot of
             (Inl e, slot1) \<Rightarrow> (Inl e, slot1)
           | (Inr _, slot1) \<Rightarrow> (Inr result, slot1)))"

lemma read_entry_json [simp]: "read_entry (entry_json e) = Some e"
  by (cases e; cases "strength e")
    (simp_all add: read_entry_def entry_json_def entry_pairs_def text_member_def ls_get_def strength_text_def read_strength_def)

lemma read_entries: "those (map (read_entry \<circ> entry_json) es) = Some es"
  by (induction es) simp_all

fun stored_from :: "(nat \<Rightarrow> string) \<Rightarrow> (nat \<Rightarrow> string) \<Rightarrow> nat \<Rightarrow> password_entry list \<Rightarrow> password_entry list" where
  "stored_from ids clock k [] = []"
| "stored_from ids clock k (e # es) = new_entry (ids k) (clock k) (draft_of e) # stored_from ids clock (Suc k) es"

lemma add_imported_holds:
  assumes "pw_ok env" and "\<forall>k. length (ivs k) = 12" and "holds env slot fs"
  shows "\<exists>slot'. add_imported env ivs ids clock k es slot = (Inr (), slot') \<and>
    holds env slot' (rev (stored_from ids clock k es) @ fs)"
  using assms(3)
proof (induction es arbitrary: k slot fs)
  case (Cons e es)
  let ?e = "new_entry (ids k) (clock k) (draft_of e)"
  from run_entries [OF assms(1) spec [OF assms(2)] Cons.prems, of k "AddOp (ids k) (clock k) (draft_of e)"]
  obtain slot1 where s: "add_entry env (ivs k) (ids k) (clock k) (draft_of e) slot = (Inr (Added ?e), slot1)"
    "holds env slot1 (?e # fs)"
    by (cases "pw_run env (ivs k) (AddOp (ids k) (clock k) (draft_of e)) slot") (auto simp: add_entry_def)
  from Cons.IH [OF s(2), of "Suc k"] show ?case by (simp add: s(1))
qed simp

lemma stored_keys: "map login_key (stored_from ids clock k es) = map login_key es"
  by (induction es arbitrary: k) (simp_all add: login_key_def new_entry_def draft_of_def)

lemma import_holds:
  assumes "pw_ok env" and "\<forall>k. length (ivs k) = 12" and "holds env slot es"
    and "r = fst (import_passwords parse_doc now gen content format es)"
  shows "\<exists>slot'. perform_import env parse_doc now gen ivs ids clock content format slot = (Inr r, slot') \<and>
    holds env slot' (rev (stored_from ids clock 0 (entries r)) @ es)"
proof -
  obtain slot' where "add_imported env ivs ids clock 0 (entries r) slot = (Inr (), slot')"
    "holds env slot' (rev (stored_from ids clock 0 (entries r)) @ es)"
    using add_imported_holds [OF assms(1-3), of ids clock 0 "entries r"] by auto
  then show ?thesis
    using assms(3) by (simp add: perform_import_def holds_def read_entries assms(4) Let_def)
qed

text \<open>
  import and list fit together: importing a file into a list adds exactly the imported entries, in
  front and in reverse order, and importing the same file again, whenever, imports nothing and leaves
  the stored text as it is.
\<close>

theorem import_twice:
  assumes "pw_ok env" and "\<forall>k. length (ivs k) = 12" and "holds env slot es"
    and "perform_import env parse_doc now gen ivs ids clock content format slot = (res, slot1)"
    and "perform_import env parse_doc now' gen' ivs ids' clock' content format slot1 = (res', slot2)"
  shows "\<exists>r r'. res = Inr r \<and> holds env slot1 (rev (stored_from ids clock 0 (entries r)) @ es) \<and>
    res' = Inr r' \<and> entries r' = [] \<and> slot2 = slot1"
proof -
  define r where "r = fst (import_passwords parse_doc now gen content format es)"
  let ?es = "rev (stored_from ids clock 0 (entries r)) @ es"
  define r' where "r' = fst (import_passwords parse_doc now' gen' content format ?es)"
  have one: "res = Inr r" "holds env slot1 ?es"
    using import_holds [OF assms(1-3) r_def, where ids = ids and clock = clock] assms(4) by auto
  have "login_key ` set (stored_from ids clock 0 (entries r)) = login_key ` set (entries r)"
    by (metis stored_keys image_set)
  then have "entries r' = []"
    unfolding r'_def by (intro reimport_empty [of es parse_doc now gen]) (simp add: image_Un r_def [symmetric])
  then have "res' = Inr r' \<and> slot2 = slot1"
    using assms(5) one(2) by (simp add: perform_import_def holds_def read_entries r'_def Let_def flip: map_append)
  then show ?thesis using one \<open>entries r' = []\<close> by blast
qed


theorem import_twice_witness:
  "\<exists>r slot1 r' slot2. perform_import demo_env (\<lambda>_. None) [] (\<lambda>_. ''x'') (\<lambda>_. replicate 12 1) (\<lambda>_. ''a'') (\<lambda>_. [])
      (chrome_print [newline_char] [sample_login ''Mail'' ''m.org'']) Chrome None = (Inr r, slot1) \<and>
    length (entries r) = 1 \<and>
    perform_import demo_env (\<lambda>_. None) [] (\<lambda>_. ''y'') (\<lambda>_. replicate 12 1) (\<lambda>_. ''b'') (\<lambda>_. [])
      (chrome_print [newline_char] [sample_login ''Mail'' ''m.org'']) Chrome slot1 = (Inr r', slot2) \<and>
    entries r' = [] \<and> slot2 = slot1"
proof -
  let ?file = "chrome_print [newline_char] [sample_login ''Mail'' ''m.org'']"
  let ?first = "perform_import demo_env (\<lambda>_. None) [] (\<lambda>_. ''x'') (\<lambda>_. replicate 12 1) (\<lambda>_. ''a'') (\<lambda>_. []) ?file Chrome None"
  let ?second = "perform_import demo_env (\<lambda>_. None) [] (\<lambda>_. ''y'') (\<lambda>_. replicate 12 1) (\<lambda>_. ''b'') (\<lambda>_. []) ?file Chrome (snd ?first)"
  have iv: "\<forall>k :: nat. length (replicate 12 (1 :: byte)) = 12" by simp
  have "length (entries (fst (import_passwords (\<lambda>_. None) [] (\<lambda>_. ''x'') ?file Chrome []))) = 1" by code_simp
  moreover have "\<exists>s. ?first = (Inr (fst (import_passwords (\<lambda>_. None) [] (\<lambda>_. ''x'') ?file Chrome [])), s)"
    using import_holds [OF demo_ok iv holds_none [OF demo_ok] HOL.refl] by blast
  moreover obtain r r' where "fst ?first = Inr r" "fst ?second = Inr r'" "entries r' = []" "snd ?second = snd ?first"
    using import_twice [OF demo_ok iv holds_none [OF demo_ok], of "\<lambda>_. None" "[]" "\<lambda>_. ''x''" "\<lambda>_. ''a''" "\<lambda>_. []" ?file Chrome
        "fst ?first" "snd ?first" "[]" "\<lambda>_. ''y''" "\<lambda>_. ''b''" "\<lambda>_. []" "fst ?second" "snd ?second"]
    by (auto simp del: perform_import_def)
  ultimately show ?thesis by (metis prod.collapse fst_conv snd_conv sum.inject(2))
qed

end
