(* ===== verification/Sync_Service.thy ===== *)
theory Sync_Service
  imports Event_System
begin

text \<open>
  \<open>services/syncService.ts\<close>: the WebSocket transport with its queue, reconnection and heartbeat. The
  state holds the fields of the singleton, the queue's storage slot, and the outside world it acts
  on: the sockets created so far with their ready state, what was sent on each, and which timers are
  pending. Events are the calls of clients, the callbacks of sockets, timers and network, and the
  resumption of \<open>processQueue\<close> after an \<open>await\<close>. Timers fire in the order of their due times, so the pong
  timer (10 s) of a ping is gone before the next ping (25 s). The constructor of \<open>WebSocket\<close> may throw
  (an argument). Listeners and the event callback are opaque; what they are called with is recorded.
\<close>

subsection \<open>Types\<close>

datatype sync_status = Synced | SPending | Conflict | SError

datatype item_type = ShareItem | MessageItem | ShareAccept | ShareRevoke | MessageRead

record sync_event =
  ev_type :: string
  ev_data :: string
  ev_nonce :: string
  ev_sequence :: "int option"

datatype payload = Sealed string string string | Legacy string

record queue_item =
  qi_id :: string
  qi_type :: item_type
  qi_payload :: payload
  qi_created :: string
  qi_retries :: nat
  qi_status :: sync_status
  qi_error :: "string option"

record sync_state =
  st_last_sync :: "string option"
  st_pending :: nat
  st_online :: bool
  st_syncing :: bool
  st_connected :: bool

datatype client_message = MPing | MSync sync_event | MReplay int

text \<open>A server message as parsed; \<open>BadMessage\<close> is a text that is no JSON.\<close>

datatype server_message =
    SPong
  | SSync "sync_event option" "sync_event option option"
  | SReplayComplete
  | SServerError
  | SUnknown
  | BadMessage

datatype ready_state = Connecting | Open | Closing | Closed

record reconnect_config =
  initial_delay :: nat
  max_delay :: nat
  multiplier :: nat
  jitter_factor :: rat
  max_attempts :: "nat option"

text \<open>\<open>None\<close> for \<open>Infinity\<close>.\<close>

definition DEFAULT_RECONNECT :: reconnect_config where
  "DEFAULT_RECONNECT = \<lparr>initial_delay = 1000, max_delay = 60000, multiplier = 2, jitter_factor = 3 / 10,
     max_attempts = None\<rparr>"

definition MAX_RETRIES :: nat where "MAX_RETRIES = 5"

text \<open>\<open>u\<close> is the value of \<open>Math.random\<close>; the product is taken exactly.\<close>

definition compute_backoff :: "nat \<Rightarrow> reconnect_config \<Rightarrow> rat \<Rightarrow> int" where
  "compute_backoff n cfg u =
     (let base = min (of_nat (initial_delay cfg * multiplier cfg ^ n)) (of_nat (max_delay cfg));
          jitter = base * jitter_factor cfg * (2 * u - 1)
      in max 0 (js_round (base + jitter)))"

subsection \<open>State\<close>

datatype queue_slot = QueueDoc "queue_item list" | QueueGarbage

record sync_flush =
  fl_queue :: "queue_item list"
  fl_item :: nat
  fl_sent :: bool
  fl_rest :: "nat list"

record sync =
  network_up :: bool
  is_syncing :: bool
  sync_listeners :: "nat list"
  online_handler :: bool
  cur_ws :: "nat option"
  ws_url :: "string option"
  auth_token :: "string option"
  ws_connected :: bool
  last_sequence :: int
  reconnect_attempt :: nat
  reconnect_timer :: "int option"
  intentional_close :: bool
  ping_interval :: bool
  pong_timer :: bool
  last_pong_at :: nat
  has_callback :: bool
  in_flight :: "sync_flush option"
  queue_store :: "queue_slot option"
  state_store :: "string option"
  persists :: bool
  sockets :: "ready_state list"
  wire_log :: "(nat \<times> client_message) list"
  arrived :: "sync_event list"
  notified :: "(nat \<times> sync_state) list"

definition socket_is :: "sync \<Rightarrow> ready_state \<Rightarrow> nat option \<Rightarrow> bool" where
  "socket_is s r w = (case w of None \<Rightarrow> False | Some k \<Rightarrow> k < length (sockets s) \<and> sockets s ! k = r)"

text \<open>\<open>WebSocket.send\<close>: throws while connecting, drops the data silently when closing or closed.\<close>

definition ws_send :: "client_message \<Rightarrow> sync \<Rightarrow> bool \<times> sync" where
  "ws_send msg s = (case cur_ws s of
       None \<Rightarrow> (True, s)
     | Some k \<Rightarrow>
         if socket_is s Connecting (Some k) then (False, s)
         else if socket_is s Open (Some k) then (True, s\<lparr>wire_log := wire_log s @ [(k, msg)]\<rparr>)
         else (True, s))"

text \<open>\<open>WebSocket.close\<close>.\<close>

definition ws_close :: "nat \<Rightarrow> sync \<Rightarrow> sync" where
  "ws_close k s = (if socket_is s Connecting (Some k) \<or> socket_is s Open (Some k)
     then s\<lparr>sockets := (sockets s)[k := Closing]\<rparr> else s)"

subsection \<open>Storage and sync_listeners\<close>

definition load_sync_queue :: "sync \<Rightarrow> queue_item list" where
  "load_sync_queue s = (if persists s then (case queue_store s of Some (QueueDoc q) \<Rightarrow> q | _ \<Rightarrow> []) else [])"

definition save_sync_queue :: "queue_item list \<Rightarrow> sync \<Rightarrow> sync" where
  "save_sync_queue q s = (if persists s then s\<lparr>queue_store := Some (QueueDoc (last_n 200 q))\<rparr> else s)"

definition get_last_sync :: "sync \<Rightarrow> string option" where
  "get_last_sync s = (if persists s then state_store s else None)"

definition update_last_sync :: "string \<Rightarrow> sync \<Rightarrow> sync" where
  "update_last_sync now s = (if persists s then s\<lparr>state_store := Some now\<rparr> else s)"

definition unsent :: "queue_item \<Rightarrow> bool" where
  "unsent i = (qi_status i = SPending \<or> qi_status i = SError)"

definition get_sync_state :: "sync \<Rightarrow> sync_state" where
  "get_sync_state s = \<lparr>st_last_sync = get_last_sync s, st_pending = length (filter unsent (load_sync_queue s)),
     st_online = network_up s, st_syncing = is_syncing s, st_connected = ws_connected s\<rparr>"

definition get_queue_items :: "item_type option \<Rightarrow> sync \<Rightarrow> queue_item list" where
  "get_queue_items t s = (case t of None \<Rightarrow> load_sync_queue s | Some ty \<Rightarrow> filter (\<lambda>i. qi_type i = ty) (load_sync_queue s))"

definition notify_sync :: "sync \<Rightarrow> sync" where
  "notify_sync s = s\<lparr>notified := notified s @ map (\<lambda>l. (l, get_sync_state s)) (sync_listeners s)\<rparr>"

definition clear_synced :: "sync \<Rightarrow> sync" where
  "clear_synced s = notify_sync (save_sync_queue (filter (\<lambda>i. qi_status i \<noteq> Synced) (load_sync_queue s)) s)"

definition sync_subscribe :: "nat \<Rightarrow> sync \<Rightarrow> sync" where
  "sync_subscribe l s = s\<lparr>sync_listeners := sync_listeners s @ [l]\<rparr>"

definition sync_unsubscribe :: "nat \<Rightarrow> sync \<Rightarrow> sync" where
  "sync_unsubscribe l s = s\<lparr>sync_listeners := filter (\<lambda>x. x \<noteq> l) (sync_listeners s)\<rparr>"

definition get_reconnect_info :: "sync \<Rightarrow> nat \<times> nat option \<times> bool \<times> nat" where
  "get_reconnect_info s = (reconnect_attempt s, max_attempts DEFAULT_RECONNECT, ws_connected s, last_pong_at s)"

subsection \<open>Timers\<close>

definition clear_reconnect_timer :: "sync \<Rightarrow> sync" where
  "clear_reconnect_timer s = s\<lparr>reconnect_timer := None\<rparr>"

definition schedule_reconnect :: "int \<Rightarrow> sync \<Rightarrow> sync" where
  "schedule_reconnect delay s = (clear_reconnect_timer s)\<lparr>reconnect_timer := Some delay\<rparr>"

definition handle_disconnect :: "rat \<Rightarrow> sync \<Rightarrow> sync" where
  "handle_disconnect u s =
     (if intentional_close s then s
      else if (case max_attempts DEFAULT_RECONNECT of None \<Rightarrow> False | Some n \<Rightarrow> reconnect_attempt s \<ge> n) then s
      else schedule_reconnect (compute_backoff (reconnect_attempt s) DEFAULT_RECONNECT u) s)"

definition stop_heartbeat :: "sync \<Rightarrow> sync" where
  "stop_heartbeat s = s\<lparr>ping_interval := False, pong_timer := False\<rparr>"

definition start_heartbeat :: "sync \<Rightarrow> sync" where
  "start_heartbeat s = (stop_heartbeat s)\<lparr>ping_interval := True\<rparr>"

text \<open>The callback of the ping interval.\<close>

definition ping_tick :: "sync \<Rightarrow> sync" where
  "ping_tick s =
     (if \<not> socket_is s Open (cur_ws s) then s
      else case ws_send MPing s of
        (False, s1) \<Rightarrow> s1
      | (True, s1) \<Rightarrow> s1\<lparr>pong_timer := True\<rparr>)"

text \<open>The callback of the pong timer.\<close>

definition pong_timeout :: "sync \<Rightarrow> sync" where
  "pong_timeout s = (case cur_ws s of None \<Rightarrow> s\<lparr>pong_timer := False\<rparr> | Some k \<Rightarrow> ws_close k (s\<lparr>pong_timer := False\<rparr>))"

subsection \<open>The queue\<close>

definition type_upper :: "item_type \<Rightarrow> string" where
  "type_upper t = (case t of ShareItem \<Rightarrow> ''SHARE'' | MessageItem \<Rightarrow> ''MESSAGE'' | ShareAccept \<Rightarrow> ''SHARE_ACCEPT''
     | ShareRevoke \<Rightarrow> ''SHARE_REVOKE'' | MessageRead \<Rightarrow> ''MESSAGE_READ'')"

definition item_message :: "queue_item \<Rightarrow> client_message" where
  "item_message i = MSync (case qi_payload i of
       Sealed ty dat non \<Rightarrow> \<lparr>ev_type = ty, ev_data = dat, ev_nonce = non, ev_sequence = None\<rparr>
     | Legacy _ \<Rightarrow> \<lparr>ev_type = type_upper (qi_type i), ev_data = [], ev_nonce = [], ev_sequence = None\<rparr>)"

text \<open>\<open>_syncItem\<close>; \<open>False\<close>: it throws.\<close>

definition sync_item :: "queue_item \<Rightarrow> sync \<Rightarrow> bool \<times> sync" where
  "sync_item i s = (if \<not> socket_is s Open (cur_ws s) then (False, s) else ws_send (item_message i) s)"

definition item_done :: "bool \<Rightarrow> queue_item \<Rightarrow> queue_item" where
  "item_done ok i = (if ok then i\<lparr>qi_status := Synced\<rparr>
     else i\<lparr>qi_retries := qi_retries i + 1, qi_status := SError, qi_error := Some ''WebSocket not connected''\<rparr>)"

definition item_exhausted :: "queue_item \<Rightarrow> queue_item" where
  "item_exhausted i = i\<lparr>qi_status := SError, qi_error := Some ''Max retries (5) exceeded''\<rparr>"

definition finish_flush :: "string \<Rightarrow> queue_item list \<Rightarrow> sync \<Rightarrow> sync" where
  "finish_flush now q s =
     notify_sync ((update_last_sync now (save_sync_queue q s))\<lparr>is_syncing := False, in_flight := None\<rparr>)"

text \<open>The loop up to the next \<open>await\<close>; the indices stand for the item objects that both arrays share.\<close>

fun flush_loop :: "string \<Rightarrow> queue_item list \<Rightarrow> nat list \<Rightarrow> sync \<Rightarrow> sync" where
  "flush_loop now q [] s = finish_flush now q s"
| "flush_loop now q (i # is) s =
     (if qi_retries (q ! i) \<ge> MAX_RETRIES then flush_loop now (q[i := item_exhausted (q ! i)]) is s
      else case sync_item (q ! i) s of
        (ok, s1) \<Rightarrow> s1\<lparr>in_flight := Some \<lparr>fl_queue = q, fl_item = i, fl_sent = ok, fl_rest = is\<rparr>\<rparr>)"

definition process_sync_queue :: "string \<Rightarrow> sync \<Rightarrow> sync" where
  "process_sync_queue now s =
     (if is_syncing s \<or> \<not> ws_connected s then s
      else let s1 = notify_sync (s\<lparr>is_syncing := True\<rparr>); q = load_sync_queue s1
           in flush_loop now q (filter (\<lambda>i. unsent (q ! i)) [0..<length q]) s1)"

definition flush_step :: "string \<Rightarrow> sync \<Rightarrow> sync option" where
  "flush_step now s = map_option (\<lambda>f.
     flush_loop now ((fl_queue f)[fl_item f := item_done (fl_sent f) (fl_queue f ! fl_item f)]) (fl_rest f)
       (s\<lparr>in_flight := None\<rparr>)) (in_flight s)"

definition sync_enqueue :: "string \<Rightarrow> string \<Rightarrow> item_type \<Rightarrow> payload \<Rightarrow> sync \<Rightarrow> sync" where
  "sync_enqueue i now ty p s =
     (let item = \<lparr>qi_id = i, qi_type = ty, qi_payload = p, qi_created = now, qi_retries = 0, qi_status = SPending,
            qi_error = None\<rparr>;
          s1 = notify_sync (save_sync_queue (load_sync_queue s @ [item]) s)
      in if ws_connected s1 then process_sync_queue now s1 else s1)"

definition send_encrypted_event :: "string \<Rightarrow> string \<Rightarrow> sync_event \<Rightarrow> sync \<Rightarrow> bool \<times> sync" where
  "send_encrypted_event i now e s =
     (if \<not> socket_is s Open (cur_ws s) then (False, sync_enqueue i now MessageItem (Sealed (ev_type e) (ev_data e) (ev_nonce e)) s)
      else ws_send (MSync e) s)"

subsection \<open>Connection\<close>

definition open_web_socket :: "bool \<Rightarrow> rat \<Rightarrow> sync \<Rightarrow> sync" where
  "open_web_socket constructs u s =
     (if ws_url s \<in> {None, Some []} \<or> auth_token s \<in> {None, Some []} then s
      else if \<not> constructs then handle_disconnect u s
      else s\<lparr>sockets := sockets s @ [Connecting], cur_ws := Some (length (sockets s))\<rparr>)"

definition connect :: "string \<Rightarrow> string \<Rightarrow> bool \<Rightarrow> bool \<Rightarrow> rat \<Rightarrow> sync \<Rightarrow> sync" where
  "connect url token callback constructs u s =
     open_web_socket constructs u
       (s\<lparr>ws_url := Some url, auth_token := Some token, has_callback := callback, intentional_close := False,
          reconnect_attempt := 0\<rparr>)"

definition disconnect :: "sync \<Rightarrow> sync" where
  "disconnect s0 =
     (let s1 = stop_heartbeat (clear_reconnect_timer (s0\<lparr>intentional_close := True\<rparr>));
          s2 = (case cur_ws s1 of None \<Rightarrow> s1 | Some k \<Rightarrow> (ws_close k s1)\<lparr>cur_ws := None\<rparr>)
      in notify_sync (s2\<lparr>ws_connected := False\<rparr>))"

definition sync_destroy :: "sync \<Rightarrow> sync" where
  "sync_destroy s = (disconnect s)\<lparr>online_handler := False, sync_listeners := [], has_callback := False\<rparr>"

text \<open>The handlers of socket \<open>k\<close>; they read the service's fields, not their own socket.\<close>

definition on_open :: "string \<Rightarrow> sync \<Rightarrow> sync" where
  "on_open now s =
     (let s1 = notify_sync (start_heartbeat (s\<lparr>ws_connected := True, reconnect_attempt := 0\<rparr>));
          s2 = (if last_sequence s1 > 0 then snd (ws_send (MReplay (last_sequence s1)) s1) else s1)
      in process_sync_queue now s2)"

definition on_close :: "rat \<Rightarrow> sync \<Rightarrow> sync" where
  "on_close u s =
     (let s1 = notify_sync (stop_heartbeat (s\<lparr>ws_connected := False\<rparr>))
      in if \<not> intentional_close s1 then handle_disconnect u s1 else s1)"

definition deliver :: "sync_event \<Rightarrow> sync \<Rightarrow> sync" where
  "deliver e s =
     (let s1 = (case ev_sequence e of None \<Rightarrow> s
          | Some n \<Rightarrow> if n = 0 then s else s\<lparr>last_sequence := max (last_sequence s) n\<rparr>)
      in if has_callback s1 then s1\<lparr>arrived := arrived s1 @ [e]\<rparr> else s1)"

definition handle_server_message :: "nat \<Rightarrow> server_message \<Rightarrow> sync \<Rightarrow> sync" where
  "handle_server_message now m s = (case m of
       SPong \<Rightarrow> s\<lparr>pong_timer := False, last_pong_at := now\<rparr>
     | SSync (Some e) _ \<Rightarrow> deliver e s
     | SSync None (Some (Some e)) \<Rightarrow> deliver e s
     | _ \<Rightarrow> s)"

definition go_online :: "string \<Rightarrow> sync \<Rightarrow> sync" where
  "go_online now s0 =
     (let s = notify_sync (s0\<lparr>network_up := True\<rparr>);
          s1 = (if \<not> ws_connected s \<and> ws_url s \<notin> {None, Some []} then schedule_reconnect 0 s else s)
      in process_sync_queue now s1)"

definition go_offline :: "sync \<Rightarrow> sync" where
  "go_offline s = notify_sync (s\<lparr>network_up := False\<rparr>)"

definition reconnect_fires :: "bool \<Rightarrow> rat \<Rightarrow> sync \<Rightarrow> sync" where
  "reconnect_fires constructs u s =
     open_web_socket constructs u (s\<lparr>reconnect_timer := None, reconnect_attempt := reconnect_attempt s + 1\<rparr>)"

text \<open>A fresh service on a page (or on native, where nothing is persisted).\<close>

definition new_sync :: "bool \<Rightarrow> bool \<Rightarrow> bool \<Rightarrow> queue_slot option \<Rightarrow> sync" where
  "new_sync window online web slot =
     \<lparr>network_up = (window \<longrightarrow> online), is_syncing = False, sync_listeners = [], online_handler = window, cur_ws = None, ws_url = None,
      auth_token = None, ws_connected = False, last_sequence = 0, reconnect_attempt = 0, reconnect_timer = None,
      intentional_close = False, ping_interval = False, pong_timer = False, last_pong_at = 0, has_callback = False,
      in_flight = None, queue_store = slot, state_store = None, persists = web, sockets = [], wire_log = [],
      arrived = [], notified = []\<rparr>"

subsection \<open>Events\<close>

datatype sync_event_kind =
    Connect string string bool bool rat
  | Disconnect
  | Destroy
  | Online string
  | Offline
  | Opened nat string
  | Message nat nat server_message
  | SocketClosed nat rat
  | ReconnectFires bool rat
  | PingTick
  | PongTimeout
  | SendEvent string string sync_event
  | EnqueueItem string string item_type payload
  | ProcessQueue string
  | FlushStep string
  | ClearSynced
  | Subscribe nat
  | Unsubscribe nat

fun sync_step :: "sync_event_kind \<Rightarrow> sync \<Rightarrow> sync option" where
  "sync_step (Connect url tok cb c u) s = Some (connect url tok cb c u s)"
| "sync_step Disconnect s = Some (disconnect s)"
| "sync_step Destroy s = Some (sync_destroy s)"
| "sync_step (Online now) s = (if online_handler s then Some (go_online now s) else None)"
| "sync_step Offline s = (if online_handler s then Some (go_offline s) else None)"
| "sync_step (Opened k now) s =
     (if socket_is s Connecting (Some k) then Some (on_open now (s\<lparr>sockets := (sockets s)[k := Open]\<rparr>)) else None)"
| "sync_step (Message k now m) s =
     (if socket_is s Open (Some k) then Some (handle_server_message now m s) else None)"
| "sync_step (SocketClosed k u) s =
     (if k < length (sockets s) \<and> sockets s ! k \<noteq> Closed then Some (on_close u (s\<lparr>sockets := (sockets s)[k := Closed]\<rparr>))
      else None)"
| "sync_step (ReconnectFires c u) s = (if reconnect_timer s \<noteq> None then Some (reconnect_fires c u s) else None)"
| "sync_step PingTick s = (if ping_interval s \<and> \<not> pong_timer s then Some (ping_tick s) else None)"
| "sync_step PongTimeout s = (if pong_timer s then Some (pong_timeout s) else None)"
| "sync_step (SendEvent i now e) s = Some (snd (send_encrypted_event i now e s))"
| "sync_step (EnqueueItem i now ty p) s = Some (sync_enqueue i now ty p s)"
| "sync_step (ProcessQueue now) s = Some (process_sync_queue now s)"
| "sync_step (FlushStep now) s = flush_step now s"
| "sync_step ClearSynced s = Some (clear_synced s)"
| "sync_step (Subscribe l) s = Some (sync_subscribe l s)"
| "sync_step (Unsubscribe l) s = Some (sync_unsubscribe l s)"

subsection \<open>Frame facts\<close>

lemma sync_notify_simps [simp]:
  "ws_connected (notify_sync s) = ws_connected s" "ping_interval (notify_sync s) = ping_interval s"
  "pong_timer (notify_sync s) = pong_timer s" "is_syncing (notify_sync s) = is_syncing s"
  "in_flight (notify_sync s) = in_flight s" "queue_store (notify_sync s) = queue_store s"
  "persists (notify_sync s) = persists s" "cur_ws (notify_sync s) = cur_ws s" "sockets (notify_sync s) = sockets s"
  "last_sequence (notify_sync s) = last_sequence s" "arrived (notify_sync s) = arrived s"
  "wire_log (notify_sync s) = wire_log s" "intentional_close (notify_sync s) = intentional_close s"
  "ws_url (notify_sync s) = ws_url s" "auth_token (notify_sync s) = auth_token s"
  "reconnect_timer (notify_sync s) = reconnect_timer s" "reconnect_attempt (notify_sync s) = reconnect_attempt s"
  "online_handler (notify_sync s) = online_handler s" "has_callback (notify_sync s) = has_callback s"
  by (simp_all add: notify_sync_def)

lemma sync_save_simps [simp]:
  "ws_connected (save_sync_queue q s) = ws_connected s" "ping_interval (save_sync_queue q s) = ping_interval s"
  "pong_timer (save_sync_queue q s) = pong_timer s" "is_syncing (save_sync_queue q s) = is_syncing s"
  "in_flight (save_sync_queue q s) = in_flight s"
  "persists (save_sync_queue q s) = persists s" "cur_ws (save_sync_queue q s) = cur_ws s" "sockets (save_sync_queue q s) = sockets s"
  "last_sequence (save_sync_queue q s) = last_sequence s" "arrived (save_sync_queue q s) = arrived s"
  "wire_log (save_sync_queue q s) = wire_log s" "intentional_close (save_sync_queue q s) = intentional_close s"
  "ws_url (save_sync_queue q s) = ws_url s" "auth_token (save_sync_queue q s) = auth_token s"
  "reconnect_timer (save_sync_queue q s) = reconnect_timer s" "online_handler (save_sync_queue q s) = online_handler s"
  "has_callback (save_sync_queue q s) = has_callback s"
  by (simp_all add: save_sync_queue_def)

lemma last_sync_simps [simp]:
  "ws_connected (update_last_sync n s) = ws_connected s" "ping_interval (update_last_sync n s) = ping_interval s"
  "pong_timer (update_last_sync n s) = pong_timer s" "queue_store (update_last_sync n s) = queue_store s"
  "persists (update_last_sync n s) = persists s" "cur_ws (update_last_sync n s) = cur_ws s" "sockets (update_last_sync n s) = sockets s"
  "last_sequence (update_last_sync n s) = last_sequence s" "arrived (update_last_sync n s) = arrived s"
  "wire_log (update_last_sync n s) = wire_log s" "intentional_close (update_last_sync n s) = intentional_close s"
  "ws_url (update_last_sync n s) = ws_url s" "auth_token (update_last_sync n s) = auth_token s"
  "reconnect_timer (update_last_sync n s) = reconnect_timer s" "online_handler (update_last_sync n s) = online_handler s"
  "has_callback (update_last_sync n s) = has_callback s"
  by (simp_all add: update_last_sync_def)

lemma load_simps [simp]:
  "load_sync_queue (s\<lparr>network_up := x0\<rparr>) = load_sync_queue s" "load_sync_queue (s\<lparr>is_syncing := x1\<rparr>) = load_sync_queue s"
  "load_sync_queue (s\<lparr>sync_listeners := x2\<rparr>) = load_sync_queue s" "load_sync_queue (s\<lparr>online_handler := x3\<rparr>) = load_sync_queue s"
  "load_sync_queue (s\<lparr>cur_ws := x4\<rparr>) = load_sync_queue s" "load_sync_queue (s\<lparr>ws_url := x5\<rparr>) = load_sync_queue s"
  "load_sync_queue (s\<lparr>auth_token := x6\<rparr>) = load_sync_queue s" "load_sync_queue (s\<lparr>ws_connected := x7\<rparr>) = load_sync_queue s"
  "load_sync_queue (s\<lparr>last_sequence := x8\<rparr>) = load_sync_queue s" "load_sync_queue (s\<lparr>reconnect_attempt := x9\<rparr>) = load_sync_queue s"
  "load_sync_queue (s\<lparr>reconnect_timer := x10\<rparr>) = load_sync_queue s" "load_sync_queue (s\<lparr>intentional_close := x11\<rparr>) = load_sync_queue s"
  "load_sync_queue (s\<lparr>ping_interval := x12\<rparr>) = load_sync_queue s" "load_sync_queue (s\<lparr>pong_timer := x13\<rparr>) = load_sync_queue s"
  "load_sync_queue (s\<lparr>last_pong_at := x14\<rparr>) = load_sync_queue s" "load_sync_queue (s\<lparr>has_callback := x15\<rparr>) = load_sync_queue s"
  "load_sync_queue (s\<lparr>in_flight := x16\<rparr>) = load_sync_queue s" "load_sync_queue (s\<lparr>sockets := x17\<rparr>) = load_sync_queue s"
  "load_sync_queue (s\<lparr>wire_log := x18\<rparr>) = load_sync_queue s" "load_sync_queue (s\<lparr>arrived := x19\<rparr>) = load_sync_queue s"
  "load_sync_queue (s\<lparr>notified := x20\<rparr>) = load_sync_queue s"
  "load_sync_queue (notify_sync s) = load_sync_queue s"
  by (simp_all add: load_sync_queue_def notify_sync_def)

lemma ws_send_frame: "ws_send m s = (ok, t) \<Longrightarrow> \<exists>l. t = s\<lparr>wire_log := l\<rparr>"
  by (cases "cur_ws s") (auto simp: ws_send_def split: if_splits intro: exI [of _ "wire_log s"])

lemma ws_send_snd: "\<exists>l. snd (ws_send m s) = s\<lparr>wire_log := l\<rparr>"
  using ws_send_frame [of m s] by (metis prod.collapse)

lemma sync_item_frame: "sync_item i s = (ok, t) \<Longrightarrow> \<exists>l. t = s\<lparr>wire_log := l\<rparr>"
  by (auto simp: sync_item_def dest: ws_send_frame split: if_splits intro: exI [of _ "wire_log s"])

subsection \<open>The invariant of the service\<close>

definition flush_ok :: "sync_flush option \<Rightarrow> bool" where
  "flush_ok f = (case f of None \<Rightarrow> True
     | Some g \<Rightarrow> fl_item g < length (fl_queue g) \<and> (\<forall>i\<in>set (fl_rest g). i < length (fl_queue g)))"

definition coherent :: "sync \<Rightarrow> bool" where
  "coherent s =
     (ws_connected s = ping_interval s \<and> (pong_timer s \<longrightarrow> ping_interval s) \<and>
      (is_syncing s \<longleftrightarrow> in_flight s \<noteq> None) \<and> flush_ok (in_flight s) \<and>
      length (load_sync_queue s) \<le> 200 \<and>
      (\<forall>k. cur_ws s = Some k \<longrightarrow> k < length (sockets s)) \<and>
      0 \<le> last_sequence s \<and> (\<forall>e\<in>set (arrived s). \<forall>n. ev_sequence e = Some n \<longrightarrow> n \<le> last_sequence s))"

lemma coherent_wire: "coherent (s\<lparr>wire_log := l\<rparr>) = coherent s"
  by (simp add: coherent_def)

lemma coherent_notify [simp]: "coherent (notify_sync s) = coherent s"
  by (simp add: coherent_def)

lemma load_saved: "persists s \<Longrightarrow> load_sync_queue (save_sync_queue q s) = last_n 200 q"
  by (simp add: load_sync_queue_def save_sync_queue_def)

lemma load_native: "\<not> persists s \<Longrightarrow> load_sync_queue s = []"
  by (simp add: load_sync_queue_def)

lemma coherent_save: "coherent s \<Longrightarrow> coherent (save_sync_queue q s)"
  using load_saved [of s q] load_native [of "save_sync_queue q s"] by (cases "persists s") (simp_all add: coherent_def)

lemma flush_loop_coherent:
  assumes "coherent (s\<lparr>is_syncing := False, in_flight := None\<rparr>)" and "is_syncing s"
    and "\<forall>i\<in>set is. i < length q"
  shows "coherent (flush_loop now q is s)"
  using assms(3)
proof (induction "is" arbitrary: q)
  case Nil
  have "coherent (save_sync_queue q (s\<lparr>is_syncing := False, in_flight := None\<rparr>))"
    by (rule coherent_save [OF assms(1)])
  then show ?case
    by (cases "persists s")
      (simp_all add: finish_flush_def coherent_def load_sync_queue_def save_sync_queue_def update_last_sync_def)
next
  case (Cons i "is")
  show ?case
  proof (cases "qi_retries (q ! i) \<ge> MAX_RETRIES")
    case True
    then show ?thesis using Cons by simp
  next
    case False
    obtain ok t where r: "sync_item (q ! i) s = (ok, t)" by (cases "sync_item (q ! i) s")
    then obtain l where t: "t = s\<lparr>wire_log := l\<rparr>" using sync_item_frame by blast
    show ?thesis using assms(1,2) Cons.prems False r
      by (simp add: t coherent_def flush_ok_def)
  qed
qed

lemma process_coherent:
  assumes "coherent s"
  shows "coherent (process_sync_queue now s)"
proof (cases "is_syncing s \<or> \<not> ws_connected s")
  case True
  then show ?thesis using assms by (simp add: process_sync_queue_def)
next
  case False
  let ?s = "notify_sync (s\<lparr>is_syncing := True\<rparr>)"
  have "coherent (?s\<lparr>is_syncing := False, in_flight := None\<rparr>)"
    using assms False by (simp add: coherent_def notify_sync_def)
  then have "coherent (flush_loop now (load_sync_queue ?s)
      (filter (\<lambda>i. unsent (load_sync_queue ?s ! i)) [0..<length (load_sync_queue ?s)]) ?s)"
    by (rule flush_loop_coherent) auto
  then show ?thesis using False by (simp add: process_sync_queue_def Let_def)
qed

lemma flush_step_coherent:
  assumes "coherent s" and "flush_step now s = Some t"
  shows "coherent t"
proof -
  obtain f where f: "in_flight s = Some f" using assms(2) by (auto simp: flush_step_def)
  have t: "t = flush_loop now ((fl_queue f)[fl_item f := item_done (fl_sent f) (fl_queue f ! fl_item f)]) (fl_rest f)
      (s\<lparr>in_flight := None\<rparr>)"
    using assms(2) f by (simp add: flush_step_def)
  have "coherent (s\<lparr>in_flight := None, is_syncing := False, in_flight := None\<rparr>)"
    using assms(1) by (simp add: coherent_def flush_ok_def)
  moreover have "is_syncing s" "\<forall>i\<in>set (fl_rest f). i < length (fl_queue f)"
    using assms(1) f by (simp_all add: coherent_def flush_ok_def)
  ultimately show ?thesis unfolding t by (intro flush_loop_coherent) simp_all
qed

lemma enqueue_coherent: "coherent s \<Longrightarrow> coherent (sync_enqueue i now ty p s)"
  by (simp add: sync_enqueue_def Let_def coherent_save process_coherent)

lemma send_coherent:
  assumes "coherent s"
  shows "coherent (snd (ws_send m s))"
  using ws_send_snd [of m s] assms by (metis coherent_wire)

lemma close_coherent: "coherent s \<Longrightarrow> coherent (ws_close k s)"
  by (simp add: ws_close_def coherent_def)

lemma reconnect_coherent [simp]:
  "coherent (s\<lparr>reconnect_timer := r\<rparr>) = coherent s" "coherent (s\<lparr>reconnect_attempt := n\<rparr>) = coherent s"
  "coherent (s\<lparr>intentional_close := b\<rparr>) = coherent s" "coherent (s\<lparr>network_up := b\<rparr>) = coherent s"
  "coherent (s\<lparr>ws_url := u\<rparr>) = coherent s" "coherent (s\<lparr>auth_token := u\<rparr>) = coherent s"
  "coherent (s\<lparr>has_callback := b\<rparr>) = coherent s" "coherent (s\<lparr>online_handler := b\<rparr>) = coherent s"
  "coherent (s\<lparr>sync_listeners := ls\<rparr>) = coherent s" "coherent (s\<lparr>last_pong_at := n\<rparr>) = coherent s"
  "coherent (s\<lparr>sockets := (sockets s)[k := x]\<rparr>) = coherent s"
  by (simp_all add: coherent_def)

lemma handle_disconnect_coherent: "coherent s \<Longrightarrow> coherent (handle_disconnect u s)"
  by (simp add: handle_disconnect_def schedule_reconnect_def clear_reconnect_timer_def)

lemma open_coherent: "coherent s \<Longrightarrow> coherent (open_web_socket c u s)"
  using handle_disconnect_coherent [of s u]
  by (simp add: open_web_socket_def coherent_def less_SucI)

lemma stop_coherent: "coherent s \<Longrightarrow> coherent (stop_heartbeat s\<lparr>ws_connected := False\<rparr>)"
  by (simp add: coherent_def stop_heartbeat_def)

lemma disconnect_coherent:
  assumes "coherent s"
  shows "coherent (disconnect s)"
proof -
  let ?s = "stop_heartbeat (clear_reconnect_timer (s\<lparr>intentional_close := True\<rparr>))"
  have c: "coherent (?s\<lparr>ws_connected := False\<rparr>)"
    using stop_coherent [of "clear_reconnect_timer (s\<lparr>intentional_close := True\<rparr>)"] assms
    by (simp add: clear_reconnect_timer_def)
  have "coherent (ws_close k (?s\<lparr>ws_connected := False\<rparr>)\<lparr>cur_ws := None\<rparr>)" for k
    using close_coherent [OF c, of k] by (simp add: coherent_def)
  moreover have "ws_close k ?s\<lparr>cur_ws := None, ws_connected := False\<rparr> = ws_close k (?s\<lparr>ws_connected := False\<rparr>)\<lparr>cur_ws := None\<rparr>" for k
    by (simp add: ws_close_def socket_is_def)
  ultimately show ?thesis using c by (simp add: disconnect_def Let_def split: option.split)
qed

lemma on_open_coherent:
  assumes "coherent s"
  shows "coherent (on_open now s)"
proof -
  have "coherent (start_heartbeat (s\<lparr>ws_connected := True, reconnect_attempt := 0\<rparr>))"
    using assms by (simp add: start_heartbeat_def stop_heartbeat_def coherent_def)
  then show ?thesis by (simp add: on_open_def Let_def process_coherent send_coherent)
qed

lemma on_close_coherent:
  assumes "coherent s"
  shows "coherent (on_close u s)"
proof -
  have "coherent (stop_heartbeat (s\<lparr>ws_connected := False\<rparr>))"
    using assms by (simp add: stop_heartbeat_def coherent_def)
  then show ?thesis by (simp add: on_close_def Let_def handle_disconnect_coherent)
qed

lemma deliver_coherent: "coherent s \<Longrightarrow> coherent (deliver e s)"
  by (auto simp: deliver_def coherent_def Let_def le_max_iff_disj split: option.split)

lemma message_coherent:
  assumes "coherent s"
  shows "coherent (handle_server_message now m s)"
proof -
  have "coherent (s\<lparr>pong_timer := False, last_pong_at := now\<rparr>)"
    using assms by (simp add: coherent_def)
  then show ?thesis using assms deliver_coherent
    by (auto simp: handle_server_message_def split: server_message.split option.split)
qed

lemma online_coherent: "coherent s \<Longrightarrow> coherent (go_online now s)"
  by (simp add: go_online_def Let_def process_coherent schedule_reconnect_def clear_reconnect_timer_def)

lemma ping_coherent:
  assumes "coherent s" and "ping_interval s"
  shows "coherent (ping_tick s)"
proof -
  obtain l where l: "snd (ws_send MPing s) = s\<lparr>wire_log := l\<rparr>" using ws_send_snd by blast
  have "coherent (s\<lparr>wire_log := l, pong_timer := True\<rparr>)"
    using assms by (simp add: coherent_def)
  then show ?thesis using assms(1) l
    by (cases "ws_send MPing s") (auto simp: ping_tick_def coherent_wire split: bool.split)
qed

lemma pong_coherent: "coherent s \<Longrightarrow> coherent (pong_timeout s)"
proof -
  assume "coherent s"
  then have "coherent (s\<lparr>pong_timer := False\<rparr>)" by (simp add: coherent_def)
  then show ?thesis by (auto simp: pong_timeout_def close_coherent split: option.split)
qed

lemma sync_step_coherent:
  assumes "coherent s" and "sync_step e s = Some t"
  shows "coherent t"
proof (cases e)
  case (FlushStep now)
  then show ?thesis using assms flush_step_coherent by simp
next
  case (PingTick)
  then show ?thesis using assms ping_coherent by (auto split: if_splits)
qed (use assms in \<open>auto simp: connect_def open_coherent disconnect_coherent sync_destroy_def online_coherent
    go_offline_def on_open_coherent message_coherent on_close_coherent reconnect_fires_def pong_coherent
    send_encrypted_event_def enqueue_coherent send_coherent process_coherent clear_synced_def coherent_save
    sync_subscribe_def sync_unsubscribe_def split: if_splits\<close>)

interpretation sync: event_system sync_step "\<lambda>_. True" coherent
  by standard (rule sync_step_coherent)

subsection \<open>Properties\<close>


definition opened_page :: sync where
  "opened_page = the (run sync_step [Connect ''wss'' ''jwt'' True True 0, Opened 0 ''t''] (new_sync True True True None))"

lemma opened_run:
  "run sync_step [Connect ''wss'' ''jwt'' True True 0, Opened 0 ''t''] (new_sync True True True None) = Some opened_page"
  unfolding opened_page_def by (simp add: connect_def open_web_socket_def new_sync_def socket_is_def)


subsubsection \<open>Leaving\<close>

definition dormant :: "nat \<Rightarrow> sync_event list \<Rightarrow> sync \<Rightarrow> bool" where
  "dormant n evs s = (intentional_close s \<and> \<not> online_handler s \<and> reconnect_timer s = None \<and> \<not> has_callback s \<and>
     length (sockets s) = n \<and> arrived s = evs)"

definition no_connect :: "sync_event_kind \<Rightarrow> bool" where
  "no_connect e = (case e of Connect _ _ _ _ _ \<Rightarrow> False | _ \<Rightarrow> True)"

lemma dormant_simps [simp]:
  "dormant n evs (s\<lparr>wire_log := l\<rparr>) = dormant n evs s" "dormant n evs (s\<lparr>is_syncing := b\<rparr>) = dormant n evs s"
  "dormant n evs (s\<lparr>in_flight := f\<rparr>) = dormant n evs s" "dormant n evs (notify_sync s) = dormant n evs s"
  "dormant n evs (save_sync_queue q s) = dormant n evs s" "dormant n evs (update_last_sync d s) = dormant n evs s"
  "dormant n evs (s\<lparr>ws_connected := b\<rparr>) = dormant n evs s" "dormant n evs (s\<lparr>reconnect_attempt := a\<rparr>) = dormant n evs s"
  "dormant n evs (s\<lparr>ping_interval := b\<rparr>) = dormant n evs s" "dormant n evs (s\<lparr>pong_timer := b\<rparr>) = dormant n evs s"
  "dormant n evs (s\<lparr>last_pong_at := p\<rparr>) = dormant n evs s" "dormant n evs (s\<lparr>last_sequence := z\<rparr>) = dormant n evs s"
  "dormant n evs (s\<lparr>sync_listeners := ls\<rparr>) = dormant n evs s" "dormant n evs (s\<lparr>sockets := (sockets s)[k := r]\<rparr>) = dormant n evs s"
  "dormant n evs (s\<lparr>cur_ws := w\<rparr>) = dormant n evs s"
  by (simp_all add: dormant_def)

lemma dormant_send [simp]: "dormant n evs (snd (ws_send m s)) = dormant n evs s"
  using ws_send_snd [of m s] by (metis dormant_simps(1))

lemma dormant_loop [simp]: "dormant n evs (flush_loop now q is s) = dormant n evs s"
proof (induction "is" arbitrary: q)
  case (Cons i "is")
  obtain ok t where r: "sync_item (q ! i) s = (ok, t)" by (cases "sync_item (q ! i) s")
  then obtain l where "t = s\<lparr>wire_log := l\<rparr>" using sync_item_frame by blast
  then show ?case using Cons r by simp
qed (simp add: finish_flush_def)

lemma dormant_ops [simp]:
  "dormant n evs (process_sync_queue now s) = dormant n evs s"
  "dormant n evs (sync_enqueue i now ty p s) = dormant n evs s"
  "dormant n evs (ws_close k s) = dormant n evs s"
  by (simp_all add: process_sync_queue_def sync_enqueue_def ws_close_def Let_def)

lemma dormant_disconnect: "dormant n evs s \<Longrightarrow> dormant n evs (disconnect s)"
  by (simp add: disconnect_def stop_heartbeat_def clear_reconnect_timer_def Let_def split: option.split)
    (simp add: dormant_def)

lemma dormant_step:
  assumes "dormant n evs s" and "no_connect e" and "sync_step e s = Some t"
  shows "dormant n evs t"
proof (cases e)
  case Disconnect
  then show ?thesis using assms(3) dormant_disconnect [OF assms(1)] by simp
next
  case Destroy
  then have "t = disconnect s\<lparr>online_handler := False, sync_listeners := [], has_callback := False\<rparr>"
    using assms(3) by (simp add: sync_destroy_def)
  then show ?thesis using dormant_disconnect [OF assms(1)] by (simp add: dormant_def)
next
  case (SocketClosed k u)
  then show ?thesis using assms
    by (auto simp: on_close_def stop_heartbeat_def Let_def split: if_splits) (auto simp: dormant_def)
next
  case PingTick
  obtain ok s1 where r: "ws_send MPing s = (ok, s1)" by (cases "ws_send MPing s")
  then have "dormant n evs s1" using dormant_send [of n evs MPing s] assms(1) by simp
  then show ?thesis using assms PingTick r by (cases ok) (auto simp: ping_tick_def split: if_splits)
next
  case (FlushStep now)
  then show ?thesis using assms by (auto simp: flush_step_def)
next
  case (Message k now m)
  have d: "dormant n evs (deliver ev s)" for ev
    using assms(1) by (auto simp: deliver_def dormant_def Let_def split: option.split)
  then show ?thesis using assms Message
    by (auto simp: handle_server_message_def split: if_splits server_message.splits option.splits)
qed (use assms in \<open>auto simp: no_connect_def go_offline_def on_open_def start_heartbeat_def stop_heartbeat_def Let_def
    reconnect_fires_def ping_tick_def pong_timeout_def send_encrypted_event_def clear_synced_def sync_subscribe_def
    sync_unsubscribe_def dormant_def [where s = s] split: if_splits option.splits prod.splits bool.splits\<close>)


interpretation gone: event_system sync_step no_connect "dormant n evs" for n evs
  by standard (rule dormant_step)

lemma destroyed_dormant: "dormant (length (sockets s)) (arrived s) (sync_destroy s)"
proof -
  have "dormant (length (sockets s)) (arrived s)
      (s\<lparr>intentional_close := True, reconnect_timer := None, online_handler := False, has_callback := False\<rparr>)"
    by (simp add: dormant_def)
  then show ?thesis
    by (simp add: sync_destroy_def disconnect_def stop_heartbeat_def clear_reconnect_timer_def ws_close_def notify_sync_def
        Let_def dormant_def split: option.split)
qed



text \<open>
  disconnecting is weaker: when the page later reports that the network is back, the service opens a
  new socket with the old address and token, although the closure was intentional.
\<close>

theorem online_undoes_disconnect:
  assumes "online_handler s" and "ws_url s = Some url" and "url \<noteq> []" and "auth_token s = Some tok" and "tok \<noteq> []"
  shows "\<exists>t. run sync_step [Disconnect, Online now, ReconnectFires True u] s = Some t \<and>
    sockets t = sockets (disconnect s) @ [Connecting] \<and> cur_ws t = Some (length (sockets s)) \<and> intentional_close t"
proof -
  define d where "d = disconnect s"
  have d: "online_handler d" "ws_url d = Some url" "auth_token d = Some tok" "\<not> ws_connected d" "intentional_close d"
    "length (sockets d) = length (sockets s)"
    using assms by (simp_all add: d_def disconnect_def stop_heartbeat_def clear_reconnect_timer_def ws_close_def Let_def
        split: option.split)
  define g where "g = go_online now d"
  have g: "reconnect_timer g = Some 0" "ws_url g = Some url" "auth_token g = Some tok" "sockets g = sockets d"
    "intentional_close g"
    using d assms(3) by (simp_all add: g_def go_online_def process_sync_queue_def schedule_reconnect_def clear_reconnect_timer_def)
  have "run sync_step [Disconnect, Online now, ReconnectFires True u] s = Some (reconnect_fires True u g)"
    using d(1) g(1) by (simp add: d_def [symmetric] g_def [symmetric])
  moreover have "reconnect_fires True u g = g\<lparr>reconnect_timer := None, reconnect_attempt := reconnect_attempt g + 1,
      sockets := sockets d @ [Connecting], cur_ws := Some (length (sockets d))\<rparr>"
    using g assms(3,5) by (simp add: reconnect_fires_def open_web_socket_def)
  ultimately show ?thesis using d(6) g(5) by (simp add: d_def)
qed

theorem online_undoes_disconnect_witness:
  "\<exists>t. run sync_step [Disconnect, Online [], ReconnectFires True 0] opened_page = Some t \<and> cur_ws t = Some 1"
proof -
  have "online_handler opened_page \<and> ws_url opened_page = Some ''wss'' \<and> auth_token opened_page = Some ''jwt'' \<and>
      length (sockets opened_page) = 1" by code_simp
  moreover from this obtain t where "run sync_step [Disconnect, Online [], ReconnectFires True 0] opened_page = Some t"
      "cur_ws t = Some (length (sockets opened_page))"
    using online_undoes_disconnect [of opened_page "''wss''" "''jwt''" "[]" 0] by blast
  ultimately show ?thesis by metis
qed

subsubsection \<open>Reconnecting\<close>

text \<open>
  the delay before the reconnection after \<open>n\<close> attempts is within 30 percent of
  \<open>min (1000 * 2 ^ n) 60000\<close>, so it never exceeds 78 seconds; with a high random value it does exceed the
  maximum of 60 seconds.
\<close>

theorem backoff_bounds:
  assumes "0 \<le> u" and "u < 1"
  shows "7 * min (1000 * 2 ^ n) 60000 \<le> 10 * compute_backoff n DEFAULT_RECONNECT u \<and>
    10 * compute_backoff n DEFAULT_RECONNECT u \<le> 13 * min (1000 * 2 ^ n) 60000 \<and>
    compute_backoff n DEFAULT_RECONNECT u \<le> 78000 \<and> 60000 < compute_backoff 6 DEFAULT_RECONNECT (9 / 10)"
proof -
  define b :: int where "b = min (1000 * 2 ^ n) 60000"
  obtain c :: int where c: "b = 10 * c" "0 \<le> c"
  proof (cases "1000 * 2 ^ n \<le> (60000 :: int)")
    case True
    then show ?thesis using that [of "100 * 2 ^ n"] by (simp add: b_def)
  next
    case False
    then show ?thesis using that [of 6000] by (simp add: b_def)
  qed
  have "min (rat_of_nat (1000 * 2 ^ n)) (rat_of_nat 60000) = rat_of_int b"
    by (simp add: b_def of_int_min)
  then have d: "compute_backoff n DEFAULT_RECONNECT u = max 0 (js_round (rat_of_int b + rat_of_int b * (3 / 10) * (2 * u - 1)))"
    by (simp add: compute_backoff_def DEFAULT_RECONNECT_def Let_def)
  have e: "rat_of_int b + rat_of_int b * (3 / 10) * (2 * u - 1) = rat_of_int (7 * c) + rat_of_int c * 6 * u"
    by (simp add: c field_simps)
  have cu: "0 \<le> rat_of_int c * 6 * u" "rat_of_int c * 6 * u \<le> rat_of_int c * 6"
    using c(2) assms by (simp_all add: mult_left_le)
  have "rat_of_int (7 * c) \<le> rat_of_int (7 * c) + rat_of_int c * 6 * u"
    "rat_of_int (7 * c) + rat_of_int c * 6 * u \<le> rat_of_int (13 * c)" using cu by simp_all
  from js_round_mono [OF this(1)] js_round_mono [OF this(2)]
  have "7 * c \<le> compute_backoff n DEFAULT_RECONNECT u" "compute_backoff n DEFAULT_RECONNECT u \<le> 13 * c"
    unfolding d e js_round_of_int using c(2) by simp_all
  moreover have "b \<le> 60000" by (simp add: b_def)
  moreover have "60000 < compute_backoff 6 DEFAULT_RECONNECT (9 / 10)"
  proof -
    have "rat_of_int 60000 + rat_of_int 60000 * (3 / 10) * (2 * (9 / 10) - 1) = rat_of_int 74400" by simp
    then have "js_round (60000 + 60000 * (3 / 10) * (2 * (9 / 10) - 1)) = 74400"
      using js_round_of_int [of 74400] by simp
    then show ?thesis by (simp add: compute_backoff_def DEFAULT_RECONNECT_def Let_def)
  qed
  ultimately show ?thesis unfolding b_def [symmetric] c by linarith
qed

theorem backoff_bounds_witness: "compute_backoff 3 DEFAULT_RECONNECT (1 / 2) \<le> 78000"
  using backoff_bounds [of "1 / 2" 3] by simp

lemma backoff_nonneg: "0 \<le> compute_backoff n cfg u"
  by (simp add: compute_backoff_def Let_def)


lemma send_log: "\<exists>ms. wire_log (snd (ws_send m s)) = wire_log s @ ms"
  by (auto simp: ws_send_def split: option.split)

lemma flush_loop_log: "\<exists>ms. wire_log (flush_loop now q is s) = wire_log s @ ms \<and> ws_connected (flush_loop now q is s) = ws_connected s"
proof (induction "is" arbitrary: q)
  case (Cons i "is")
  obtain ok t where r: "sync_item (q ! i) s = (ok, t)" by (cases "sync_item (q ! i) s")
  then obtain l where "t = s\<lparr>wire_log := l\<rparr>" using sync_item_frame by blast
  moreover have "\<exists>ms. wire_log t = wire_log s @ ms"
    using r send_log [of "item_message (q ! i)" s] by (auto simp: sync_item_def split: if_splits)
  ultimately show ?case using Cons r by auto
qed (simp add: finish_flush_def)

lemma process_log: "\<exists>ms. wire_log (process_sync_queue now s) = wire_log s @ ms \<and> ws_connected (process_sync_queue now s) = ws_connected s"
proof -
  have "\<exists>ms. wire_log (flush_loop now q is (notify_sync (s\<lparr>is_syncing := True\<rparr>))) = wire_log s @ ms \<and>
      ws_connected (flush_loop now q is (notify_sync (s\<lparr>is_syncing := True\<rparr>))) = ws_connected s" for q "is"
    using flush_loop_log [of now q "is" "notify_sync (s\<lparr>is_syncing := True\<rparr>)"] by simp
  then show ?thesis by (simp add: process_sync_queue_def Let_def)
qed



text \<open>
  the handlers do not know their socket: when the close of an old socket arrives while a newer one
  is open and in use, the service stops the heartbeat, counts as disconnected and opens a third socket
  beside the open one, which it forgets.
\<close>

theorem stale_close_disconnects:
  assumes "cur_ws s = Some k'" and "k' < length (sockets s)" and "sockets s ! k' = Open"
    and "k < length (sockets s)" and "k \<noteq> k'" and "sockets s ! k \<noteq> Closed" and "\<not> intentional_close s"
    and "ws_url s = Some url" and "url \<noteq> []" and "auth_token s = Some tok" and "tok \<noteq> []"
  shows "\<exists>d t. sync_step (SocketClosed k u) s = Some d \<and> \<not> ws_connected d \<and> \<not> ping_interval d \<and>
    sync_step (ReconnectFires True u') d = Some t \<and> sockets t ! k' = Open \<and> cur_ws t = Some (length (sockets s))"
proof -
  define c where "c = on_close u (s\<lparr>sockets := (sockets s)[k := Closed]\<rparr>)"
  have c: "reconnect_timer c \<noteq> None" "ws_url c = Some url" "auth_token c = Some tok" "sockets c = (sockets s)[k := Closed]"
    "\<not> ws_connected c" "\<not> ping_interval c"
    using assms by (simp_all add: c_def on_close_def stop_heartbeat_def handle_disconnect_def DEFAULT_RECONNECT_def
        schedule_reconnect_def clear_reconnect_timer_def Let_def)
  have "sync_step (SocketClosed k u) s = Some c" using assms(4,6) by (simp add: c_def)
  moreover have "sync_step (ReconnectFires True u') c = Some (reconnect_fires True u' c)" using c(1) by simp
  moreover have "sockets (reconnect_fires True u' c) ! k' = Open" "cur_ws (reconnect_fires True u' c) = Some (length (sockets s))"
    using c assms(2,3,5,9,11) by (simp_all add: reconnect_fires_def open_web_socket_def nth_append)
  ultimately show ?thesis using c(5,6) by blast
qed

definition switched_page :: sync where
  "switched_page = the (run sync_step [Disconnect, Connect ''wss'' ''jwt2'' True True 0, Opened 1 ''t''] opened_page)"

theorem stale_close_disconnects_witness:
  "\<exists>d t. sync_step (SocketClosed 0 0) switched_page = Some d \<and> \<not> ws_connected d \<and>
    sync_step (ReconnectFires True 0) d = Some t \<and> sockets t ! 1 = Open \<and> cur_ws t = Some 2"
proof -
  have s: "cur_ws switched_page = Some 1 \<and> length (sockets switched_page) = 2 \<and> sockets switched_page ! 1 = Open \<and>
     sockets switched_page ! 0 \<noteq> Closed \<and> \<not> intentional_close switched_page \<and>
     ws_url switched_page = Some ''wss'' \<and> auth_token switched_page = Some ''jwt2''" by code_simp
  have "\<exists>d t. sync_step (SocketClosed 0 0) switched_page = Some d \<and> \<not> ws_connected d \<and> \<not> ping_interval d \<and>
      sync_step (ReconnectFires True 0) d = Some t \<and> sockets t ! 1 = Open \<and> cur_ws t = Some (length (sockets switched_page))"
    by (rule stale_close_disconnects [of switched_page 1 0 "''wss''" "''jwt2''"]) (use s in simp_all)
  then obtain d t where "sync_step (SocketClosed 0 0) switched_page = Some d" "\<not> ws_connected d"
    "sync_step (ReconnectFires True 0) d = Some t" "sockets t ! 1 = Open" "cur_ws t = Some (length (sockets switched_page))"
    by blast
  then show ?thesis using s by metis
qed


subsubsection \<open>Flushing the queue\<close>

definition sendable :: "queue_item \<Rightarrow> bool" where
  "sendable i = (unsent i \<and> qi_retries i < MAX_RETRIES)"

definition flushed :: "queue_item \<Rightarrow> queue_item" where
  "flushed i = (if \<not> unsent i then i else if qi_retries i < MAX_RETRIES then item_done True i else item_exhausted i)"

definition ready :: "nat \<Rightarrow> sync \<Rightarrow> bool" where
  "ready k s = (persists s \<and> cur_ws s = Some k \<and> socket_is s Open (Some k) \<and> is_syncing s)"

definition flush_at :: "nat \<Rightarrow> queue_item list \<Rightarrow> queue_item list" where
  "flush_at i q = q[i := (if qi_retries (q ! i) < MAX_RETRIES then item_done True (q ! i) else item_exhausted (q ! i))]"

lemma fold_flush_at:
  assumes "distinct is" and "\<forall>i\<in>set is. i < length q"
  shows "length (fold flush_at is q) = length q" and
    "j < length q \<Longrightarrow> fold flush_at is q ! j = (if j \<in> set is then
       (if qi_retries (q ! j) < MAX_RETRIES then item_done True (q ! j) else item_exhausted (q ! j)) else q ! j)"
  using assms
proof (induction "is" arbitrary: q)
  case (Cons i "is")
  {
    case 1
    then show ?case using Cons.IH(1) [of "flush_at i q"] by (simp add: flush_at_def)
  next
    case 2
    then show ?case using Cons.IH(2) [of "flush_at i q"] by (auto simp: flush_at_def nth_list_update)
  }
qed simp_all

lemma sync_item_ready:
  assumes "ready k s"
  shows "sync_item i s = (True, s\<lparr>wire_log := wire_log s @ [(k, item_message i)]\<rparr>)"
  using assms by (auto simp: sync_item_def ready_def ws_send_def socket_is_def)

lemma flush_runs:
  assumes "ready k s" and "distinct is" and "\<forall>i\<in>set is. i < length q"
  shows "\<exists>t. run sync_step (replicate (length (filter (\<lambda>i. qi_retries (q ! i) < MAX_RETRIES) is)) (FlushStep now))
      (flush_loop now q is s) = Some t \<and> load_sync_queue t = last_n 200 (fold flush_at is q) \<and> \<not> is_syncing t \<and>
      wire_log t = wire_log s @ map (\<lambda>i. (k, item_message (q ! i))) (filter (\<lambda>i. qi_retries (q ! i) < MAX_RETRIES) is)"
  using assms
proof (induction "is" arbitrary: q s)
  case Nil
  then show ?case by (simp add: finish_flush_def ready_def load_sync_queue_def save_sync_queue_def update_last_sync_def)
next
  case (Cons i "is")
  have at: "flush_at i q ! j = q ! j" if "j \<in> set is" for j
  proof -
    have "j \<noteq> i" using that Cons.prems(2) by auto
    then show ?thesis by (simp add: flush_at_def)
  qed
  have same: "filter (\<lambda>j. qi_retries (flush_at i q ! j) < MAX_RETRIES) is = filter (\<lambda>j. qi_retries (q ! j) < MAX_RETRIES) is"
    by (rule filter_cong) (simp_all add: at)
  have msgs: "map (\<lambda>j. (k, item_message (flush_at i q ! j))) (filter (\<lambda>j. qi_retries (q ! j) < MAX_RETRIES) is) =
     map (\<lambda>j. (k, item_message (q ! j))) (filter (\<lambda>j. qi_retries (q ! j) < MAX_RETRIES) is)"
    by (rule map_cong) (simp_all add: at)
  have bound: "\<forall>j\<in>set is. j < length (flush_at i q)" using Cons.prems(3) by (simp add: flush_at_def)
  show ?case
  proof (cases "qi_retries (q ! i) < MAX_RETRIES")
    case False
    then have "flush_loop now q (i # is) s = flush_loop now (flush_at i q) is s" by (simp add: flush_at_def)
    then show ?thesis using Cons.IH [OF Cons.prems(1) _ bound] Cons.prems(2) False by (simp add: same msgs)
  next
    case True
    let ?s1 = "s\<lparr>wire_log := wire_log s @ [(k, item_message (q ! i))]\<rparr>"
    have "flush_step now (flush_loop now q (i # is) s) = Some (flush_loop now (flush_at i q) is (?s1\<lparr>in_flight := None\<rparr>))"
      using True by (simp add: sync_item_ready [OF Cons.prems(1)] flush_step_def flush_at_def)
    moreover have "ready k (?s1\<lparr>in_flight := None\<rparr>)" using Cons.prems(1) by (simp add: ready_def socket_is_def)
    ultimately show ?thesis
      using Cons.IH [OF _ _ bound, of "?s1\<lparr>in_flight := None\<rparr>"] Cons.prems(2) True by (simp add: same msgs del: flush_loop.simps)
  qed
qed

lemma flush_start:
  assumes "persists s" and "ws_connected s" and "\<not> is_syncing s" and "cur_ws s = Some k" and "socket_is s Open (Some k)"
    and "length (load_sync_queue s) \<le> 200" and "q = load_sync_queue s"
  shows "\<exists>t. run sync_step (ProcessQueue now # replicate (length (filter sendable q)) (FlushStep now)) s = Some t \<and>
    load_sync_queue t = map flushed q \<and> \<not> is_syncing t \<and>
    wire_log t = wire_log s @ map (\<lambda>i. (k, item_message i)) (filter sendable q)"
proof -
  define idx where "idx = filter (\<lambda>i. unsent (q ! i)) [0..<length q]"
  define go where "go = filter (\<lambda>i. qi_retries (q ! i) < MAX_RETRIES) idx"
  define s1 where "s1 = notify_sync (s\<lparr>is_syncing := True\<rparr>)"
  have idx: "distinct idx" "\<forall>i\<in>set idx. i < length q" by (simp_all add: idx_def)
  have "go = filter (\<lambda>i. sendable (q ! i)) [0..<length q]"
    by (auto simp: go_def idx_def sendable_def intro!: filter_cong)
  then have sel: "map (\<lambda>i. q ! i) go = filter sendable q"
    using filter_map [of sendable "\<lambda>i. q ! i" "[0..<length q]"] by (simp add: map_nth o_def)
  then have msgs: "map (\<lambda>i. (k, item_message (q ! i))) go = map (\<lambda>i. (k, item_message i)) (filter sendable q)"
    and len: "length go = length (filter sendable q)"
    unfolding sel [symmetric] by simp_all
  have "ready k s1" using assms by (simp add: s1_def ready_def socket_is_def)
  from flush_runs [OF this idx, of now, folded go_def] obtain t where
    t: "run sync_step (replicate (length go) (FlushStep now)) (flush_loop now q idx s1) = Some t"
      "load_sync_queue t = last_n 200 (fold flush_at idx q)" "\<not> is_syncing t"
      "wire_log t = wire_log s1 @ map (\<lambda>i. (k, item_message (q ! i))) go" by blast
  have "fold flush_at idx q = map flushed q"
    using fold_flush_at [OF idx] by (intro nth_equalityI) (simp_all add: flushed_def idx_def)
  then have load: "load_sync_queue t = map flushed q" using t(2) assms(6,7) by simp
  have "process_sync_queue now s = flush_loop now q idx s1"
    using assms(2,3,7) by (simp add: process_sync_queue_def Let_def idx_def s1_def)
  then have "run sync_step (ProcessQueue now # replicate (length (filter sendable q)) (FlushStep now)) s = Some t"
    using t(1) len by simp
  moreover have "wire_log t = wire_log s @ map (\<lambda>i. (k, item_message i)) (filter sendable q)"
    using t(4) msgs by (simp add: s1_def)
  ultimately show ?thesis using load t(3) by blast
qed

text \<open>
  C21: an undisturbed flush over an open socket sends every item that is pending or failed and has
  retries left, once and in queue order, marks exactly those as synced and the exhausted ones as
  failed, and leaves all others as they are. A queued item that was not encrypted beforehand is sent
  with empty data and still marked as synced.
\<close>

theorem flush_sends_queue:
  assumes "persists s" and "ws_connected s" and "\<not> is_syncing s" and "cur_ws s = Some k" and "socket_is s Open (Some k)"
    and "length (load_sync_queue s) \<le> 200" and "q = load_sync_queue s"
  shows "(\<exists>t. run sync_step (ProcessQueue now # replicate (length (filter sendable q)) (FlushStep now)) s = Some t \<and>
      load_sync_queue t = map flushed q \<and> \<not> is_syncing t \<and>
      wire_log t = wire_log s @ map (\<lambda>i. (k, item_message i)) (filter sendable q)) \<and>
    (\<forall>i x. qi_payload i = Legacy x \<and> sendable i \<longrightarrow> qi_status (flushed i) = Synced \<and>
       item_message i = MSync \<lparr>ev_type = type_upper (qi_type i), ev_data = [], ev_nonce = [], ev_sequence = None\<rparr>)"
  using flush_start [OF assms] by (simp add: sendable_def flushed_def item_done_def item_message_def)

definition demo_item :: "string \<Rightarrow> queue_item" where
  "demo_item i = \<lparr>qi_id = i, qi_type = ShareItem, qi_payload = Sealed ''t'' ''d'' ''n'', qi_created = [], qi_retries = 0,
     qi_status = SPending, qi_error = None\<rparr>"

theorem flush_sends_queue_witness:
  "\<exists>t. run sync_step [ProcessQueue [], FlushStep []] (opened_page\<lparr>queue_store := Some (QueueDoc [demo_item ''a''])\<rparr>) = Some t \<and>
     wire_log t = [(0, item_message (demo_item ''a''))]"
proof -
  let ?s = "opened_page\<lparr>queue_store := Some (QueueDoc [demo_item ''a''])\<rparr>"
  have s: "persists ?s \<and> ws_connected ?s \<and> \<not> is_syncing ?s \<and> cur_ws ?s = Some 0 \<and> socket_is ?s Open (Some 0) \<and> wire_log ?s = []"
    by code_simp
  moreover from s have q: "load_sync_queue ?s = [demo_item ''a'']" by (simp add: load_sync_queue_def)
  moreover have f: "filter sendable [demo_item ''a''] = [demo_item ''a'']"
    by (simp add: sendable_def unsent_def demo_item_def MAX_RETRIES_def)
  ultimately have "\<exists>t. run sync_step (ProcessQueue [] # replicate (length (filter sendable [demo_item ''a''])) (FlushStep [])) ?s = Some t \<and>
      wire_log t = wire_log ?s @ map (\<lambda>i. (0, item_message i)) (filter sendable [demo_item ''a''])"
    using flush_sends_queue [of ?s 0 "[demo_item ''a'']" "[]"] by fastforce
  then show ?thesis unfolding f using s by (simp del: run.simps)
qed

text \<open>
  an item queued while a flush is in flight is lost: the flush ends by writing back its own copy of
  the queue. On native nothing is queued at all.
\<close>

theorem enqueue_during_flush_lost:
  assumes "is_syncing s" and "in_flight s = Some f" and "fl_rest f = []"
    and "\<forall>x\<in>set (fl_queue f). qi_id x \<noteq> i" and "fl_item f < length (fl_queue f)"
  shows "\<exists>t. run sync_step [EnqueueItem i now ty p, FlushStep now'] s = Some t \<and>
    (\<forall>x\<in>set (load_sync_queue t). qi_id x \<noteq> i)"
proof -
  let ?q = "(fl_queue f)[fl_item f := item_done (fl_sent f) (fl_queue f ! fl_item f)]"
  let ?e = "sync_enqueue i now ty p s"
  have e: "in_flight ?e = Some f" "persists ?e = persists s"
    using assms(1,2) by (simp_all add: sync_enqueue_def process_sync_queue_def Let_def)
  have step: "run sync_step [EnqueueItem i now ty p, FlushStep now'] s = Some (finish_flush now' ?q (?e\<lparr>in_flight := None\<rparr>))"
    using e(1) assms(3) by (simp add: flush_step_def)
  have "qi_id (item_done ok x) = qi_id x" for ok x by (simp add: item_done_def)
  then have "\<forall>x\<in>set ?q. qi_id x \<noteq> i" using assms(4,5) set_update_subset_insert [of "fl_queue f" "fl_item f"]
    by (metis insertE nth_mem subsetD)
  then have "\<forall>x\<in>set (load_sync_queue (finish_flush now' ?q (?e\<lparr>in_flight := None\<rparr>))). qi_id x \<noteq> i"
    using set_last_n_subset [of 200 ?q]
    by (cases "persists s") (auto simp: finish_flush_def load_sync_queue_def save_sync_queue_def update_last_sync_def e(2))
  then show ?thesis using step by blast
qed

theorem enqueue_during_flush_lost_witness:
  "\<exists>s t. run sync_step [ProcessQueue []] (opened_page\<lparr>queue_store := Some (QueueDoc [demo_item ''a''])\<rparr>) = Some s \<and>
     run sync_step [EnqueueItem ''b'' [] ShareItem (Legacy []), FlushStep []] s = Some t \<and>
     (\<forall>x\<in>set (load_sync_queue t). qi_id x \<noteq> ''b'')"
proof -
  let ?s = "process_sync_queue [] (opened_page\<lparr>queue_store := Some (QueueDoc [demo_item ''a''])\<rparr>)"
  have s: "is_syncing ?s \<and> in_flight ?s = Some \<lparr>fl_queue = [demo_item ''a''], fl_item = 0, fl_sent = True, fl_rest = []\<rparr>"
    by code_simp
  have "\<exists>t. run sync_step [EnqueueItem ''b'' [] ShareItem (Legacy []), FlushStep []] ?s = Some t \<and>
     (\<forall>x\<in>set (load_sync_queue t). qi_id x \<noteq> ''b'')"
    by (rule enqueue_during_flush_lost [of ?s "\<lparr>fl_queue = [demo_item ''a''], fl_item = 0, fl_sent = True, fl_rest = []\<rparr>"])
      (use s in \<open>simp_all add: demo_item_def\<close>)
  then obtain t where t: "run sync_step [EnqueueItem ''b'' [] ShareItem (Legacy []), FlushStep []] ?s = Some t"
    "\<forall>x\<in>set (load_sync_queue t). qi_id x \<noteq> ''b''" by blast
  have "run sync_step [ProcessQueue []] (opened_page\<lparr>queue_store := Some (QueueDoc [demo_item ''a''])\<rparr>) = Some ?s" by simp
  then show ?thesis using t by blast
qed

end
