(* ===== verification/Vault_Storage.thy ===== *)
theory Vault_Storage
  imports Event_System Web_Storage "HOL-Library.List_Lexorder" "HOL-Library.Char_ord"
begin

text \<open>
  \<open>services/webStorage.ts\<close>, the back end of \<open>services/storageService.ts\<close> on the web, and the data of
  \<open>types/domain.ts\<close>: the vault list in one \<open>localStorage\<close> slot, file blobs, file metadata and
  encrypted indexes in three IndexedDB stores. A method that awaits between its requests is a
  \<open>storage_task\<close>: \<open>task_step\<close> runs it up to its next \<open>await\<close>, \<open>run_task\<close> to its end with nothing in
  between, and \<open>storage_step\<close> lets any number of them interleave. Without IndexedDB (\<open>wst_db = None\<close>)
  \<open>getDB\<close> rejects for good; \<open>wst_writable\<close> is false when \<open>localStorage.setItem\<close> throws, which
  \<open>lsSet\<close> swallows. Requests on an open database are taken to succeed.
\<close>

subsection \<open>Data\<close>

datatype security_level = LevelStandard | LevelHigh | LevelMaximum
datatype vault_source = SourceUsb | SourceCloud | SourceLocal

record vault_info =
  vi_id :: string
  vi_name :: string
  vi_meta :: string
  vi_count :: nat
  vi_modified :: string
  vi_level :: security_level
  vi_wrapped :: "string option"
  vi_salt :: "string option"
  vi_codes :: "bool option"
  vi_mount :: "string option"
  vi_drive :: "string option"
  vi_fs :: "string option"
  vi_algorithm :: "string option"
  vi_source :: "vault_source option"

record file_info =
  fi_id :: string
  fi_vault :: string
  fi_name :: string
  fi_size :: nat
  fi_type :: string
  fi_modified :: string
  fi_meta :: string
  fi_pqc :: bool
  fi_uri :: "string option"
  fi_blob :: "bytes option"
  fi_salt :: "string option"
  fi_cipher :: "nat option"
  fi_streamed :: "bool option"
  fi_original :: "nat option"
  fi_version :: "nat option"
  fi_hash :: "string option"

text \<open>A stored file is a file without its blob and a flag.\<close>

record stored_file =
  sf_info :: file_info
  sf_has_blob :: bool

definition to_stored_file :: "file_info \<Rightarrow> bool \<Rightarrow> stored_file" where
  "to_stored_file f has = \<lparr>sf_info = f\<lparr>fi_blob := None\<rparr>, sf_has_blob = has\<rparr>"

definition from_stored_file :: "stored_file \<Rightarrow> file_info" where
  "from_stored_file s = sf_info s"

abbreviation sf_vault :: "stored_file \<Rightarrow> string" where "sf_vault m \<equiv> fi_vault (sf_info m)"
abbreviation sf_id :: "stored_file \<Rightarrow> string" where "sf_id m \<equiv> fi_id (sf_info m)"

record idb =
  idb_files :: "bytes local_storage"
  idb_meta :: "stored_file local_storage"
  idb_index :: "string local_storage"

record web_storage =
  wst_available :: bool
  wst_writable :: bool
  wst_vaults :: "vault_info list stored option"
  wst_db :: "idb option"

definition file_key :: "string \<Rightarrow> string \<Rightarrow> string" where
  "file_key v i = v @ CHR '':'' # i"

definition with_db :: "(idb \<Rightarrow> idb) \<Rightarrow> web_storage \<Rightarrow> web_storage" where
  "with_db f w = w\<lparr>wst_db := map_option f (wst_db w)\<rparr>"

subsection \<open>Operations of one request\<close>

definition load_vaults :: "web_storage \<Rightarrow> vault_info list" where
  "load_vaults w =
     (if \<not> wst_available w then []
      else case wst_vaults w of Some (Json vs) \<Rightarrow> vs | _ \<Rightarrow> [])"

definition save_vaults :: "vault_info list \<Rightarrow> web_storage \<Rightarrow> web_storage" where
  "save_vaults vs w =
     (if wst_available w \<and> wst_writable w then w\<lparr>wst_vaults := Some (Json vs)\<rparr> else w)"

text \<open>An index lookup gives the records in the order of their keys.\<close>

definition metas_of :: "string \<Rightarrow> idb \<Rightarrow> stored_file list" where
  "metas_of v d = filter (\<lambda>m. sf_vault m = v) (map snd (sort_key fst (idb_meta d)))"

definition load_files :: "string \<Rightarrow> web_storage \<Rightarrow> stored_file list" where
  "load_files v w =
     (if \<not> wst_available w then [] else case wst_db w of None \<Rightarrow> [] | Some d \<Rightarrow> metas_of v d)"

definition get_encrypted_blob :: "string \<Rightarrow> string \<Rightarrow> web_storage \<Rightarrow> bytes option" where
  "get_encrypted_blob v i w =
     (if \<not> wst_available w then None
      else Option.bind (wst_db w) (\<lambda>d. ls_get (file_key v i) (idb_files d)))"

definition save_encrypted_index :: "string \<Rightarrow> string \<Rightarrow> web_storage \<Rightarrow> web_storage" where
  "save_encrypted_index v b w =
     (if \<not> wst_available w then w else with_db (\<lambda>d. d\<lparr>idb_index := ls_set v b (idb_index d)\<rparr>) w)"

definition load_encrypted_index :: "string \<Rightarrow> web_storage \<Rightarrow> string option" where
  "load_encrypted_index v w =
     (if \<not> wst_available w then None else Option.bind (wst_db w) (\<lambda>d. ls_get v (idb_index d)))"

definition delete_encrypted_index :: "string \<Rightarrow> web_storage \<Rightarrow> web_storage" where
  "delete_encrypted_index v w =
     (if \<not> wst_available w then w else with_db (\<lambda>d. d\<lparr>idb_index := ls_remove v (idb_index d)\<rparr>) w)"

definition has_encrypted_index :: "string \<Rightarrow> web_storage \<Rightarrow> bool" where
  "has_encrypted_index v w =
     (wst_available w \<and> Option.bind (wst_db w) (\<lambda>d. ls_get v (idb_index d)) \<noteq> None)"

definition clear_storage :: "web_storage \<Rightarrow> web_storage" where
  "clear_storage w =
     (if \<not> wst_available w then w
      else with_db (\<lambda>_. \<lparr>idb_files = [], idb_meta = [], idb_index = []\<rparr>) (w\<lparr>wst_vaults := None\<rparr>))"

definition has_stored_data :: "web_storage \<Rightarrow> bool" where
  "has_stored_data w = (wst_available w \<and> load_vaults w \<noteq> [])"

subsection \<open>Operations of several requests\<close>

datatype storage_task =
    DeleteVaultList string "vault_info list"
  | DeleteVaultFind string
  | DeleteVaultBlob string string "string list"
  | DeleteVaultMeta string string "string list"
  | DeleteVaultIndex string
  | SaveFileMeta stored_file "bytes option"
  | SaveFileBlob stored_file bytes
  | DeleteFileMeta string string
  | DeleteFileBlob string string
  | CountLoad string bool
  | CountFiles string bool "vault_info list"
  | CountWrite string bool "vault_info list" nat

definition delete_next :: "string \<Rightarrow> string list \<Rightarrow> storage_task" where
  "delete_next v is = (case is of [] \<Rightarrow> DeleteVaultIndex v | i # is \<Rightarrow> DeleteVaultBlob v i is)"

text \<open>
  \<open>vault.fileCount = n\<close> (and the time, when a file was saved) on the vault that \<open>find\<close> gives, in the
  array the task has read.
\<close>

fun set_count :: "string \<Rightarrow> string option \<Rightarrow> nat \<Rightarrow> vault_info list \<Rightarrow> vault_info list" where
  "set_count v stamp n [] = []"
| "set_count v stamp n (x # xs) =
     (if vi_id x = v
      then x\<lparr>vi_count := n, vi_modified := (case stamp of None \<Rightarrow> vi_modified x | Some t \<Rightarrow> t)\<rparr> # xs
      else x # set_count v stamp n xs)"

fun task_step :: "string \<Rightarrow> storage_task \<Rightarrow> web_storage \<Rightarrow> storage_task option \<times> web_storage" where
  "task_step now (DeleteVaultList v vs) w =
     (Some (DeleteVaultFind v), save_vaults (filter (\<lambda>x. vi_id x \<noteq> v) vs) w)"
| "task_step now (DeleteVaultFind v) w =
     (case wst_db w of None \<Rightarrow> (None, w) | Some d \<Rightarrow> (Some (delete_next v (map sf_id (metas_of v d))), w))"
| "task_step now (DeleteVaultBlob v i is) w =
     (Some (DeleteVaultMeta v i is), with_db (\<lambda>d. d\<lparr>idb_files := ls_remove (file_key v i) (idb_files d)\<rparr>) w)"
| "task_step now (DeleteVaultMeta v i is) w =
     (Some (delete_next v is), with_db (\<lambda>d. d\<lparr>idb_meta := ls_remove (file_key v i) (idb_meta d)\<rparr>) w)"
| "task_step now (DeleteVaultIndex v) w =
     (None, with_db (\<lambda>d. d\<lparr>idb_index := ls_remove v (idb_index d)\<rparr>) w)"
| "task_step now (SaveFileMeta m blob) w =
     (Some (case blob of None \<Rightarrow> CountLoad (sf_vault m) True | Some b \<Rightarrow> SaveFileBlob m b),
      with_db (\<lambda>d. d\<lparr>idb_meta := ls_set (file_key (sf_vault m) (sf_id m)) m (idb_meta d)\<rparr>) w)"
| "task_step now (SaveFileBlob m b) w =
     (Some (CountLoad (sf_vault m) True),
      with_db (\<lambda>d. d\<lparr>idb_files := ls_set (file_key (sf_vault m) (sf_id m)) b (idb_files d)\<rparr>) w)"
| "task_step now (DeleteFileMeta v i) w =
     (Some (DeleteFileBlob v i), with_db (\<lambda>d. d\<lparr>idb_meta := ls_remove (file_key v i) (idb_meta d)\<rparr>) w)"
| "task_step now (DeleteFileBlob v i) w =
     (Some (CountLoad v False), with_db (\<lambda>d. d\<lparr>idb_files := ls_remove (file_key v i) (idb_files d)\<rparr>) w)"
| "task_step now (CountLoad v touch) w =
     (let vs = load_vaults w
      in (if \<exists>x\<in>set vs. vi_id x = v then Some (CountFiles v touch vs) else None, w))"
| "task_step now (CountFiles v touch vs) w = (Some (CountWrite v touch vs (length (load_files v w))), w)"
| "task_step now (CountWrite v touch vs n) w =
     (None, save_vaults (set_count v (if touch then Some now else None) n vs) w)"

text \<open>What a call does before its first \<open>await\<close>: the task it becomes.\<close>

definition delete_vault_begin :: "string \<Rightarrow> web_storage \<Rightarrow> storage_task option" where
  "delete_vault_begin v w = (if wst_available w then Some (DeleteVaultList v (load_vaults w)) else None)"

definition save_file_begin :: "stored_file \<Rightarrow> bytes option \<Rightarrow> web_storage \<Rightarrow> storage_task option" where
  "save_file_begin m blob w =
     (if wst_available w \<and> wst_db w \<noteq> None then Some (SaveFileMeta (m\<lparr>sf_has_blob := blob \<noteq> None\<rparr>) blob)
      else None)"

definition delete_file_begin :: "string \<Rightarrow> string \<Rightarrow> web_storage \<Rightarrow> storage_task option" where
  "delete_file_begin v i w =
     (if wst_available w \<and> wst_db w \<noteq> None then Some (DeleteFileMeta v i) else None)"

text \<open>A task alone to its end: the stage and the files still to delete decrease.\<close>

fun task_stage :: "storage_task \<Rightarrow> nat" where
  "task_stage (DeleteVaultList v vs) = 4"
| "task_stage (DeleteVaultFind v) = 3"
| "task_stage (DeleteVaultBlob v i is) = 2"
| "task_stage (DeleteVaultMeta v i is) = 2"
| "task_stage (DeleteVaultIndex v) = 1"
| "task_stage (SaveFileMeta m b) = 5"
| "task_stage (SaveFileBlob m b) = 4"
| "task_stage (DeleteFileMeta v i) = 5"
| "task_stage (DeleteFileBlob v i) = 4"
| "task_stage (CountLoad v b) = 3"
| "task_stage (CountFiles v b vs) = 2"
| "task_stage (CountWrite v b vs n) = 1"

fun task_files :: "storage_task \<Rightarrow> nat" where
  "task_files (DeleteVaultBlob v i is) = 2 * length is + 2"
| "task_files (DeleteVaultMeta v i is) = 2 * length is + 1"
| "task_files _ = 0"

function run_task :: "string \<Rightarrow> storage_task \<Rightarrow> web_storage \<Rightarrow> web_storage" where
  "run_task now t w =
     (case task_step now t w of (None, w') \<Rightarrow> w' | (Some t', w') \<Rightarrow> run_task now t' w')"
  by pat_completeness auto

lemma task_step_less: "task_step now t w = (Some t', w') \<Longrightarrow>
    task_stage t' < task_stage t \<or> task_stage t' = task_stage t \<and> task_files t' < task_files t"
  by (cases t) (auto simp: delete_next_def Let_def split: list.splits option.splits if_splits)

termination run_task
  by (relation "measures [\<lambda>(now, t, w). task_stage t, \<lambda>(now, t, w). task_files t]")
    (auto dest!: task_step_less [OF sym])

declare run_task.simps [simp del]

definition run_begin :: "string \<Rightarrow> storage_task option \<Rightarrow> web_storage \<Rightarrow> web_storage" where
  "run_begin now t w = (case t of None \<Rightarrow> w | Some t \<Rightarrow> run_task now t w)"

definition delete_vault :: "string \<Rightarrow> string \<Rightarrow> web_storage \<Rightarrow> web_storage" where
  "delete_vault now v w = run_begin now (delete_vault_begin v w) w"

definition save_file :: "string \<Rightarrow> stored_file \<Rightarrow> bytes option \<Rightarrow> web_storage \<Rightarrow> web_storage" where
  "save_file now m blob w = run_begin now (save_file_begin m blob w) w"

definition delete_file :: "string \<Rightarrow> string \<Rightarrow> string \<Rightarrow> web_storage \<Rightarrow> web_storage" where
  "delete_file now v i w = run_begin now (delete_file_begin v i w) w"

subsection \<open>Keys\<close>

definition colon_free :: "string \<Rightarrow> bool" where
  "colon_free v = (CHR '':'' \<notin> set v)"

lemma file_key_inj:
  "colon_free v \<Longrightarrow> colon_free v' \<Longrightarrow> file_key v i = file_key v' i' \<longleftrightarrow> v = v' \<and> i = i'"
proof (induction v arbitrary: v')
  case Nil
  then show ?case by (cases v') (auto simp: file_key_def colon_free_def)
next
  case (Cons c v)
  then show ?case by (cases v') (auto simp: file_key_def colon_free_def)
qed

lemma file_key_same [simp]: "file_key v i = file_key v i' \<longleftrightarrow> i = i'"
  by (simp add: file_key_def)

text \<open>Every record is stored under its own key.\<close>

definition keyed :: "idb \<Rightarrow> bool" where
  "keyed d = (ls_valid (idb_files d) \<and> ls_valid (idb_meta d) \<and> ls_valid (idb_index d) \<and>
     (\<forall>(k, m)\<in>set (idb_meta d). k = file_key (sf_vault m) (sf_id m)))"

definition db_ok :: "web_storage \<Rightarrow> bool" where
  "db_ok w = (case wst_db w of None \<Rightarrow> True | Some d \<Rightarrow> keyed d)"

lemma set_ls_set: "ls_valid s \<Longrightarrow> set (ls_set k v s) = insert (k, v) {p \<in> set s. fst p \<noteq> k}"
proof (induction s)
  case (Cons p s)
  obtain k' v' where p: "p = (k', v')" by (cases p)
  from Cons.prems have "ls_valid s" "k' \<notin> fst ` set s" by (auto simp: ls_valid_def p)
  with Cons.IH show ?case by (auto simp: p)
qed simp

lemma set_ls_remove: "set (ls_remove k s) = {p \<in> set s. fst p \<noteq> k}"
  by (auto simp: ls_remove_def)

lemma keyed_simps:
  assumes "keyed d"
  shows "keyed (d\<lparr>idb_files := ls_set k b (idb_files d)\<rparr>)"
    and "keyed (d\<lparr>idb_files := ls_remove k (idb_files d)\<rparr>)"
    and "keyed (d\<lparr>idb_meta := ls_set (file_key (sf_vault m) (sf_id m)) m (idb_meta d)\<rparr>)"
    and "keyed (d\<lparr>idb_meta := ls_remove k (idb_meta d)\<rparr>)"
    and "keyed (d\<lparr>idb_index := ls_set k t (idb_index d)\<rparr>)"
    and "keyed (d\<lparr>idb_index := ls_remove k (idb_index d)\<rparr>)"
  using assms by (auto simp: keyed_def ls_valid_set ls_valid_remove set_ls_set set_ls_remove)

lemma db_ok_with_db: "db_ok w \<Longrightarrow> (\<And>d. keyed d \<Longrightarrow> keyed (f d)) \<Longrightarrow> db_ok (with_db f w)"
  by (simp add: db_ok_def with_db_def split: option.splits)

lemma with_db_simps [simp]:
  "wst_db (with_db f w) = map_option f (wst_db w)" "wst_available (with_db f w) = wst_available w"
  "wst_writable (with_db f w) = wst_writable w" "wst_vaults (with_db f w) = wst_vaults w"
  "load_vaults (with_db f w) = load_vaults w"
  by (simp_all add: with_db_def load_vaults_def)

lemma save_vaults_simps [simp]:
  "wst_db (save_vaults vs w) = wst_db w" "wst_available (save_vaults vs w) = wst_available w"
  "wst_writable (save_vaults vs w) = wst_writable w"
  "load_files v (save_vaults vs w) = load_files v w"
  "get_encrypted_blob v i (save_vaults vs w) = get_encrypted_blob v i w"
  "load_encrypted_index v (save_vaults vs w) = load_encrypted_index v w"
  by (simp_all add: save_vaults_def load_files_def get_encrypted_blob_def load_encrypted_index_def)

lemma load_save_vaults:
  "load_vaults (save_vaults vs w) =
     (if wst_available w \<and> wst_writable w then vs else load_vaults w)"
  by (simp add: save_vaults_def load_vaults_def)

lemma task_step_ok: "db_ok w \<Longrightarrow> db_ok (snd (task_step now t w))"
  by (cases t) (auto intro!: db_ok_with_db simp: keyed_simps db_ok_def Let_def split: option.splits)

lemma run_task_ok: "db_ok w \<Longrightarrow> db_ok (run_task now t w)"
proof (induction now t w rule: run_task.induct)
  case (1 now t w)
  show ?case using 1 task_step_ok [OF 1(2), of now t]
    by (subst run_task.simps) (auto split: prod.splits option.splits)
qed

subsection \<open>Looking files up\<close>

lemma metas_of_eq: "metas_of v d = map snd (sort_key fst (filter (\<lambda>(k, m). sf_vault m = v) (idb_meta d)))"
  by (simp add: metas_of_def filter_sort [symmetric] filter_map comp_def case_prod_unfold)

lemma metas_of_iff:
  "m \<in> set (metas_of v d) \<longleftrightarrow> sf_vault m = v \<and> (\<exists>k. (k, m) \<in> set (idb_meta d))"
  by (force simp: metas_of_def)

lemma metas_of_keyed:
  "keyed d \<Longrightarrow> m \<in> set (metas_of v d) \<longleftrightarrow> sf_vault m = v \<and> ls_get (file_key v (sf_id m)) (idb_meta d) = Some m"
  by (auto simp: metas_of_iff keyed_def ls_valid_def ls_get_def)

lemma metas_of_own_key:
  "keyed d \<Longrightarrow> m \<in> set (metas_of v d) \<longleftrightarrow> sf_vault m = v \<and> (file_key v (sf_id m), m) \<in> set (idb_meta d)"
  by (auto simp: metas_of_iff keyed_def)

lemma metas_of_other_db [simp]:
  "metas_of v (d\<lparr>idb_files := x\<rparr>) = metas_of v d" "metas_of v (d\<lparr>idb_index := y\<rparr>) = metas_of v d"
  by (simp_all add: metas_of_def)

lemma filter_ls_set_other:
  "(\<And>x. (k, x) \<in> set s \<Longrightarrow> \<not> P x) \<Longrightarrow> \<not> P m \<Longrightarrow>
   filter (\<lambda>(k, x). P x) (ls_set k m s) = filter (\<lambda>(k, x). P x) s"
proof (induction s)
  case (Cons p s)
  obtain k' v' where p: "p = (k', v')" by (cases p)
  have "filter (\<lambda>(k, x). P x) (ls_set k m s) = filter (\<lambda>(k, x). P x) s"
    by (rule Cons.IH) (use Cons.prems in auto)
  then show ?case using Cons.prems by (auto simp: p)
qed simp

lemma filter_ls_remove_other:
  "(\<And>x. (k, x) \<in> set s \<Longrightarrow> \<not> P x) \<Longrightarrow>
   filter (\<lambda>(k, x). P x) (ls_remove k s) = filter (\<lambda>(k, x). P x) s"
  unfolding ls_remove_def by (induction s) auto

lemma keyed_key:
  "keyed d \<Longrightarrow> (k, m) \<in> set (idb_meta d) \<Longrightarrow> k = file_key (sf_vault m) (sf_id m)"
  by (auto simp: keyed_def)

lemma metas_of_set_other:
  assumes "keyed d" and "colon_free v" and "colon_free (sf_vault m)" and "sf_vault m \<noteq> v"
  shows "metas_of v (d\<lparr>idb_meta := ls_set (file_key (sf_vault m) (sf_id m)) m (idb_meta d)\<rparr>) = metas_of v d"
proof -
  have "sf_vault x \<noteq> v" if "(file_key (sf_vault m) (sf_id m), x) \<in> set (idb_meta d)" for x
    using keyed_key [OF assms(1) that] assms(2-4) by (metis file_key_inj)
  then show ?thesis using assms(4) by (simp add: metas_of_eq filter_ls_set_other)
qed

lemma metas_of_remove_other:
  assumes "keyed d" and "colon_free v" and "colon_free u" and "u \<noteq> v"
  shows "metas_of v (d\<lparr>idb_meta := ls_remove (file_key u i) (idb_meta d)\<rparr>) = metas_of v d"
proof -
  have "sf_vault x \<noteq> v" if "(file_key u i, x) \<in> set (idb_meta d)" for x
    using keyed_key [OF assms(1) that] assms(2-4) by (metis file_key_inj)
  then show ?thesis by (simp add: metas_of_eq filter_ls_remove_other)
qed

lemma metas_of_set_same:
  assumes "keyed d" and "sf_vault m = v"
  shows "set (metas_of v (d\<lparr>idb_meta := ls_set (file_key v (sf_id m)) m (idb_meta d)\<rparr>)) =
    insert m {x \<in> set (metas_of v d). sf_id x \<noteq> sf_id m}"
proof -
  have "ls_valid (idb_meta d)" using assms(1) by (simp add: keyed_def)
  then show ?thesis using keyed_simps(3) [OF assms(1), of m] assms
    by (auto simp: metas_of_own_key set_ls_set)
qed

lemma metas_of_remove_same:
  assumes "keyed d"
  shows "set (metas_of v (d\<lparr>idb_meta := ls_remove (file_key v i) (idb_meta d)\<rparr>)) =
    {x \<in> set (metas_of v d). sf_id x \<noteq> i}"
  using keyed_simps(4) [OF assms, of "file_key v i"] assms
  by (auto simp: metas_of_own_key set_ls_remove)

subsection \<open>The operations on their own\<close>

lemma run_task_done: "task_step now t w = (None, w') \<Longrightarrow> run_task now t w = w'"
  by (simp add: run_task.simps)

lemma run_task_next: "task_step now t w = (Some t', w') \<Longrightarrow> run_task now t w = run_task now t' w'"
  by (subst run_task.simps) simp

lemma set_count_absent: "\<forall>x\<in>set vs. vi_id x \<noteq> v \<Longrightarrow> set_count v stamp n vs = vs"
  by (induction vs) auto

lemma set_count_ids [simp]: "map vi_id (set_count v stamp n vs) = map vi_id vs"
  by (induction vs) auto

lemma run_count:
  fixes touch :: bool
  defines "stamp now \<equiv> (if touch then Some now else None)"
  shows "run_task now (CountLoad v touch) w =
    (if \<exists>x\<in>set (load_vaults w). vi_id x = v
     then save_vaults (set_count v (stamp now) (length (load_files v w)) (load_vaults w)) w else w)"
  by (auto simp: stamp_def run_task_next run_task_done Let_def)

lemma load_vaults_run_count:
  "wst_available w \<Longrightarrow> wst_writable w \<Longrightarrow> load_vaults (run_task now (CountLoad v touch) w) =
     set_count v (if touch then Some now else None) (length (load_files v w)) (load_vaults w)"
  by (simp add: run_count load_save_vaults set_count_absent)

lemma run_count_simps [simp]:
  "load_files u (run_task now (CountLoad v touch) w) = load_files u w"
  "get_encrypted_blob u i (run_task now (CountLoad v touch) w) = get_encrypted_blob u i w"
  "load_encrypted_index u (run_task now (CountLoad v touch) w) = load_encrypted_index u w"
  by (simp_all add: run_count)

text \<open>What a write leaves of the other files and of the other vaults.\<close>

definition same_elsewhere :: "string \<Rightarrow> web_storage \<Rightarrow> web_storage \<Rightarrow> bool" where
  "same_elsewhere v w w' = (\<forall>u. colon_free u \<longrightarrow> u \<noteq> v \<longrightarrow>
     load_files u w' = load_files u w \<and> load_encrypted_index u w' = load_encrypted_index u w \<and>
     (\<forall>i. get_encrypted_blob u i w' = get_encrypted_blob u i w))"

lemma same_elsewhere_refl [simp]: "same_elsewhere v w w"
  by (simp add: same_elsewhere_def)

lemma same_elsewhere_trans: "same_elsewhere v w w' \<Longrightarrow> same_elsewhere v w' w'' \<Longrightarrow> same_elsewhere v w w''"
  by (simp add: same_elsewhere_def)

text \<open>The vault a task works for.\<close>

fun task_vault :: "storage_task \<Rightarrow> string" where
  "task_vault (DeleteVaultList v vs) = v"
| "task_vault (DeleteVaultFind v) = v"
| "task_vault (DeleteVaultBlob v i is) = v"
| "task_vault (DeleteVaultMeta v i is) = v"
| "task_vault (DeleteVaultIndex v) = v"
| "task_vault (SaveFileMeta m b) = sf_vault m"
| "task_vault (SaveFileBlob m b) = sf_vault m"
| "task_vault (DeleteFileMeta v i) = v"
| "task_vault (DeleteFileBlob v i) = v"
| "task_vault (CountLoad v touch) = v"
| "task_vault (CountFiles v touch vs) = v"
| "task_vault (CountWrite v touch vs n) = v"

lemma task_vault_step: "task_step now t w = (Some t', w') \<Longrightarrow> task_vault t' = task_vault t"
  by (cases t) (auto simp: delete_next_def Let_def split: list.splits option.splits if_splits)

lemma same_elsewhere_db:
  assumes "wst_db w = Some d"
    and "\<And>u. colon_free u \<Longrightarrow> u \<noteq> v \<Longrightarrow> metas_of u (f d) = metas_of u d"
    and "\<And>u. u \<noteq> v \<Longrightarrow> ls_get u (idb_index (f d)) = ls_get u (idb_index d)"
    and "\<And>u i. colon_free u \<Longrightarrow> u \<noteq> v \<Longrightarrow>
      ls_get (file_key u i) (idb_files (f d)) = ls_get (file_key u i) (idb_files d)"
  shows "same_elsewhere v w (with_db f w)"
  using assms by (simp add: same_elsewhere_def load_files_def get_encrypted_blob_def load_encrypted_index_def)

lemma same_elsewhere_none: "wst_db w = None \<Longrightarrow> same_elsewhere v w (with_db f w)"
  by (simp add: same_elsewhere_def load_files_def get_encrypted_blob_def load_encrypted_index_def)

lemma same_elsewhere_save [simp]: "same_elsewhere v w (save_vaults vs w)"
  by (simp add: same_elsewhere_def)

lemma task_step_elsewhere:
  assumes "db_ok w" and "colon_free (task_vault t)"
  shows "same_elsewhere (task_vault t) w (snd (task_step now t w))"
proof (cases "wst_db w")
  case None
  then show ?thesis by (cases t) (simp_all add: same_elsewhere_none Let_def)
next
  case (Some d)
  then have d: "keyed d" using assms(1) by (simp add: db_ok_def)
  show ?thesis using assms(2)
    by (cases t)
      (auto simp: Some Let_def ls_get_set ls_get_remove file_key_inj
        metas_of_remove_other [OF d] metas_of_set_other [OF d] intro!: same_elsewhere_db)
qed

lemma run_task_elsewhere:
  "db_ok w \<Longrightarrow> colon_free (task_vault t) \<Longrightarrow> same_elsewhere (task_vault t) w (run_task now t w)"
proof (induction now t w rule: run_task.induct)
  case (1 now t w)
  obtain r w' where s: "task_step now t w = (r, w')" by (cases "task_step now t w")
  have ok: "db_ok w'" "same_elsewhere (task_vault t) w w'"
    using task_step_ok [OF 1(2), of now t] task_step_elsewhere [OF 1(2,3), of now] by (simp_all add: s)
  show ?case
  proof (cases r)
    case None
    with s ok show ?thesis by (simp add: run_task_done)
  next
    case (Some t')
    then have v: "task_vault t' = task_vault t" using task_vault_step s by simp
    have "same_elsewhere (task_vault t') w' (run_task now t' w')"
      by (rule 1(1) [OF s [symmetric] Some ok(1)]) (use 1(3) v in simp)
    with v ok(2) s Some show ?thesis by (simp add: run_task_next same_elsewhere_trans)
  qed
qed

text \<open>Deleting the files a vault had when it was searched.\<close>

definition drop_files :: "string \<Rightarrow> string list \<Rightarrow> idb \<Rightarrow> idb" where
  "drop_files v is d = d\<lparr>idb_files := fold (\<lambda>i. ls_remove (file_key v i)) is (idb_files d),
     idb_meta := fold (\<lambda>i. ls_remove (file_key v i)) is (idb_meta d)\<rparr>"

lemma drop_files_Cons: "drop_files v (i # is) d = drop_files v is
    (d\<lparr>idb_files := ls_remove (file_key v i) (idb_files d), idb_meta := ls_remove (file_key v i) (idb_meta d)\<rparr>)"
  by (simp add: drop_files_def)

lemma run_delete_files:
  "run_task now (delete_next v is) w =
    with_db (\<lambda>d. (drop_files v is d)\<lparr>idb_index := ls_remove v (idb_index d)\<rparr>) w"
proof (induction "is" arbitrary: w)
  case Nil
  show ?case by (simp add: delete_next_def run_task_done drop_files_def)
next
  case (Cons i "is")
  have "run_task now (delete_next v (i # is)) w = run_task now (delete_next v is)
    (with_db (\<lambda>d. d\<lparr>idb_files := ls_remove (file_key v i) (idb_files d), idb_meta := ls_remove (file_key v i) (idb_meta d)\<rparr>) w)"
    by (simp add: delete_next_def run_task_next with_db_def option.map_comp comp_def)
  then show ?case unfolding Cons.IH
    by (simp add: drop_files_Cons with_db_def option.map_comp comp_def)
qed

lemma run_delete_vault:
  assumes "wst_db w = Some d"
  shows "run_task now (DeleteVaultList v vs) w =
    with_db (\<lambda>d. (drop_files v (map sf_id (metas_of v d)) d)\<lparr>idb_index := ls_remove v (idb_index d)\<rparr>)
      (save_vaults (filter (\<lambda>x. vi_id x \<noteq> v) vs) w)"
  using assms by (simp add: run_task_next run_delete_files with_db_def)

lemma load_files_db: "wst_available w \<Longrightarrow> wst_db w = Some d \<Longrightarrow> load_files v w = metas_of v d"
  by (simp add: load_files_def)

lemma blob_db: "wst_available w \<Longrightarrow> wst_db w = Some d \<Longrightarrow>
    get_encrypted_blob v i w = ls_get (file_key v i) (idb_files d)"
  by (simp add: get_encrypted_blob_def)

definition usable :: "web_storage \<Rightarrow> bool" where
  "usable w = (wst_available w \<and> wst_writable w \<and> wst_db w \<noteq> None \<and> db_ok w)"

lemma usableE:
  assumes "usable w"
  obtains d where "wst_available w" "wst_writable w" "wst_db w = Some d" "keyed d"
  using assms by (auto simp: usable_def db_ok_def)

theorem save_file_spec:
  assumes "usable w" and "colon_free (sf_vault m)" and "w' = save_file now m blob w"
  shows "set (load_files (sf_vault m) w') =
      insert (m\<lparr>sf_has_blob := blob \<noteq> None\<rparr>) {x \<in> set (load_files (sf_vault m) w). sf_id x \<noteq> sf_id m} \<and>
    get_encrypted_blob (sf_vault m) i w' =
      (if i = sf_id m \<and> blob \<noteq> None then blob else get_encrypted_blob (sf_vault m) i w) \<and>
    load_vaults w' = set_count (sf_vault m) (Some now) (length (load_files (sf_vault m) w')) (load_vaults w) \<and>
    same_elsewhere (sf_vault m) w w'"
proof -
  obtain d where d: "wst_available w" "wst_writable w" "wst_db w = Some d" "keyed d"
    using usableE [OF assms(1)] .
  let ?v = "sf_vault m" and ?m = "m\<lparr>sf_has_blob := blob \<noteq> None\<rparr>"
  let ?t = "SaveFileMeta ?m blob"
  let ?f = "\<lambda>d. d\<lparr>idb_meta := ls_set (file_key ?v (sf_id m)) ?m (idb_meta d)\<rparr>"
  let ?g = "\<lambda>d. case blob of None \<Rightarrow> d | Some b \<Rightarrow> d\<lparr>idb_files := ls_set (file_key ?v (sf_id m)) b (idb_files d)\<rparr>"
  let ?w = "with_db (\<lambda>d. ?g (?f d)) w"
  have r: "w' = run_task now ?t w"
    using d by (simp add: assms(3) save_file_def save_file_begin_def run_begin_def)
  then have w': "w' = run_task now (CountLoad ?v True) ?w"
    by (cases blob) (simp_all add: run_task_next with_db_def option.map_comp comp_def)
  have f: "load_files ?v w' = metas_of ?v (?f d)"
    using d by (cases blob) (simp_all add: w' load_files_db)
  have "set (load_files ?v w') = insert ?m {x \<in> set (load_files ?v w). sf_id x \<noteq> sf_id m}"
    using metas_of_set_same [OF d(4), of ?m ?v] d by (simp add: f load_files_db)
  moreover have "get_encrypted_blob ?v i w' =
      (if i = sf_id m \<and> blob \<noteq> None then blob else get_encrypted_blob ?v i w)"
    using d by (cases blob) (simp_all add: w' blob_db ls_get_set)
  moreover have "load_vaults w' = set_count ?v (Some now) (length (load_files ?v w')) (load_vaults w)"
    using d by (simp add: w' load_vaults_run_count)
  moreover have "same_elsewhere ?v w w'"
    unfolding r using run_task_elsewhere [of w ?t now] assms(1,2) by (simp add: usable_def)
  ultimately show ?thesis by blast
qed

theorem delete_file_spec:
  assumes "usable w" and "colon_free v" and "w' = delete_file now v i w"
  shows "set (load_files v w') = {x \<in> set (load_files v w). sf_id x \<noteq> i} \<and>
    get_encrypted_blob v i w' = None \<and>
    load_vaults w' = set_count v None (length (load_files v w')) (load_vaults w) \<and>
    same_elsewhere v w w'"
proof -
  obtain d where d: "wst_available w" "wst_writable w" "wst_db w = Some d" "keyed d"
    using usableE [OF assms(1)] .
  let ?f = "\<lambda>d. d\<lparr>idb_meta := ls_remove (file_key v i) (idb_meta d), idb_files := ls_remove (file_key v i) (idb_files d)\<rparr>"
  have r: "w' = run_task now (DeleteFileMeta v i) w"
    using d by (simp add: assms(3) delete_file_def delete_file_begin_def run_begin_def)
  then have w': "w' = run_task now (CountLoad v False) (with_db ?f w)"
    by (simp add: run_task_next with_db_def option.map_comp comp_def)
  have "set (load_files v w') = {x \<in> set (load_files v w). sf_id x \<noteq> i}"
    using metas_of_remove_same [OF d(4), of v i] d by (simp add: w' load_files_db metas_of_def)
  moreover have "get_encrypted_blob v i w' = None"
    using d by (simp add: w' blob_db ls_get_remove)
  moreover have "load_vaults w' = set_count v None (length (load_files v w')) (load_vaults w)"
    using d by (simp add: w' load_vaults_run_count)
  moreover have "same_elsewhere v w w'"
    unfolding r using run_task_elsewhere [of w "DeleteFileMeta v i" now] assms(1,2) by (simp add: usable_def)
  ultimately show ?thesis by blast
qed

lemma ls_get_fold_remove: "ls_get k (fold (\<lambda>i. ls_remove (file_key v i)) is s) =
    (if k \<in> file_key v ` set is then None else ls_get k s)"
  by (induction "is" arbitrary: s) (auto simp: ls_get_remove)

lemma set_fold_remove: "set (fold (\<lambda>i. ls_remove (file_key v i)) is s) =
    {p \<in> set s. fst p \<notin> file_key v ` set is}"
  by (induction "is" arbitrary: s) (auto simp: set_ls_remove)

text \<open>
  C36: Deleting a vault removes it from the list with all its files, blobs and its index, and changes no
  other vault.
\<close>

theorem delete_vault_erases:
  assumes "usable w" and "colon_free v" and "w' = delete_vault now v w"
  shows "load_vaults w' = filter (\<lambda>x. vi_id x \<noteq> v) (load_vaults w) \<and>
    load_files v w' = [] \<and> load_encrypted_index v w' = None \<and>
    (\<forall>m\<in>set (load_files v w). get_encrypted_blob v (sf_id m) w' = None) \<and>
    same_elsewhere v w w'"
proof -
  obtain d where d: "wst_available w" "wst_writable w" "wst_db w = Some d" "keyed d"
    using usableE [OF assms(1)] .
  let ?t = "DeleteVaultList v (load_vaults w)" and ?is = "map sf_id (metas_of v d)"
  have r: "w' = run_task now ?t w"
    using d by (simp add: assms(3) delete_vault_def delete_vault_begin_def run_begin_def)
  note w' = r [unfolded run_delete_vault [OF d(3)]]
  have db: "wst_db w' = Some ((drop_files v ?is d)\<lparr>idb_index := ls_remove v (idb_index d)\<rparr>)"
    and a: "wst_available w'" using d by (simp_all add: w')
  have "m \<notin> set (metas_of v (drop_files v ?is d))" for m
  proof
    assume "m \<in> set (metas_of v (drop_files v ?is d))"
    then obtain k where k: "sf_vault m = v" "(k, m) \<in> set (idb_meta d)" "k \<notin> file_key v ` set ?is"
      by (auto simp: metas_of_iff drop_files_def set_fold_remove)
    then have "k = file_key v (sf_id m)" "m \<in> set (metas_of v d)"
      using keyed_key [OF d(4)] by (auto simp: metas_of_iff)
    with k(3) show False by simp
  qed
  then have "metas_of v (drop_files v ?is d) = []" by (metis last_in_set)
  then have "load_files v w' = []" by (simp add: load_files_db [OF a db])
  moreover have "load_vaults w' = filter (\<lambda>x. vi_id x \<noteq> v) (load_vaults w)"
    using d by (simp add: w' load_save_vaults)
  moreover have "load_encrypted_index v w' = None"
    using a by (simp add: load_encrypted_index_def db ls_get_remove)
  moreover have "\<forall>m\<in>set (load_files v w). get_encrypted_blob v (sf_id m) w' = None"
    using d by (auto simp: load_files_db blob_db [OF a db] drop_files_def ls_get_fold_remove)
  moreover have "same_elsewhere v w w'"
    unfolding r using run_task_elsewhere [of w ?t now] assms(1,2) by (simp add: usable_def)
  ultimately show ?thesis by blast
qed

subsection \<open>Operations that interleave\<close>

text \<open>
  Any number of operations are in flight; an event starts one, is one of the methods of a single
  request, or resumes an operation for its next segment.
\<close>

datatype storage_event =
    BeginDeleteVault string
  | BeginSaveFile stored_file "bytes option"
  | BeginDeleteFile string string
  | SaveVaults "vault_info list"
  | SaveIndex string string
  | Resume nat string

definition start_task :: "storage_task option \<Rightarrow> storage_task list \<Rightarrow> storage_task list" where
  "start_task t ts = (case t of None \<Rightarrow> ts | Some t \<Rightarrow> ts @ [t])"

fun storage_step :: "storage_event \<Rightarrow> web_storage \<times> storage_task list \<Rightarrow> (web_storage \<times> storage_task list) option" where
  "storage_step (BeginDeleteVault v) (w, ts) = Some (w, start_task (delete_vault_begin v w) ts)"
| "storage_step (BeginSaveFile m blob) (w, ts) = Some (w, start_task (save_file_begin m blob w) ts)"
| "storage_step (BeginDeleteFile v i) (w, ts) = Some (w, start_task (delete_file_begin v i w) ts)"
| "storage_step (SaveVaults vs) (w, ts) = Some (save_vaults vs w, ts)"
| "storage_step (SaveIndex v b) (w, ts) = Some (save_encrypted_index v b w, ts)"
| "storage_step (Resume k now) (w, ts) =
     (if k < length ts
      then (case task_step now (ts ! k) w of
              (None, w') \<Rightarrow> Some (w', splice1 k ts) | (Some t, w') \<Rightarrow> Some (w', ts[k := t]))
      else None)"

text \<open>Events and tasks of other vaults.\<close>

fun event_elsewhere :: "string \<Rightarrow> storage_event \<Rightarrow> bool" where
  "event_elsewhere v (BeginDeleteVault u) = (colon_free u \<and> u \<noteq> v)"
| "event_elsewhere v (BeginSaveFile m blob) = (colon_free (sf_vault m) \<and> sf_vault m \<noteq> v)"
| "event_elsewhere v (BeginDeleteFile u i) = (colon_free u \<and> u \<noteq> v)"
| "event_elsewhere v (SaveVaults vs) = True"
| "event_elsewhere v (SaveIndex u b) = (u \<noteq> v)"
| "event_elsewhere v (Resume k now) = True"

definition tasks_elsewhere :: "string \<Rightarrow> storage_task list \<Rightarrow> bool" where
  "tasks_elsewhere v ts = (\<forall>t\<in>set ts. colon_free (task_vault t) \<and> task_vault t \<noteq> v)"

definition untouched :: "string \<Rightarrow> web_storage \<Rightarrow> web_storage \<times> storage_task list \<Rightarrow> bool" where
  "untouched v w0 = (\<lambda>(w, ts). colon_free v \<and> db_ok w \<and> tasks_elsewhere v ts \<and> load_files v w = load_files v w0 \<and>
     load_encrypted_index v w = load_encrypted_index v w0 \<and>
     (\<forall>i. get_encrypted_blob v i w = get_encrypted_blob v i w0))"

lemma tasks_elsewhere_start:
  "tasks_elsewhere v ts \<Longrightarrow> (\<And>t. x = Some t \<Longrightarrow> colon_free (task_vault t) \<and> task_vault t \<noteq> v) \<Longrightarrow>
   tasks_elsewhere v (start_task x ts)"
  by (auto simp: tasks_elsewhere_def start_task_def split: option.split)

lemma begin_vault:
  "delete_vault_begin v w = Some t \<Longrightarrow> task_vault t = v"
  "save_file_begin m blob w = Some t \<Longrightarrow> task_vault t = sf_vault m"
  "delete_file_begin v i w = Some t \<Longrightarrow> task_vault t = v"
  by (auto simp: delete_vault_begin_def save_file_begin_def delete_file_begin_def split: if_splits)

lemma save_index_simps [simp]:
  "load_files u (save_encrypted_index v b w) = load_files u w"
  "get_encrypted_blob u i (save_encrypted_index v b w) = get_encrypted_blob u i w"
  "db_ok w \<Longrightarrow> db_ok (save_encrypted_index v b w)"
  "load_vaults (save_encrypted_index v b w) = load_vaults w"
  by (cases "wst_db w"; simp add: save_encrypted_index_def load_files_def get_encrypted_blob_def with_db_def
      db_ok_def keyed_simps load_vaults_def)+

lemma load_save_index:
  "load_encrypted_index u (save_encrypted_index v b w) =
     (if u = v \<and> wst_available w \<and> wst_db w \<noteq> None then Some b else load_encrypted_index u w)"
  by (cases "wst_db w") (auto simp: save_encrypted_index_def load_encrypted_index_def ls_get_set)

lemma db_ok_save_vaults [simp]: "db_ok (save_vaults vs w) = db_ok w"
  by (simp add: db_ok_def)

lemma untouched_step:
  assumes "untouched v w0 s" and "event_elsewhere v e" and "storage_step e s = Some s'"
  shows "untouched v w0 s'"
proof -
  obtain w ts where s: "s = (w, ts)" by (cases s)
  note u = assms(1) [unfolded s untouched_def split]
  show ?thesis
  proof (cases e)
    case (Resume k now)
    with assms(3) have k: "k < length ts" by (simp add: s split: if_splits)
    let ?t = "ts ! k"
    have t: "colon_free (task_vault ?t)" "task_vault ?t \<noteq> v"
      using u k by (auto simp: tasks_elsewhere_def)
    obtain r w' where w': "task_step now ?t w = (r, w')" by (cases "task_step now ?t w")
    have same: "db_ok w'" "same_elsewhere (task_vault ?t) w w'"
      using task_step_ok [of w now ?t] task_step_elsewhere [of w ?t now] u t w' by simp_all
    have "tasks_elsewhere v (splice1 k ts)"
      using u by (auto simp: tasks_elsewhere_def splice1_def dest: in_set_takeD in_set_dropD)
    moreover have "tasks_elsewhere v (ts[k := t'])" if "r = Some t'" for t'
      using u t task_vault_step [of now ?t w t' w'] w' that
      by (auto simp: tasks_elsewhere_def dest: subsetD [OF set_update_subset_insert])
    ultimately show ?thesis using assms(3) u same t k
      by (auto simp: Resume s w' untouched_def same_elsewhere_def split: option.splits)
  qed (use assms u in \<open>auto simp: s untouched_def load_save_index intro!: tasks_elsewhere_start dest: begin_vault\<close>)
qed

interpretation storage: event_system storage_step "event_elsewhere v" "untouched v w0" for v w0
  by unfold_locales (rule untouched_step)

text \<open>
  C14: However saves, deletions and list writes of other vaults interleave, the files, blobs and index of a
  vault stay as they are.
\<close>

theorem vaults_are_isolated:
  assumes "colon_free v" and "db_ok w" and "tasks_elsewhere v ts"
    and "reaches storage_step (event_elsewhere v) (w, ts) (w', ts')"
  shows "load_files v w' = load_files v w \<and> load_encrypted_index v w' = load_encrypted_index v w \<and>
    get_encrypted_blob v i w' = get_encrypted_blob v i w"
proof -
  have "untouched v w (w, ts)" using assms(1-3) by (simp add: untouched_def)
  with storage.reaches_inv [OF assms(4)] show ?thesis
    by (simp add: untouched_def)
qed

text \<open>A save that reads the list before another write and writes it back after.\<close>

theorem stale_list_overwrites:
  assumes "wst_available w" and "wst_writable w" and "wst_db w \<noteq> None"
    and "\<exists>x\<in>set (load_vaults w). vi_id x = sf_vault m"
  shows "\<exists>w' n. run storage_step (BeginSaveFile m (Some b) # replicate 3 (Resume 0 now) @
      SaveVaults vs' # replicate 2 (Resume 0 now)) (w, []) = Some (w', []) \<and>
    load_vaults w' = set_count (sf_vault m) (Some now) n (load_vaults w)"
  using assms
  by (auto simp: save_file_begin_def start_task_def numeral_3_eq_3 numeral_2_eq_2 Let_def splice1_def
      load_save_vaults)

subsection \<open>A storage to try things on\<close>

definition demo_vault :: "string \<Rightarrow> string \<Rightarrow> vault_info" where
  "demo_vault i name = \<lparr>vi_id = i, vi_name = name, vi_meta = [], vi_count = 0, vi_modified = ''t0'',
     vi_level = LevelStandard, vi_wrapped = None, vi_salt = None, vi_codes = None, vi_mount = None,
     vi_drive = None, vi_fs = None, vi_algorithm = None, vi_source = Some SourceLocal\<rparr>"

definition demo_file :: "string \<Rightarrow> string \<Rightarrow> file_info" where
  "demo_file v i = \<lparr>fi_id = i, fi_vault = v, fi_name = ''a.txt'', fi_size = 3, fi_type = ''txt'',
     fi_modified = ''t0'', fi_meta = [], fi_pqc = False, fi_uri = None, fi_blob = Some [1, 2, 3],
     fi_salt = None, fi_cipher = None, fi_streamed = None, fi_original = None, fi_version = None, fi_hash = None\<rparr>"

definition demo_storage :: web_storage where
  "demo_storage = \<lparr>wst_available = True, wst_writable = True,
     wst_vaults = Some (Json [demo_vault ''v1'' ''Docs'', demo_vault ''v2'' ''Photos'']),
     wst_db = Some \<lparr>idb_files = [(''v1:f1'', [7])],
       idb_meta = [(''v1:f1'', to_stored_file (demo_file ''v1'' ''f1'') True)], idb_index = [(''v1'', ''blob'')]\<rparr>\<rparr>"

lemmas demo_storage_defs = demo_storage_def demo_vault_def demo_file_def to_stored_file_def

lemma demo_usable: "usable demo_storage" "db_ok demo_storage"
  by (simp_all add: usable_def db_ok_def keyed_def demo_storage_defs ls_valid_def file_key_def)

lemma demo_storage_simps [simp]:
  "wst_available demo_storage" "wst_writable demo_storage" "wst_db demo_storage \<noteq> None"
  "load_vaults demo_storage = [demo_vault ''v1'' ''Docs'', demo_vault ''v2'' ''Photos'']"
  "vi_id (demo_vault i n) = i"
  by (simp_all add: demo_storage_def load_vaults_def demo_vault_def)

theorem save_file_spec_witness:
  "usable demo_storage \<and> colon_free ''v2'' \<and>
   get_encrypted_blob ''v2'' ''f9'' (save_file ''t1'' (to_stored_file (demo_file ''v2'' ''f9'') True) (Some [5]) demo_storage) = Some [5]"
  using save_file_spec [where w = demo_storage and m = "to_stored_file (demo_file ''v2'' ''f9'') True"
      and now = "''t1''" and blob = "Some [5]" and i = "''f9''", OF demo_usable(1) _ refl]
  by (simp add: demo_usable colon_free_def to_stored_file_def demo_file_def)

theorem delete_file_spec_witness:
  "usable demo_storage \<and> get_encrypted_blob ''v1'' ''f1'' demo_storage = Some [7] \<and>
   get_encrypted_blob ''v1'' ''f1'' (delete_file ''t1'' ''v1'' ''f1'' demo_storage) = None"
  using delete_file_spec [where w = demo_storage and v = "''v1''" and i = "''f1''" and now = "''t1''", OF demo_usable(1) _ refl]
  by (simp add: demo_usable colon_free_def) (simp add: get_encrypted_blob_def demo_storage_defs file_key_def ls_get_def)

theorem delete_vault_erases_witness:
  "usable demo_storage \<and> load_encrypted_index ''v1'' demo_storage = Some ''blob'' \<and>
   load_encrypted_index ''v1'' (delete_vault ''t1'' ''v1'' demo_storage) = None \<and>
   map vi_id (load_vaults (delete_vault ''t1'' ''v1'' demo_storage)) = [''v2'']"
  using delete_vault_erases [where w = demo_storage and v = "''v1''" and now = "''t1''", OF demo_usable(1) _ refl]
  by (simp add: demo_usable colon_free_def)
    (simp add: load_encrypted_index_def demo_storage_def ls_get_def)

theorem vaults_are_isolated_witness:
  "\<exists>s'. reaches storage_step (event_elsewhere ''v1'') (demo_storage, []) s' \<and>
     load_vaults (fst s') \<noteq> load_vaults demo_storage \<and>
     load_files ''v1'' (fst s') = load_files ''v1'' demo_storage"
proof -
  let ?es = "[BeginDeleteVault ''v2'', Resume 0 ''t1'']"
  obtain s' where s': "run storage_step ?es (demo_storage, []) = Some s'" "map vi_id (load_vaults (fst s')) = [''v1'']"
    by (simp add: delete_vault_begin_def start_task_def load_save_vaults)
  have "list_all (event_elsewhere ''v1'') ?es" by (simp add: colon_free_def)
  from run_reaches [OF s'(1) this] have r: "reaches storage_step (event_elsewhere ''v1'') (demo_storage, []) s'" .
  obtain w' ts' where p: "s' = (w', ts')" by (cases s')
  have "load_files ''v1'' w' = load_files ''v1'' demo_storage"
    using vaults_are_isolated [of "''v1''" demo_storage "[]" w' ts'] r
    by (simp add: p demo_usable colon_free_def tasks_elsewhere_def)
  then show ?thesis using r s'(2) p by (intro exI [of _ s']) auto
qed

theorem stale_list_overwrites_witness:
  "\<exists>w' n. run storage_step (BeginSaveFile (to_stored_file (demo_file ''v2'' ''f9'') True) (Some [5]) #
      replicate 3 (Resume 0 ''t1'') @ SaveVaults (load_vaults demo_storage @ [demo_vault ''v3'' ''New'']) #
      replicate 2 (Resume 0 ''t1'')) (demo_storage, []) = Some (w', []) \<and>
    load_vaults w' = set_count ''v2'' (Some ''t1'') n (load_vaults demo_storage)"
  using stale_list_overwrites [of demo_storage "to_stored_file (demo_file ''v2'' ''f9'') True" "[5]" "''t1''"
      "load_vaults demo_storage @ [demo_vault ''v3'' ''New'']"]
  by (simp add: to_stored_file_def demo_file_def del: replicate.simps run.simps)

end
