(* ===== verification/Domain_Json.thy ===== *)
theory Domain_Json
  imports Vault_Storage Json_Text
begin

text \<open>
  The data of \<open>types/domain.ts\<close> as JSON documents: \<open>JSON.stringify\<close> drops members that are
  \<open>undefined\<close>, and \<open>JSON.parse(...) as T\<close> is a cast that checks nothing, so reading is \<open>None\<close> on a
  document that does not have the type the code claims. A blob is left out: \<open>JSON.stringify\<close> turns a
  \<open>Uint8Array\<close> into an object with the keys \<open>0\<close>, \<open>1\<close>, ..., which is no \<open>Uint8Array\<close> when it is read back.
\<close>

type_synonym members = "(string \<times> json_value) list"

definition opt_member :: "string \<Rightarrow> ('a \<Rightarrow> json_value) \<Rightarrow> 'a option \<Rightarrow> members" where
  "opt_member k f x = (case x of None \<Rightarrow> [] | Some v \<Rightarrow> [(k, f v)])"

definition json_nat :: "nat \<Rightarrow> json_value" where
  "json_nat n = JNumber (number_text n)"

subsection \<open>Reading members\<close>

fun as_string :: "json_value \<Rightarrow> string option" where
  "as_string (JString s) = Some s"
| "as_string _ = None"

fun as_nat :: "json_value \<Rightarrow> nat option" where
  "as_nat (JNumber s) = read_number s"
| "as_nat _ = None"

fun as_bool :: "json_value \<Rightarrow> bool option" where
  "as_bool (JBool b) = Some b"
| "as_bool _ = None"

fun as_array :: "json_value \<Rightarrow> json_value list option" where
  "as_array (JArray vs) = Some vs"
| "as_array _ = None"

fun as_object :: "json_value \<Rightarrow> members option" where
  "as_object (JObject ms) = Some ms"
| "as_object _ = None"

definition member :: "(json_value \<Rightarrow> 'a option) \<Rightarrow> string \<Rightarrow> members \<Rightarrow> 'a option" where
  "member f k ms = Option.bind (map_of ms k) f"

definition maybe_member :: "(json_value \<Rightarrow> 'a option) \<Rightarrow> string \<Rightarrow> members \<Rightarrow> 'a option option" where
  "maybe_member f k ms = (case map_of ms k of None \<Rightarrow> Some None | Some v \<Rightarrow> map_option Some (f v))"

lemma as_nat_json [simp]: "as_nat (json_nat n) = Some n"
  by (simp add: json_nat_def)

lemma plain_json_nat [simp]: "plain_json (json_nat n)"
  by (simp add: json_nat_def)

lemma map_of_opt:
  "map_of (opt_member k f x @ ms) i = (if i = k \<and> x \<noteq> None then map_option f x else map_of ms i)"
  "map_of (opt_member k f x) i = (if i = k then map_option f x else None)"
  by (auto simp: opt_member_def split: option.split)

lemma keys_opt [simp]:
  "i \<in> fst ` set (opt_member k f x) \<longleftrightarrow> i = k \<and> x \<noteq> None"
  by (auto simp: opt_member_def split: option.split)

lemma distinct_opt [simp]:
  "distinct (map fst (opt_member k f x))"
  by (auto simp: opt_member_def split: option.split)

lemma fst_opt [simp]: "fst ` set (opt_member k f x) \<inter> A = (if x \<noteq> None \<and> k \<in> A then {k} else {})"
  by (auto simp: opt_member_def split: option.split)

lemma plain_opt [simp]: "(\<And>v. x = Some v \<Longrightarrow> plain_json (f v)) \<Longrightarrow> list_all (\<lambda>(k, v). plain_json v) (opt_member k f x)"
  by (auto simp: opt_member_def split: option.split)

subsection \<open>Vaults\<close>

fun level_text :: "security_level \<Rightarrow> string" where
  "level_text LevelStandard = ''standard''"
| "level_text LevelHigh = ''high''"
| "level_text LevelMaximum = ''maximum''"

fun source_text :: "vault_source \<Rightarrow> string" where
  "source_text SourceUsb = ''usb''"
| "source_text SourceCloud = ''cloud''"
| "source_text SourceLocal = ''local''"

definition as_level :: "json_value \<Rightarrow> security_level option" where
  "as_level v = List.find (\<lambda>l. v = JString (level_text l)) [LevelStandard, LevelHigh, LevelMaximum]"

definition as_source :: "json_value \<Rightarrow> vault_source option" where
  "as_source v = List.find (\<lambda>l. v = JString (source_text l)) [SourceUsb, SourceCloud, SourceLocal]"

lemma as_level_text [simp]: "as_level (JString (level_text l)) = Some l"
  by (cases l) (simp_all add: as_level_def)

lemma as_source_text [simp]: "as_source (JString (source_text l)) = Some l"
  by (cases l) (simp_all add: as_source_def)

definition vault_json :: "vault_info \<Rightarrow> json_value" where
  "vault_json v = JObject
     ([(''id'', JString (vi_id v)), (''name'', JString (vi_name v)),
       (''encryptedMetadata'', JString (vi_meta v)), (''fileCount'', json_nat (vi_count v)),
       (''lastModified'', JString (vi_modified v)), (''securityLevel'', JString (level_text (vi_level v)))] @
      opt_member ''wrappedMekB64'' JString (vi_wrapped v) @ opt_member ''kekSaltHex'' JString (vi_salt v) @
      opt_member ''hasRecoveryCodes'' JBool (vi_codes v) @ opt_member ''mountPoint'' JString (vi_mount v) @
      opt_member ''driveName'' JString (vi_drive v) @ opt_member ''fileSystem'' JString (vi_fs v) @
      opt_member ''algorithm'' JString (vi_algorithm v) @
      opt_member ''source'' (\<lambda>s. JString (source_text s)) (vi_source v))"

definition vault_of_json :: "json_value \<Rightarrow> vault_info option" where
  "vault_of_json j = Option.bind (as_object j) (\<lambda>ms.
     Option.bind (member as_string ''id'' ms) (\<lambda>i. Option.bind (member as_string ''name'' ms) (\<lambda>nm.
     Option.bind (member as_string ''encryptedMetadata'' ms) (\<lambda>md. Option.bind (member as_nat ''fileCount'' ms) (\<lambda>n.
     Option.bind (member as_string ''lastModified'' ms) (\<lambda>t. Option.bind (member as_level ''securityLevel'' ms) (\<lambda>l.
     Option.bind (maybe_member as_string ''wrappedMekB64'' ms) (\<lambda>wm. Option.bind (maybe_member as_string ''kekSaltHex'' ms) (\<lambda>ks.
     Option.bind (maybe_member as_bool ''hasRecoveryCodes'' ms) (\<lambda>rc. Option.bind (maybe_member as_string ''mountPoint'' ms) (\<lambda>mp.
     Option.bind (maybe_member as_string ''driveName'' ms) (\<lambda>dn. Option.bind (maybe_member as_string ''fileSystem'' ms) (\<lambda>fs.
     Option.bind (maybe_member as_string ''algorithm'' ms) (\<lambda>al. Option.bind (maybe_member as_source ''source'' ms) (\<lambda>sc.
     Some \<lparr>vi_id = i, vi_name = nm, vi_meta = md, vi_count = n, vi_modified = t, vi_level = l, vi_wrapped = wm,
       vi_salt = ks, vi_codes = rc, vi_mount = mp, vi_drive = dn, vi_fs = fs, vi_algorithm = al, vi_source = sc\<rparr>)))))))))))))))"

lemma member_simps [simp]:
  "member f k ((k', v) # ms) = (if k = k' then f v else member f k ms)"
  "maybe_member f k ((k', v) # ms) = (if k = k' then map_option Some (f v) else maybe_member f k ms)"
  "maybe_member f k [] = Some None"
  by (simp_all add: member_def maybe_member_def)

lemma member_skip [simp]:
  "k \<noteq> k' \<Longrightarrow> maybe_member f k (opt_member k' g x @ ms) = maybe_member f k ms"
  "k \<noteq> k' \<Longrightarrow> maybe_member f k (opt_member k' g x) = Some None"
  "k \<noteq> k' \<Longrightarrow> member f k (opt_member k' g x @ ms) = member f k ms"
  by (simp_all add: member_def maybe_member_def map_of_opt del: map_of_append)

lemma member_found [simp]:
  "(\<And>v. f (g v) = Some v) \<Longrightarrow> k \<notin> set (map fst ms) \<Longrightarrow> maybe_member f k (opt_member k g x @ ms) = Some x"
  "(\<And>v. f (g v) = Some v) \<Longrightarrow> maybe_member f k (opt_member k g x) = Some x"
  by (cases x; simp add: maybe_member_def map_of_opt map_of_eq_None_iff [THEN iffD2] del: map_of_append)+

lemma vault_of_vault_json [simp]: "vault_of_json (vault_json v) = Some v"
  by (simp add: vault_of_json_def vault_json_def)

lemma plain_vault_json [simp]: "plain_json (vault_json v)"
  by (simp add: vault_json_def)

subsection \<open>Files\<close>

definition file_members :: "file_info \<Rightarrow> members" where
  "file_members f =
     [(''id'', JString (fi_id f)), (''vaultId'', JString (fi_vault f)), (''name'', JString (fi_name f)),
      (''size'', json_nat (fi_size f)), (''type'', JString (fi_type f)),
      (''modifiedAt'', JString (fi_modified f)), (''encryptedMetadata'', JString (fi_meta f)),
      (''isPQCProtected'', JBool (fi_pqc f))] @
     opt_member ''uri'' JString (fi_uri f) @ opt_member ''saltHex'' JString (fi_salt f) @
     opt_member ''cipherId'' json_nat (fi_cipher f) @ opt_member ''isStreamed'' JBool (fi_streamed f) @
     opt_member ''originalSize'' json_nat (fi_original f) @ opt_member ''version'' json_nat (fi_version f) @
     opt_member ''contentHash'' JString (fi_hash f)"

definition file_of_members :: "members \<Rightarrow> file_info option" where
  "file_of_members ms =
     Option.bind (member as_string ''id'' ms) (\<lambda>i. Option.bind (member as_string ''vaultId'' ms) (\<lambda>v.
     Option.bind (member as_string ''name'' ms) (\<lambda>nm. Option.bind (member as_nat ''size'' ms) (\<lambda>sz.
     Option.bind (member as_string ''type'' ms) (\<lambda>ty. Option.bind (member as_string ''modifiedAt'' ms) (\<lambda>t.
     Option.bind (member as_string ''encryptedMetadata'' ms) (\<lambda>md. Option.bind (member as_bool ''isPQCProtected'' ms) (\<lambda>pq.
     Option.bind (maybe_member as_string ''uri'' ms) (\<lambda>ur. Option.bind (maybe_member as_string ''saltHex'' ms) (\<lambda>sl.
     Option.bind (maybe_member as_nat ''cipherId'' ms) (\<lambda>ci. Option.bind (maybe_member as_bool ''isStreamed'' ms) (\<lambda>st.
     Option.bind (maybe_member as_nat ''originalSize'' ms) (\<lambda>og. Option.bind (maybe_member as_nat ''version'' ms) (\<lambda>ve.
     Option.bind (maybe_member as_string ''contentHash'' ms) (\<lambda>h.
     Some \<lparr>fi_id = i, fi_vault = v, fi_name = nm, fi_size = sz, fi_type = ty, fi_modified = t, fi_meta = md,
       fi_pqc = pq, fi_uri = ur, fi_blob = None, fi_salt = sl, fi_cipher = ci, fi_streamed = st,
       fi_original = og, fi_version = ve, fi_hash = h\<rparr>)))))))))))))))"

lemma file_of_file_members [simp]: "file_of_members (file_members f) = Some (f\<lparr>fi_blob := None\<rparr>)"
  by (simp add: file_of_members_def file_members_def)

definition stored_file_json :: "stored_file \<Rightarrow> json_value" where
  "stored_file_json m = JObject ((''hasBlobStored'', JBool (sf_has_blob m)) # file_members (sf_info m))"

definition stored_file_of_json :: "json_value \<Rightarrow> stored_file option" where
  "stored_file_of_json j = Option.bind (as_object j) (\<lambda>ms. Option.bind (file_of_members ms) (\<lambda>f.
     Option.bind (member as_bool ''hasBlobStored'' ms) (\<lambda>b. Some \<lparr>sf_info = f, sf_has_blob = b\<rparr>)))"

lemma file_of_more_members [simp]:
  "file_of_members ((''hasBlobStored'', v) # ms) = file_of_members ms"
  by (simp add: file_of_members_def)

lemma stored_file_of_stored_file_json [simp]:
  "fi_blob (sf_info m) = None \<Longrightarrow> stored_file_of_json (stored_file_json m) = Some m"
  by (simp add: stored_file_of_json_def stored_file_json_def)

lemma file_members_keys: "''hasBlobStored'' \<notin> fst ` set (file_members f)" "distinct (map fst (file_members f))"
  by (simp_all add: file_members_def image_Un)

lemma plain_file_members: "list_all (\<lambda>(k, v). plain_json v) (file_members f)"
  by (simp add: file_members_def)

lemma plain_stored_file_json [simp]: "plain_json (stored_file_json m)"
  using file_members_keys plain_file_members by (simp add: stored_file_json_def)

definition file_json :: "file_info \<Rightarrow> json_value" where
  "file_json f = JObject (file_members f)"

definition file_of_json :: "json_value \<Rightarrow> file_info option" where
  "file_of_json j = Option.bind (as_object j) file_of_members"

lemma file_of_file_json [simp]: "file_of_json (file_json f) = Some (f\<lparr>fi_blob := None\<rparr>)"
  by (simp add: file_of_json_def file_json_def)

lemma plain_file_json [simp]: "plain_json (file_json f)"
  using file_members_keys plain_file_members by (simp add: file_json_def)

subsection \<open>Lists\<close>

definition list_json :: "('a \<Rightarrow> json_value) \<Rightarrow> 'a list \<Rightarrow> json_value" where
  "list_json f xs = JArray (map f xs)"

definition as_list :: "(json_value \<Rightarrow> 'a option) \<Rightarrow> json_value \<Rightarrow> 'a list option" where
  "as_list f j = Option.bind (as_array j) (\<lambda>vs. those (map f vs))"

lemma those_map: "(\<And>x. x \<in> set xs \<Longrightarrow> g (f x) = Some (h x)) \<Longrightarrow> those (map g (map f xs)) = Some (map h xs)"
  by (induction xs) auto

lemma as_list_json: "(\<And>x. x \<in> set xs \<Longrightarrow> g (f x) = Some (h x)) \<Longrightarrow> as_list g (list_json f xs) = Some (map h xs)"
  by (simp add: as_list_def list_json_def those_map del: map_map)

lemma plain_list_json [simp]: "(\<And>x. x \<in> set xs \<Longrightarrow> plain_json (f x)) \<Longrightarrow> plain_json (list_json f xs)"
  by (simp add: list_json_def list_all_iff)

end
