(* ===== verification/Key_Hierarchy.thy ===== *)
theory Key_Hierarchy
  imports Domain_Json
begin

text \<open>
  \<open>services/crypto/keyHierarchy.ts\<close> over the key functions of \<open>crypto/bridge.ts\<close>, and the encrypted file
  index of \<open>services/crypto/index.ts\<close>. The native module (Rust or WebAssembly) is the record \<open>native\<close>, on
  bytes where the bridge passes hexadecimal; a call is \<open>None\<close> where its promise rejects. Random bytes
  and nonces are arguments. An error keeps the prefixes that the \<open>catch\<close> blocks put before a message.
  \<open>native_documented\<close> is what the Rust core documents: key lengths, and that a ciphertext opens
  under the key that sealed it; \<open>one_key\<close> adds that it opens under no other.
\<close>

record native =
  nv_derive :: "string \<Rightarrow> bytes \<Rightarrow> bytes option"
  nv_seal :: "bytes \<Rightarrow> bytes \<Rightarrow> bytes \<Rightarrow> bytes option"
  nv_open :: "bytes \<Rightarrow> bytes \<Rightarrow> bytes option"
  nv_sha256 :: "bytes \<Rightarrow> bytes option"

definition native_documented :: "native \<Rightarrow> bool" where
  "native_documented n =
     ((\<forall>pw s. pw \<noteq> [] \<longrightarrow> length s = 32 \<longrightarrow> (\<exists>k. nv_derive n pw s = Some k \<and> length k = 32)) \<and>
      (\<forall>nonce k p. length k = 32 \<longrightarrow> p \<noteq> [] \<longrightarrow>
         (\<exists>c. nv_seal n nonce k p = Some c \<and> c \<noteq> [] \<and> nv_open n k c = Some p)) \<and>
      (\<forall>x. x \<noteq> [] \<longrightarrow> (\<exists>h. nv_sha256 n x = Some h \<and> length h = 32)))"

definition one_key :: "native \<Rightarrow> bool" where
  "one_key n = (\<forall>nonce k k' p c. nv_seal n nonce k p = Some c \<longrightarrow> nv_open n k' c \<noteq> None \<longrightarrow> k' = k)"

lemma native_documentedE:
  assumes "native_documented n"
  shows "pw \<noteq> [] \<Longrightarrow> length s = 32 \<Longrightarrow> \<exists>k. nv_derive n pw s = Some k \<and> length k = 32"
    and "length k = 32 \<Longrightarrow> p \<noteq> [] \<Longrightarrow> \<exists>c. nv_seal n nonce k p = Some c \<and> c \<noteq> [] \<and> nv_open n k c = Some p"
    and "x \<noteq> [] \<Longrightarrow> \<exists>h. nv_sha256 n x = Some h \<and> length h = 32"
  using assms unfolding native_documented_def by blast+

datatype key_error =
    PasswordEmpty | SaltLength | KeyLength | PlaintextEmpty | CiphertextEmpty | KekLength | MekLength
  | WrappedEmpty | UnwrappedLength | MasterEmpty | MasterLength | InfoEmpty | FileIdEmpty | DataEmpty
  | IndexEmpty | LengthNotPositive | NativeError
  | Within string key_error

definition add_prefix :: "string \<Rightarrow> key_error + 'a \<Rightarrow> key_error + 'a" where
  "add_prefix msg r = (case r of Inl e \<Rightarrow> Inl (Within msg e) | Inr x \<Rightarrow> Inr x)"

lemma add_prefix_simps [simp]: "add_prefix p (Inl e) = Inl (Within p e)" "add_prefix p (Inr x) = Inr x"
  "add_prefix p r = Inr x \<longleftrightarrow> r = Inr x"
  by (simp_all add: add_prefix_def split: sum.split)

subsection \<open>The bridge\<close>

definition derive_key :: "native \<Rightarrow> string \<Rightarrow> bytes \<Rightarrow> key_error + bytes" where
  "derive_key n password salt =
     (if password = [] then Inl PasswordEmpty
      else if length salt \<noteq> 32 then Inl SaltLength
      else add_prefix ''Key derivation failed'' (or_throw NativeError (nv_derive n password salt)))"

definition encrypt :: "native \<Rightarrow> bytes \<Rightarrow> bytes \<Rightarrow> bytes \<Rightarrow> key_error + bytes" where
  "encrypt n nonce key plaintext =
     (if length key \<noteq> 32 then Inl KeyLength
      else if plaintext = [] then Inl PlaintextEmpty
      else add_prefix ''Encryption failed'' (or_throw NativeError (nv_seal n nonce key plaintext)))"

definition decrypt :: "native \<Rightarrow> bytes \<Rightarrow> bytes \<Rightarrow> key_error + bytes" where
  "decrypt n key ciphertext =
     (if length key \<noteq> 32 then Inl KeyLength
      else if ciphertext = [] then Inl CiphertextEmpty
      else add_prefix ''Decryption failed'' (or_throw NativeError (nv_open n key ciphertext)))"

definition hash_sha256 :: "native \<Rightarrow> bytes \<Rightarrow> key_error + bytes" where
  "hash_sha256 n data =
     (if data = [] then Inl DataEmpty
      else add_prefix ''SHA-256 hashing failed'' (or_throw NativeError (nv_sha256 n data)))"

definition random_bytes :: "nat \<Rightarrow> bytes option \<Rightarrow> key_error + bytes" where
  "random_bytes len draw =
     (if len = 0 then Inl LengthNotPositive
      else add_prefix ''Random bytes generation failed'' (or_throw NativeError draw))"

definition generate_mek :: "bytes option \<Rightarrow> key_error + bytes" where
  "generate_mek draw = add_prefix ''MEK generation failed'' (or_throw NativeError draw)"

text \<open>\<open>deriveSubkey\<close> hashes the key followed by the purpose.\<close>

definition subkey_input :: "bytes \<Rightarrow> string \<Rightarrow> bytes" where
  "subkey_input master info = master @ utf8_encode info"

definition derive_subkey :: "native \<Rightarrow> bytes \<Rightarrow> string \<Rightarrow> key_error + bytes" where
  "derive_subkey n master info =
     (if master = [] then Inl MasterEmpty
      else if info = [] then Inl InfoEmpty
      else hash_sha256 n (subkey_input master info))"

definition derive_kek :: "native \<Rightarrow> string \<Rightarrow> bytes \<Rightarrow> key_error + bytes" where
  "derive_kek n password salt =
     (if password = [] then Inl PasswordEmpty
      else if length salt \<noteq> 32 then Inl SaltLength
      else add_prefix ''KEK derivation failed''
        (attempt (derive_key n password salt) (\<lambda>raw. derive_subkey n (take 32 raw) ''kek_wrapping'')))"

definition wrap_mek :: "native \<Rightarrow> bytes \<Rightarrow> bytes \<Rightarrow> bytes \<Rightarrow> key_error + bytes" where
  "wrap_mek n nonce kek mek =
     (if length kek \<noteq> 32 then Inl KekLength
      else if length mek \<noteq> 64 then Inl MekLength
      else add_prefix ''MEK wrapping failed'' (encrypt n nonce kek mek))"

definition unwrap_mek :: "native \<Rightarrow> bytes \<Rightarrow> bytes \<Rightarrow> key_error + bytes" where
  "unwrap_mek n kek wrapped =
     (if length kek \<noteq> 32 then Inl KekLength
      else if wrapped = [] then Inl WrappedEmpty
      else add_prefix ''MEK unwrapping failed''
        (attempt (decrypt n kek wrapped) (\<lambda>mek. if length mek \<noteq> 64 then Inl UnwrappedLength else Inr mek)))"

definition file_key_info :: "string \<Rightarrow> string" where
  "file_key_info fileId = ''file_encryption:'' @ fileId"

definition derive_file_key :: "native \<Rightarrow> bytes \<Rightarrow> string \<Rightarrow> key_error + bytes" where
  "derive_file_key n mek fileId =
     (if length mek \<noteq> 64 then Inl MekLength
      else if fileId = [] then Inl FileIdEmpty
      else add_prefix ''File key derivation failed'' (derive_subkey n (take 32 mek) (file_key_info fileId)))"

definition derive_index_key :: "native \<Rightarrow> bytes \<Rightarrow> key_error + bytes" where
  "derive_index_key n master =
     (if length master \<noteq> 32 then Inl MasterLength else derive_subkey n master ''vault_index_encryption'')"

definition encrypt_vault_index :: "native \<Rightarrow> bytes \<Rightarrow> bytes \<Rightarrow> bytes \<Rightarrow> key_error + bytes" where
  "encrypt_vault_index n nonce master indexJson =
     (if indexJson = [] then Inl IndexEmpty
      else attempt (derive_index_key n master) (\<lambda>k. encrypt n nonce k indexJson))"

definition decrypt_vault_index :: "native \<Rightarrow> bytes \<Rightarrow> bytes \<Rightarrow> key_error + bytes" where
  "decrypt_vault_index n master blob =
     (if blob = [] then Inl IndexEmpty
      else attempt (derive_index_key n master) (\<lambda>k. decrypt n k blob))"

definition validate_file_version :: "nat \<Rightarrow> nat \<Rightarrow> bool" where
  "validate_file_version current incoming = (if current = 0 then True else incoming > current)"

text \<open>\<open>setBigUint64(0, BigInt(version), true)\<close> keeps the low 64 bits, the low byte first.\<close>

definition le_bytes :: "64 word \<Rightarrow> bytes" where
  "le_bytes w = map (\<lambda>i. ucast (drop_bit (8 * i) w)) [0..<8]"

definition build_version_ad :: "nat \<Rightarrow> string \<Rightarrow> bytes" where
  "build_version_ad version filename =
     utf8_encode ''file_version:'' @ le_bytes (of_nat version) @ [0x3A] @ utf8_encode filename"

subsection \<open>The key hierarchy\<close>

record hierarchy =
  h_mek :: bytes
  h_wrapped :: bytes
  h_salt :: bytes

definition create_key_hierarchy ::
  "native \<Rightarrow> string \<Rightarrow> bytes option \<Rightarrow> bytes option \<Rightarrow> bytes \<Rightarrow> key_error + hierarchy" where
  "create_key_hierarchy n password saltDraw mekDraw nonce =
     add_prefix ''Key hierarchy creation failed''
       (attempt (random_bytes 32 saltDraw) (\<lambda>salt. attempt (derive_kek n password salt) (\<lambda>kek.
        attempt (generate_mek mekDraw) (\<lambda>mek. attempt (wrap_mek n nonce kek mek) (\<lambda>w.
        Inr \<lparr>h_mek = mek, h_wrapped = w, h_salt = salt\<rparr>)))))"

definition unlock_key_hierarchy :: "native \<Rightarrow> string \<Rightarrow> bytes \<Rightarrow> bytes \<Rightarrow> key_error + bytes" where
  "unlock_key_hierarchy n password kekSalt wrapped =
     add_prefix ''Key hierarchy unlock failed''
       (attempt (derive_kek n password kekSalt) (\<lambda>kek. unwrap_mek n kek wrapped))"

definition rotate_password ::
  "native \<Rightarrow> string \<Rightarrow> string \<Rightarrow> bytes \<Rightarrow> bytes \<Rightarrow> bytes option \<Rightarrow> bytes \<Rightarrow> key_error + bytes \<times> bytes" where
  "rotate_password n oldPassword newPassword oldKekSalt wrapped saltDraw nonce =
     add_prefix ''Password rotation failed''
       (attempt (unlock_key_hierarchy n oldPassword oldKekSalt wrapped) (\<lambda>mek.
        attempt (random_bytes 32 saltDraw) (\<lambda>salt. attempt (derive_kek n newPassword salt) (\<lambda>kek.
        attempt (wrap_mek n nonce kek mek) (\<lambda>w. Inr (w, salt))))))"

text \<open>A legacy key shorter than 32 bytes leaves zeros before the second half.\<close>

definition synthetic_mek :: "bytes \<Rightarrow> bytes \<Rightarrow> bytes" where
  "synthetic_mek legacyKey hmac =
     (let k = take 32 legacyKey in k @ replicate (32 - length k) 0 @ hmac)"

definition migrate_to_key_hierarchy ::
  "native \<Rightarrow> string \<Rightarrow> bytes \<Rightarrow> bytes option \<Rightarrow> bytes option \<Rightarrow> bytes \<Rightarrow> key_error + hierarchy" where
  "migrate_to_key_hierarchy n password legacyKey hmacDraw saltDraw nonce =
     add_prefix ''Key hierarchy migration failed''
       (attempt (random_bytes 32 hmacDraw) (\<lambda>hmac. attempt (random_bytes 32 saltDraw) (\<lambda>salt.
        attempt (derive_kek n password salt) (\<lambda>kek.
        attempt (wrap_mek n nonce kek (synthetic_mek legacyKey hmac)) (\<lambda>w.
        Inr \<lparr>h_mek = synthetic_mek legacyKey hmac, h_wrapped = w, h_salt = salt\<rparr>)))))"

subsection \<open>The encrypted file index\<close>

text \<open>
  \<open>services/crypto/index.ts\<close>: any failure is \<open>null\<close>. A blob that is not base64, or a document that is no
  list of stored files, is \<open>None\<close> too.
\<close>

definition encrypt_file_index :: "native \<Rightarrow> bytes \<Rightarrow> bytes \<Rightarrow> stored_file list \<Rightarrow> string option" where
  "encrypt_file_index n nonce masterKey fs =
     (if fs = [] then Some []
      else case encrypt_vault_index n nonce masterKey (utf8_encode (json_print (list_json stored_file_json fs))) of
             Inl _ \<Rightarrow> None | Inr c \<Rightarrow> Some (btoa c))"

definition decrypt_file_index :: "native \<Rightarrow> bytes \<Rightarrow> string \<Rightarrow> stored_file list option" where
  "decrypt_file_index n masterKey encoded =
     (if encoded = [] then Some []
      else Option.bind (atob encoded) (\<lambda>c.
        case decrypt_vault_index n masterKey c of
          Inl _ \<Rightarrow> None
        | Inr bs \<Rightarrow> Option.bind (utf8_decode bs) (\<lambda>t. Option.bind (json_parse t) (as_list stored_file_of_json))))"

subsection \<open>What the keys open\<close>

lemma random_bytes_Inr: "0 < k \<Longrightarrow> random_bytes k draw = Inr x \<longleftrightarrow> draw = Some x"
  by (simp add: random_bytes_def)

lemma generate_mek_Inr [simp]: "generate_mek draw = Inr x \<longleftrightarrow> draw = Some x"
  by (simp add: generate_mek_def)

lemma derive_subkey_total:
  assumes "native_documented n" and "master \<noteq> []" and "info \<noteq> []"
  obtains k where "derive_subkey n master info = Inr k" and "length k = 32"
    and "nv_sha256 n (subkey_input master info) = Some k"
proof -
  have "subkey_input master info \<noteq> []" using assms(2) by (simp add: subkey_input_def)
  with native_documentedE(3) [OF assms(1) this] that assms(2,3) show thesis
    by (auto simp: derive_subkey_def hash_sha256_def)
qed

lemma derive_subkey_length:
  "native_documented n \<Longrightarrow> derive_subkey n master info = Inr k \<Longrightarrow> length k = 32"
  by (metis derive_subkey_def derive_subkey_total sum.distinct(1) sum.inject(2))

lemma derive_kek_total:
  assumes "native_documented n" and "pw \<noteq> []" and "length s = 32"
  obtains kek where "derive_kek n pw s = Inr kek" and "length kek = 32"
proof -
  obtain raw where r: "nv_derive n pw s = Some raw" "length raw = 32"
    using native_documentedE(1) [OF assms] by blast
  then have "take 32 raw \<noteq> []" by auto
  then obtain k where "derive_subkey n (take 32 raw) ''kek_wrapping'' = Inr k" "length k = 32"
    using derive_subkey_total [OF assms(1), of "take 32 raw" "''kek_wrapping''"] by auto
  then show thesis using that assms(2,3) r by (simp add: derive_kek_def derive_key_def)
qed

lemma derive_kek_Inr:
  assumes "native_documented n" and "derive_kek n pw s = Inr kek"
  shows "pw \<noteq> [] \<and> length s = 32 \<and> length kek = 32"
  using assms by (auto simp: derive_kek_def attempt_Inr split: if_splits dest: derive_subkey_length)

lemma wrap_unwrap:
  assumes "native_documented n" and "wrap_mek n nonce kek mek = Inr w"
  shows "unwrap_mek n kek w = Inr mek"
proof -
  have k: "length kek = 32" "length mek = 64" "nv_seal n nonce kek mek = Some w"
    using assms(2) by (auto simp: wrap_mek_def encrypt_def split: if_splits)
  then have "mek \<noteq> []" by auto
  with native_documentedE(2) [OF assms(1) k(1) this, of nonce] k show ?thesis
    by (auto simp: unwrap_mek_def decrypt_def)
qed

lemma wrap_total:
  assumes "native_documented n" and "length kek = 32" and "length mek = 64"
  obtains w where "wrap_mek n nonce kek mek = Inr w"
proof -
  have "mek \<noteq> []" using assms(3) by auto
  with native_documentedE(2) [OF assms(1,2) this, of nonce] that assms(2,3) show thesis
    by (auto simp: wrap_mek_def encrypt_def)
qed

text \<open>A blob that was wrapped under the KEK of a password and salt.\<close>

definition wraps :: "native \<Rightarrow> string \<Rightarrow> bytes \<Rightarrow> bytes \<Rightarrow> bytes \<Rightarrow> bool" where
  "wraps n pw salt w mek =
     (\<exists>kek nonce. derive_kek n pw salt = Inr kek \<and> wrap_mek n nonce kek mek = Inr w)"

lemma wraps_unlock: "native_documented n \<Longrightarrow> wraps n pw salt w mek \<Longrightarrow> unlock_key_hierarchy n pw salt w = Inr mek"
  by (auto simp: wraps_def unlock_key_hierarchy_def wrap_unwrap)

lemma wraps_only:
  assumes "one_key n" and "wraps n pw salt w mek" and "unlock_key_hierarchy n pw' salt' w = Inr mek'"
  shows "derive_kek n pw' salt' = derive_kek n pw salt"
proof -
  obtain kek nonce where k: "derive_kek n pw salt = Inr kek" "wrap_mek n nonce kek mek = Inr w"
    using assms(2) by (auto simp: wraps_def)
  then have "nv_seal n nonce kek mek = Some w" by (auto simp: wrap_mek_def encrypt_def split: if_splits)
  moreover obtain kek' where k': "derive_kek n pw' salt' = Inr kek'" "unwrap_mek n kek' w = Inr mek'"
    using assms(3) by (auto simp: unlock_key_hierarchy_def attempt_Inr)
  then have "nv_open n kek' w \<noteq> None"
    by (auto simp: unwrap_mek_def decrypt_def attempt_Inr split: if_splits)
  ultimately show ?thesis using assms(1) k k' unfolding one_key_def by metis
qed

lemma create_wraps: "create_key_hierarchy n pw sd md nonce = Inr h \<Longrightarrow> wraps n pw (h_salt h) (h_wrapped h) (h_mek h)"
  by (auto simp: create_key_hierarchy_def attempt_Inr wraps_def)

lemma rotate_wraps:
  "rotate_password n old new salt w sd nonce = Inr (w', salt') \<Longrightarrow>
   \<exists>mek. unlock_key_hierarchy n old salt w = Inr mek \<and> wraps n new salt' w' mek"
  by (auto simp: rotate_password_def attempt_Inr wraps_def)

text \<open>
  A new hierarchy is unlocked by its password, to the master key it was made with, and by no password
  that derives another wrapping key.
\<close>

theorem hierarchy_roundtrip:
  assumes "native_documented n" and "one_key n" and "pw \<noteq> []" and "length salt = 32" and "length mek = 64"
  shows "\<exists>h. create_key_hierarchy n pw (Some salt) (Some mek) nonce = Inr h \<and> h_mek h = mek \<and>
    unlock_key_hierarchy n pw (h_salt h) (h_wrapped h) = Inr mek \<and>
    (derive_kek n pw' (h_salt h) \<noteq> derive_kek n pw (h_salt h) \<longrightarrow>
       unlock_key_hierarchy n pw' (h_salt h) (h_wrapped h) \<noteq> Inr mek')"
proof -
  obtain kek where k: "derive_kek n pw salt = Inr kek" "length kek = 32"
    by (rule derive_kek_total [OF assms(1,3,4)])
  obtain w where w: "wrap_mek n nonce kek mek = Inr w" by (rule wrap_total [OF assms(1) k(2) assms(5)])
  let ?h = "\<lparr>h_mek = mek, h_wrapped = w, h_salt = salt\<rparr>"
  have c: "create_key_hierarchy n pw (Some salt) (Some mek) nonce = Inr ?h"
    by (simp add: create_key_hierarchy_def k w random_bytes_Inr attempt_Inr)
  have wr: "wraps n pw salt w mek" using create_wraps [OF c] by simp
  have "unlock_key_hierarchy n pw' salt w \<noteq> Inr mek'" if "derive_kek n pw' salt \<noteq> derive_kek n pw salt"
    using wraps_only [OF assms(2) wr, of pw' salt mek'] that by blast
  then show ?thesis using c wraps_unlock [OF assms(1) wr] by (intro exI [of _ ?h]) simp
qed


text \<open>Migration keeps the legacy key as the session key, the first half of the master key.\<close>

theorem migration_keeps_key:
  assumes "native_documented n" and "length legacyKey = 32" and "length hmac = 32"
    and "pw \<noteq> []" and "length salt = 32"
  shows "\<exists>h. migrate_to_key_hierarchy n pw legacyKey (Some hmac) (Some salt) nonce = Inr h \<and>
    unlock_key_hierarchy n pw (h_salt h) (h_wrapped h) = Inr (h_mek h) \<and> take 32 (h_mek h) = legacyKey"
proof -
  let ?mek = "synthetic_mek legacyKey hmac"
  have m: "length ?mek = 64" "take 32 ?mek = legacyKey" using assms(2,3) by (simp_all add: synthetic_mek_def)
  obtain kek where k: "derive_kek n pw salt = Inr kek" "length kek = 32"
    by (rule derive_kek_total [OF assms(1,4,5)])
  obtain w where w: "wrap_mek n nonce kek ?mek = Inr w" by (rule wrap_total [OF assms(1) k(2) m(1)])
  let ?h = "\<lparr>h_mek = ?mek, h_wrapped = w, h_salt = salt\<rparr>"
  have "migrate_to_key_hierarchy n pw legacyKey (Some hmac) (Some salt) nonce = Inr ?h"
    by (simp add: migrate_to_key_hierarchy_def k w random_bytes_Inr attempt_Inr)
  moreover have "wraps n pw salt w ?mek" using k w by (auto simp: wraps_def)
  ultimately show ?thesis using wraps_unlock [OF assms(1)] m by (intro exI [of _ ?h]) simp
qed

subsection \<open>Keys for different purposes\<close>

lemma utf8_encode_inj [simp]: "utf8_encode s = utf8_encode t \<longleftrightarrow> s = t"
  by (metis option.inject utf8_decode_encode)

lemma subkey_input_inj:
  "length m = length m' \<Longrightarrow> subkey_input m i = subkey_input m' i' \<longleftrightarrow> m = m' \<and> i = i'"
  by (simp add: subkey_input_def)


text \<open>The associated data of a version and a name determines both.\<close>

lemma le_bytes_inj: "le_bytes v = le_bytes w \<Longrightarrow> v = w"
proof (rule bit_word_eqI)
  fix k
  assume e: "le_bytes v = le_bytes w" and k: "k < LENGTH(64)"
  have k8: "k div 8 < 8" using k by (simp add: less_mult_imp_div_less)
  have "le_bytes v ! (k div 8) = le_bytes w ! (k div 8)" using e by simp
  then have "(ucast (drop_bit (8 * (k div 8)) v) :: byte) = ucast (drop_bit (8 * (k div 8)) w)"
    using k8 by (simp add: le_bytes_def)
  then have "bit (ucast (drop_bit (8 * (k div 8)) v) :: byte) (k mod 8) =
      bit (ucast (drop_bit (8 * (k div 8)) w) :: byte) (k mod 8)" by argo
  then show "bit v k = bit w k" by (simp add: bit_ucast_iff bit_drop_bit_eq)
qed

lemma length_le_bytes [simp]: "length (le_bytes w) = 8"
  by (simp add: le_bytes_def)

text \<open>The associated data of a file version determines the version and the name.\<close>

theorem version_ad_binds:
  assumes "v < 2 ^ 64" and "v' < 2 ^ 64"
  shows "build_version_ad v name = build_version_ad v' name' \<longleftrightarrow> v = v' \<and> name = name'"
proof -
  have "(of_nat v :: 64 word) = of_nat v' \<longleftrightarrow> v = v'"
    using assms by (simp add: word_of_nat_eq_iff take_bit_nat_eq_self)
  then show ?thesis using le_bytes_inj [of "of_nat v" "of_nat v'"]
    by (auto simp: build_version_ad_def)
qed

subsection \<open>The index opens again\<close>

lemma encrypt_decrypt:
  assumes "native_documented n" and "length k = 32" and "p \<noteq> []"
  obtains c where "encrypt n nonce k p = Inr c" and "c \<noteq> []" and "decrypt n k c = Inr p"
  using native_documentedE(2) [OF assms, of nonce] assms(2,3) that by (auto simp: encrypt_def decrypt_def)

lemma stored_list_roundtrip:
  assumes "\<forall>m\<in>set fs. fi_blob (sf_info m) = None"
  shows "Option.bind (json_parse (json_print (list_json stored_file_json fs))) (as_list stored_file_of_json) = Some fs"
proof -
  have "json_parse (json_print (list_json stored_file_json fs)) = Some (list_json stored_file_json fs)"
    by (rule json_roundtrip) simp
  moreover have "as_list stored_file_of_json (list_json stored_file_json fs) = Some (map (\<lambda>x. x) fs)"
    by (rule as_list_json) (use assms in simp)
  ultimately show ?thesis by simp
qed

theorem file_index_roundtrip:
  assumes "native_documented n" and "length key = 32" and "\<forall>m\<in>set fs. fi_blob (sf_info m) = None"
  shows "\<exists>b. encrypt_file_index n nonce key fs = Some b \<and> decrypt_file_index n key b = Some fs"
proof (cases "fs = []")
  case True
  then show ?thesis by (simp add: encrypt_file_index_def decrypt_file_index_def)
next
  case False
  let ?t = "utf8_encode (json_print (list_json stored_file_json fs))"
  have "plain_json (list_json stored_file_json fs)" by simp
  then have t: "?t \<noteq> []" using json_print_nonempty utf8_encode_inj [of _ "[]"] by (metis utf8_decode.simps(1) utf8_decode_encode option.inject)
  have "key \<noteq> []" using assms(2) by auto
  then obtain k where k: "derive_index_key n key = Inr k" "length k = 32"
    using derive_subkey_total [OF assms(1), of key "''vault_index_encryption''"] assms(2)
    by (auto simp: derive_index_key_def)
  obtain c where c: "encrypt n nonce k ?t = Inr c" "c \<noteq> []" "decrypt n k c = Inr ?t"
    using encrypt_decrypt [OF assms(1) k(2) t] .
  have "btoa c \<noteq> []"
  proof
    assume "btoa c = []"
    then have "atob [] = Some c" using atob_btoa [of c] by simp
    with c(2) show False by (simp add: atob_def strip_padding_def)
  qed
  then show ?thesis using False t k c stored_list_roundtrip [OF assms(3)]
    by (simp add: encrypt_file_index_def decrypt_file_index_def encrypt_vault_index_def decrypt_vault_index_def)
qed

subsection \<open>A native module to try things on\<close>

definition demo_native :: native where
  "demo_native = \<lparr>nv_derive = (\<lambda>pw s. Some (replicate 31 0 @ [of_nat (length pw)])),
     nv_seal = (\<lambda>nonce k p. if length k = 32 then Some (k @ p) else None),
     nv_open = (\<lambda>k c. if take 32 c = k \<and> length k = 32 then Some (drop 32 c) else None),
     nv_sha256 = (\<lambda>x. Some (replicate 32 (fold (+) x 0)))\<rparr>"

lemma demo_native_ok: "native_documented demo_native" "one_key demo_native"
  by (auto simp: native_documented_def one_key_def demo_native_def split: if_splits)

lemma demo_keks: "derive_kek demo_native ''abcd'' (replicate 32 1) \<noteq> derive_kek demo_native ''abc'' (replicate 32 1)"
  by (simp add: derive_kek_def derive_key_def derive_subkey_def hash_sha256_def subkey_input_def demo_native_def
      fold_append numeral_eq_Suc fold_plus_sum_list_rev)

theorem hierarchy_roundtrip_witness:
  "\<exists>h. create_key_hierarchy demo_native ''abc'' (Some (replicate 32 1)) (Some (replicate 64 7)) [] = Inr h \<and>
     unlock_key_hierarchy demo_native ''abc'' (h_salt h) (h_wrapped h) = Inr (replicate 64 7) \<and> h_mek h = replicate 64 7"
proof -
  have "length (replicate 32 (1 :: byte)) = 32" "length (replicate 64 (7 :: byte)) = 64" by simp_all
  from hierarchy_roundtrip [OF demo_native_ok _ this, where pw = "''abc''" and nonce = "[]"]
  show ?thesis by blast
qed


theorem migration_keeps_key_witness:
  "\<exists>h. migrate_to_key_hierarchy demo_native ''abc'' (replicate 32 5) (Some (replicate 32 6)) (Some (replicate 32 1)) [] = Inr h \<and>
     unlock_key_hierarchy demo_native ''abc'' (h_salt h) (h_wrapped h) = Inr (h_mek h) \<and>
     take 32 (h_mek h) = replicate 32 5"
  by (rule migration_keeps_key [OF demo_native_ok(1)]) simp_all


theorem version_ad_binds_witness: "build_version_ad 1 ''a'' \<noteq> build_version_ad 2 ''a''"
  using version_ad_binds [of 1 2 "''a''" "''a''"] by simp

theorem file_index_roundtrip_witness:
  "\<exists>b. encrypt_file_index demo_native [] (replicate 32 3) [to_stored_file (demo_file ''v1'' ''f1'') True] = Some b \<and>
     decrypt_file_index demo_native (replicate 32 3) b = Some [to_stored_file (demo_file ''v1'' ''f1'') True]"
  by (rule file_index_roundtrip [OF demo_native_ok(1)]) (simp_all add: to_stored_file_def)

end
