(* ===== verification/Vault_List.thy ===== *)
theory Vault_List
  imports Key_Hierarchy Result_State
begin

text \<open>
  \<open>stores/vaultListStore.ts\<close> on the web (its \<open>isWeb\<close> is the constant \<open>true\<close>) with the modules it works
  through: the selection of \<open>stores/activeVaultStore.ts\<close>, the session keys of
  \<open>stores/vaultSessionStore.ts\<close>, the debounced index of \<open>stores/vaultIndexSync.ts\<close> and the storage of
  \<open>Vault_Storage\<close>. \<open>app\<close> is all of their state. A storage call that the store does not await joins
  \<open>ap_tasks\<close> after its synchronous part; one that it awaits runs to its end. What the USB companion and
  the orchestrator answer, the clock and new identifiers are arguments. Audit entries and logs are
  left out.
\<close>

subsection \<open>Data\<close>

record vault_list =
  vl_ids :: "string list"
  vl_by_id :: "string \<rightharpoonup> vault_info"
  vl_vaults :: "vault_info list"
  vl_files :: "file_info list"
  vl_loading :: bool
  vl_error :: "string option"

record cache_entry =
  ce_vault :: string
  ce_files :: "file_info list"
  ce_time :: string

record app =
  ap_list :: vault_list
  ap_storage :: web_storage
  ap_tasks :: "storage_task list"
  ap_active :: "string option"
  ap_key :: "bytes option"
  ap_mek :: "bytes option"
  ap_timers :: "string \<rightharpoonup> file_info list"
  ap_migrated :: bool
  ap_cache :: "cache_entry list stored option"

type_synonym 'a app_call = "(app, string, 'a) call"

definition empty_list :: vault_list where
  "empty_list = \<lparr>vl_ids = [], vl_by_id = Map.empty, vl_vaults = [], vl_files = [], vl_loading = False, vl_error = None\<rparr>"

text \<open>A page load keeps what is in the browser's storage.\<close>

definition reload_page :: "app \<Rightarrow> app" where
  "reload_page a = a\<lparr>ap_list := empty_list, ap_tasks := [], ap_active := None, ap_key := None, ap_mek := None,
     ap_timers := Map.empty\<rparr>"

definition truthy :: "string option \<Rightarrow> bool" where
  "truthy x = (case x of None \<Rightarrow> False | Some s \<Rightarrow> s \<noteq> [])"

definition or_else :: "string option \<Rightarrow> string \<Rightarrow> string" where
  "or_else x d = (case x of Some s \<Rightarrow> if s = [] then d else s | None \<Rightarrow> d)"

subsection \<open>The normalized collection\<close>

definition put_vault :: "vault_info \<Rightarrow> (string \<rightharpoonup> vault_info) \<Rightarrow> (string \<rightharpoonup> vault_info)" where
  "put_vault v m = m(vi_id v \<mapsto> v)"

definition normalize :: "vault_info list \<Rightarrow> string list \<times> (string \<rightharpoonup> vault_info)" where
  "normalize vs = (map vi_id vs, fold put_vault vs Map.empty)"

definition denormalize :: "string list \<Rightarrow> (string \<rightharpoonup> vault_info) \<Rightarrow> vault_info list" where
  "denormalize ids byId = List.map_filter byId ids"

text \<open>\<open>set\<close> with a new collection, and the denormalized copy that goes with it.\<close>

definition set_vaults :: "string list \<Rightarrow> (string \<rightharpoonup> vault_info) \<Rightarrow> vault_list \<Rightarrow> vault_list" where
  "set_vaults ids byId l = l\<lparr>vl_ids := ids, vl_by_id := byId, vl_vaults := denormalize ids byId\<rparr>"

definition persisted :: "vault_info \<Rightarrow> vault_info" where
  "persisted v = v\<lparr>vi_mount := None, vi_drive := None, vi_fs := None, vi_algorithm := None,
     vi_source := Some SourceLocal\<rparr>"

definition persist_vaults :: "string list \<Rightarrow> (string \<rightharpoonup> vault_info) \<Rightarrow> app \<Rightarrow> app" where
  "persist_vaults ids byId a = a\<lparr>ap_storage :=
     save_vaults (map persisted (filter (\<lambda>v. \<not> truthy (vi_mount v)) (denormalize ids byId))) (ap_storage a)\<rparr>"

definition on_list :: "(vault_list \<Rightarrow> vault_list) \<Rightarrow> app \<Rightarrow> app" where
  "on_list f a = a\<lparr>ap_list := f (ap_list a)\<rparr>"

definition begin_call :: "vault_list \<Rightarrow> vault_list" where
  "begin_call l = l\<lparr>vl_loading := True, vl_error := None\<rparr>"

definition end_call :: "vault_list \<Rightarrow> vault_list" where
  "end_call l = l\<lparr>vl_loading := False\<rparr>"

definition fail_call :: "string \<Rightarrow> app \<Rightarrow> app" where
  "fail_call msg = on_list (\<lambda>l. l\<lparr>vl_error := Some msg, vl_loading := False\<rparr>)"

text \<open>The new collection is set and persisted together.\<close>

definition store_vaults :: "string list \<Rightarrow> (string \<rightharpoonup> vault_info) \<Rightarrow> app \<Rightarrow> app" where
  "store_vaults ids byId a = on_list (\<lambda>l. end_call (set_vaults ids byId l)) (persist_vaults ids byId a)"

subsection \<open>Vaults\<close>

definition new_vault :: "string \<Rightarrow> string \<Rightarrow> string \<Rightarrow> vault_info" where
  "new_vault i now name = \<lparr>vi_id = i, vi_name = name, vi_meta = [], vi_count = 0, vi_modified = now,
     vi_level = LevelStandard, vi_wrapped = None, vi_salt = None, vi_codes = None, vi_mount = None,
     vi_drive = None, vi_fs = None, vi_algorithm = None, vi_source = None\<rparr>"

definition add_vault :: "vault_info \<Rightarrow> app \<Rightarrow> app" where
  "add_vault v a = store_vaults (vl_ids (ap_list a) @ [vi_id v]) ((vl_by_id (ap_list a))(vi_id v \<mapsto> v)) a"

definition create_vault :: "string \<Rightarrow> string \<Rightarrow> string \<Rightarrow> string app_call" where
  "create_vault i now name =
     and_then (modify (\<lambda>a. add_vault (new_vault i now name) (on_list begin_call a))) (\<lambda>_. ret i)"

definition key_error_text :: "key_error \<Rightarrow> string" where
  "key_error_text e = (case e of Within msg _ \<Rightarrow> msg | _ \<Rightarrow> [])"

definition create_vault_with_key_hierarchy ::
  "string \<Rightarrow> string \<Rightarrow> string \<Rightarrow> key_error + hierarchy \<Rightarrow> (string \<times> bytes) app_call" where
  "create_vault_with_key_hierarchy i now name created =
     and_then (modify (on_list begin_call)) (\<lambda>_.
       case created of
         Inl e \<Rightarrow> on_throw fail_call (throw (key_error_text e))
       | Inr h \<Rightarrow> and_then (modify (add_vault ((new_vault i now name)
             \<lparr>vi_level := LevelMaximum, vi_wrapped := Some (btoa (h_wrapped h)),
              vi_salt := Some (bytes_to_hex (h_salt h)), vi_codes := Some False\<rparr>)))
           (\<lambda>_. ret (i, h_mek h)))"

definition delete_vault_of_list :: "string \<Rightarrow> unit app_call" where
  "delete_vault_of_list v = modify (\<lambda>a0.
     let a = on_list begin_call a0;
         ids = filter (\<lambda>i. i \<noteq> v) (vl_ids (ap_list a));
         byId = (vl_by_id (ap_list a))(v := None);
         a1 = a\<lparr>ap_tasks := start_task (delete_vault_begin v (ap_storage a)) (ap_tasks a)\<rparr>;
         a2 = store_vaults ids byId a1
     in if ap_active a2 = Some v then a2\<lparr>ap_active := None\<rparr> else a2)"

definition rename_vault :: "string \<Rightarrow> string \<Rightarrow> string \<Rightarrow> unit app_call" where
  "rename_vault now v newName = modify (\<lambda>a0.
     let a = on_list begin_call a0; l = ap_list a
     in case vl_by_id l v of
          None \<Rightarrow> on_list end_call a
        | Some x \<Rightarrow> store_vaults (vl_ids l) ((vl_by_id l)(v \<mapsto> x\<lparr>vi_name := newName, vi_modified := now\<rparr>)) a)"

definition update_vault :: "string \<Rightarrow> (vault_info \<Rightarrow> vault_info) \<Rightarrow> unit app_call" where
  "update_vault v patch = modify (\<lambda>a. let l = ap_list a in
     case vl_by_id l v of
       None \<Rightarrow> a
     | Some x \<Rightarrow> on_list (set_vaults (vl_ids l) ((vl_by_id l)(v \<mapsto> patch x))) a)"

definition insert_vault :: "vault_info \<Rightarrow> unit app_call" where
  "insert_vault v = modify (\<lambda>a. let l = ap_list a in
     on_list (set_vaults (if vi_id v \<in> set (vl_ids l) then vl_ids l else vl_ids l @ [vi_id v])
       ((vl_by_id l)(vi_id v \<mapsto> v))) a)"

definition clear_list_error :: "unit app_call" where
  "clear_list_error = modify (on_list (\<lambda>l. l\<lparr>vl_error := None\<rparr>))"

subsection \<open>Session keys and the debounced index\<close>

definition lock_session :: "app \<Rightarrow> app" where
  "lock_session a = a\<lparr>ap_key := None, ap_mek := None, ap_timers := Map.empty\<rparr>"

definition set_vault_key :: "bytes option \<Rightarrow> app \<Rightarrow> app" where
  "set_vault_key k a = (case k of None \<Rightarrow> lock_session a | Some k \<Rightarrow> a\<lparr>ap_key := Some k\<rparr>)"

definition set_session_keys :: "bytes \<Rightarrow> bytes \<Rightarrow> app \<Rightarrow> app" where
  "set_session_keys k mek a = a\<lparr>ap_key := Some k, ap_mek := Some mek\<rparr>"

text \<open>
  \<open>unlockVault\<close>: a vault without a wrapped key leaves the session to its caller. \<open>Buffer.from\<close> decodes
  what the store has written; of other texts it would keep the digits it knows.
\<close>

definition unlock_session :: "native \<Rightarrow> vault_info \<Rightarrow> string \<Rightarrow> (app, key_error, unit) call" where
  "unlock_session n v password =
     (if truthy (vi_wrapped v) \<and> truthy (vi_salt v) then
        and_then (of_result (unlock_key_hierarchy n password (hex_to_bytes (the (vi_salt v)))
            (case atob (the (vi_wrapped v)) of None \<Rightarrow> [] | Some w \<Rightarrow> w)))
          (\<lambda>mek. modify (set_session_keys (take 32 mek) mek))
      else modify (\<lambda>a. a))"

definition schedule_index :: "string \<Rightarrow> file_info list \<Rightarrow> app \<Rightarrow> app" where
  "schedule_index v fs a = a\<lparr>ap_timers := (ap_timers a)(v \<mapsto> fs)\<rparr>"

text \<open>The timer of a vault fires: the files it was scheduled with, the key of now.\<close>

definition stored_of :: "string \<Rightarrow> file_info list \<Rightarrow> stored_file list" where
  "stored_of v fs = map (\<lambda>f. to_stored_file f (fi_blob f \<noteq> None)) (filter (\<lambda>f. fi_vault f = v) fs)"

definition fire_index :: "native \<Rightarrow> bytes \<Rightarrow> string \<Rightarrow> app \<Rightarrow> app" where
  "fire_index n nonce v a =
     (case ap_timers a v of
        None \<Rightarrow> a
      | Some fs \<Rightarrow>
          (let a1 = a\<lparr>ap_timers := (ap_timers a)(v := None)\<rparr>
           in case ap_key a1 of
                None \<Rightarrow> a1
              | Some k \<Rightarrow>
                  (case encrypt_file_index n nonce k (stored_of v fs) of
                     None \<Rightarrow> a1
                   | Some b \<Rightarrow> a1\<lparr>ap_storage := save_encrypted_index v b (ap_storage a1)\<rparr>)))"

subsection \<open>Files\<close>

definition no_blob :: "file_info \<Rightarrow> file_info" where
  "no_blob f = f\<lparr>fi_blob := None\<rparr>"

text \<open>The last ten vaults of the plaintext cache for USB drives.\<close>

definition cache_files :: "string \<Rightarrow> string \<Rightarrow> file_info list \<Rightarrow> app \<Rightarrow> app" where
  "cache_files now v fs a =
     (if wst_available (ap_storage a) \<and> wst_writable (ap_storage a) \<and> ap_cache a \<noteq> Some Garbled then
        let entries = (case ap_cache a of Some (Json es) \<Rightarrow> es | _ \<Rightarrow> []);
            e = \<lparr>ce_vault = v, ce_files = map no_blob (filter (\<lambda>f. fi_vault f = v) fs), ce_time = now\<rparr>
        in a\<lparr>ap_cache := Some (Json (last_n 10 (filter (\<lambda>e. ce_vault e \<noteq> v) entries @ [e])))\<rparr>
      else a)"

definition add_file :: "string \<Rightarrow> file_info \<Rightarrow> unit app_call" where
  "add_file now f = modify (\<lambda>a.
     let l = ap_list a; v = fi_vault f; fs = vl_files l @ [f];
         a1 = a\<lparr>ap_tasks := start_task
           (save_file_begin (to_stored_file f (fi_blob f \<noteq> None)) (fi_blob f) (ap_storage a)) (ap_tasks a)\<rparr>;
         byId = (case vl_by_id l v of
             None \<Rightarrow> vl_by_id l
           | Some x \<Rightarrow> (vl_by_id l)(v \<mapsto> x\<lparr>vi_count := vi_count x + 1, vi_modified := now\<rparr>));
         a2 = schedule_index v fs (persist_vaults (vl_ids l) byId a1);
         a3 = (case vl_by_id l v of
             None \<Rightarrow> a2 | Some x \<Rightarrow> if truthy (vi_mount x) then cache_files now v fs a2 else a2)
     in on_list (\<lambda>l. (set_vaults (vl_ids l) byId l)\<lparr>vl_files := fs\<rparr>) a3)"

definition delete_file_of_list :: "string \<Rightarrow> string \<Rightarrow> string \<Rightarrow> unit app_call" where
  "delete_file_of_list now v i = modify (\<lambda>a0.
     let a = on_list begin_call a0;
         a1 = a\<lparr>ap_storage := delete_file now v i (ap_storage a)\<rparr>;
         l = ap_list a1; fs = filter (\<lambda>f. fi_id f \<noteq> i) (vl_files l);
         byId = (case vl_by_id l v of
             None \<Rightarrow> vl_by_id l
           | Some x \<Rightarrow> (vl_by_id l)(v \<mapsto> x\<lparr>vi_count := vi_count x - 1, vi_modified := now\<rparr>));
         a2 = schedule_index v fs (persist_vaults (vl_ids l) byId a1)
     in on_list (\<lambda>l. end_call ((set_vaults (vl_ids l) byId l)\<lparr>vl_files := fs\<rparr>)) a2)"

text \<open>\<open>f.name.split('.').pop() || 'unknown'\<close>\<close>

definition after_last :: "char \<Rightarrow> string \<Rightarrow> string" where
  "after_last c s = rev (takeWhile (\<lambda>d. d \<noteq> c) (rev s))"

definition extension_of :: "string \<Rightarrow> string" where
  "extension_of s = (let e = after_last (CHR ''.'') s in if e = [] then ''unknown'' else e)"

record usb_file =
  uf_id :: string
  uf_name :: string
  uf_size :: nat
  uf_created :: string
  uf_hash :: "string option"

definition file_of_usb :: "string \<Rightarrow> usb_file \<Rightarrow> file_info" where
  "file_of_usb v u = \<lparr>fi_id = uf_id u, fi_vault = v, fi_name = uf_name u, fi_size = uf_size u,
     fi_type = extension_of (uf_name u), fi_modified = uf_created u, fi_meta = [], fi_pqc = False,
     fi_uri = None, fi_blob = None, fi_salt = None, fi_cipher = None, fi_streamed = None,
     fi_original = None, fi_version = None, fi_hash = uf_hash u\<rparr>"

definition set_files :: "file_info list \<Rightarrow> app \<Rightarrow> app" where
  "set_files fs = on_list (\<lambda>l. l\<lparr>vl_files := fs, vl_loading := False, vl_error := None\<rparr>)"

text \<open>What is stored of a vault: the encrypted index when the key opens it, else the plain records.\<close>

definition index_files :: "native \<Rightarrow> string \<Rightarrow> app \<Rightarrow> file_info list option" where
  "index_files n v a = Option.bind (ap_key a) (\<lambda>k.
     Option.bind (load_encrypted_index v (ap_storage a)) (\<lambda>b.
       map_option (map from_stored_file) (decrypt_file_index n k b)))"

definition load_files_of_list :: "native \<Rightarrow> bytes \<Rightarrow> usb_file list option \<Rightarrow> string \<Rightarrow> unit app_call" where
  "load_files_of_list n nonce listing v = modify (\<lambda>a.
     let usb = (case vl_by_id (ap_list a) v of None \<Rightarrow> False | Some x \<Rightarrow> truthy (vi_mount x))
     in if usb \<and> listing \<noteq> None then set_files (map (file_of_usb v) (the listing)) a
        else case index_files n v a of
          Some fs \<Rightarrow> set_files fs a
        | None \<Rightarrow>
            (let stored = load_files v (ap_storage a)
             in if stored = [] then set_files [] a
                else let a1 = set_files (map from_stored_file stored) a
                     in case Option.bind (ap_key a) (\<lambda>k. encrypt_file_index n nonce k stored) of
                          None \<Rightarrow> a1
                        | Some b \<Rightarrow> a1\<lparr>ap_storage := save_encrypted_index v b (ap_storage a1)\<rparr>))"

subsection \<open>Loading the vaults\<close>

record usb_partition =
  up_label :: string
  up_file_system :: string
  up_mount_point :: "string option"
  up_mountpoint :: "string option"
  up_fstype :: "string option"
  up_has_vault :: bool

record usb_drive =
  ud_id :: string
  ud_name :: string
  ud_has_vault :: bool
  ud_partitions :: "usb_partition list option"

record discovered_drive =
  dd_id :: string
  dd_name :: string
  dd_partitions :: "usb_partition list option"

record index_entry =
  ie_name :: string
  ie_length :: nat

text \<open>
  The companion's two answers (\<open>None\<close>: the call throws), and the orchestrator: whether it is unlocked,
  its index and the mount point of its vault.
\<close>

record usb_env =
  ue_drives :: "usb_drive list option"
  ue_found :: "discovered_drive list option"
  ue_unlocked :: bool
  ue_index :: "(string \<times> index_entry) list option"
  ue_active :: "string option"

definition usb_vault :: "string \<Rightarrow> string \<Rightarrow> string \<Rightarrow> string \<Rightarrow> string \<Rightarrow> string \<Rightarrow> vault_info" where
  "usb_vault now i name mount drive fs = \<lparr>vi_id = i, vi_name = name, vi_meta = [], vi_count = 0,
     vi_modified = now, vi_level = LevelMaximum, vi_wrapped = None, vi_salt = None, vi_codes = None,
     vi_mount = Some mount, vi_drive = Some drive, vi_fs = Some fs, vi_algorithm = None, vi_source = None\<rparr>"

text \<open>\<open>p.mountPoint ?? p.mountpoint ?? ''\<close>\<close>

definition partition_mount :: "usb_partition \<Rightarrow> string" where
  "partition_mount p = (case up_mount_point p of Some m \<Rightarrow> m
     | None \<Rightarrow> (case up_mountpoint p of Some m \<Rightarrow> m | None \<Rightarrow> []))"

definition vaults_of_drive :: "string \<Rightarrow> discovered_drive \<Rightarrow> vault_info list" where
  "vaults_of_drive now d =
     (let ps = filter up_has_vault (case dd_partitions d of None \<Rightarrow> [] | Some ps \<Rightarrow> ps)
      in if ps = [] then [(usb_vault now (dd_id d) (dd_name d) [] (dd_name d) [])\<lparr>vi_algorithm := Some []\<rparr>]
         else map (\<lambda>p. (usb_vault now (dd_id d) (or_else (Some (up_label p)) (dd_name d)) (partition_mount p) (dd_name d)
                (or_else (Some (up_file_system p)) (or_else (up_fstype p) [])))\<lparr>vi_algorithm := Some []\<rparr>) ps)"

text \<open>\<open>mp.split('/').slice(0, -1).join('/')\<close>: what is before the last slash.\<close>

definition parent_path :: "string \<Rightarrow> string" where
  "parent_path s = (case dropWhile (\<lambda>c. c \<noteq> CHR ''/'') (rev s) of [] \<Rightarrow> [] | _ # r \<Rightarrow> rev r)"

definition drive_mounts :: "usb_drive \<Rightarrow> string list" where
  "drive_mounts d = filter (\<lambda>m. m \<noteq> [])
     (List.map_filter up_mountpoint (case ud_partitions d of None \<Rightarrow> [] | Some ps \<Rightarrow> ps))"

definition already_found :: "usb_drive \<Rightarrow> vault_info list \<Rightarrow> bool" where
  "already_found d reals =
     (let mounts = drive_mounts d; named = (\<lambda>rv. vi_drive rv = Some (ud_name d))
      in \<exists>rv\<in>set reals.
           (\<exists>m\<in>set mounts. vi_mount rv = Some m) \<or> named rv \<or> vi_name rv = ud_name d \<or>
           (truthy (vi_drive rv) \<and> ud_name d \<noteq> [] \<and>
              (has_infix (ud_name d) (the (vi_drive rv)) \<or> has_infix (the (vi_drive rv)) (ud_name d))) \<or>
           (ud_id d \<noteq> [] \<and>
              (\<exists>rv\<in>set reals. named rv \<or>
                 (\<exists>m\<in>set mounts. truthy (vi_mount rv) \<and> parent_path m = parent_path (the (vi_mount rv))))))"

definition mounted_partition :: "usb_drive \<Rightarrow> usb_partition option" where
  "mounted_partition d = List.find (\<lambda>p. truthy (up_mountpoint p)) (case ud_partitions d of None \<Rightarrow> [] | Some ps \<Rightarrow> ps)"

definition add_drive :: "string \<Rightarrow> usb_drive \<Rightarrow> vault_info list \<Rightarrow> vault_info list" where
  "add_drive now d reals =
     (let p = mounted_partition d; mount = (case p of None \<Rightarrow> [] | Some p \<Rightarrow> the (up_mountpoint p))
      in if \<not> already_found d reals \<and> mount \<noteq> []
         then reals @ [usb_vault now (''usb-'' @ ud_id d) (''Vault on '' @ ud_name d) mount (ud_name d)
                (case p of None \<Rightarrow> [] | Some p \<Rightarrow> (case up_fstype p of None \<Rightarrow> [] | Some f \<Rightarrow> f))]
         else reals)"

definition real_vaults :: "string \<Rightarrow> usb_env \<Rightarrow> vault_info list" where
  "real_vaults now e =
     fold (add_drive now) (filter ud_has_vault (case ue_drives e of None \<Rightarrow> [] | Some ds \<Rightarrow> ds))
       (concat (map (vaults_of_drive now) (case ue_found e of None \<Rightarrow> [] | Some ds \<Rightarrow> ds)))"

text \<open>The one-time migration of the stored list: \<open>/^\d{13,}-[a-z0-9]+$/\<close>.\<close>

definition local_vault_id :: "string \<Rightarrow> bool" where
  "local_vault_id s =
     (13 \<le> length (takeWhile is_digit s) \<and>
      (case dropWhile is_digit s of
         c # cs \<Rightarrow> c = CHR ''-'' \<and> cs \<noteq> [] \<and> list_all (\<lambda>c. is_lower c \<or> is_digit c) cs
       | [] \<Rightarrow> False))"

definition migrate_vault_sources :: "app \<Rightarrow> app" where
  "migrate_vault_sources a =
     (let w = ap_storage a; vs = load_vaults w in
      if \<not> wst_available w \<or> ap_migrated a then a
      else if vs = [] then a\<lparr>ap_migrated := wst_writable w\<rparr>
      else a\<lparr>ap_storage := save_vaults (map (\<lambda>v. v\<lparr>vi_source := Some SourceLocal\<rparr>)
               (filter (\<lambda>v. vi_source v = Some SourceLocal \<or> local_vault_id (vi_id v)) vs)) w,
             ap_migrated := wst_writable w\<rparr>)"

definition local_only :: "vault_info list \<Rightarrow> vault_info list \<Rightarrow> vault_info list" where
  "local_only reals stored = filter (\<lambda>lv. vi_id lv \<notin> vi_id ` set reals \<and> vi_source lv = Some SourceLocal) stored"

text \<open>The files of the unlocked vault, named after what the page knows and else after the index.\<close>

definition synced_file :: "string \<Rightarrow> string \<Rightarrow> file_info list \<Rightarrow> string \<times> index_entry \<Rightarrow> file_info" where
  "synced_file now v current ie =
     (let i = fst ie; old = List.find (\<lambda>f. fi_id f = i) current;
          name = (case old of Some f \<Rightarrow> if fi_name f \<noteq> [] \<and> fi_name f \<noteq> i then fi_name f else or_else (Some (ie_name (snd ie))) i
                  | None \<Rightarrow> or_else (Some (ie_name (snd ie))) i)
      in \<lparr>fi_id = i, fi_vault = v, fi_name = name,
          fi_size = (case old of Some f \<Rightarrow> if fi_size f = 0 then ie_length (snd ie) else fi_size f | None \<Rightarrow> ie_length (snd ie)),
          fi_type = (if CHR ''.'' \<in> set name then extension_of name else or_else (map_option fi_type old) ''unknown''),
          fi_modified = or_else (map_option fi_modified old) now,
          fi_meta = or_else (map_option fi_meta old) [],
          fi_pqc = (case old of Some f \<Rightarrow> fi_pqc f | None \<Rightarrow> False),
          fi_uri = None, fi_blob = None, fi_salt = None, fi_cipher = None, fi_streamed = None,
          fi_original = Option.bind old fi_original, fi_version = None, fi_hash = None\<rparr>)"

definition synced_files :: "string \<Rightarrow> usb_env \<Rightarrow> vault_info list \<Rightarrow> file_info list \<Rightarrow> file_info list" where
  "synced_files now e reals current =
     (case (ue_index e, ue_active e) of
        (Some index, Some mount) \<Rightarrow>
          (case List.find (\<lambda>rv. vi_mount rv = Some mount) reals of
             None \<Rightarrow> []
           | Some rv \<Rightarrow> if vi_id rv = [] then [] else map (synced_file now (vi_id rv) current) index)
      | _ \<Rightarrow> [])"

definition cached_files :: "app \<Rightarrow> vault_info list \<Rightarrow> file_info list" where
  "cached_files a reals =
     (case (wst_available (ap_storage a), ap_cache a) of
        (True, Some (Json es)) \<Rightarrow>
          concat (map (\<lambda>rv. case List.find (\<lambda>c. ce_vault c = vi_id rv) es of
              None \<Rightarrow> [] | Some c \<Rightarrow> ce_files c) reals)
      | _ \<Rightarrow> [])"

definition load_vaults_of_list :: "string \<Rightarrow> usb_env \<Rightarrow> unit app_call" where
  "load_vaults_of_list now e = modify (\<lambda>a0.
     let a = migrate_vault_sources (on_list begin_call a0);
         reals = real_vaults now e;
         (ids, byId) = normalize (reals @ local_only reals (load_vaults (ap_storage a)));
         a1 = on_list (\<lambda>l. (set_vaults ids byId l)\<lparr>vl_loading := False, vl_error := None\<rparr>) a;
         fs = (if ue_unlocked e then synced_files now e reals (vl_files (ap_list a1)) else cached_files a1 reals)
     in if fs = [] then a1 else on_list (\<lambda>l. l\<lparr>vl_files := fs\<rparr>) a1)"

subsection \<open>The page as an event system\<close>

datatype list_event =
    CreateVault string string string
  | CreateWithKeys string string string "key_error + hierarchy"
  | DeleteVault string
  | RenameVault string string string
  | UpdateVault string "vault_info \<Rightarrow> vault_info"
  | InsertVault vault_info
  | AddFile string file_info
  | DeleteFile string string string
  | LoadFiles native bytes "usb_file list option" string
  | LoadVaults string usb_env
  | FireIndex native bytes string
  | SetKey "bytes option"
  | Unlock native vault_info string
  | SelectVault "string option"
  | ResumeTask nat string
  | ReloadPage

fun list_step :: "list_event \<Rightarrow> app \<Rightarrow> app option" where
  "list_step (CreateVault i now name) a = Some (snd (create_vault i now name a))"
| "list_step (CreateWithKeys i now name r) a = Some (snd (create_vault_with_key_hierarchy i now name r a))"
| "list_step (DeleteVault v) a = Some (snd (delete_vault_of_list v a))"
| "list_step (RenameVault now v name) a = Some (snd (rename_vault now v name a))"
| "list_step (UpdateVault v patch) a = Some (snd (update_vault v patch a))"
| "list_step (InsertVault v) a = Some (snd (insert_vault v a))"
| "list_step (AddFile now f) a = Some (snd (add_file now f a))"
| "list_step (DeleteFile now v i) a = Some (snd (delete_file_of_list now v i a))"
| "list_step (LoadFiles n nonce listing v) a = Some (snd (load_files_of_list n nonce listing v a))"
| "list_step (LoadVaults now e) a = Some (snd (load_vaults_of_list now e a))"
| "list_step (FireIndex n nonce v) a = Some (fire_index n nonce v a)"
| "list_step (SetKey k) a = Some (set_vault_key k a)"
| "list_step (Unlock n v password) a = Some (snd (unlock_session n v password a))"
| "list_step (SelectVault v) a = Some (a\<lparr>ap_active := v\<rparr>)"
| "list_step (ResumeTask k now) a =
     map_option (\<lambda>(w, ts). a\<lparr>ap_storage := w, ap_tasks := ts\<rparr>) (storage_step (Resume k now) (ap_storage a, ap_tasks a))"
| "list_step ReloadPage a = Some (reload_page a)"

text \<open>The callers of \<open>_updateVault\<close> change other fields than the identifier.\<close>

fun keeps_ids :: "list_event \<Rightarrow> bool" where
  "keeps_ids (UpdateVault v patch) = (\<forall>x. vi_id (patch x) = vi_id x)"
| "keeps_ids _ = True"

definition coherent :: "vault_list \<Rightarrow> bool" where
  "coherent l = (vl_vaults l = denormalize (vl_ids l) (vl_by_id l) \<and> set (vl_ids l) = dom (vl_by_id l) \<and>
     (\<forall>i v. vl_by_id l i = Some v \<longrightarrow> vi_id v = i))"

definition consistent :: "string list \<Rightarrow> (string \<rightharpoonup> vault_info) \<Rightarrow> bool" where
  "consistent ids byId = (set ids = dom byId \<and> (\<forall>i v. byId i = Some v \<longrightarrow> vi_id v = i))"

lemma coherent_eq:
  "coherent l \<longleftrightarrow> vl_vaults l = denormalize (vl_ids l) (vl_by_id l) \<and> consistent (vl_ids l) (vl_by_id l)"
  by (auto simp: coherent_def consistent_def)

lemma coherent_set [simp]: "coherent (set_vaults ids byId l) = consistent ids byId"
  by (simp add: coherent_eq set_vaults_def)

lemma list_fields [simp]:
  "vl_ids (begin_call l) = vl_ids l" "vl_by_id (begin_call l) = vl_by_id l" "vl_vaults (begin_call l) = vl_vaults l"
  "vl_files (begin_call l) = vl_files l" "coherent (begin_call l) = coherent l"
  "vl_ids (end_call l) = vl_ids l" "vl_by_id (end_call l) = vl_by_id l" "vl_vaults (end_call l) = vl_vaults l"
  "vl_files (end_call l) = vl_files l" "coherent (end_call l) = coherent l"
  "coherent (l\<lparr>vl_files := fs\<rparr>) = coherent l" "coherent (l\<lparr>vl_loading := b\<rparr>) = coherent l"
  "coherent (l\<lparr>vl_error := err\<rparr>) = coherent l"
  by (simp_all add: begin_call_def end_call_def coherent_def)

lemma set_vaults_fields [simp]:
  "vl_ids (set_vaults ids byId l) = ids" "vl_by_id (set_vaults ids byId l) = byId"
  "vl_vaults (set_vaults ids byId l) = denormalize ids byId" "vl_files (set_vaults ids byId l) = vl_files l"
  by (simp_all add: set_vaults_def)

lemma app_fields [simp]:
  "ap_list (on_list f a) = f (ap_list a)" "ap_storage (on_list f a) = ap_storage a" "ap_tasks (on_list f a) = ap_tasks a"
  "ap_active (on_list f a) = ap_active a" "ap_key (on_list f a) = ap_key a" "ap_timers (on_list f a) = ap_timers a"
  "ap_migrated (on_list f a) = ap_migrated a" "ap_cache (on_list f a) = ap_cache a"
  "ap_list (persist_vaults ids byId a) = ap_list a" "ap_tasks (persist_vaults ids byId a) = ap_tasks a"
  "ap_active (persist_vaults ids byId a) = ap_active a" "ap_key (persist_vaults ids byId a) = ap_key a"
  "ap_timers (persist_vaults ids byId a) = ap_timers a" "ap_migrated (persist_vaults ids byId a) = ap_migrated a"
  "ap_cache (persist_vaults ids byId a) = ap_cache a"
  "ap_list (schedule_index v fs a) = ap_list a" "ap_storage (schedule_index v fs a) = ap_storage a"
  "ap_key (schedule_index v fs a) = ap_key a" "ap_cache (schedule_index v fs a) = ap_cache a"
  "ap_migrated (schedule_index v fs a) = ap_migrated a" "ap_tasks (schedule_index v fs a) = ap_tasks a"
  "ap_list (cache_files now v fs a) = ap_list a" "ap_storage (cache_files now v fs a) = ap_storage a"
  "ap_key (cache_files now v fs a) = ap_key a" "ap_timers (cache_files now v fs a) = ap_timers a"
  "ap_migrated (cache_files now v fs a) = ap_migrated a" "ap_tasks (cache_files now v fs a) = ap_tasks a"
  by (simp_all add: on_list_def persist_vaults_def schedule_index_def cache_files_def Let_def)

lemma store_fields [simp]:
  "ap_list (store_vaults ids byId a) = end_call (set_vaults ids byId (ap_list a))"
  "ap_tasks (store_vaults ids byId a) = ap_tasks a" "ap_active (store_vaults ids byId a) = ap_active a"
  "ap_key (store_vaults ids byId a) = ap_key a" "ap_migrated (store_vaults ids byId a) = ap_migrated a"
  by (simp_all add: store_vaults_def)

lemma modify_snd [simp]: "snd (modify f a) = f a" "fst (modify f a) = Inr ()"
  by (simp_all add: modify_def)

lemma snd_and_then_ret [simp]: "snd (and_then (modify f) (\<lambda>_. ret x) a) = f a"
  by (simp add: and_then_def modify_def ret_def)

lemma new_vault_id [simp]: "vi_id (new_vault i now name) = i"
  by (simp add: new_vault_def)

lemma consistent_add: "consistent ids m \<Longrightarrow> vi_id v = i \<Longrightarrow> consistent (ids @ [i]) (m(i \<mapsto> v))"
  by (auto simp: consistent_def)

lemma consistent_put: "consistent ids m \<Longrightarrow> vi_id v \<in> set ids \<Longrightarrow> consistent ids (m(vi_id v \<mapsto> v))"
  by (auto simp: consistent_def)

lemma consistent_change: "consistent ids m \<Longrightarrow> m i \<noteq> None \<Longrightarrow> consistent ids (m(i \<mapsto> y)) \<longleftrightarrow> vi_id y = i"
  by (auto simp: consistent_def)

lemma consistent_id: "consistent ids m \<Longrightarrow> m i = Some x \<Longrightarrow> vi_id x = i"
  by (auto simp: consistent_def)

lemma consistent_remove: "consistent ids m \<Longrightarrow> consistent (filter (\<lambda>i. i \<noteq> v) ids) (m(v := None))"
  by (auto simp: consistent_def)

lemma find_snoc: "List.find P (xs @ [x]) =
    (case List.find P xs of None \<Rightarrow> if P x then Some x else None | Some y \<Rightarrow> Some y)"
  by (induction xs) auto

lemma fold_by_id:
  "fold put_vault vs m i = (case List.find (\<lambda>v. vi_id v = i) (rev vs) of None \<Rightarrow> m i | Some v \<Rightarrow> Some v)"
proof (induction vs arbitrary: m)
  case (Cons v vs)
  show ?case using Cons.IH [of "put_vault v m"] by (simp add: find_snoc put_vault_def split: option.split)
qed simp

lemma consistent_normalize: "normalize vs = (ids, m) \<Longrightarrow> consistent ids m"
proof -
  assume n: "normalize vs = (ids, m)"
  have "dom (fold put_vault vs m) = dom m \<union> vi_id ` set vs" for m
    by (induction vs arbitrary: m) (auto simp: put_vault_def)
  then have "dom (fold put_vault vs Map.empty) = vi_id ` set vs" by (simp only: dom_empty sup_bot_left)
  moreover have "vi_id v = i" if "fold put_vault vs Map.empty i = Some v" for i v
    using that by (auto simp: fold_by_id split: option.splits dest: list_find_SomeD)
  moreover have "ids = map vi_id vs" "m = fold put_vault vs Map.empty" using n by (simp_all add: normalize_def)
  ultimately show ?thesis unfolding consistent_def by (metis set_map)
qed

lemma coherent_consistent: "coherent l \<Longrightarrow> consistent (vl_ids l) (vl_by_id l)"
  by (simp add: coherent_eq)

lemma set_files_fields [simp]:
  "coherent (ap_list (set_files fs a)) = coherent (ap_list a)" "vl_files (ap_list (set_files fs a)) = fs"
  "ap_storage (set_files fs a) = ap_storage a" "ap_key (set_files fs a) = ap_key a"
  by (simp_all add: set_files_def)

lemma coherent_load_files:
  "coherent (ap_list a) \<Longrightarrow> coherent (ap_list (snd (load_files_of_list n nonce listing v a)))"
  by (simp add: load_files_of_list_def Let_def split: option.split)

lemma migrate_fields [simp]: "ap_list (migrate_vault_sources a) = ap_list a" "ap_cache (migrate_vault_sources a) = ap_cache a"
  "wst_available (ap_storage (migrate_vault_sources a)) = wst_available (ap_storage a)"
  by (simp_all add: migrate_vault_sources_def Let_def)

lemma coherent_load_vaults: "coherent (ap_list (snd (load_vaults_of_list now e a)))"
  by (auto simp: load_vaults_of_list_def Let_def split: prod.split intro: consistent_normalize)

lemma coherent_step:
  assumes "coherent (ap_list a)" and "keeps_ids e" and "list_step e a = Some a'"
  shows "coherent (ap_list a')"
proof -
  note c = assms(1) coherent_consistent [OF assms(1)]
  show ?thesis
  proof (cases e)
    case (LoadVaults now env)
    then show ?thesis using assms(3) coherent_load_vaults by auto
  next
    case (LoadFiles n nonce listing v)
    then show ?thesis using assms(3) c(1) coherent_load_files by auto
  next
    case (CreateWithKeys i now name r)
    then show ?thesis using assms(3) c consistent_add
      by (auto simp: create_vault_with_key_hierarchy_def and_then_def modify_def ret_def throw_def on_throw_def
          fail_call_def add_vault_def split: sum.splits)
  next
    case (Unlock n v password)
    then show ?thesis using assms(3) c(1)
      by (auto simp: unlock_session_def and_then_def of_result_def modify_def set_session_keys_def Let_def split: sum.splits)
  next
    case (ResumeTask k now)
    then show ?thesis using assms(3) c(1) by auto
  next
    case (AddFile now f)
    then show ?thesis using assms(3) c
      by (auto simp: add_file_def Let_def consistent_change split: option.splits dest: consistent_id)
  next
    case (DeleteFile now v i)
    then show ?thesis using assms(3) c
      by (auto simp: delete_file_of_list_def Let_def consistent_change split: option.splits dest: consistent_id)
  next
    case (DeleteVault v)
    then show ?thesis using assms(3) c consistent_remove
      by (auto simp: delete_vault_of_list_def Let_def)
  next
    case (FireIndex n nonce v)
    then show ?thesis using assms(3) c(1)
      by (auto simp: fire_index_def Let_def split: option.splits)
  next
    case (SetKey k)
    then show ?thesis using assms(3) c(1)
      by (auto simp: set_vault_key_def lock_session_def split: option.splits)
  next
    case ReloadPage
    then show ?thesis using assms(3) by (auto simp: reload_page_def empty_list_def coherent_def denormalize_def List.map_filter_simps)
  next
    case (CreateVault i now name)
    then show ?thesis using assms(3) c consistent_add by (auto simp: create_vault_def add_vault_def)
  next
    case (InsertVault v)
    then show ?thesis using assms(3) c consistent_add consistent_put
      by (auto simp: insert_vault_def Let_def)
  next
    case (RenameVault now v name)
    then show ?thesis using assms(3) c
      by (auto simp: rename_vault_def Let_def consistent_change split: option.splits dest: consistent_id)
  next
    case (UpdateVault v patch)
    then show ?thesis using assms(2,3) c
      by (auto simp: update_vault_def Let_def consistent_change split: option.splits dest: consistent_id)
  qed (use assms(3) c(1) in auto)
qed

interpretation page: event_system list_step keeps_ids "\<lambda>a. coherent (ap_list a)"
  by unfold_locales (rule coherent_step)

lemma denormalize_ids: "consistent ids m \<Longrightarrow> set js \<subseteq> set ids \<Longrightarrow> map vi_id (denormalize js m) = js"
proof (induction js)
  case (Cons j js)
  then obtain v where "m j = Some v" "vi_id v = j" by (auto simp: consistent_def)
  with Cons show ?case by (simp add: denormalize_def List.map_filter_simps)
qed (simp add: denormalize_def List.map_filter_simps)

text \<open>C16: The three views of the collection agree, whatever the page does.\<close>

theorem list_stays_coherent:
  assumes "coherent (ap_list a)" and "reaches list_step keeps_ids a a'"
  shows "map vi_id (vl_vaults (ap_list a')) = vl_ids (ap_list a') \<and>
    (\<forall>i. vl_by_id (ap_list a') i = List.find (\<lambda>v. vi_id v = i) (vl_vaults (ap_list a')))"
proof -
  let ?l = "ap_list a'"
  have c: "vl_vaults ?l = denormalize (vl_ids ?l) (vl_by_id ?l)" "consistent (vl_ids ?l) (vl_by_id ?l)"
    using page.reaches_inv [OF assms(2,1)] by (simp_all add: coherent_eq)
  have "m i = List.find (\<lambda>v. vi_id v = i) (denormalize js m)"
    if "\<forall>i v. m i = Some v \<longrightarrow> vi_id v = i" "i \<in> set js \<or> m i = None" for m :: "string \<rightharpoonup> vault_info" and i js
    using that
  proof (induction js)
    case Nil
    then show ?case by (simp add: denormalize_def List.map_filter_simps)
  next
    case (Cons j js)
    then show ?case
      by (cases "m j"; cases "j = i") (auto simp: denormalize_def List.map_filter_simps)
  qed
  then have "vl_by_id ?l i = List.find (\<lambda>v. vi_id v = i) (denormalize (vl_ids ?l) (vl_by_id ?l))" for i
    using c(2) unfolding consistent_def by blast
  then show ?thesis using c denormalize_ids [OF c(2) order_refl] by simp
qed

subsection \<open>Edits survive a reload\<close>

text \<open>What the stored list should show of a page: its vaults that are not on a drive, tagged local.\<close>

definition local_view :: "app \<Rightarrow> vault_info list" where
  "local_view a = map persisted (filter (\<lambda>v. \<not> truthy (vi_mount v)) (vl_vaults (ap_list a)))"

definition quiet :: "app \<Rightarrow> bool" where
  "quiet a = (coherent (ap_list a) \<and> distinct (vl_ids (ap_list a)) \<and> wst_available (ap_storage a) \<and>
     wst_writable (ap_storage a) \<and> ap_migrated a \<and> ap_tasks a = [] \<and> load_vaults (ap_storage a) = local_view a)"

definition drain :: "string \<Rightarrow> app \<Rightarrow> app" where
  "drain now a = a\<lparr>ap_storage := fold (run_task now) (ap_tasks a) (ap_storage a), ap_tasks := []\<rparr>"

datatype edit = CreateEdit string string string | DeleteEdit string string | RenameEdit string string string

fun run_edit :: "edit \<Rightarrow> app \<Rightarrow> app" where
  "run_edit (CreateEdit i now name) a = drain now (snd (create_vault i now name a))"
| "run_edit (DeleteEdit now v) a = drain now (snd (delete_vault_of_list v a))"
| "run_edit (RenameEdit now v name) a = drain now (snd (rename_vault now v name a))"

fun apply_edit :: "edit \<Rightarrow> vault_info list \<Rightarrow> vault_info list" where
  "apply_edit (CreateEdit i now name) vs = vs @ [persisted (new_vault i now name)]"
| "apply_edit (DeleteEdit now v) vs = filter (\<lambda>x. vi_id x \<noteq> v) vs"
| "apply_edit (RenameEdit now v name) vs =
     map (\<lambda>x. if vi_id x = v then x\<lparr>vi_name := name, vi_modified := now\<rparr> else x) vs"

text \<open>A created vault has an identifier that is not in use.\<close>

fun edits_ok :: "string set \<Rightarrow> edit list \<Rightarrow> bool" where
  "edits_ok ids [] = True"
| "edits_ok ids (CreateEdit i now name # es) = (i \<notin> ids \<and> edits_ok (insert i ids) es)"
| "edits_ok ids (_ # es) = edits_ok ids es"

lemma denormalize_simps [simp]:
  "denormalize [] m = []"
  "denormalize (i # ids) m = (case m i of None \<Rightarrow> denormalize ids m | Some v \<Rightarrow> v # denormalize ids m)"
  "denormalize (xs @ ys) m = denormalize xs m @ denormalize ys m"
  by (simp_all add: denormalize_def List.map_filter_def split: option.split)

lemma denormalize_cong: "(\<And>i. i \<in> set ids \<Longrightarrow> m i = m' i) \<Longrightarrow> denormalize ids m = denormalize ids m'"
  by (induction ids) (auto split: option.split)

lemma denormalize_add: "i \<notin> set ids \<Longrightarrow> denormalize ids (m(i \<mapsto> v)) = denormalize ids m"
  by (rule denormalize_cong) auto

lemma denormalize_remove:
  "(\<And>i x. m i = Some x \<Longrightarrow> vi_id x = i) \<Longrightarrow>
   denormalize (filter (\<lambda>i. i \<noteq> v) ids) (m(v := None)) = filter (\<lambda>x. vi_id x \<noteq> v) (denormalize ids m)"
  by (induction ids) (auto split: option.split)

lemma denormalize_change:
  "(\<And>i x. m i = Some x \<Longrightarrow> vi_id x = i) \<Longrightarrow> m v = Some x \<Longrightarrow>
   denormalize ids (m(v \<mapsto> f x)) = map (\<lambda>y. if vi_id y = v then f y else y) (denormalize ids m)"
  by (induction ids) (auto split: option.split)

lemma denormalize_normalize:
  assumes "normalize vs = (ids, m)" and "distinct (map vi_id vs)"
  shows "denormalize ids m = vs"
proof -
  have f: "List.find (\<lambda>x. vi_id x = vi_id v) xs = Some v" if "distinct (map vi_id xs)" "v \<in> set xs" for v xs
    using that by (induction xs) (auto simp: rev_image_eqI)
  have "distinct (map vi_id (rev vs))" using assms(2) by (simp add: rev_map [symmetric])
  then have "fold put_vault vs Map.empty (vi_id v) = Some v" if "v \<in> set vs" for v
    using f [of "rev vs" v] that by (simp add: fold_by_id)
  then have "denormalize (map vi_id xs) (fold put_vault vs Map.empty) = xs" if "set xs \<subseteq> set vs" for xs
    using that by (induction xs) auto
  from this [OF order_refl] show ?thesis using assms(1) by (auto simp: normalize_def)
qed

lemma persisted_fields [simp]: "vi_id (persisted v) = vi_id v" "vi_source (persisted v) = Some SourceLocal"
  "vi_name (persisted v) = vi_name v" "vi_wrapped (persisted v) = vi_wrapped v" "vi_salt (persisted v) = vi_salt v"
  by (simp_all add: persisted_def)

lemma store_vaults_saved:
  "wst_available (ap_storage a) \<Longrightarrow> wst_writable (ap_storage a) \<Longrightarrow>
   load_vaults (ap_storage (store_vaults ids m a)) = local_view (store_vaults ids m a)"
  by (simp add: store_vaults_def on_list_def persist_vaults_def load_save_vaults local_view_def end_call_def)

lemma store_vaults_flags [simp]:
  "wst_available (ap_storage (store_vaults ids m a)) = wst_available (ap_storage a)"
  "wst_writable (ap_storage (store_vaults ids m a)) = wst_writable (ap_storage a)"
  by (simp_all add: store_vaults_def on_list_def persist_vaults_def)

lemma local_view_store: "local_view (store_vaults ids m a) =
    map persisted (filter (\<lambda>v. \<not> truthy (vi_mount v)) (denormalize ids m))"
  by (simp add: local_view_def)

lemma run_task_flags [simp]:
  "wst_available (run_task now t w) = wst_available w" "wst_writable (run_task now t w) = wst_writable w"
proof -
  have "wst_available (run_task now t w) = wst_available w \<and> wst_writable (run_task now t w) = wst_writable w"
  proof (induction now t w rule: run_task.induct)
    case (1 now t w)
    have s: "wst_available (snd (task_step now t w)) = wst_available w \<and> wst_writable (snd (task_step now t w)) = wst_writable w"
      by (cases t) (auto simp: Let_def split: option.splits)
    show ?case using 1 s by (subst (1 2) run_task.simps) (auto split: prod.splits option.splits)
  qed
  then show "wst_available (run_task now t w) = wst_available w" "wst_writable (run_task now t w) = wst_writable w" by simp_all
qed

lemma load_vaults_run_delete:
  "wst_available w \<Longrightarrow> wst_writable w \<Longrightarrow>
   load_vaults (run_task now (DeleteVaultList v vs) w) = filter (\<lambda>x. vi_id x \<noteq> v) vs"
  by (cases "wst_db w") (simp_all add: run_delete_files load_save_vaults run_task_next run_task_done)

lemma filter_ids_map: "filter P (map persisted xs) = map persisted (filter (\<lambda>x. P (persisted x)) xs)"
  by (simp add: filter_map comp_def)

lemma distinct_denormalize: "consistent ids m \<Longrightarrow> distinct ids \<Longrightarrow> distinct (map vi_id (denormalize ids m))"
  by (simp add: denormalize_ids)

lemma quietE:
  assumes "quiet a"
  shows "consistent (vl_ids (ap_list a)) (vl_by_id (ap_list a))" "distinct (vl_ids (ap_list a))"
    "wst_available (ap_storage a)" "wst_writable (ap_storage a)" "ap_migrated a" "ap_tasks a = []"
    "load_vaults (ap_storage a) = local_view a"
    "vl_vaults (ap_list a) = denormalize (vl_ids (ap_list a)) (vl_by_id (ap_list a))"
  using assms by (auto simp: quiet_def coherent_eq)

lemma quiet_store:
  assumes "consistent ids m" and "distinct ids" and "wst_available (ap_storage a)" and "wst_writable (ap_storage a)"
    and "ap_migrated a" and "ap_tasks a = []"
  shows "quiet (store_vaults ids m a)"
  using assms store_vaults_saved [of a ids m] by (simp add: quiet_def coherent_eq)

lemma drain_idle [simp]: "ap_tasks a = [] \<Longrightarrow> drain now a = a"
  by (simp add: drain_def)

lemma on_list_view [simp]: "local_view (on_list begin_call a) = local_view a"
  by (simp add: local_view_def)

lemma run_create:
  assumes "quiet a" and "i \<notin> set (vl_ids (ap_list a))"
  shows "quiet (run_edit (CreateEdit i now name) a) \<and>
    local_view (run_edit (CreateEdit i now name) a) = apply_edit (CreateEdit i now name) (local_view a) \<and>
    vl_ids (ap_list (run_edit (CreateEdit i now name) a)) = vl_ids (ap_list a) @ [i]"
proof -
  note q = quietE [OF assms(1)]
  let ?ids = "vl_ids (ap_list a) @ [i]" and ?m = "(vl_by_id (ap_list a))(i \<mapsto> new_vault i now name)"
  have r: "run_edit (CreateEdit i now name) a = store_vaults ?ids ?m (on_list begin_call a)"
    using q by (simp add: create_vault_def add_vault_def)
  have "quiet (store_vaults ?ids ?m (on_list begin_call a))"
    by (rule quiet_store) (use q assms(2) in \<open>simp_all add: consistent_add\<close>)
  moreover have "\<not> truthy (vi_mount (new_vault i now name))" by (simp add: new_vault_def truthy_def)
  ultimately show ?thesis unfolding r using q assms(2)
    by (simp add: local_view_store denormalize_add) (simp add: local_view_def)
qed

lemma run_rename:
  assumes "quiet a"
  shows "quiet (run_edit (RenameEdit now v name) a) \<and>
    local_view (run_edit (RenameEdit now v name) a) = apply_edit (RenameEdit now v name) (local_view a) \<and>
    vl_ids (ap_list (run_edit (RenameEdit now v name) a)) = vl_ids (ap_list a)"
proof (cases "vl_by_id (ap_list a) v")
  case None
  note q = quietE [OF assms]
  have "v \<notin> set (vl_ids (ap_list a))" using q(1) None by (auto simp: consistent_def)
  moreover have "map vi_id (vl_vaults (ap_list a)) = vl_ids (ap_list a)"
    using denormalize_ids [OF q(1) order_refl] q(8) by simp
  ultimately have "\<forall>x\<in>set (vl_vaults (ap_list a)). vi_id x \<noteq> v" by (metis image_eqI list.set_map)
  then have "apply_edit (RenameEdit now v name) (local_view a) = local_view a"
    by (auto simp: local_view_def)
  moreover have "run_edit (RenameEdit now v name) a = on_list (\<lambda>l. end_call (begin_call l)) a"
    using None q(6) by (simp add: rename_vault_def Let_def) (simp add: on_list_def)
  moreover have "local_view (on_list (\<lambda>l. end_call (begin_call l)) a) = local_view a"
    by (simp add: local_view_def)
  ultimately show ?thesis using assms by (simp add: quiet_def)
next
  case (Some x)
  note q = quietE [OF assms]
  let ?f = "\<lambda>x. x\<lparr>vi_name := name, vi_modified := now\<rparr>"
  let ?ids = "vl_ids (ap_list a)" and ?m = "(vl_by_id (ap_list a))(v \<mapsto> ?f x)"
  have r: "run_edit (RenameEdit now v name) a = store_vaults ?ids ?m (on_list begin_call a)"
    using q Some by (simp add: rename_vault_def)
  have id: "\<And>i x. vl_by_id (ap_list a) i = Some x \<Longrightarrow> vi_id x = i" using q(1) by (rule consistent_id)
  have "quiet (store_vaults ?ids ?m (on_list begin_call a))"
    by (rule quiet_store) (use q Some id [OF Some] in \<open>simp_all add: consistent_change\<close>)
  moreover have "denormalize ?ids ?m = map (\<lambda>y. if vi_id y = v then ?f y else y) (denormalize ?ids (vl_by_id (ap_list a)))"
    by (rule denormalize_change [where f = ?f and m = "vl_by_id (ap_list a)", OF id Some])
  moreover have "map persisted (filter (\<lambda>v. \<not> truthy (vi_mount v)) (map (\<lambda>y. if vi_id y = v then ?f y else y) ys)) =
      apply_edit (RenameEdit now v name) (map persisted (filter (\<lambda>v. \<not> truthy (vi_mount v)) ys))" for ys
    by (induction ys) (auto simp: persisted_def)
  ultimately show ?thesis unfolding r using q
    by (simp add: local_view_store del: apply_edit.simps) (simp add: local_view_def del: apply_edit.simps)
qed

lemma run_delete:
  assumes "quiet a"
  shows "quiet (run_edit (DeleteEdit now v) a) \<and>
    local_view (run_edit (DeleteEdit now v) a) = apply_edit (DeleteEdit now v) (local_view a) \<and>
    set (vl_ids (ap_list (run_edit (DeleteEdit now v) a))) \<subseteq> set (vl_ids (ap_list a))"
proof -
  note q = quietE [OF assms]
  let ?b = "on_list begin_call a"
  let ?ids = "filter (\<lambda>i. i \<noteq> v) (vl_ids (ap_list a))" and ?m = "(vl_by_id (ap_list a))(v := None)"
  let ?t = "DeleteVaultList v (local_view a)"
  let ?s = "store_vaults ?ids ?m ?b"
  have s: "quiet ?s" by (rule quiet_store) (use q in \<open>simp_all add: consistent_remove\<close>)
  have d: "denormalize ?ids ?m = filter (\<lambda>x. vi_id x \<noteq> v) (denormalize (vl_ids (ap_list a)) (vl_by_id (ap_list a)))"
    by (rule denormalize_remove) (rule consistent_id [OF q(1)])
  have view: "local_view ?s = filter (\<lambda>x. vi_id x \<noteq> v) (local_view a)"
    by (simp add: local_view_store d) (simp add: local_view_def q(8) filter_ids_map conj_commute)
  define e where "e = run_edit (DeleteEdit now v) a"
  have e: "ap_list e = ap_list ?s" "ap_tasks e = []" "ap_migrated e"
    "ap_storage e = run_task now ?t (ap_storage ?s)"
    using q by (simp_all add: e_def delete_vault_of_list_def Let_def delete_vault_begin_def start_task_def drain_def
        store_vaults_def on_list_def persist_vaults_def)
  have "load_vaults (ap_storage e) = filter (\<lambda>x. vi_id x \<noteq> v) (local_view a)"
    using s by (simp add: e quiet_def load_vaults_run_delete)
  moreover have "local_view e = local_view ?s" by (simp add: local_view_def e(1))
  ultimately have "quiet e \<and> local_view e = filter (\<lambda>x. vi_id x \<noteq> v) (local_view a) \<and>
      set (vl_ids (ap_list e)) \<subseteq> set (vl_ids (ap_list a))"
    using s view by (auto simp: quiet_def e)
  then show ?thesis unfolding e_def by (simp only: apply_edit.simps)
qed

lemma run_edits:
  assumes "quiet a" and "edits_ok ids es" and "set (vl_ids (ap_list a)) \<subseteq> ids"
  shows "quiet (fold run_edit es a) \<and> local_view (fold run_edit es a) = fold apply_edit es (local_view a)"
  using assms
proof (induction es arbitrary: a ids)
  case (Cons e es)
  have "\<exists>ids'. edits_ok ids' es \<and> set (vl_ids (ap_list (run_edit e a))) \<subseteq> ids' \<and> quiet (run_edit e a) \<and>
      local_view (run_edit e a) = apply_edit e (local_view a)"
  proof (cases e)
    case (CreateEdit i now name)
    then have "i \<notin> set (vl_ids (ap_list a))" "edits_ok (insert i ids) es" using Cons.prems by auto
    with run_create [OF Cons.prems(1), of i now name] Cons.prems(3) CreateEdit show ?thesis
      by (intro exI [of _ "insert i ids"]) auto
  next
    case (DeleteEdit now v)
    with run_delete [OF Cons.prems(1), of now v] Cons.prems(2,3) show ?thesis
      by (intro exI [of _ ids]) auto
  next
    case (RenameEdit now v name)
    with run_rename [OF Cons.prems(1), of now v name] Cons.prems(2,3) show ?thesis
      by (intro exI [of _ ids]) auto
  qed
  then show ?case using Cons.IH [of "run_edit e a"] by auto
qed simp

lemma reload_offline:
  assumes "quiet a" and "real_vaults t e = []"
  shows "vl_vaults (ap_list (snd (load_vaults_of_list t e (reload_page a)))) = local_view a"
proof -
  note q = quietE [OF assms(1)]
  have l: "load_vaults (ap_storage (migrate_vault_sources (on_list begin_call (reload_page a)))) = local_view a"
    using q by (simp add: migrate_vault_sources_def Let_def reload_page_def on_list_def)
  have "filter (\<lambda>v. vi_source v = Some SourceLocal) (local_view a) = local_view a"
    by (simp add: local_view_def)
  then have lo: "local_only [] (local_view a) = local_view a" by (simp add: local_only_def)
  have "distinct (map vi_id (vl_vaults (ap_list a)))" using distinct_denormalize [OF q(1,2)] q(8) by simp
  then have "distinct (map vi_id (local_view a))" by (simp add: local_view_def comp_def distinct_map_filter)
  then show ?thesis using assms(2) l lo denormalize_normalize [of "local_view a"]
    by (simp add: load_vaults_of_list_def Let_def split: prod.split)
qed

text \<open>
  C15: Without drives, what is shown after any sequence of creations, deletions and renamings and a reload
  is the result of the same edits on the plain list of local vaults.
\<close>

theorem edits_survive_reload:
  assumes "quiet a" and "edits_ok (set (vl_ids (ap_list a))) es" and "real_vaults t e = []"
  shows "vl_vaults (ap_list (snd (load_vaults_of_list t e (reload_page (fold run_edit es a))))) =
    fold apply_edit es (local_view a)"
proof -
  have "quiet (fold run_edit es a)" "local_view (fold run_edit es a) = fold apply_edit es (local_view a)"
    using run_edits [OF assms(1,2) order_refl] by blast+
  then show ?thesis using reload_offline [OF _ assms(3)] by simp
qed

subsection \<open>Which vaults are shown\<close>

lemma shown_ids:
  "vl_ids (ap_list (snd (load_vaults_of_list now e a))) =
     map vi_id (real_vaults now e @ local_only (real_vaults now e)
       (load_vaults (ap_storage (migrate_vault_sources (on_list begin_call a)))))"
  by (simp add: load_vaults_of_list_def Let_def normalize_def split: prod.split)

lemma migrated_storage: "ap_migrated a \<Longrightarrow> ap_storage (migrate_vault_sources a) = ap_storage a"
  by (simp add: migrate_vault_sources_def Let_def)

theorem shown_vaults:
  assumes "ap_migrated a"
  shows "set (vl_ids (ap_list (snd (load_vaults_of_list now e a)))) =
    vi_id ` set (real_vaults now e) \<union>
    {vi_id v |v. v \<in> set (load_vaults (ap_storage a)) \<and> vi_source v = Some SourceLocal}"
  using assms by (auto simp: shown_ids migrated_storage local_only_def)

lemma add_drive_mono: "set vs \<subseteq> set (fold (add_drive now) ds vs)"
proof (induction ds arbitrary: vs)
  case (Cons d ds)
  have "set vs \<subseteq> set (add_drive now d vs)" by (auto simp: add_drive_def Let_def)
  then show ?case using Cons.IH [of "add_drive now d vs"] by auto
qed simp

lemma discovered_shown:
  assumes "ue_found e = Some ds" and "d \<in> set ds" and "v \<in> set (vaults_of_drive now d)"
  shows "v \<in> set (real_vaults now e)"
proof -
  have "v \<in> set (concat (map (vaults_of_drive now) ds))" using assms(2,3) by auto
  then show ?thesis using add_drive_mono assms(1) unfolding real_vaults_def by fastforce
qed

text \<open>
  C39: A drive without a vault partition is shown without a mount point, and the next write of the list
  stores it as a local vault.
\<close>

theorem unplugged_drive_stays:
  assumes "ue_found e = Some ds" and "d \<in> set ds" and "filter up_has_vault (case dd_partitions d of None \<Rightarrow> [] | Some ps \<Rightarrow> ps) = []"
    and "distinct (map vi_id (real_vaults now e))"
    and "wst_available (ap_storage a)" and "wst_writable (ap_storage a)" and "ap_migrated a"
    and "i \<noteq> dd_id d" and "real_vaults now' e' = []"
  shows "dd_id d \<in> set (vl_ids (ap_list (snd (load_vaults_of_list now' e'
    (reload_page (snd (create_vault i now name (snd (load_vaults_of_list now e a)))))))))"
proof -
  define v where "v = (usb_vault now (dd_id d) (dd_name d) [] (dd_name d) [])\<lparr>vi_algorithm := Some []\<rparr>"
  define b where "b = snd (load_vaults_of_list now e a)"
  define c where "c = snd (create_vault i now name b)"
  have v: "v \<in> set (real_vaults now e)"
    by (rule discovered_shown [OF assms(1,2)]) (simp add: vaults_of_drive_def Let_def assms(3) v_def)
  have v': "vi_id v = dd_id d" "\<not> truthy (vi_mount v)" by (simp_all add: v_def usb_vault_def truthy_def)
  let ?vs = "real_vaults now e @ local_only (real_vaults now e) (load_vaults (ap_storage a))"
  obtain ids m where n: "normalize ?vs = (ids, m)" by (cases "normalize ?vs")
  have b: "vl_ids (ap_list b) = ids" "vl_by_id (ap_list b) = m" "wst_available (ap_storage b)"
    "wst_writable (ap_storage b)" "ap_migrated b"
    using n assms(5-7) by (simp_all add: b_def load_vaults_of_list_def Let_def migrated_storage
        migrate_vault_sources_def split: prod.split)
  have "List.find (\<lambda>x. vi_id x = dd_id d) (rev ?vs) = Some v"
  proof -
    have "List.find (\<lambda>x. vi_id x = dd_id d) (rev (local_only (real_vaults now e) ws)) = None" for ws
      using v v' by (auto simp: find_None_iff local_only_def) (metis imageI)
    moreover have "List.find (\<lambda>x. vi_id x = vi_id v) xs = Some v" if "distinct (map vi_id xs)" "v \<in> set xs" for xs
      using that by (induction xs) (auto simp: rev_image_eqI)
    from this [of "rev (real_vaults now e)"] have "List.find (\<lambda>x. vi_id x = dd_id d) (rev (real_vaults now e)) = Some v"
      using assms(4) v v'(1) by (simp add: rev_map [symmetric])
    moreover have "List.find P (xs @ ys) = (case List.find P xs of None \<Rightarrow> List.find P ys | Some y \<Rightarrow> Some y)" for P and xs ys :: "vault_info list"
      by (induction xs) auto
    ultimately show ?thesis by simp
  qed
  moreover have mi: "m = fold put_vault ?vs Map.empty" "ids = map vi_id ?vs" using n by (simp_all add: normalize_def)
  ultimately have m: "m (dd_id d) = Some v" unfolding mi(1) fold_by_id by simp
  have ids: "dd_id d \<in> set ids" using v v'(1) unfolding mi(2) by (auto simp: rev_image_eqI)
  have "v \<in> set (denormalize (ids @ [i]) (m(i \<mapsto> new_vault i now name)))"
  proof -
    have "v \<in> set (denormalize js m')" if "dd_id d \<in> set js" "m' (dd_id d) = Some v" for js m'
      using that by (induction js) (auto split: option.split)
    then show ?thesis using m ids assms(8) by simp
  qed
  then have "persisted v \<in> set (local_view c)"
    using b v'(2) by (auto simp: c_def create_vault_def add_vault_def local_view_store)
  moreover have "load_vaults (ap_storage c) = local_view c"
    using b store_vaults_saved by (simp add: c_def create_vault_def add_vault_def)
  ultimately have "persisted v \<in> set (load_vaults (ap_storage (reload_page c)))" by (simp add: reload_page_def)
  moreover have "ap_migrated (reload_page c)" using b by (simp add: c_def create_vault_def add_vault_def reload_page_def)
  note shown_vaults [OF this, of now' e']
  moreover have "dd_id d = vi_id (persisted v)" "vi_source (persisted v) = Some SourceLocal" using v'(1) by simp_all
  ultimately show ?thesis unfolding c_def b_def by blast
qed

text \<open>Two vault partitions of one drive have one identifier: both rows show the second.\<close>

theorem second_partition_hides_first:
  assumes "ue_found e = Some [d]" and "dd_partitions d = Some [p, q]" and "up_has_vault p" and "up_has_vault q"
    and "ue_drives e = None" and "load_vaults (ap_storage a) = []"
  shows "\<exists>v. vi_mount v = Some (partition_mount q) \<and>
    vl_vaults (ap_list (snd (load_vaults_of_list now e a))) = [v, v]"
proof -
  let ?v = "\<lambda>p. (usb_vault now (dd_id d) (or_else (Some (up_label p)) (dd_name d)) (partition_mount p) (dd_name d)
     (or_else (Some (up_file_system p)) (or_else (up_fstype p) [])))\<lparr>vi_algorithm := Some []\<rparr>"
  have "real_vaults now e = [?v p, ?v q]"
    using assms by (simp add: real_vaults_def vaults_of_drive_def)
  moreover have "load_vaults (ap_storage (migrate_vault_sources (on_list begin_call a))) = []"
    using assms(6) by (auto simp: migrate_vault_sources_def Let_def)
  ultimately show ?thesis
    by (intro exI [of _ "?v q"])
      (simp add: load_vaults_of_list_def Let_def local_only_def normalize_def put_vault_def usb_vault_def split: prod.split)
qed

lemma already_foundI:
  "u \<in> set reals \<Longrightarrow> vi_mount u = Some mnt \<Longrightarrow> mnt \<noteq> [] \<Longrightarrow> mnt' \<in> set (drive_mounts d) \<Longrightarrow> ud_id d \<noteq> [] \<Longrightarrow>
   parent_path mnt' = parent_path mnt \<Longrightarrow> already_found d reals"
  unfolding already_found_def Let_def truthy_def by fastforce

text \<open>Of two drives that are mounted in one directory, the fallback shows the first.\<close>

theorem neighbouring_drive_missing:
  assumes "ue_found e = None" and "ue_drives e = Some [d, d']" and "ud_has_vault d" and "ud_has_vault d'"
    and "ud_partitions d = Some [p]" and "ud_partitions d' = Some [p']"
    and "up_mountpoint p = Some mnt" and "up_mountpoint p' = Some mnt'" and "mnt \<noteq> []" and "mnt' \<noteq> []"
    and "parent_path mnt = parent_path mnt'" and "ud_id d' \<noteq> []"
  shows "map vi_id (real_vaults now e) = [''usb-'' @ ud_id d]"
proof -
  have m: "mounted_partition d = Some p" "mounted_partition d' = Some p'" "mnt' \<in> set (drive_mounts d')"
    using assms(5-10) by (simp_all add: mounted_partition_def truthy_def drive_mounts_def List.map_filter_simps)
  let ?u = "usb_vault now (''usb-'' @ ud_id d) (''Vault on '' @ ud_name d) mnt (ud_name d)
    (case up_fstype p of None \<Rightarrow> [] | Some f \<Rightarrow> f)"
  have u: "vi_mount ?u = Some mnt" "vi_id ?u = ''usb-'' @ ud_id d" by (simp_all add: usb_vault_def)
  have "already_found d' [?u]"
    by (rule already_foundI [OF _ u(1) assms(9) m(3) assms(12)]) (use assms(11) in simp_all)
  moreover have "\<not> already_found d []" by (simp add: already_found_def)
  moreover have "add_drive now d [] = [?u]"
    using calculation(2) m(1) assms(7,9) by (simp add: add_drive_def)
  moreover have "add_drive now d' [?u] = [?u]"
    using calculation(1) by (simp add: add_drive_def Let_def)
  ultimately have "real_vaults now e = [?u]"
    using assms(1-4) by (simp add: real_vaults_def)
  then show ?thesis using u(2) by (simp only: list.map)
qed

text \<open>The migration knows identifiers of another form than the store gives: an untagged vault is dropped.\<close>

lemma vault_prefix_not_local: "\<not> local_vault_id (''vault-'' @ s)"
  by (simp add: local_vault_id_def is_digit_def code_def)

theorem migration_drops_untagged:
  assumes "wst_available (ap_storage a)" and "wst_writable (ap_storage a)" and "\<not> ap_migrated a"
    and "v \<in> set (load_vaults (ap_storage a))" and "vi_source v = None" and "vi_id v = ''vault-'' @ s"
    and "\<forall>w\<in>set (load_vaults (ap_storage a)). vi_id w = vi_id v \<longrightarrow> w = v"
  shows "vi_id v \<notin> vi_id ` set (load_vaults (ap_storage (migrate_vault_sources a)))"
proof -
  let ?vs = "load_vaults (ap_storage a)"
  let ?P = "\<lambda>v. vi_source v = Some SourceLocal \<or> local_vault_id (vi_id v)"
  have "?vs \<noteq> []" using assms(4) by auto
  then have l: "load_vaults (ap_storage (migrate_vault_sources a)) = map (\<lambda>v. v\<lparr>vi_source := Some SourceLocal\<rparr>) (filter ?P ?vs)"
    using assms(1-3) by (simp add: migrate_vault_sources_def Let_def load_save_vaults)
  have "\<not> ?P v" using assms(5) vault_prefix_not_local [of s] unfolding assms(6) by simp
  then have n: "vi_id v \<notin> vi_id ` set (filter ?P ?vs)" using assms(7) by auto
  have "vi_id ` set (map (\<lambda>v. v\<lparr>vi_source := Some SourceLocal\<rparr>) (filter ?P ?vs)) = vi_id ` set (filter ?P ?vs)"
    by (simp add: image_image)
  then show ?thesis using n unfolding l by argo
qed

subsection \<open>The index and the cache\<close>

lemma add_file_storage:
  "ap_storage (snd (add_file now f a)) = ap_storage (persist_vaults (vl_ids (ap_list a))
     (case vl_by_id (ap_list a) (fi_vault f) of None \<Rightarrow> vl_by_id (ap_list a)
      | Some x \<Rightarrow> (vl_by_id (ap_list a))(fi_vault f \<mapsto> x\<lparr>vi_count := vi_count x + 1, vi_modified := now\<rparr>)) a)"
  by (simp add: add_file_def Let_def persist_vaults_def split: option.split)

lemma add_file_timers:
  "ap_timers (snd (add_file now f a)) = (ap_timers a)(fi_vault f \<mapsto> vl_files (ap_list a) @ [f])"
  by (simp add: add_file_def Let_def schedule_index_def persist_vaults_def split: option.split)

lemma add_file_key: "ap_key (snd (add_file now f a)) = ap_key a"
  by (simp add: add_file_def Let_def schedule_index_def persist_vaults_def split: option.split)

lemma add_file_by_id: "vl_by_id (ap_list (snd (add_file now f a))) =
    (case vl_by_id (ap_list a) (fi_vault f) of None \<Rightarrow> vl_by_id (ap_list a)
     | Some x \<Rightarrow> (vl_by_id (ap_list a))(fi_vault f \<mapsto> x\<lparr>vi_count := vi_count x + 1, vi_modified := now\<rparr>))"
  by (simp add: add_file_def Let_def split: option.split)

definition on_usb :: "string \<Rightarrow> app \<Rightarrow> bool" where
  "on_usb v a = (case vl_by_id (ap_list a) v of None \<Rightarrow> False | Some x \<Rightarrow> truthy (vi_mount x))"

lemma on_usb_add_file: "on_usb v (snd (add_file now f a)) = on_usb v a"
  by (simp add: on_usb_def add_file_by_id split: option.split)

lemma load_files_index:
  "\<not> on_usb v a \<Longrightarrow> index_files n v a = Some fs \<Longrightarrow>
   vl_files (ap_list (snd (load_files_of_list n nonce listing v a))) = fs"
  by (simp add: load_files_of_list_def on_usb_def Let_def split: option.splits)

lemma stored_of_blobs: "\<forall>m\<in>set (stored_of v fs). fi_blob (sf_info m) = None"
  by (auto simp: stored_of_def to_stored_file_def)

lemma from_stored_of: "map from_stored_file (stored_of v fs) = map no_blob (filter (\<lambda>f. fi_vault f = v) fs)"
  by (simp add: stored_of_def to_stored_file_def from_stored_file_def no_blob_def comp_def)

lemma fire_index_saved:
  assumes "native_documented n" and "ap_timers a v = Some fs" and "ap_key a = Some key" and "length key = 32"
    and "wst_available (ap_storage a)" and "wst_db (ap_storage a) \<noteq> None"
  shows "index_files n v (fire_index n nonce v a) = Some (map no_blob (filter (\<lambda>f. fi_vault f = v) fs)) \<and>
    vl_by_id (ap_list (fire_index n nonce v a)) = vl_by_id (ap_list a)"
proof -
  obtain b where b: "encrypt_file_index n nonce key (stored_of v fs) = Some b"
    "decrypt_file_index n key b = Some (stored_of v fs)"
    using file_index_roundtrip [OF assms(1,4) stored_of_blobs] by blast
  then show ?thesis using assms
    by (simp add: fire_index_def Let_def index_files_def load_save_index from_stored_of)
qed

text \<open>
  C38: After a file was added, the index of its vault lists the files of the vault that the page had loaded,
  and no others.
\<close>

theorem index_lists_page_files:
  assumes "native_documented n" and "ap_key a = Some key" and "length key = 32"
    and "wst_available (ap_storage a)" and "wst_db (ap_storage a) \<noteq> None" and "\<not> on_usb (fi_vault f) a"
  shows "vl_files (ap_list (snd (load_files_of_list n nonce' listing (fi_vault f)
      (fire_index n nonce (fi_vault f) (snd (add_file now f a)))))) =
    map no_blob (filter (\<lambda>g. fi_vault g = fi_vault f) (vl_files (ap_list a))) @ [no_blob f]"
proof -
  let ?a = "snd (add_file now f a)" and ?v = "fi_vault f"
  have s: "wst_available (ap_storage ?a)" "wst_db (ap_storage ?a) \<noteq> None"
    using assms(4,5) by (simp_all add: add_file_storage persist_vaults_def)
  have i: "index_files n ?v (fire_index n nonce ?v ?a) =
      Some (map no_blob (filter (\<lambda>g. fi_vault g = ?v) (vl_files (ap_list a) @ [f])))"
    and "vl_by_id (ap_list (fire_index n nonce ?v ?a)) = vl_by_id (ap_list ?a)"
    using fire_index_saved [OF assms(1), of ?a ?v "vl_files (ap_list a) @ [f]" key nonce] assms(2,3) s
    by (simp_all add: add_file_timers add_file_key)
  then have "\<not> on_usb ?v (fire_index n nonce ?v ?a)"
    using on_usb_add_file [of ?v now f a] assms(6) by (simp add: on_usb_def)
  from load_files_index [OF this i] show ?thesis by simp
qed

text \<open>A lock within the 300 ms drops the update: the next listing is that of the old index.\<close>

theorem lock_drops_pending_index:
  assumes "ap_key a = Some key" and "\<not> on_usb (fi_vault f) a" and "index_files n (fi_vault f) a = Some old"
  shows "vl_files (ap_list (snd (load_files_of_list n nonce' listing (fi_vault f)
      (set_vault_key (Some key) (fire_index n nonce (fi_vault f) (lock_session (snd (add_file now f a)))))))) = old"
proof -
  let ?b = "set_vault_key (Some key) (fire_index n nonce (fi_vault f) (lock_session (snd (add_file now f a))))"
  have b: "?b = (snd (add_file now f a))\<lparr>ap_key := Some key, ap_mek := None, ap_timers := Map.empty\<rparr>"
    by (simp add: fire_index_def lock_session_def set_vault_key_def)
  have "load_encrypted_index v (ap_storage (snd (add_file now f a))) = load_encrypted_index v (ap_storage a)" for v
    by (simp add: add_file_storage persist_vaults_def)
  then have "index_files n (fi_vault f) ?b = Some old" using assms(1,3) unfolding b by (simp add: index_files_def)
  moreover have "\<not> on_usb (fi_vault f) ?b"
    using on_usb_add_file [of "fi_vault f" now f a] assms(2) unfolding b by (simp add: on_usb_def)
  ultimately show ?thesis by (rule load_files_index [rotated])
qed

text \<open>A deleted file of a drive is still in the plaintext cache, which a reload shows.\<close>

lemma cache_after_add:
  assumes "vl_by_id (ap_list a) (fi_vault f) = Some x" and "truthy (vi_mount x)"
    and "wst_available (ap_storage a)" and "wst_writable (ap_storage a)" and "ap_cache a \<noteq> Some Garbled"
  shows "\<exists>es c. ap_cache (snd (add_file now f a)) = Some (Json es) \<and>
    List.find (\<lambda>c. ce_vault c = fi_vault f) es = Some c \<and> no_blob f \<in> set (ce_files c)"
proof -
  define old where "old = (case ap_cache a of Some (Json es) \<Rightarrow> es | _ \<Rightarrow> [])"
  define c where "c = \<lparr>ce_vault = fi_vault f,
    ce_files = map no_blob (filter (\<lambda>g. fi_vault g = fi_vault f) (vl_files (ap_list a) @ [f])), ce_time = now\<rparr>"
  let ?es = "last_n 10 (filter (\<lambda>e. ce_vault e \<noteq> fi_vault f) old @ [c])"
  have "ap_cache (snd (add_file now f a)) = Some (Json ?es)"
    using assms by (simp add: add_file_def Let_def cache_files_def schedule_index_def persist_vaults_def c_def old_def)
  moreover have "List.find (\<lambda>c. ce_vault c = fi_vault f) (drop k (filter (\<lambda>e. ce_vault e \<noteq> fi_vault f) xs) @ [c]) = Some c"
    for k and xs :: "cache_entry list"
  proof -
    have "List.find (\<lambda>c. ce_vault c = fi_vault f) (drop k (filter (\<lambda>e. ce_vault e \<noteq> fi_vault f) xs)) = None"
      by (auto simp: find_None_iff dest: in_set_dropD)
    then show ?thesis by (simp add: find_snoc c_def)
  qed
  then have "List.find (\<lambda>c. ce_vault c = fi_vault f) ?es = Some c" by (simp add: last_n_def)
  moreover have "no_blob f \<in> set (ce_files c)" by (simp add: c_def)
  ultimately show ?thesis by blast
qed

lemma delete_file_cache: "ap_cache (snd (delete_file_of_list now v i a)) = ap_cache a"
  by (simp add: delete_file_of_list_def Let_def)

lemma delete_file_available: "wst_available (ap_storage (snd (delete_file_of_list now v i a))) = wst_available (ap_storage a)"
  by (simp add: delete_file_of_list_def Let_def persist_vaults_def delete_file_def run_begin_def split: option.split)

lemma cached_files_loading [simp]:
  "cached_files (on_list g (migrate_vault_sources (on_list begin_call a))) reals = cached_files a reals"
  by (simp add: cached_files_def)

theorem deleted_file_returns:
  assumes "vl_by_id (ap_list a) (fi_vault f) = Some x" and "truthy (vi_mount x)"
    and "wst_available (ap_storage a)" and "wst_writable (ap_storage a)" and "ap_cache a \<noteq> Some Garbled"
    and "fi_vault f \<in> vi_id ` set (real_vaults now' e)" and "\<not> ue_unlocked e"
  shows "no_blob f \<in> set (vl_files (ap_list (snd (load_vaults_of_list now' e
    (reload_page (snd (delete_file_of_list now (fi_vault f) (fi_id f) (snd (add_file now f a)))))))))"
proof -
  let ?b = "reload_page (snd (delete_file_of_list now (fi_vault f) (fi_id f) (snd (add_file now f a))))"
  obtain es c where c: "ap_cache ?b = Some (Json es)" "List.find (\<lambda>c. ce_vault c = fi_vault f) es = Some c"
    "no_blob f \<in> set (ce_files c)"
    using cache_after_add [OF assms(1-5), of now] by (auto simp: reload_page_def delete_file_cache)
  have av: "wst_available (ap_storage ?b)"
    using assms(3) by (simp add: reload_page_def delete_file_available add_file_storage persist_vaults_def)
  obtain rv where rv: "rv \<in> set (real_vaults now' e)" "vi_id rv = fi_vault f" using assms(6) by auto
  have "no_blob f \<in> set (cached_files ?b (real_vaults now' e))"
    using av c rv by (force simp: cached_files_def)
  then show ?thesis using assms(7) by (auto simp: load_vaults_of_list_def Let_def simp del: set_concat split: prod.split)
qed

subsection \<open>A vault with a key hierarchy\<close>

text \<open>
  C17: A vault created with a key hierarchy is still there after a reload and its password unlocks it to
  the master key of its creation.
\<close>

theorem keyed_vault_unlocks:
  assumes "native_documented n" and "create_key_hierarchy n password sd md nonce = Inr h" and "quiet a"
    and "i \<notin> set (vl_ids (ap_list a))" and "real_vaults t e = []"
  shows "\<exists>b v c. create_vault_with_key_hierarchy i now name (Inr h) a = (Inr (i, h_mek h), b) \<and>
    v \<in> set (vl_vaults (ap_list (snd (load_vaults_of_list t e (reload_page b))))) \<and> vi_id v = i \<and>
    unlock_session n v password (reload_page b) = (Inr (), c) \<and>
    ap_mek c = Some (h_mek h) \<and> ap_key c = Some (take 32 (h_mek h))"
proof -
  note q = quietE [OF assms(3)]
  define v where "v = (new_vault i now name)\<lparr>vi_level := LevelMaximum, vi_wrapped := Some (btoa (h_wrapped h)),
    vi_salt := Some (bytes_to_hex (h_salt h)), vi_codes := Some False\<rparr>"
  let ?ids = "vl_ids (ap_list a) @ [i]" and ?m = "(vl_by_id (ap_list a))(i \<mapsto> v)"
  let ?b = "store_vaults ?ids ?m (on_list begin_call a)"
  have v: "vi_id v = i" "\<not> truthy (vi_mount v)" by (simp_all add: v_def new_vault_def truthy_def)
  have b: "create_vault_with_key_hierarchy i now name (Inr h) a = (Inr (i, h_mek h), ?b)"
    using v by (simp add: create_vault_with_key_hierarchy_def and_then_def modify_def ret_def add_vault_def v_def)
  have "quiet ?b" by (rule quiet_store) (use q assms(4) v in \<open>simp_all add: consistent_add\<close>)
  then have "vl_vaults (ap_list (snd (load_vaults_of_list t e (reload_page ?b)))) = local_view ?b"
    by (rule reload_offline [OF _ assms(5)])
  then have mem: "persisted v \<in> set (vl_vaults (ap_list (snd (load_vaults_of_list t e (reload_page ?b)))))"
    using v assms(4) by (simp add: local_view_store)
  have w: "wraps n password (h_salt h) (h_wrapped h) (h_mek h)" by (rule create_wraps [OF assms(2)])
  have hw: "h_wrapped h \<noteq> []"
    using wraps_unlock [OF assms(1) w] by (auto simp: unlock_key_hierarchy_def unwrap_mek_def attempt_Inr split: if_splits)
  have ne: "btoa (h_wrapped h) \<noteq> []"
  proof
    assume "btoa (h_wrapped h) = []"
    then have "atob [] = Some (h_wrapped h)" using atob_btoa [of "h_wrapped h"] by simp
    with hw show False by (simp add: atob_def strip_padding_def)
  qed
  have "length (h_salt h) = 32" using w derive_kek_Inr [OF assms(1)] by (auto simp: wraps_def)
  then have "bytes_to_hex (h_salt h) \<noteq> []" by auto
  then have "unlock_session n (persisted v) password (reload_page ?b) =
      (Inr (), set_session_keys (take 32 (h_mek h)) (h_mek h) (reload_page ?b))"
    using ne wraps_unlock [OF assms(1) w]
    by (simp add: unlock_session_def truthy_def v_def and_then_def of_result_def modify_def hex_inverse)
  then show ?thesis using b mem v(1)
    by (intro exI [of _ ?b] exI [of _ "persisted v"]
        exI [of _ "set_session_keys (take 32 (h_mek h)) (h_mek h) (reload_page ?b)"]) (simp add: set_session_keys_def)
qed

subsection \<open>Witnesses\<close>

definition demo_app :: app where
  "demo_app = \<lparr>ap_list = \<lparr>vl_ids = [''v1'', ''v2''],
       vl_by_id = [''v1'' \<mapsto> demo_vault ''v1'' ''Docs'', ''v2'' \<mapsto> demo_vault ''v2'' ''Photos''],
       vl_vaults = [demo_vault ''v1'' ''Docs'', demo_vault ''v2'' ''Photos''], vl_files = [],
       vl_loading = False, vl_error = None\<rparr>,
     ap_storage = demo_storage, ap_tasks = [], ap_active = None, ap_key = Some (replicate 32 3), ap_mek = None,
     ap_timers = Map.empty, ap_migrated = True, ap_cache = None\<rparr>"

definition no_usb :: usb_env where
  "no_usb = \<lparr>ue_drives = None, ue_found = None, ue_unlocked = False, ue_index = None, ue_active = None\<rparr>"

definition one_stick :: usb_env where
  "one_stick = no_usb\<lparr>ue_found := Some [\<lparr>dd_id = ''d9'', dd_name = ''Stick'', dd_partitions = None\<rparr>]\<rparr>"

lemma no_usb_real [simp]: "real_vaults t no_usb = []"
  by (simp add: real_vaults_def no_usb_def)

lemma demo_local [simp]: "persisted (demo_vault i n) = demo_vault i n" "\<not> truthy (vi_mount (demo_vault i n))"
  by (simp_all add: persisted_def demo_vault_def truthy_def)

lemma demo_app_quiet: "quiet demo_app"
  by (auto simp: quiet_def demo_app_def coherent_def local_view_def)

lemma demo_app_coherent: "coherent (ap_list demo_app)"
  using demo_app_quiet by (simp add: quiet_def)

lemma demo_app_fields [simp]:
  "vl_ids (ap_list demo_app) = [''v1'', ''v2'']" "ap_storage demo_app = demo_storage"
  "ap_key demo_app = Some (replicate 32 3)" "ap_migrated demo_app" "vl_files (ap_list demo_app) = []"
  by (simp_all add: demo_app_def)

theorem list_stays_coherent_witness:
  "\<exists>a'. reaches list_step keeps_ids demo_app a' \<and> vl_ids (ap_list a') = [''v1'', ''v2'', ''v3''] \<and>
     map vi_id (vl_vaults (ap_list a')) = [''v1'', ''v2'', ''v3'']"
proof -
  let ?a = "snd (create_vault ''v3'' ''t1'' ''New'' demo_app)"
  have "run list_step [CreateVault ''v3'' ''t1'' ''New''] demo_app = Some ?a" by simp
  from run_reaches [OF this, of keeps_ids] have r: "reaches list_step keeps_ids demo_app ?a" by simp
  have "vl_ids (ap_list ?a) = [''v1'', ''v2'', ''v3'']" by (simp add: create_vault_def add_vault_def)
  with list_stays_coherent [OF demo_app_coherent r] r show ?thesis by auto
qed

theorem edits_survive_reload_witness:
  "map vi_name (vl_vaults (ap_list (snd (load_vaults_of_list ''t9'' no_usb (reload_page (fold run_edit
     [CreateEdit ''v3'' ''t1'' ''New'', RenameEdit ''t2'' ''v2'' ''Trips'', DeleteEdit ''t3'' ''v1''] demo_app)))))) =
   [''Trips'', ''New'']"
  using edits_survive_reload [OF demo_app_quiet, of
      "[CreateEdit ''v3'' ''t1'' ''New'', RenameEdit ''t2'' ''v2'' ''Trips'', DeleteEdit ''t3'' ''v1'']" "''t9''" no_usb]
  by (simp del: run_edit.simps add: local_view_def)
    (simp add: demo_app_def demo_vault_def persisted_def truthy_def new_vault_def)

theorem unplugged_drive_stays_witness:
  "real_vaults ''t5'' no_usb = [] \<and> ''d9'' \<in> set (vl_ids (ap_list (snd (load_vaults_of_list ''t5'' no_usb
     (reload_page (snd (create_vault ''v3'' ''t0'' ''New'' (snd (load_vaults_of_list ''t0'' one_stick demo_app)))))))))"
proof -
  have r: "real_vaults ''t0'' one_stick = [(usb_vault ''t0'' ''d9'' ''Stick'' [] ''Stick'' [])\<lparr>vi_algorithm := Some []\<rparr>]"
    by (simp add: real_vaults_def one_stick_def no_usb_def vaults_of_drive_def)
  show ?thesis
    using unplugged_drive_stays [where e = one_stick and a = demo_app and i = "''v3''" and now' = "''t5''"
        and now = "''t0''" and e' = no_usb and name = "''New''"
        and d = "\<lparr>dd_id = ''d9'', dd_name = ''Stick'', dd_partitions = None\<rparr>"] r
    by (simp add: one_stick_def usb_vault_def)
qed

definition demo_partition :: "string \<Rightarrow> usb_partition" where
  "demo_partition mnt = \<lparr>up_label = [], up_file_system = [], up_mount_point = None, up_mountpoint = Some mnt,
     up_fstype = None, up_has_vault = True\<rparr>"

definition demo_drive :: "string \<Rightarrow> string \<Rightarrow> string \<Rightarrow> usb_drive" where
  "demo_drive i name mnt = \<lparr>ud_id = i, ud_name = name, ud_has_vault = True, ud_partitions = Some [demo_partition mnt]\<rparr>"

theorem neighbouring_drive_missing_witness:
  "map vi_id (real_vaults ''t0'' (no_usb\<lparr>ue_drives := Some
     [demo_drive ''a'' ''Red'' ''/media/usb0'', demo_drive ''b'' ''Blue'' ''/media/usb1'']\<rparr>)) = [''usb-a'']"
proof -
  have "parent_path ''/media/usb0'' = parent_path ''/media/usb1''" by (simp add: parent_path_def)
  from neighbouring_drive_missing [OF _ _ _ _ _ _ _ _ _ _ this, where p = "demo_partition ''/media/usb0''"
      and p' = "demo_partition ''/media/usb1''" and d = "demo_drive ''a'' ''Red'' ''/media/usb0''"
      and d' = "demo_drive ''b'' ''Blue'' ''/media/usb1''"]
  show ?thesis by (simp add: no_usb_def demo_drive_def demo_partition_def)
qed

theorem index_lists_page_files_witness:
  "vl_files (ap_list (snd (load_files_of_list demo_native [] None ''v1''
      (fire_index demo_native [] ''v1'' (snd (add_file ''t1'' (demo_file ''v1'' ''f2'') demo_app)))))) =
    [no_blob (demo_file ''v1'' ''f2'')] \<and> load_files ''v1'' demo_storage \<noteq> []"
proof -
  have "fi_vault (demo_file ''v1'' ''f2'') = ''v1''" by (simp add: demo_file_def)
  moreover have "\<not> on_usb ''v1'' demo_app" by (simp add: on_usb_def demo_app_def)
  moreover have "load_files ''v1'' demo_storage \<noteq> []"
    by (simp add: load_files_def demo_storage_def metas_of_def to_stored_file_def demo_file_def)
  ultimately show ?thesis
    using index_lists_page_files [OF demo_native_ok(1), of demo_app "replicate 32 3" "demo_file ''v1'' ''f2''" "[]" None "[]" "''t1''"]
    by simp
qed

theorem keyed_vault_unlocks_witness:
  "\<exists>h b v c. create_key_hierarchy demo_native ''abc'' (Some (replicate 32 1)) (Some (replicate 64 7)) [] = Inr h \<and>
     create_vault_with_key_hierarchy ''v3'' ''t1'' ''New'' (Inr h) demo_app = (Inr (''v3'', h_mek h), b) \<and>
     unlock_session demo_native v ''abc'' (reload_page b) = (Inr (), c) \<and> ap_key c = Some (take 32 (h_mek h))"
proof -
  obtain h where h: "create_key_hierarchy demo_native ''abc'' (Some (replicate 32 1)) (Some (replicate 64 7)) [] = Inr h"
  proof -
    obtain kek where k: "derive_kek demo_native ''abc'' (replicate 32 1) = Inr kek" "length kek = 32"
      by (rule derive_kek_total [OF demo_native_ok(1)]) auto
    obtain w where "wrap_mek demo_native [] kek (replicate 64 7) = Inr w"
      using wrap_total [OF demo_native_ok(1) k(2), of "replicate 64 7"] by auto
    with k that show thesis by (simp add: create_key_hierarchy_def random_bytes_Inr attempt_Inr)
  qed
  have "''v3'' \<notin> set (vl_ids (ap_list demo_app))" by simp
  from keyed_vault_unlocks [OF demo_native_ok(1) h demo_app_quiet this no_usb_real, of "''t1''" "''New''" "''t2''"] h
  show ?thesis by blast
qed

subsection \<open>Export\<close>

definition or_null :: "('a \<Rightarrow> json_value) \<Rightarrow> 'a option \<Rightarrow> json_value" where
  "or_null f x = (case x of None \<Rightarrow> JNull | Some v \<Rightarrow> f v)"

definition export_file_json :: "stored_file \<Rightarrow> json_value" where
  "export_file_json m = (let f = sf_info m in JObject
     [(''id'', JString (fi_id f)), (''name'', JString (fi_name f)), (''size'', json_nat (fi_size f)),
      (''type'', JString (fi_type f)), (''modifiedAt'', JString (fi_modified f)),
      (''encryptedMetadata'', JString (fi_meta f)), (''isPQCProtected'', JBool (fi_pqc f)),
      (''saltHex'', or_null JString (fi_salt f)), (''cipherId'', or_null json_nat (fi_cipher f)),
      (''hasBlobStored'', JBool (sf_has_blob m))])"

definition export_manifest :: "string \<Rightarrow> vault_info \<Rightarrow> stored_file list \<Rightarrow> string \<Rightarrow> json_value" where
  "export_manifest now v ms integrity = JObject
     [(''version'', JString ''1.0''), (''format'', JString ''usbvault-export''), (''exportedAt'', JString now),
      (''vault'', JObject
         [(''id'', JString (vi_id v)), (''name'', JString (vi_name v)), (''encryptedMetadata'', JString (vi_meta v)),
          (''securityLevel'', JString (level_text (vi_level v))), (''fileCount'', json_nat (vi_count v)),
          (''lastModified'', JString (vi_modified v)), (''wrappedMekB64'', or_null JString (vi_wrapped v)),
          (''kekSaltHex'', or_null JString (vi_salt v))]),
      (''files'', JArray (map export_file_json ms)), (''integrity'', JString integrity)]"

definition export_name :: "string \<Rightarrow> string \<Rightarrow> string" where
  "export_name now name =
     map (\<lambda>c. if is_lower c \<or> is_upper c \<or> is_digit c \<or> c = CHR ''_'' \<or> c = CHR ''-'' then c else CHR ''_'') name @
     ''_'' @ take 10 now @ ''.uvx''"

text \<open>The manifest and the name it is downloaded under; \<open>sha\<close> is \<open>crypto.subtle.digest\<close>.\<close>

definition export_vault :: "(bytes \<Rightarrow> bytes option) \<Rightarrow> string \<Rightarrow> string \<Rightarrow> (json_value \<times> string) app_call" where
  "export_vault sha now v = and_then (modify (on_list begin_call)) (\<lambda>_. on_throw fail_call (\<lambda>a.
     case vl_by_id (ap_list a) v of
       None \<Rightarrow> throw ''Vault not found'' a
     | Some x \<Rightarrow>
         (let ms = load_files v (ap_storage a) in
          case sha (utf8_encode (json_print (export_manifest now x ms []))) of
            None \<Rightarrow> throw ''digest failed'' a
          | Some h \<Rightarrow> ret (export_manifest now x ms (bytes_to_hex h), export_name now (vi_name x)) (on_list end_call a))))"

lemma plain_or_null [simp]: "(\<And>v. plain_json (f v)) \<Longrightarrow> plain_json (or_null f x)"
  by (simp add: or_null_def split: option.split)

lemma plain_export [simp]: "plain_json (export_manifest now v ms i)"
  by (simp add: export_manifest_def export_file_json_def Let_def list_all_iff)

text \<open>Reading an export back and blanking its integrity field gives a text with that hash.\<close>

theorem export_is_verifiable:
  assumes "export_vault sha now v a = (Inr (doc, name), a')"
  shows "\<exists>ms h. json_parse (json_print doc) = Some (JObject ms) \<and>
    sha (utf8_encode (json_print (JObject (map (\<lambda>(k, x). (k, if k = ''integrity'' then JString [] else x)) ms)))) = Some h \<and>
    map_of ms ''integrity'' = Some (JString (bytes_to_hex h))"
proof -
  obtain x fs h where x: "doc = export_manifest now x fs (bytes_to_hex h)"
    "sha (utf8_encode (json_print (export_manifest now x fs []))) = Some h"
    using assms by (auto simp: export_vault_def and_then_def modify_def on_throw_def throw_def ret_def Let_def
        split: option.splits)
  have "json_parse (json_print doc) = Some doc" unfolding x(1) by (rule json_roundtrip) simp
  then show ?thesis using x by (simp add: export_manifest_def)
qed

theorem export_is_verifiable_witness:
  "\<exists>doc name a' ms h. export_vault (\<lambda>x. Some [1, 2]) ''2026-01-01T00:00:00Z'' ''v1'' demo_app = (Inr (doc, name), a') \<and>
     name = ''Docs_2026-01-01.uvx'' \<and> json_parse (json_print doc) = Some (JObject ms) \<and>
     map_of ms ''integrity'' = Some (JString (bytes_to_hex h))"
proof -
  have "vl_by_id (ap_list (on_list begin_call demo_app)) ''v1'' = Some (demo_vault ''v1'' ''Docs'')"
    by (simp add: demo_app_def)
  moreover have "export_name ''2026-01-01T00:00:00Z'' ''Docs'' = ''Docs_2026-01-01.uvx''"
    by (simp add: export_name_def is_lower_def is_upper_def is_digit_def code_def)
  ultimately obtain doc a' where e: "export_vault (\<lambda>x. Some [1, 2]) ''2026-01-01T00:00:00Z'' ''v1'' demo_app =
      (Inr (doc, ''Docs_2026-01-01.uvx''), a')"
    by (simp add: export_vault_def and_then_def modify_def on_throw_def ret_def Let_def demo_vault_def)
  from export_is_verifiable [OF this] e show ?thesis by blast
qed

end
