(* ===== verification/Vault_Backup.thy ===== *)
theory Vault_Backup
  imports Vault_List Web_Crypto
begin

text \<open>
  \<open>services/vault/backup.ts\<close>: creating, exporting, importing, validating and restoring a backup, the
  automatic backup's configuration and the history; with \<open>services/settingsService.ts\<close>, whose settings a
  backup carries. A settings object is the list of its members. The store that \<open>restoreFromBackup\<close> is
  given (of type \<open>any\<close>) is the record \<open>vault_ops\<close>; the locale \<open>vault_backend\<close> says what it relies on and is
  interpreted on \<open>Vault_List\<close>. WebCrypto is the parameter \<open>webcrypto\<close>. Audit entries and the download are
  left out.
\<close>

subsection \<open>User settings\<close>

record user_settings =
  us_slot :: "members stored option"
  us_cache :: "members option"
  us_writable :: bool

definition DEFAULT_SETTINGS :: members where
  "DEFAULT_SETTINGS =
     [(''biometricLockEnabled'', JBool True), (''twoFactorEnabled'', JBool False),
      (''autoLockTimeoutMin'', json_nat 15), (''ghostModeEnabled'', JBool False),
      (''selfDestructEnabled'', JBool False), (''selfDestructAttempts'', json_nat 10),
      (''keyProvider'', JString ''software''), (''pqcEnabled'', JBool True),
      (''autoBackupEnabled'', JBool False), (''backupFrequency'', JString ''weekly''),
      (''lastBackupAt'', JNull), (''notificationsEnabled'', JBool True)]"

text \<open>Object spread, and \<open>Object.assign\<close>.\<close>

definition assign :: "members \<Rightarrow> members \<Rightarrow> members" where
  "assign old new = fold (\<lambda>(k, v). ls_set k v) new old"

definition load_settings :: "user_settings \<Rightarrow> members \<times> user_settings" where
  "load_settings u =
     (case us_cache u of
        Some c \<Rightarrow> (c, u)
      | None \<Rightarrow> (let c = (case us_slot u of Some (Json ms) \<Rightarrow> assign DEFAULT_SETTINGS ms | _ \<Rightarrow> DEFAULT_SETTINGS)
                 in (c, u\<lparr>us_cache := Some c\<rparr>)))"

definition save_settings :: "members \<Rightarrow> user_settings \<Rightarrow> members \<times> user_settings" where
  "save_settings patch u =
     (let (current, u1) = load_settings u; updated = assign current patch
      in (updated, if us_writable u1 then u1\<lparr>us_slot := Some (Json updated), us_cache := Some updated\<rparr> else u1))"

definition get_setting :: "string \<Rightarrow> user_settings \<Rightarrow> json_value option \<times> user_settings" where
  "get_setting k u = (let (c, u1) = load_settings u in (map_of c k, u1))"

definition set_setting :: "string \<Rightarrow> json_value \<Rightarrow> user_settings \<Rightarrow> user_settings" where
  "set_setting k v u = snd (save_settings [(k, v)] u)"

definition reset_settings :: "user_settings \<Rightarrow> user_settings" where
  "reset_settings u = u\<lparr>us_slot := None, us_cache := None\<rparr>"

subsection \<open>Backup data\<close>

record backup_metadata =
  bm_id :: string
  bm_created :: string
  bm_vaults :: nat
  bm_files :: nat
  bm_size :: nat
  bm_version :: string
  bm_encrypted :: bool

text \<open>\<open>passwords\<close> is present and empty when the caller asks for passwords.\<close>

record backup_data =
  bd_metadata :: backup_metadata
  bd_vaults :: "vault_info list"
  bd_files :: "file_info list"
  bd_settings :: members
  bd_passwords :: bool

definition metadata_members :: "backup_metadata \<Rightarrow> members" where
  "metadata_members m =
     [(''id'', JString (bm_id m)), (''createdAt'', JString (bm_created m)), (''vaultCount'', json_nat (bm_vaults m)),
      (''fileCount'', json_nat (bm_files m)), (''sizeBytes'', json_nat (bm_size m)),
      (''version'', JString (bm_version m)), (''encrypted'', JBool (bm_encrypted m))]"

definition backup_json :: "backup_data \<Rightarrow> json_value" where
  "backup_json b = JObject
     ([(''metadata'', JObject (metadata_members (bd_metadata b))), (''vaults'', list_json vault_json (bd_vaults b)),
       (''files'', list_json file_json (bd_files b)), (''settings'', JObject (bd_settings b))] @
      (if bd_passwords b then [(''passwords'', JArray [])] else []))"

definition metadata_of_members :: "members \<Rightarrow> backup_metadata option" where
  "metadata_of_members ms =
     Option.bind (member as_string ''id'' ms) (\<lambda>i. Option.bind (member as_string ''createdAt'' ms) (\<lambda>t.
     Option.bind (member as_nat ''vaultCount'' ms) (\<lambda>vc. Option.bind (member as_nat ''fileCount'' ms) (\<lambda>fc.
     Option.bind (member as_nat ''sizeBytes'' ms) (\<lambda>sz. Option.bind (member as_string ''version'' ms) (\<lambda>ve.
     Option.bind (member as_bool ''encrypted'' ms) (\<lambda>en.
     Some \<lparr>bm_id = i, bm_created = t, bm_vaults = vc, bm_files = fc, bm_size = sz, bm_version = ve, bm_encrypted = en\<rparr>)))))))"

definition backup_of_json :: "json_value \<Rightarrow> backup_data option" where
  "backup_of_json j = Option.bind (as_object j) (\<lambda>ms.
     Option.bind (Option.bind (member as_object ''metadata'' ms) metadata_of_members) (\<lambda>m.
     Option.bind (member (as_list vault_of_json) ''vaults'' ms) (\<lambda>vs.
     Option.bind (member (as_list file_of_json) ''files'' ms) (\<lambda>fs.
     Option.bind (member as_object ''settings'' ms) (\<lambda>st.
     Some \<lparr>bd_metadata = m, bd_vaults = vs, bd_files = fs, bd_settings = st, bd_passwords = (map_of ms ''passwords'' \<noteq> None)\<rparr>)))))"

definition BACKUP_VERSION :: string where "BACKUP_VERSION = ''1.0.0''"
definition ENCRYPTION_ALGORITHM :: string where "ENCRYPTION_ALGORITHM = ''AES-256-GCM''"

definition calculate_backup_size :: "vault_info list \<Rightarrow> file_info list \<Rightarrow> nat" where
  "calculate_backup_size vs fs =
     (\<Sum>v\<leftarrow>vs. length (vi_name v) + length (vi_meta v)) +
     (\<Sum>f\<leftarrow>fs. fi_size f + length (fi_name f) + length (fi_meta f)) + 1024"

definition create_backup ::
  "string \<Rightarrow> string \<Rightarrow> vault_info list \<Rightarrow> file_info list \<Rightarrow> bool \<Rightarrow> user_settings \<Rightarrow> backup_data \<times> user_settings" where
  "create_backup i now vs fs includePasswords u =
     (let (st, u1) = load_settings u in
      (\<lparr>bd_metadata = \<lparr>bm_id = i, bm_created = now, bm_vaults = length vs, bm_files = length fs,
          bm_size = calculate_backup_size vs fs, bm_version = BACKUP_VERSION, bm_encrypted = False\<rparr>,
        bd_vaults = vs, bd_files = fs, bd_settings = st, bd_passwords = includePasswords\<rparr>, u1))"

subsection \<open>Export and import\<close>

definition backup_key :: "webcrypto \<Rightarrow> string \<Rightarrow> bytes \<Rightarrow> bytes option" where
  "backup_key wc passphrase salt = wc_pbkdf2 wc (utf8_encode passphrase) salt 150000 256"

definition encrypt_backup :: "webcrypto \<Rightarrow> bytes \<Rightarrow> bytes \<Rightarrow> backup_data \<Rightarrow> string \<Rightarrow> bytes option" where
  "encrypt_backup wc salt iv b passphrase =
     Option.bind (backup_key wc passphrase salt) (\<lambda>k. wc_seal wc k iv (utf8_encode (json_print (backup_json b))))"

definition decrypt_backup :: "webcrypto \<Rightarrow> bytes \<Rightarrow> bytes \<Rightarrow> bytes \<Rightarrow> string \<Rightarrow> json_value option" where
  "decrypt_backup wc ciphertext iv salt passphrase =
     Option.bind (backup_key wc passphrase salt) (\<lambda>k. Option.bind (wc_open wc k iv ciphertext) (\<lambda>p.
       Option.bind (utf8_decode p) json_parse))"

definition encrypted_json :: "bytes \<Rightarrow> bytes \<Rightarrow> bytes \<Rightarrow> backup_metadata \<Rightarrow> json_value" where
  "encrypted_json ciphertext iv salt m = JObject
     [(''encrypted'', JBool True), (''algorithm'', JString ENCRYPTION_ALGORITHM),
      (''ciphertext'', JString (btoa ciphertext)), (''iv'', JString (btoa iv)), (''salt'', JString (btoa salt)),
      (''metadata'', JObject (metadata_members m))]"

datatype backup_error = ExportFailed | ImportFailed | NoDecryptionKey

text \<open>\<open>salt\<close> and \<open>iv\<close> are the random draws of an encrypted export.\<close>

definition export_backup ::
  "webcrypto \<Rightarrow> bytes \<Rightarrow> bytes \<Rightarrow> backup_data \<Rightarrow> string option \<Rightarrow> backup_error + string" where
  "export_backup wc salt iv b key =
     attempt (if truthy key then
                (case encrypt_backup wc salt iv b (the key) of
                   None \<Rightarrow> Inl ExportFailed
                 | Some c \<Rightarrow> Inr (encrypted_json c iv salt (bd_metadata b)))
              else Inr (backup_json b))
       (\<lambda>j. Inr (btoa (utf8_encode (json_print j))))"

text \<open>\<open>parsed.encrypted\<close> in a condition; of \<open>null\<close> the property read throws.\<close>

fun json_truthy :: "json_value \<Rightarrow> bool" where
  "json_truthy JNull = False"
| "json_truthy (JBool b) = b"
| "json_truthy (JNumber s) = (read_number s \<noteq> Some 0)"
| "json_truthy (JString s) = (s \<noteq> [])"
| "json_truthy (JArray vs) = True"
| "json_truthy (JObject ms) = True"

fun members_of :: "json_value \<Rightarrow> members" where
  "members_of (JObject ms) = ms"
| "members_of _ = []"

definition truthy_member :: "string \<Rightarrow> members \<Rightarrow> bool" where
  "truthy_member k ms = (case map_of ms k of None \<Rightarrow> False | Some v \<Rightarrow> json_truthy v)"

definition bytes_member :: "string \<Rightarrow> members \<Rightarrow> bytes option" where
  "bytes_member k ms = Option.bind (member as_string k ms) atob"

text \<open>The document as it was parsed; the code casts it to \<open>BackupData\<close> unchecked.\<close>

definition import_backup :: "webcrypto \<Rightarrow> string \<Rightarrow> string option \<Rightarrow> backup_error + json_value" where
  "import_backup wc data key =
     attempt (or_throw ImportFailed (Option.bind (atob data) (\<lambda>bs. Option.bind (utf8_decode bs) json_parse))) (\<lambda>j.
       if j = JNull then Inl ImportFailed
       else let ms = members_of j in
         if truthy_member ''encrypted'' ms \<and> truthy key then
           (case (bytes_member ''ciphertext'' ms, bytes_member ''iv'' ms, bytes_member ''salt'' ms) of
              (Some c, Some iv, Some salt) \<Rightarrow> or_throw ImportFailed (decrypt_backup wc c iv salt (the key))
            | _ \<Rightarrow> Inl ImportFailed)
         else if \<not> truthy_member ''encrypted'' ms then Inr j
         else Inl NoDecryptionKey)"

fun is_object :: "json_value \<Rightarrow> bool" where
  "is_object (JObject ms) = True"
| "is_object (JArray vs) = True"
| "is_object _ = False"

fun is_array :: "json_value option \<Rightarrow> bool" where
  "is_array (Some (JArray vs)) = True"
| "is_array _ = False"

fun is_number :: "json_value option \<Rightarrow> bool" where
  "is_number (Some (JNumber s)) = True"
| "is_number _ = False"

definition metadata_errors :: "members \<Rightarrow> string list" where
  "metadata_errors m =
     (if truthy_member ''id'' m then [] else [''Missing backup ID'']) @
     (if truthy_member ''createdAt'' m then [] else [''Missing creation timestamp'']) @
     (if is_number (map_of m ''vaultCount'') then [] else [''Invalid vault count'']) @
     (if is_number (map_of m ''fileCount'') then [] else [''Invalid file count'']) @
     (if is_number (map_of m ''sizeBytes'') then [] else [''Invalid size'']) @
     (if truthy_member ''version'' m then [] else [''Missing backup version''])"

definition validate_backup :: "json_value \<Rightarrow> bool \<times> string list \<times> json_value option" where
  "validate_backup data =
     (if \<not> is_object data then (False, [''Backup data must be an object''], None)
      else let ms = members_of data;
               errors =
                 (if truthy_member ''metadata'' ms then metadata_errors (members_of (the (map_of ms ''metadata'')))
                  else [''Missing backup metadata'']) @
                 (if is_array (map_of ms ''vaults'') then [] else [''Vaults must be an array'']) @
                 (if is_array (map_of ms ''files'') then [] else [''Files must be an array'']) @
                 (case map_of ms ''settings'' of
                    Some s \<Rightarrow> if is_object s then [] else [''Missing or invalid settings'']
                  | None \<Rightarrow> [''Missing or invalid settings''])
           in (errors = [], errors, if errors = [] then map_of ms ''metadata'' else None))"

subsection \<open>Restore\<close>

record 's vault_ops =
  vo_ids :: "'s \<Rightarrow> string list"
  vo_delete :: "string \<Rightarrow> ('s, string, unit) call"
  vo_create :: "string \<Rightarrow> string \<Rightarrow> ('s, string, string) call"
  vo_add :: "file_info \<Rightarrow> ('s, string, unit) call"
  vo_save :: "members \<Rightarrow> 's \<Rightarrow> 's"

text \<open>
  A failing \<open>createVault\<close> or \<open>addFile\<close> is logged and skipped; \<open>settingsService.save\<close> does not throw.
  \<open>fresh\<close> are the identifiers that the store will give.
\<close>

definition restore_vaults :: "'s vault_ops \<Rightarrow> string list \<Rightarrow> vault_info list \<Rightarrow> ('s, string, unit) call" where
  "restore_vaults ops fresh vs = all_of (map2 (\<lambda>i v. swallow (vo_create ops i (vi_name v))) fresh vs)"

definition restore_files :: "'s vault_ops \<Rightarrow> file_info list \<Rightarrow> ('s, string, unit) call" where
  "restore_files ops fs = all_of (map (\<lambda>f. swallow (vo_add ops f)) fs)"

definition restore_from_backup ::
  "'s vault_ops \<Rightarrow> string list \<Rightarrow> backup_data \<Rightarrow> bool \<Rightarrow> ('s, string, nat \<times> nat \<times> bool) call" where
  "restore_from_backup ops fresh b mergeExisting = relabel (\<lambda>e. ''Failed to restore backup: '' @ e)
     (and_then (\<lambda>s. (if mergeExisting then ret () else all_of (map (vo_delete ops) (vo_ids ops s))) s) (\<lambda>_.
      and_then (restore_vaults ops fresh (bd_vaults b)) (\<lambda>_.
      and_then (restore_files ops (bd_files b)) (\<lambda>_.
      and_then (modify (vo_save ops (bd_settings b))) (\<lambda>_.
      ret (length (bd_vaults b), length (bd_files b), True))))))"

subsection \<open>Automatic backups and history\<close>

record auto_backup_config =
  ab_enabled :: bool
  ab_interval :: nat
  ab_max :: nat
  ab_last :: "string option"

record auto_backup_patch =
  pb_enabled :: "bool option"
  pb_interval :: "nat option"
  pb_max :: "nat option"
  pb_last :: "string option option"

definition DEFAULT_AUTO_BACKUP_CONFIG :: auto_backup_config where
  "DEFAULT_AUTO_BACKUP_CONFIG = \<lparr>ab_enabled = False, ab_interval = 168, ab_max = 5, ab_last = None\<rparr>"

record history_item =
  hi_id :: string
  hi_created :: string
  hi_size :: nat
  hi_vaults :: nat
  hi_files :: nat
  hi_success :: bool
  hi_restored :: "string option"

text \<open>The two slots, and whether \<open>setItem\<close> works; off the web nothing is read or written.\<close>

record backup_slots =
  bs_web :: bool
  bs_writable :: bool
  bs_config :: "auto_backup_patch stored option"
  bs_history :: "history_item list stored option"

definition merge_backup_config :: "auto_backup_config \<Rightarrow> auto_backup_patch \<Rightarrow> auto_backup_config" where
  "merge_backup_config c p =
     \<lparr>ab_enabled = (case pb_enabled p of None \<Rightarrow> ab_enabled c | Some x \<Rightarrow> x),
      ab_interval = (case pb_interval p of None \<Rightarrow> ab_interval c | Some x \<Rightarrow> x),
      ab_max = (case pb_max p of None \<Rightarrow> ab_max c | Some x \<Rightarrow> x),
      ab_last = (case pb_last p of None \<Rightarrow> ab_last c | Some x \<Rightarrow> x)\<rparr>"

definition whole_config :: "auto_backup_config \<Rightarrow> auto_backup_patch" where
  "whole_config c = \<lparr>pb_enabled = Some (ab_enabled c), pb_interval = Some (ab_interval c),
     pb_max = Some (ab_max c), pb_last = Some (ab_last c)\<rparr>"

definition get_auto_backup_config :: "backup_slots \<Rightarrow> auto_backup_config" where
  "get_auto_backup_config s =
     (if \<not> bs_web s then DEFAULT_AUTO_BACKUP_CONFIG
      else case bs_config s of
             Some (Json p) \<Rightarrow> merge_backup_config DEFAULT_AUTO_BACKUP_CONFIG p
           | _ \<Rightarrow> DEFAULT_AUTO_BACKUP_CONFIG)"

definition set_auto_backup_config :: "auto_backup_patch \<Rightarrow> backup_slots \<Rightarrow> backup_slots" where
  "set_auto_backup_config p s =
     (if bs_web s \<and> bs_writable s
      then s\<lparr>bs_config := Some (Json (whole_config (merge_backup_config (get_auto_backup_config s) p)))\<rparr> else s)"

definition get_backup_history :: "backup_slots \<Rightarrow> history_item list" where
  "get_backup_history s =
     (if \<not> bs_web s then [] else case bs_history s of Some (Json h) \<Rightarrow> h | _ \<Rightarrow> [])"

definition write_backup_history :: "history_item list \<Rightarrow> backup_slots \<Rightarrow> backup_slots" where
  "write_backup_history h s = (if bs_web s \<and> bs_writable s then s\<lparr>bs_history := Some (Json h)\<rparr> else s)"

definition add_to_history :: "history_item \<Rightarrow> backup_slots \<Rightarrow> backup_slots" where
  "add_to_history e s = write_backup_history (get_backup_history s @ [e]) s"

definition delete_backup_history :: "string \<Rightarrow> backup_slots \<Rightarrow> backup_slots" where
  "delete_backup_history i s = write_backup_history (filter (\<lambda>h. hi_id h \<noteq> i) (get_backup_history s)) s"

text \<open>\<open>parse\<close> is \<open>new Date(...).getTime()\<close>; a comparison with \<open>NaN\<close> is false.\<close>

definition should_auto_backup :: "(string \<Rightarrow> time option) \<Rightarrow> time \<Rightarrow> backup_slots \<Rightarrow> bool" where
  "should_auto_backup parse now s =
     (let c = get_auto_backup_config s in
      if \<not> ab_enabled c then False
      else if \<not> truthy (ab_last c) then True
      else case parse (the (ab_last c)) of
             None \<Rightarrow> False
           | Some t \<Rightarrow> now - t \<ge> int (ab_interval c) * 60 * 60 * 1000)"

definition get_last_backup_time :: "backup_slots \<Rightarrow> string option" where
  "get_last_backup_time s = ab_last (get_auto_backup_config s)"

subsection \<open>A backup comes back\<close>

lemma metadata_of_metadata_members [simp]: "metadata_of_members (metadata_members m) = Some m"
  by (simp add: metadata_of_members_def metadata_members_def)

lemma plain_metadata [simp]: "plain_json (JObject (metadata_members m))"
  by (simp add: metadata_members_def)

definition plain_members :: "members \<Rightarrow> bool" where
  "plain_members ms = plain_json (JObject ms)"

lemma plain_backup [simp]: "plain_members (bd_settings b) \<Longrightarrow> plain_json (backup_json b)"
  by (simp add: backup_json_def plain_members_def del: plain_json.simps(3))
    (simp add: plain_members_def metadata_members_def list_json_def list_all_iff)

lemma backup_of_backup_json:
  "backup_of_json (backup_json b) = Some (b\<lparr>bd_files := map no_blob (bd_files b)\<rparr>)"
proof -
  have "as_list vault_of_json (list_json vault_json vs) = Some (map (\<lambda>v. v) vs)" for vs
    by (rule as_list_json) simp
  moreover have "as_list file_of_json (list_json file_json fs) = Some (map no_blob fs)" for fs
    by (rule as_list_json) (simp add: no_blob_def)
  ultimately show ?thesis by (simp add: backup_of_json_def backup_json_def)
qed

lemma truthy_simps [simp]: "truthy None = False" "truthy (Some s) = (s \<noteq> [])"
  by (simp_all add: truthy_def)

lemma backup_not_encrypted [simp]: "truthy_member ''encrypted'' (members_of (backup_json b)) = False"
  by (simp add: truthy_member_def backup_json_def)

lemma plain_encrypted [simp]: "plain_json (encrypted_json c iv salt m)"
  by (simp add: encrypted_json_def metadata_members_def)

text \<open>
  C19: An export is imported again with its passphrase, or without one when it has none; an encrypted one
  is refused without a passphrase. The document has all that was backed up but the blobs in memory.
\<close>

theorem backup_roundtrip:
  assumes "pbkdf2_documented wc" and "gcm_documented wc" and "length iv = 12" and "plain_members (bd_settings b)"
  shows "\<exists>t. export_backup wc salt iv b key = Inr t \<and> import_backup wc t key = Inr (backup_json b) \<and>
    (truthy key \<longrightarrow> import_backup wc t None = Inl NoDecryptionKey) \<and>
    backup_of_json (backup_json b) = Some (b\<lparr>bd_files := map no_blob (bd_files b)\<rparr>)"
proof (cases "truthy key")
  case False
  have "backup_json b \<noteq> JNull" by (simp add: backup_json_def)
  then show ?thesis using False assms(4)
    by (simp add: export_backup_def import_backup_def Let_def backup_of_backup_json json_roundtrip)
next
  case True
  obtain k where k: "backup_key wc (the key) salt = Some k" "length k = 32"
    using pbkdf2_documentedE [OF assms(1), of "utf8_encode (the key)" salt 150000 256] by (auto simp: backup_key_def)
  obtain c where c: "wc_seal wc k iv (utf8_encode (json_print (backup_json b))) = Some c"
    "wc_open wc k iv c = Some (utf8_encode (json_print (backup_json b)))"
    using gcm_documentedE [OF assms(2) k(2) assms(3), of "utf8_encode (json_print (backup_json b))"] by blast
  let ?j = "encrypted_json c iv salt (bd_metadata b)"
  let ?t = "btoa (utf8_encode (json_print ?j))"
  have e: "export_backup wc salt iv b key = Inr ?t"
    using True k c by (simp add: export_backup_def encrypt_backup_def)
  have m: "?j \<noteq> JNull" "truthy_member ''encrypted'' (members_of ?j)"
    "bytes_member ''ciphertext'' (members_of ?j) = Some c" "bytes_member ''iv'' (members_of ?j) = Some iv"
    "bytes_member ''salt'' (members_of ?j) = Some salt"
    by (simp_all add: encrypted_json_def truthy_member_def bytes_member_def)
  have "decrypt_backup wc c iv salt (the key) = Some (backup_json b)"
    using k c assms(4) by (simp add: decrypt_backup_def json_roundtrip)
  then have "import_backup wc ?t key = Inr (backup_json b)"
    using True m by (simp add: import_backup_def Let_def json_roundtrip)
  moreover have "import_backup wc ?t None = Inl NoDecryptionKey"
    using m by (simp add: import_backup_def Let_def json_roundtrip)
  ultimately show ?thesis using e by (simp add: backup_of_backup_json)
qed

text \<open>What \<open>createBackup\<close> makes is valid, and stays so through an export.\<close>

lemma created_valid:
  assumes "fst (create_backup i now vs fs pw u) = b" and "i \<noteq> []" and "now \<noteq> []"
  shows "validate_backup (backup_json b) = (True, [], Some (JObject (metadata_members (bd_metadata b))))"
proof -
  have b: "bm_id (bd_metadata b) = i" "bm_created (bd_metadata b) = now" "bm_version (bd_metadata b) = ''1.0.0''"
    using assms(1) by (auto simp: create_backup_def Let_def BACKUP_VERSION_def split: prod.splits)
  then show ?thesis using assms(2,3)
    by (simp add: validate_backup_def Let_def backup_json_def truthy_member_def metadata_errors_def metadata_members_def
        json_nat_def list_json_def)
qed

text \<open>A valid document has everything a restore reads.\<close>

theorem valid_backup_readable:
  assumes "validate_backup j = (True, errors, m)"
  shows "\<exists>ms vs fs st. j = JObject ms \<and> errors = [] \<and> m = map_of ms ''metadata'' \<and> m \<noteq> None \<and>
    map_of ms ''vaults'' = Some (JArray vs) \<and> map_of ms ''files'' = Some (JArray fs) \<and>
    map_of ms ''settings'' = Some st \<and> is_object st"
proof -
  have o: "is_object j" using assms by (auto simp: validate_backup_def split: if_splits)
  define ms where "ms = members_of j"
  have v: "errors = []" "m = map_of ms ''metadata''" "truthy_member ''metadata'' ms" "is_array (map_of ms ''vaults'')"
    "is_array (map_of ms ''files'')" "\<exists>st. map_of ms ''settings'' = Some st \<and> is_object st"
    using assms o by (auto simp: validate_backup_def Let_def ms_def split: if_splits option.splits)
  then have "ms \<noteq> []" by (auto simp: truthy_member_def)
  then have "j = JObject ms" using o by (cases j) (auto simp: ms_def)
  moreover obtain vs where "map_of ms ''vaults'' = Some (JArray vs)" using v(4)
    by (cases "map_of ms ''vaults''" rule: is_array.cases) auto
  moreover obtain fs where "map_of ms ''files'' = Some (JArray fs)" using v(5)
    by (cases "map_of ms ''files''" rule: is_array.cases) auto
  ultimately show ?thesis using v by (auto simp: truthy_member_def split: option.splits)
qed

subsection \<open>What a restore leaves\<close>

lemma all_of_append: "all_of (ms @ ns) s = and_then (all_of ms) (\<lambda>_. all_of ns) s"
  by (induction ms arbitrary: s) (auto simp: and_then_def split: prod.split sum.split)

lemma swallow_call: "m s = (r, t) \<Longrightarrow> swallow m s = (Inr (), t)"
  by (simp add: swallow_def)

lemma restore_vaults_simps [simp]:
  "restore_vaults ops [] vs s = (Inr (), s)"
  "restore_vaults ops (i # is) (v # vs) s = restore_vaults ops is vs (snd (vo_create ops i (vi_name v) s))"
  "restore_vaults ops is [] s = (Inr (), s)"
  by (simp_all add: restore_vaults_def and_then_def swallow_call [OF surjective_pairing])

lemma restore_files_simps [simp]:
  "restore_files ops [] s = (Inr (), s)"
  "restore_files ops (f # fs) s = restore_files ops fs (snd (vo_add ops f s))"
  by (simp_all add: restore_files_def and_then_def swallow_call [OF surjective_pairing])

lemma restore_vaults_returns: "\<exists>t. restore_vaults ops is vs s = (Inr (), t)"
  by (induction "is" vs arbitrary: s rule: list_induct2') auto

lemma restore_files_returns: "\<exists>t. restore_files ops fs s = (Inr (), t)"
  by (induction fs arbitrary: s) auto

text \<open>The counts are those of the backup, whatever \<open>createVault\<close> and \<open>addFile\<close> do.\<close>

theorem restore_counts_failures:
  assumes "\<forall>i s. fst (vo_delete ops i s) = Inr ()"
  shows "fst (restore_from_backup ops fresh b mergeExisting s) =
    Inr (length (bd_vaults b), length (bd_files b), True)"
proof -
  have "\<exists>t. all_of (map (vo_delete ops) is) s = (Inr (), t)" for "is" s
  proof (induction "is" arbitrary: s)
    case (Cons i "is")
    obtain s' where "vo_delete ops i s = (Inr (), s')" using assms by (metis prod.collapse)
    then show ?case using Cons.IH [of s'] by (simp add: and_then_def)
  qed simp
  then obtain s1 where s1: "(if mergeExisting then ret () else all_of (map (vo_delete ops) (vo_ids ops s))) s = (Inr (), s1)"
    by (cases mergeExisting) (auto simp: ret_def)
  obtain s2 where s2: "restore_vaults ops fresh (bd_vaults b) s1 = (Inr (), s2)"
    using restore_vaults_returns [of ops fresh "bd_vaults b" s1] by auto
  obtain s3 where s3: "restore_files ops (bd_files b) s2 = (Inr (), s3)"
    using restore_files_returns [of ops "bd_files b" s2] by auto
  show ?thesis
    by (simp add: restore_from_backup_def relabel_def and_then_def s1 s2 s3 modify_def ret_def)
qed

locale vault_backend =
  fixes ops :: "'s vault_ops"
    and view :: "'s \<Rightarrow> 'v list"
    and ident :: "'v \<Rightarrow> string"
    and made :: "string \<Rightarrow> string \<Rightarrow> 'v"
    and inv :: "'s \<Rightarrow> bool"
  assumes ids_view: "inv s \<Longrightarrow> vo_ids ops s = map ident (view s)"
    and delete_ok: "inv s \<Longrightarrow> \<exists>s'. vo_delete ops i s = (Inr (), s') \<and> inv s' \<and> view s' = filter (\<lambda>v. ident v \<noteq> i) (view s)"
    and create_ok: "inv s \<Longrightarrow> i \<notin> ident ` set (view s) \<Longrightarrow>
      \<exists>s'. vo_create ops i nm s = (Inr i, s') \<and> inv s' \<and> view s' = view s @ [made i nm]"
    and ident_made: "ident (made i nm) = i"
    and add_ok: "inv s \<Longrightarrow> fi_vault f \<notin> ident ` set (view s) \<Longrightarrow>
      \<exists>s'. vo_add ops f s = (Inr (), s') \<and> inv s' \<and> view s' = view s"
    and save_ok: "inv s \<Longrightarrow> inv (vo_save ops st s) \<and> view (vo_save ops st s) = view s"
begin

lemma delete_all:
  "inv s \<Longrightarrow> \<exists>s'. all_of (map (vo_delete ops) is) s = (Inr (), s') \<and> inv s' \<and>
     view s' = filter (\<lambda>v. ident v \<notin> set is) (view s)"
proof (induction "is" arbitrary: s)
  case (Cons i "is")
  obtain s1 where s1: "vo_delete ops i s = (Inr (), s1)" "inv s1" "view s1 = filter (\<lambda>v. ident v \<noteq> i) (view s)"
    using delete_ok [OF Cons.prems] by blast
  obtain s2 where "all_of (map (vo_delete ops) is) s1 = (Inr (), s2)" "inv s2"
    "view s2 = filter (\<lambda>v. ident v \<notin> set is) (view s1)"
    using Cons.IH [OF s1(2)] by blast
  then show ?case using s1 by (auto simp: and_then_def intro: filter_cong)
qed simp

lemma create_all:
  assumes "inv s" and "length is = length vs" and "distinct is" and "set is \<inter> ident ` set (view s) = {}"
  shows "\<exists>s'. restore_vaults ops is vs s = (Inr (), s') \<and> inv s' \<and>
    view s' = view s @ map2 (\<lambda>i v. made i (vi_name v)) is vs"
  using assms(2,1,3,4)
proof (induction "is" vs arbitrary: s rule: list_induct2)
  case (Cons i "is" v vs)
  obtain s1 where s1: "vo_create ops i (vi_name v) s = (Inr i, s1)" "inv s1" "view s1 = view s @ [made i (vi_name v)]"
    using create_ok [OF Cons.prems(1), of i "vi_name v"] Cons.prems(3) by auto
  have "distinct is" "set is \<inter> ident ` set (view s1) = {}"
    using Cons.prems s1(3) by (auto simp: ident_made)
  then show ?case using Cons.IH [OF s1(2)] s1 by simp
qed simp

lemma add_all:
  "inv s \<Longrightarrow> \<forall>f\<in>set fs. fi_vault f \<notin> ident ` set (view s) \<Longrightarrow>
   \<exists>s'. restore_files ops fs s = (Inr (), s') \<and> inv s' \<and> view s' = view s"
proof (induction fs arbitrary: s)
  case (Cons f fs)
  obtain s1 where "vo_add ops f s = (Inr (), s1)" "inv s1" "view s1 = view s"
    using add_ok [OF Cons.prems(1), of f] Cons.prems(2) by auto
  then show ?case using Cons.IH [of s1] Cons.prems(2) by simp
qed simp

lemma restore_view:
  assumes "inv s" and "length fresh = length (bd_vaults b)" and "distinct fresh"
    and "\<forall>f\<in>set (bd_files b). fi_vault f \<notin> set fresh"
  shows "\<exists>t. restore_from_backup ops fresh b False s = (Inr (length (bd_vaults b), length (bd_files b), True), t) \<and>
    inv t \<and> view t = map2 (\<lambda>i v. made i (vi_name v)) fresh (bd_vaults b)"
proof -
  obtain s1 where s1: "all_of (map (vo_delete ops) (vo_ids ops s)) s = (Inr (), s1)" "inv s1" "view s1 = []"
    using delete_all [OF assms(1), of "vo_ids ops s"] ids_view [OF assms(1)] by (auto simp: filter_empty_conv)
  obtain s2 where s2: "restore_vaults ops fresh (bd_vaults b) s1 = (Inr (), s2)"
    "inv s2" "view s2 = map2 (\<lambda>i v. made i (vi_name v)) fresh (bd_vaults b)"
    using create_all [OF s1(2) assms(2,3)] s1(3) by auto
  have "ident ` set (map2 (\<lambda>i v. made i (vi_name v)) fresh (bd_vaults b)) \<subseteq> set fresh"
    by (auto simp: ident_made dest: set_zip_leftD)
  then obtain s3 where "restore_files ops (bd_files b) s2 = (Inr (), s3)" "inv s3" "view s3 = view s2"
    using add_all [OF s2(2), of "bd_files b"] assms(4) s2(3) by auto
  then show ?thesis using s1 s2 save_ok [of s3 "bd_settings b"]
    by (simp add: restore_from_backup_def relabel_def and_then_def modify_def ret_def)
qed

end

text \<open>The store of the page, with the settings service beside it.\<close>

definition on_app :: "(app, string, 'a) call \<Rightarrow> (app \<times> user_settings, string, 'a) call" where
  "on_app m s = (case m (fst s) of (r, a') \<Rightarrow> (r, (a', snd s)))"

definition page_ops :: "string \<Rightarrow> (app \<times> user_settings) vault_ops" where
  "page_ops now = \<lparr>vo_ids = (\<lambda>s. map vi_id (vl_vaults (ap_list (fst s)))),
     vo_delete = (\<lambda>i. on_app (delete_vault_of_list i)),
     vo_create = (\<lambda>i name. on_app (create_vault i now name)),
     vo_add = (\<lambda>f. on_app (add_file now f)),
     vo_save = (\<lambda>st s. (fst s, snd (save_settings st (snd s))))\<rparr>"

lemma page_delete:
  assumes "coherent (ap_list a)"
  shows "fst (delete_vault_of_list i a) = Inr () \<and> coherent (ap_list (snd (delete_vault_of_list i a))) \<and>
    vl_vaults (ap_list (snd (delete_vault_of_list i a))) = filter (\<lambda>v. vi_id v \<noteq> i) (vl_vaults (ap_list a))"
proof -
  have c: "consistent (vl_ids (ap_list a)) (vl_by_id (ap_list a))"
    "vl_vaults (ap_list a) = denormalize (vl_ids (ap_list a)) (vl_by_id (ap_list a))"
    using assms by (simp_all add: coherent_eq)
  then show ?thesis
    using consistent_remove [OF c(1)] denormalize_remove [OF consistent_id [OF c(1)], of "vl_by_id (ap_list a)"]
    by (simp add: delete_vault_of_list_def Let_def denormalize_remove consistent_id)
qed

interpretation page_backend: vault_backend "page_ops now" "\<lambda>s. vl_vaults (ap_list (fst s))" vi_id
    "\<lambda>i name. new_vault i now name" "\<lambda>s. coherent (ap_list (fst s))" for now
proof
  fix s :: "app \<times> user_settings" and i nm f st
  assume inv: "coherent (ap_list (fst s))"
  let ?l = "ap_list (fst s)"
  have c: "consistent (vl_ids ?l) (vl_by_id ?l)" "vl_vaults ?l = denormalize (vl_ids ?l) (vl_by_id ?l)"
    using inv by (simp_all add: coherent_eq)
  have ids: "vi_id ` set (vl_vaults ?l) = set (vl_ids ?l)"
    using denormalize_ids [OF c(1) order_refl] c(2) by (metis list.set_map)
  show "vo_ids (page_ops now) s = map vi_id (vl_vaults ?l)" by (simp add: page_ops_def)
  show "\<exists>s'. vo_delete (page_ops now) i s = (Inr (), s') \<and> coherent (ap_list (fst s')) \<and>
      vl_vaults (ap_list (fst s')) = filter (\<lambda>v. vi_id v \<noteq> i) (vl_vaults ?l)"
    using page_delete [OF inv, of i] by (auto simp: page_ops_def on_app_def split: prod.split)
  show "coherent (ap_list (fst (vo_save (page_ops now) st s))) \<and>
      vl_vaults (ap_list (fst (vo_save (page_ops now) st s))) = vl_vaults ?l"
    using inv by (simp add: page_ops_def)
  show "\<exists>s'. vo_create (page_ops now) i nm s = (Inr i, s') \<and> coherent (ap_list (fst s')) \<and>
      vl_vaults (ap_list (fst s')) = vl_vaults ?l @ [new_vault i now nm]" if "i \<notin> vi_id ` set (vl_vaults ?l)"
    using that c consistent_add [OF c(1), of "new_vault i now nm" i] ids
    by (simp add: page_ops_def on_app_def create_vault_def and_then_def modify_def ret_def add_vault_def denormalize_add)
  show "\<exists>s'. vo_add (page_ops now) f s = (Inr (), s') \<and> coherent (ap_list (fst s')) \<and>
      vl_vaults (ap_list (fst s')) = vl_vaults ?l" if "fi_vault f \<notin> vi_id ` set (vl_vaults ?l)"
  proof -
    have "vl_by_id ?l (fi_vault f) = None" using that c(1) ids by (auto simp: consistent_def)
    then show ?thesis using c
      by (simp add: page_ops_def on_app_def add_file_def modify_def Let_def)
  qed
qed simp

text \<open>
  C20: A restore that replaces what is there leaves new empty vaults of the names in the backup: none has a
  key to unlock, none has a file, and the restored files belong to vaults that are not there.
\<close>

theorem restore_loses_keys_and_files:
  assumes "coherent (ap_list a)" and "length fresh = length (bd_vaults b)" and "distinct fresh"
    and "\<forall>f\<in>set (bd_files b). fi_vault f \<notin> set fresh"
  shows "\<exists>a' u'. restore_from_backup (page_ops now) fresh b False (a, u) =
      (Inr (length (bd_vaults b), length (bd_files b), True), (a', u')) \<and>
    map vi_name (vl_vaults (ap_list a')) = map vi_name (bd_vaults b) \<and> vl_ids (ap_list a') = fresh \<and>
    (\<forall>v\<in>set (vl_vaults (ap_list a')). vi_count v = 0 \<and> (\<forall>n pw c. unlock_session n v pw c = (Inr (), c))) \<and>
    (\<forall>f\<in>set (bd_files b). vl_by_id (ap_list a') (fi_vault f) = None)"
proof -
  obtain a' u' where r: "restore_from_backup (page_ops now) fresh b False (a, u) =
      (Inr (length (bd_vaults b), length (bd_files b), True), (a', u'))" "coherent (ap_list a')"
    "vl_vaults (ap_list a') = map2 (\<lambda>i v. new_vault i now (vi_name v)) fresh (bd_vaults b)"
    using page_backend.restore_view [of "(a, u)" fresh b now] assms by auto
  have n: "map vi_name (vl_vaults (ap_list a')) = map vi_name (bd_vaults b)"
    unfolding r(3) using assms(2) by (induction fresh "bd_vaults b" rule: list_induct2') (auto simp: new_vault_def intro!: nth_equalityI)
  have "map vi_id (vl_vaults (ap_list a')) = fresh"
    unfolding r(3) using assms(2) by (intro nth_equalityI) simp_all
  moreover have "map vi_id (vl_vaults (ap_list a')) = vl_ids (ap_list a')"
    using r(2) denormalize_ids [OF _ order_refl] by (simp add: coherent_eq)
  ultimately have ids: "vl_ids (ap_list a') = fresh" by simp
  have "vl_by_id (ap_list a') (fi_vault f) = None" if "f \<in> set (bd_files b)" for f
    using assms(4) that r(2) ids by (auto simp: coherent_def)
  moreover have "vi_count v = 0 \<and> (\<forall>n pw c. unlock_session n v pw c = (Inr (), c))" if "v \<in> set (vl_vaults (ap_list a'))" for v
    using that unfolding r(3) by (auto simp: new_vault_def unlock_session_def modify_def)
  ultimately show ?thesis using r(1) n ids by blast
qed

subsection \<open>Settings, schedule and history\<close>

text \<open>A backup is due exactly when it is enabled and the interval has passed since the stored time.\<close>

theorem backup_due:
  assumes "bs_web s" and "bs_writable s" and "pb_last p = Some (Some t)" and "t \<noteq> []" and "parse t = Some t0"
  shows "should_auto_backup parse now (set_auto_backup_config p s) \<longleftrightarrow>
    ab_enabled (merge_backup_config (get_auto_backup_config s) p) \<and>
    now \<ge> t0 + int (ab_interval (merge_backup_config (get_auto_backup_config s) p)) * 3600000"
proof -
  have "get_auto_backup_config (set_auto_backup_config p s) = merge_backup_config (get_auto_backup_config s) p"
    using assms(1,2) by (simp add: get_auto_backup_config_def set_auto_backup_config_def merge_backup_config_def whole_config_def)
  moreover have "ab_last (merge_backup_config (get_auto_backup_config s) p) = Some t"
    using assms(3) by (simp add: merge_backup_config_def)
  ultimately show ?thesis using assms(4,5) by (auto simp: should_auto_backup_def Let_def)
qed

text \<open>The history keeps every entry that was not deleted, whatever \<open>maxBackups\<close> is.\<close>

theorem history_unbounded:
  assumes "bs_web s" and "bs_writable s"
  shows "get_backup_history (fold add_to_history es s) = get_backup_history s @ es"
  using assms
proof (induction es arbitrary: s)
  case (Cons e es)
  let ?s = "add_to_history e s"
  have "bs_web ?s" "bs_writable ?s" "get_backup_history ?s = get_backup_history s @ [e]"
    using Cons.prems by (simp_all add: add_to_history_def write_backup_history_def get_backup_history_def)
  with Cons.IH [of ?s] show ?case by simp
qed simp

lemma history_deleted:
  "bs_web s \<Longrightarrow> bs_writable s \<Longrightarrow>
   get_backup_history (delete_backup_history i s) = filter (\<lambda>h. hi_id h \<noteq> i) (get_backup_history s)"
  by (simp add: delete_backup_history_def write_backup_history_def get_backup_history_def)

subsection \<open>Witnesses of the backup\<close>

definition demo_settings :: user_settings where
  "demo_settings = \<lparr>us_slot = None, us_cache = None, us_writable = True\<rparr>"

definition demo_backup :: backup_data where
  "demo_backup = \<lparr>bd_metadata = \<lparr>bm_id = ''b1'', bm_created = ''t0'', bm_vaults = 1, bm_files = 1, bm_size = 1040,
      bm_version = BACKUP_VERSION, bm_encrypted = False\<rparr>,
     bd_vaults = [(demo_vault ''v1'' ''Docs'')\<lparr>vi_wrapped := Some ''AAEC'', vi_salt := Some ''00ff''\<rparr>],
     bd_files = [demo_file ''v1'' ''f1''], bd_settings = DEFAULT_SETTINGS, bd_passwords = False\<rparr>"

theorem backup_roundtrip_witness:
  "\<exists>t. export_backup demo_crypto [1] (replicate 12 0) demo_backup (Some ''secret'') = Inr t \<and>
     import_backup demo_crypto t (Some ''secret'') = Inr (backup_json demo_backup) \<and>
     import_backup demo_crypto t None = Inl NoDecryptionKey"
proof -
  have "plain_members (bd_settings demo_backup)"
    by (simp add: plain_members_def demo_backup_def DEFAULT_SETTINGS_def)
  from backup_roundtrip [OF demo_pbkdf2 demo_gcm _ this, of "replicate 12 0" "[1]" "Some ''secret''"]
  show ?thesis by auto
qed

theorem valid_backup_readable_witness:
  "\<exists>ms. validate_backup (backup_json demo_backup) = (True, [], Some (JObject (metadata_members (bd_metadata demo_backup)))) \<and>
     backup_json demo_backup = JObject ms"
proof -
  have "fst (create_backup ''b1'' ''t0'' [demo_vault ''v1'' ''Docs''] [] False demo_settings) =
      fst (create_backup ''b1'' ''t0'' [demo_vault ''v1'' ''Docs''] [] False demo_settings)" by simp
  have v: "validate_backup (backup_json demo_backup) = (True, [], Some (JObject (metadata_members (bd_metadata demo_backup))))"
    by (simp add: validate_backup_def Let_def backup_json_def truthy_member_def metadata_errors_def metadata_members_def
        json_nat_def list_json_def demo_backup_def BACKUP_VERSION_def)
  from valid_backup_readable [OF this] v show ?thesis by auto
qed

definition failing_ops :: "string list vault_ops" where
  "failing_ops = \<lparr>vo_ids = id, vo_delete = (\<lambda>i s. (Inr (), filter (\<lambda>j. j \<noteq> i) s)),
     vo_create = (\<lambda>i name s. (Inl ''quota'', s)), vo_add = (\<lambda>f s. (Inl ''quota'', s)), vo_save = (\<lambda>st s. s)\<rparr>"

theorem restore_counts_failures_witness:
  "restore_from_backup failing_ops [''n1''] demo_backup False [''v1'', ''v2''] = (Inr (1, 1, True), [])"
proof -
  have "\<forall>i s. fst (vo_delete failing_ops i s) = Inr ()" by (simp add: failing_ops_def)
  from restore_counts_failures [OF this, of "[''n1'']" demo_backup False "[''v1'', ''v2'']"]
  have "fst (restore_from_backup failing_ops [''n1''] demo_backup False [''v1'', ''v2'']) = Inr (1, 1, True)"
    by (simp add: demo_backup_def)
  moreover have "snd (restore_from_backup failing_ops [''n1''] demo_backup False [''v1'', ''v2'']) = []"
    by (simp add: restore_from_backup_def relabel_def and_then_def failing_ops_def demo_backup_def modify_def ret_def)
  ultimately show ?thesis by (simp add: prod_eq_iff)
qed

theorem restore_loses_keys_and_files_witness:
  "\<exists>a' u'. restore_from_backup (page_ops ''t9'') [''n1''] demo_backup False (demo_app, demo_settings) =
      (Inr (1, 1, True), (a', u')) \<and> map vi_name (vl_vaults (ap_list a')) = [''Docs''] \<and>
     vl_ids (ap_list a') = [''n1''] \<and> vl_by_id (ap_list a') ''v1'' = None"
  using restore_loses_keys_and_files [OF demo_app_coherent, of "[''n1'']" demo_backup "''t9''" demo_settings]
  by (auto simp: demo_backup_def demo_vault_def demo_file_def)

theorem backup_due_witness:
  "\<exists>s p. bs_web s \<and> should_auto_backup (\<lambda>t. Some 0) 90000000 (set_auto_backup_config p s) \<and>
     \<not> should_auto_backup (\<lambda>t. Some 0) 1000 (set_auto_backup_config p s)"
proof -
  let ?s = "\<lparr>bs_web = True, bs_writable = True, bs_config = None, bs_history = None\<rparr>"
  let ?p = "\<lparr>pb_enabled = Some True, pb_interval = Some 24, pb_max = None, pb_last = Some (Some ''t0'')\<rparr>"
  have "should_auto_backup (\<lambda>t. Some 0) now (set_auto_backup_config ?p ?s) \<longleftrightarrow> now \<ge> 86400000" for now
    using backup_due [of ?s ?p "''t0''" "\<lambda>t. Some 0" 0 now] by (simp add: merge_backup_config_def)
  then show ?thesis by (intro exI [of _ ?s] exI [of _ ?p]) simp
qed

end
