(* ===== verification/Spec2Isabelle.thy ===== *)
theory Spec2Isabelle
  imports Rate_Limiter Recovery_Phrase Steganography Offline_Queue Vault_Compaction
    Emergency_Access Auto_Lock Self_Destruct Stream_Bridge Srp_Server Auth_Wire Auth_Store
    Password_Policy Password_Import Password_Service Sync_Service Vault_Backup
begin

text \<open>
  Quantum Shield (USBVault): a zero-knowledge vault whose client, \<open>usbvault-app\<close>, is a React Native
  and web application in TypeScript. It signs users in with SRP-6a against a Go server, derives a
  master key, keeps files and passwords encrypted, queues operations while offline, and has a number
  of local services around the vault: recovery phrase, emergency access, steganography, auto-lock,
  self-destruct, login rate limiting. This development models the services that hold logic and state
  of their own, function by function, and proves what makes each correct. All paths below are under
  \<open>src/usbvault-app/src\<close> unless they start with \<open>usbvault-server\<close>.

  Conventions. A module's variables and the storage slots it owns are a record; a function that
  mutates them takes and returns the record. \<open>async\<close> functions run to their end unless several of
  them share state across an \<open>await\<close>; where they do (the offline queue), the code between two
  awaits is one step of an event system. \<open>throw\<close> is \<open>Inl\<close> of an error datatype (theory
  \<open>Result_State\<close>), a missing value is \<open>None\<close>. Times are integers in milliseconds and arguments, as are
  random bytes and identifiers. Code that is not in the repository is a parameter: the WebCrypto and
  Rust primitives, \<open>JSON.parse\<close> of foreign documents, HTTP replies, the FIDO2 ceremony; what is assumed
  of a parameter is a named hypothesis (\<open>env_hash\<close>, the laws of \<open>Web_Crypto\<close>) and every theorem with a
  hypothesis has a witness. Strings are character lists; where the code measures bytes or UTF-16
  units the theory of the component says so.

  Shared theories. \<open>QS_Prelude\<close>: JavaScript rounding and indexing, list helpers. \<open>Hex_Codec\<close>,
  \<open>Bit_Packing\<close>, \<open>Text_Codec\<close>: bytes to hexadecimal, bits and text and back, with round trips.
  \<open>Web_Storage\<close>: \<open>localStorage\<close> (locale \<open>kv_store\<close>, with \<open>persistent_cell\<close> for a slot a service saves to and
  loads from). \<open>Web_Crypto\<close>: the crypto parameters and their laws. \<open>Event_System\<close>: runs of events and
  invariants that a class of events keeps (locale \<open>event_system\<close>, interpreted by the queue, emergency
  access, auto-lock and the authentication theories). \<open>Result_State\<close>: calls that change state and may
  throw; collections with identifiers (locale \<open>identified\<close>). \<open>Big_Int\<close>: \<open>BigInt\<close> texts and bytes.

  Components.

  \<^item> \<open>Rate_Limiter\<close>: \<open>services/security/rateLimiter.ts\<close>. The sliding window of 5 attempts, the escalating
    lockout and its signed persistence. No window lets more than 5 attempts through; lockouts last
    as long as their tier says, survive a reload, and tampering locks.
  \<^item> \<open>Bip39_Wordlist\<close>, \<open>Recovery_Phrase\<close>: \<open>services/bip39Wordlist.ts\<close> and
    \<open>services/vault/recoveryPhrase.ts\<close>. The phrases accepted are exactly the generated ones; the
    escrowed master key comes back.
  \<^item> \<open>Steganography\<close>: \<open>services/crypto/steganography.ts\<close>. What is embedded is extracted on the text
    carrier; what the image carrier really returns.
  \<^item> \<open>Offline_Queue\<close>: \<open>services/offlineQueueService.ts\<close>, as an event system over the awaits of a flush.
    At most one flush runs, and a flush whose handlers resolve takes exactly the pending
    operations out of the queue.
  \<^item> \<open>Vault_Compaction\<close>: \<open>services/vault/compaction.ts\<close>. Exactly the entries marked deleted are removed.
  \<^item> \<open>Emergency_Access\<close>: \<open>services/emergencyAccessService.ts\<close>. The life cycle of a request as an order
    that every operation respects; waiting alone never grants access; the vault key is released only
    to an approved request.
  \<^item> \<open>Settings_Storage\<close>, \<open>Auto_Lock\<close>, \<open>Self_Destruct\<close>: \<open>services/settingsStorage.ts\<close>,
    \<open>services/security/autoLock.ts\<close>, \<open>services/security/selfDestructService.ts\<close>. When the vault locks; when
    the wipe fires and what it leaves. The section below composes the wipe with the rate limiter and
    the recovery phrase, which keep their data in the same storage.
  \<^item> \<open>Stream_Bridge\<close>: \<open>crypto/streamBridge.ts\<close>. The native and the web file encryption are one chunk loop
    (locale \<open>chunk_loop\<close>); file encryption refines encryption of the whole text chunk by chunk.
  \<^item> \<open>Srp_Group\<close>, \<open>Srp_Canonical\<close>: the SRP-6a client in use, \<open>crypto/srpClient.ts\<close>, over the locale of powers
    of 2 modulo an odd number; \<open>Srp_Client\<close>, \<open>Srp_Server\<close>: the client of \<open>services/srp\<close> (only its tests use it)
    and the arithmetic of \<open>usbvault-server/internal/auth/srp.go\<close>. The client in use agrees with the
    server; the other one cannot.
  \<^item> \<open>Auth_Service\<close>: \<open>services/auth.ts\<close> and the token and SRP calls of \<open>services/api.ts\<close>. A login proves
    the server, a logout locks. \<open>Auth_Wire\<close>: the same login over the JSON of the Go handlers.
  \<^item> \<open>Auth_Store\<close>: \<open>stores/authStore.ts\<close>, the actions of the user interface over the service: the
    invariant of the page, when a web login succeeds, registration followed by login.
  \<^item> \<open>Password_Policy\<close>: \<open>utils/passwordPolicy.ts\<close>. Which passwords are valid, the score, the scans.
  \<^item> \<open>Password_Import\<close>: \<open>services/vault/import.ts\<close>. CSV and KeePass import, duplicates, progress.
  \<^item> \<open>Json_Text\<close>, \<open>Password_Service\<close>: \<open>services/passwordService.ts\<close> over the JSON text it stores, and the
    import of \<open>hooks/usePasswords.ts\<close>. The encrypted slot refines a list; overlapping calls keep it
    readable but lose updates; importing twice adds nothing; what the generator guarantees.
  \<^item> \<open>Sync_Service\<close>: \<open>services/syncService.ts\<close>, an event system over its sockets, timers, queue and the
    network. Its invariant, what a flush sends, that closures reconnect and a destroyed service stays
    away; how late closes, the network's return and calls during a flush break it.
  \<^item> \<open>Vault_Storage\<close>: \<open>services/webStorage.ts\<close> and the data of \<open>types/domain.ts\<close>. Operations that await are
    tasks that interleave: other vaults are never touched, a deleted vault leaves nothing, but the
    vault list can be overwritten by an older one. \<open>Domain_Json\<close>: the same data as JSON and back.
  \<^item> \<open>Key_Hierarchy\<close>: \<open>services/crypto/keyHierarchy.ts\<close>, the key functions of \<open>crypto/bridge.ts\<close> and the
    encrypted index of \<open>services/crypto/index.ts\<close>, over the native module. Passwords unlock what they
    wrapped, a rotation keeps the master key, keys of different purposes have different inputs.
  \<^item> \<open>Vault_List\<close>: \<open>stores/vaultListStore.ts\<close> on the web with \<open>activeVaultStore.ts\<close>, \<open>vaultSessionStore.ts\<close> and
    \<open>vaultIndexSync.ts\<close>. The collection stays coherent; edits and a reload refine edits of a plain list;
    a keyed vault unlocks after a reload; what drives, the debounced index and the caches get wrong.
  \<^item> \<open>Vault_Backup\<close>: \<open>services/vault/backup.ts\<close> and \<open>services/settingsService.ts\<close>. Export and import are a
    round trip; a restore (locale \<open>vault_backend\<close>, interpreted on \<open>Vault_List\<close>) loses keys and files.

  Bounds and fuel. No function needs fuel: the loops of the code are recursion on a list or on a
  measure (\<open>mod_pow_loop\<close> and \<open>pow_loop\<close> on the exponent, \<open>csv_loop\<close> on the rest of the text, the chunk
  loops on the remaining bytes). Numbers of the code that stay below \<open>2 ^ 53\<close> are \<open>nat\<close> or \<open>int\<close>; 32-bit
  operations of the bit loops are proved equal to arithmetic on their range.

  Not modelled, with reasons: the screens, components and hooks (rendering); \<open>crypto/native.ts\<close>, whose
  key, cipher and hash calls are the parameter \<open>native\<close> and whose web implementation of the vault
  header and file records is left out, with the functions of \<open>crypto/bridge.ts\<close> that pass on to it; the remaining calls of \<open>services/api.ts\<close> (one HTTP request each);
  \<open>services/vaultOrchestrator.ts\<close>, which drives that container over the USB companion; the native path of
  \<open>stores/vaultListStore.ts\<close>, which its \<open>isWeb = true\<close> makes unreachable; the USB, FIDO2, forensics and
  device-integrity services (hardware and platform queries); the bloom filter of
  \<open>utils/weakPasswordBloom.ts\<close> (a compressed constant with no caller); the rest of the Go server, the Rust
  core, the companion and shell programs, generators and tests.
\<close>

section \<open>Services that share one \<open>localStorage\<close>\<close>

text \<open>
  The views other services have of the storage the wipe works on: a freshly loaded rate limiter
  (empty caches, its two slots), and the recovery phrase's cells. \<open>raw\<close>, \<open>text_of\<close> and \<open>parsed\<close>
  say what each service parses a slot to.
\<close>

definition RATE_LIMIT_STORAGE_KEY :: string where
  "RATE_LIMIT_STORAGE_KEY = ''usbvault:auth_rate_limit''"

definition INSTALL_ID_KEY :: string where
  "INSTALL_ID_KEY = ''usbvault:install_id''"

definition limiter_page ::
  "(settings_cell \<Rightarrow> rl_raw) \<Rightarrow> (settings_cell \<Rightarrow> string) \<Rightarrow> settings \<Rightarrow> rl_mem" where
  "limiter_page raw text_of m =
     \<lparr>mem_cache = None, mem_verified = False, mem_key = None,
      slot_state = map_option raw (ls_get RATE_LIMIT_STORAGE_KEY (settings.local m)),
      slot_install = map_option text_of (ls_get INSTALL_ID_KEY (settings.local m))\<rparr>"

definition phrase_page :: "(settings_cell \<Rightarrow> rp_cell) \<Rightarrow> settings \<Rightarrow> rp_store" where
  "phrase_page parsed m = map (\<lambda>(k, v). (k, parsed v)) (settings.local m)"

lemma phrase_page_get: "ls_get k (phrase_page parsed m) = map_option parsed (ls_get k (settings.local m))"
  by (simp add: phrase_page_def ls_get_def map_of_map)

lemma recovery_views_cong:
  assumes "\<And>k. k \<in> {RECOVERY_PHRASE_HASH, ENCRYPTED_MASTER_KEY, ESCROW_CONTACT} \<Longrightarrow> ls_get k st' = ls_get k st"
  shows "verify_phrase_hash wc ws st' = verify_phrase_hash wc ws st"
    and "has_recovery_phrase st' = has_recovery_phrase st"
    and "get_trusted_contact st' = get_trusted_contact st"
  using assms by (simp_all add: verify_phrase_hash_def has_recovery_phrase_def get_trusted_contact_def)

lemma rate_limit_slot_wiped:
  assumes "sd.is_web s" and "has_storage (settings_of s)"
    and "\<not> email_alert_enabled (sd.default_config s)"
  shows "ls_get RATE_LIMIT_STORAGE_KEY (settings.local (settings_of (trigger_self_destruct i now s))) = None"
    and "\<not> starts_with ''usbvault:'' k \<Longrightarrow>
      ls_get k (settings.local (settings_of (trigger_self_destruct i now s))) = ls_get k (settings.local (settings_of s))"
proof -
  obtain sec cfg where l: "settings.local (settings_of (trigger_self_destruct i now s)) =
      ls_set SECURITY_SETTINGS_KEY (SecurityDoc sec)
       (ls_set CONFIG_STORAGE_KEY (SelfDestructDoc cfg) (settings.local (wipe_vault_keys (settings_of s))))"
    using wiped_store [OF assms] by blast
  have "starts_with ''usbvault:'' RATE_LIMIT_STORAGE_KEY"
    "RATE_LIMIT_STORAGE_KEY \<noteq> SECURITY_SETTINGS_KEY" "RATE_LIMIT_STORAGE_KEY \<noteq> CONFIG_STORAGE_KEY"
    by (simp_all add: starts_with_def sd_keys RATE_LIMIT_STORAGE_KEY_def)
  then show "ls_get RATE_LIMIT_STORAGE_KEY (settings.local (settings_of (trigger_self_destruct i now s))) = None"
    unfolding l by (simp add: ls_get_set wipe_get)
  assume "\<not> starts_with ''usbvault:'' k"
  moreover have "starts_with ''usbvault:'' SECURITY_SETTINGS_KEY" "starts_with ''usbvault:'' CONFIG_STORAGE_KEY"
    by (simp_all add: starts_with_def sd_keys)
  ultimately show "ls_get k (settings.local (settings_of (trigger_self_destruct i now s))) =
      ls_get k (settings.local (settings_of s))"
    unfolding l by (auto simp: ls_get_set wipe_get)
qed

text \<open>
  C10: What the self-destruct wipe means for two other services. The rate limiter of the next
  page load has lost its state and lets the next attempt through, whatever lockout was in force;
  the recovery phrase's hash and the escrow contact, stored under \<open>usbvault_\<close> names, are all
  still there and verify as before the wipe.
\<close>

theorem wipe_across_services:
  assumes "sd.is_web s" and "has_storage (settings_of s)"
    and "\<not> email_alert_enabled (sd.default_config s)"
    and "env_web env" and "env_ls env" and "0 \<le> now'"
    and "m' = settings_of (trigger_self_destruct i now s)"
  shows "fst (check_allowed env t0 now' fresh (limiter_page raw text_of m')) = Allowed \<and>
    verify_phrase_hash wc ws (phrase_page parsed m') = verify_phrase_hash wc ws (phrase_page parsed (settings_of s)) \<and>
    has_recovery_phrase (phrase_page parsed m') = has_recovery_phrase (phrase_page parsed (settings_of s)) \<and>
    get_trusted_contact (phrase_page parsed m') = get_trusted_contact (phrase_page parsed (settings_of s))"
proof -
  note w = rate_limit_slot_wiped [OF assms(1-3), where i = i and now = now, folded assms(7)]
  have allowed: "fst (check_allowed env t0 now' fresh (limiter_page raw text_of m')) = Allowed"
    using assms(4-6) w(1)
    by (simp add: limiter_page_def check_allowed_def load_state_def verdict_def Rate_Limiter.DEFAULT_STATE_def
        recent_def MAX_ATTEMPTS_PER_WINDOW_def)
  have kept: "ls_get k (phrase_page parsed m') = ls_get k (phrase_page parsed (settings_of s))"
    if "k \<in> {RECOVERY_PHRASE_HASH, ENCRYPTED_MASTER_KEY, ESCROW_CONTACT}" for k
    using that w(2) [of k]
    by (auto simp: phrase_page_get starts_with_def RECOVERY_PHRASE_HASH_def ENCRYPTED_MASTER_KEY_def
        ESCROW_CONTACT_def)
  note same = recovery_views_cong [of "phrase_page parsed m'" "phrase_page parsed (settings_of s)", OF kept]
  show ?thesis by (intro conjI allowed same)
qed

theorem wipe_across_services_witness:
  "fst (check_allowed Rate_Limiter.demo_env 5 5 [7]
      (limiter_page (\<lambda>_. RawGarbled) (\<lambda>_. ''id'') (settings_of (trigger_self_destruct ''i'' 9 demo_sd)))) = Allowed \<and>
   has_recovery_phrase (phrase_page (\<lambda>c. case c of Plain x \<Rightarrow> TextCell x | _ \<Rightarrow> TextCell [])
      (settings_of (trigger_self_destruct ''i'' 9 demo_sd)))"
proof -
  have "sd.is_web demo_sd" "has_storage (settings_of demo_sd)"
    "\<not> email_alert_enabled (sd.default_config demo_sd)"
    "env_web Rate_Limiter.demo_env" "env_ls Rate_Limiter.demo_env" "(0 :: time) \<le> 5"
    by (simp_all add: demo_sd_def Self_Destruct.DEFAULT_CONFIG_def Rate_Limiter.demo_env_def)
  note w = wipe_across_services [OF this HOL.refl]
  have "has_recovery_phrase (phrase_page (\<lambda>c. case c of Plain x \<Rightarrow> TextCell x | _ \<Rightarrow> TextCell []) (settings_of demo_sd))"
    by (simp add: has_recovery_phrase_def phrase_page_def demo_sd_def ls_get_def RECOVERY_PHRASE_HASH_def)
  with w show ?thesis by blast
qed

end
